(* ===== verification/Email_Prelude.thy ===== *)
theory Email_Prelude
  imports Main "HOL-Library.Word" "HOL-Library.Char_ord" "HOL-Library.List_Lexorder"
begin

text \<open>
  Shared vocabulary of the development: the Go types that occur in every component, SQL
  statements over tables kept as lists of rows, and the generic facts on lists and sums
  that the component theories rest on.

  \<^item> \<open>time\<close> is a Go \<^verbatim>\<open>time.Time\<close> as nanoseconds since the zero time, so the zero
    time is \<open>0\<close> and \<open>IsZero\<close> tests for it; \<open>duration\<close> is a \<^verbatim>\<open>time.Duration\<close>.
  \<^item> \<open>uid\<close> is an IMAP \<^verbatim>\<open>uint32\<close>, whose addition wraps around.
  \<^item> A Go \<^verbatim>\<open>string\<close> or \<^verbatim>\<open>[]byte\<close> is a HOL \<open>string\<close>, one \<open>char\<close> per byte.
\<close>

type_synonym time = int
type_synonym duration = int
type_synonym uid = "32 word"

abbreviation zero_time :: time where
  "zero_time \<equiv> 0"

abbreviation IsZero :: "time \<Rightarrow> bool" where
  "IsZero t \<equiv> t = zero_time"

abbreviation second :: duration where
  "second \<equiv> 1000000000"

text \<open>
  Facts about SQL statements, about fenced writes and about the step functions of the
  component state machines are collected here, so that the component proofs name a
  collection instead of a list of lemmas.
\<close>

named_theorems sql_simps \<open>rewrite rules for UPDATE and COUNT over tables\<close>
named_theorems step_defs \<open>definitions of the operations of a component\<close>

section \<open>SQL statements over lists of rows\<close>

text \<open>
  A table is the list of its rows in insertion order. \<^verbatim>\<open>UPDATE t SET f WHERE P\<close> rewrites
  the rows that satisfy \<open>P\<close> in place, and \<^verbatim>\<open>RowsAffected\<close> counts them.
\<close>

definition update_where :: "('r \<Rightarrow> bool) \<Rightarrow> ('r \<Rightarrow> 'r) \<Rightarrow> 'r list \<Rightarrow> 'r list" where
  "update_where P f rs = map (\<lambda>r. if P r then f r else r) rs"

definition rows_affected :: "('r \<Rightarrow> bool) \<Rightarrow> 'r list \<Rightarrow> nat" where
  "rows_affected P rs = length (filter P rs)"

text \<open>PostgreSQL's \<^verbatim>\<open>trim\<close> removes spaces only, unlike Go's \<^verbatim>\<open>strings.TrimSpace\<close>.\<close>

definition sql_trim :: "string \<Rightarrow> string" where
  "sql_trim s = rev (dropWhile (\<lambda>c. c = CHR '' '') (rev (dropWhile (\<lambda>c. c = CHR '' '') s)))"

lemma update_where_Nil [simp, sql_simps]: "update_where P f [] = []"
  by (simp add: update_where_def)

lemma update_where_Cons [simp, sql_simps]:
  "update_where P f (r # rs) = (if P r then f r else r) # update_where P f rs"
  by (simp add: update_where_def)

lemma length_update_where [simp, sql_simps]: "length (update_where P f rs) = length rs"
  by (simp add: update_where_def)

lemma set_update_where [sql_simps]:
  "set (update_where P f rs) = {r \<in> set rs. \<not> P r} \<union> f ` {r \<in> set rs. P r}"
  by (auto simp: update_where_def image_iff split: if_splits)

lemma bex_update_where:
  "(\<exists>r\<in>set (update_where P f rs). Q r) \<longleftrightarrow> (\<exists>r\<in>set rs. Q (if P r then f r else r))"
  by (induction rs) simp_all

lemma ball_update_where:
  "(\<forall>r\<in>set (update_where P f rs). Q r) \<longleftrightarrow> (\<forall>r\<in>set rs. Q (if P r then f r else r))"
  by (induction rs) simp_all

lemma ball_same_keys:
  assumes "map k xs = map k ys"
  shows "(\<forall>x\<in>set xs. P (k x)) \<longleftrightarrow> (\<forall>y\<in>set ys. P (k y))"
proof -
  have "(\<forall>x\<in>set zs. P (k x)) \<longleftrightarrow> list_all P (map k zs)" for zs by (induction zs) simp_all
  with assms show ?thesis by simp
qed

lemma find_append:
  "find P (xs @ ys) = (case find P xs of Some x \<Rightarrow> Some x | None \<Rightarrow> find P ys)"
  by (induction xs) simp_all

lemma map_update_where [sql_simps]:
  assumes "\<And>r. P r \<Longrightarrow> k (f r) = k r"
  shows "map k (update_where P f rs) = map k rs"
  using assms by (simp add: update_where_def)

lemma rows_affected_0 [sql_simps]: "rows_affected P rs = 0 \<longleftrightarrow> (\<forall>r\<in>set rs. \<not> P r)"
  by (auto simp: rows_affected_def filter_empty_conv)

lemma rows_affected_pos [sql_simps]: "0 < rows_affected P rs \<longleftrightarrow> (\<exists>r\<in>set rs. P r)"
  using rows_affected_0[of P rs] by auto

lemma update_where_none: "\<forall>r\<in>set rs. \<not> P r \<Longrightarrow> update_where P f rs = rs"
  by (induction rs) auto

lemma update_where_fixed: "\<forall>r\<in>set rs. P r \<longrightarrow> f r = r \<Longrightarrow> update_where P f rs = rs"
  by (induction rs) auto

lemma update_where_keyed:
  assumes "distinct (map k rs)" and "r \<in> set rs" and "P r"
    and "\<And>x. P x \<Longrightarrow> k x = k r" and "\<And>x. P x \<Longrightarrow> k (f x) = k x"
  shows "find (\<lambda>x. k x = k r) (update_where P f rs) = Some (f r)"
  using assms(1,2)
proof (induction rs)
  case (Cons a rs)
  show ?case
  proof (cases "k a = k r")
    case True
    with Cons.prems have "a = r" by (force simp: image_iff)
    with assms(3,5) show ?thesis by auto
  next
    case False
    with Cons.prems have "r \<in> set rs" and "\<not> P a" using assms(4) by auto
    with Cons.IH Cons.prems False show ?thesis by simp
  qed
qed simp

lemma find_update_where_other:
  assumes "\<And>x. P x \<Longrightarrow> k x \<noteq> key" and "\<And>x. P x \<Longrightarrow> k (f x) = k x"
  shows "find (\<lambda>x. k x = key) (update_where P f rs) = find (\<lambda>x. k x = key) rs"
  using assms by (induction rs) auto

lemma find_update_where:
  assumes "\<And>x. P x \<Longrightarrow> k (f x) = k x"
  shows "find (\<lambda>x. k x = key) (update_where P f rs)
     = map_option (\<lambda>r. if P r then f r else r) (find (\<lambda>x. k x = key) rs)"
  using assms by (induction rs) auto

lemma find_filter_other:
  "find (\<lambda>x. k x = key) (filter (\<lambda>x. k x \<noteq> gone) rs)
     = (if key = gone then None else find (\<lambda>x. k x = key) rs)"
  by (induction rs) auto

lemma find_key_in: "find (\<lambda>x. k x = key) rs = Some r \<Longrightarrow> r \<in> set rs \<and> k r = key"
  by (auto simp: find_Some_iff)

lemma find_key_unique:
  "distinct (map k rs) \<Longrightarrow> r \<in> set rs \<Longrightarrow> find (\<lambda>x. k x = k r) rs = Some r"
  by (induction rs) (auto simp: image_iff)

section \<open>Generic lemmas\<close>

lemma filter_unique_one:
  assumes "distinct xs" and "x \<in> set xs" and "P x" and "\<And>y. y \<in> set xs \<Longrightarrow> P y \<Longrightarrow> y = x"
  shows "filter P xs = [x]"
proof -
  obtain ys zs where xs: "xs = ys @ x # zs" using assms(2) by (blast dest: split_list)
  have "\<not> P y" if "y \<in> set xs" "y \<noteq> x" for y using assms(4) that by blast
  moreover have "x \<notin> set ys" "x \<notin> set zs" using assms(1) by (simp_all add: xs)
  ultimately have "\<forall>y\<in>set ys. \<not> P y" "\<forall>y\<in>set zs. \<not> P y" by (auto simp: xs)
  then show ?thesis using assms(3) by (simp add: xs)
qed

lemma sorted_distinct_set_eq:
  assumes "sorted xs" "distinct xs" "sorted ys" "distinct ys" "set xs = set ys"
  shows "xs = (ys :: 'a::linorder list)"
  using assms by (simp add: sorted_distinct_set_unique)

lemma distinct_remdups_adj_sorted:
  "sorted (xs :: 'a::linorder list) \<Longrightarrow> distinct (remdups_adj xs)"
  by (induction xs rule: remdups_adj.induct) (auto simp: order.strict_iff_order)

lemma remdups_adj_sort_props:
  fixes xs :: "'a::linorder list"
  shows "sorted (remdups_adj (sort xs))" and "distinct (remdups_adj (sort xs))"
    and "set (remdups_adj (sort xs)) = set xs"
  by (simp_all add: distinct_remdups_adj_sorted)

lemma length_filter_sum:
  assumes "finite A" and "\<forall>x\<in>set xs. f x \<in> A"
  shows "length xs = (\<Sum>a\<in>A. length (filter (\<lambda>x. f x = a) xs))"
  using assms(2)
proof (induction xs)
  case (Cons x xs)
  have "(\<Sum>a\<in>A. length (filter (\<lambda>y. f y = a) (x # xs)))
      = (\<Sum>a\<in>A. (if a = f x then 1 else 0) + length (filter (\<lambda>y. f y = a) xs))"
    by (rule sum.cong) auto
  also have "\<dots> = (\<Sum>a\<in>A. if a = f x then 1 else 0) + (\<Sum>a\<in>A. length (filter (\<lambda>y. f y = a) xs))"
    by (simp add: sum.distrib)
  also have "(\<Sum>a\<in>A. if a = f x then 1 else (0::nat)) = 1"
    using assms(1) Cons.prems by (simp add: sum.delta)
  finally show ?case using Cons by simp
qed simp

end
