(* ===== verification/Email_Model.thy ===== *)
theory Email_Model
  imports Email_Prelude
begin

text \<open>
  The domain model of \<^verbatim>\<open>internal/model\<close>: its structs as records, its closed enumerations
  as datatypes, and the methods declared on them. A pointer is an \<open>option\<close>, an \<^verbatim>\<open>int64\<close>
  or \<^verbatim>\<open>int32\<close> is an \<open>int\<close>. The profile enumerations stay strings, as in Go, because
  the service has to reject the values outside them. Errors are the values of \<open>error\<close>:
  one constructor per sentinel the code compares with \<^verbatim>\<open>errors.Is\<close>, and one each for the
  coded and the plain errors that are only passed on.
\<close>

section \<open>Errors\<close>

datatype InboundFailureCategory =
    InboundFailureMIMEParse
  | InboundFailureMessageTooLarge
  | InboundFailureAttachmentUpload

datatype error =
    ErrStaleEmailProfileAssignment
  | ErrEmailMessageExists
  | ErrEmailProfileHasHistory
  | ErrOutboxNeedsTransaction
  | ErrFileRejected
  | ErrUnavailable
  | ErrReauthorizationRequired
  | CtxErr
  | Unauthenticated string
  | Forbidden string
  | NotFound string
  | InvalidArgument string
  | DatabaseError string
  | PlainError string
  | PermanentError InboundFailureCategory error

section \<open>Email Profiles\<close>

type_synonym EmailAuthType = string
type_synonym EmailOAuthProvider = string
type_synonym EmailConnectionSecurity = string
type_synonym EmailConnectionState = string

definition EmailAuthTypeBasic :: EmailAuthType where "EmailAuthTypeBasic = ''basic''"
definition EmailAuthTypeOAuth2 :: EmailAuthType where "EmailAuthTypeOAuth2 = ''oauth2''"
definition EmailOAuthProviderGoogle :: EmailOAuthProvider where
  "EmailOAuthProviderGoogle = ''google''"
definition EmailOAuthProviderMicrosoft :: EmailOAuthProvider where
  "EmailOAuthProviderMicrosoft = ''microsoft''"
definition EmailConnectionSecurityTLS :: EmailConnectionSecurity where
  "EmailConnectionSecurityTLS = ''tls''"
definition EmailConnectionSecurityStartTLS :: EmailConnectionSecurity where
  "EmailConnectionSecurityStartTLS = ''starttls''"
definition EmailConnectionStateIdle :: EmailConnectionState where
  "EmailConnectionStateIdle = ''idle''"
definition EmailConnectionStateReady :: EmailConnectionState where
  "EmailConnectionStateReady = ''ready''"
definition EmailConnectionStateError :: EmailConnectionState where
  "EmailConnectionStateError = ''error''"
definition EmailConnectionStateReauthorizationRequired :: EmailConnectionState where
  "EmailConnectionStateReauthorizationRequired = ''reauthorization_required''"

record Lookup =
  lk_ID :: int
  lk_Name :: string

record EmailProfile =
  ep_ID :: int
  ep_DomainID :: int
  ep_Name :: string
  ep_Description :: string
  ep_Enabled :: bool
  ep_EmailAddress :: string
  ep_SenderName :: string
  ep_ReplyTo :: string
  ep_Signature :: string
  ep_IMAPHost :: string
  ep_IMAPPort :: int
  ep_IMAPSecurity :: EmailConnectionSecurity
  ep_SMTPHost :: string
  ep_SMTPPort :: int
  ep_SMTPSecurity :: EmailConnectionSecurity
  ep_Username :: string
  ep_Mailbox :: string
  ep_FetchIntervalSeconds :: int
  ep_FlowID :: "int option"
  ep_AuthType :: EmailAuthType
  ep_OAuthProvider :: EmailOAuthProvider
  ep_OAuthClientID :: string
  ep_OAuthConnected :: bool
  ep_ConnectionState :: EmailConnectionState
  ep_LastSuccessfulConnectionAt :: "time option"
  ep_ConnectionError :: string
  ep_CreatedAt :: time
  ep_CreatedBy :: "Lookup option"
  ep_UpdatedAt :: time
  ep_UpdatedBy :: "Lookup option"

definition DefaultEmailProfileMailbox :: string where
  "DefaultEmailProfileMailbox = ''INBOX''"
definition DefaultEmailProfileFetchIntervalSeconds :: int where
  "DefaultEmailProfileFetchIntervalSeconds = 5"
definition MinEmailProfileFetchIntervalSeconds :: int where
  "MinEmailProfileFetchIntervalSeconds = 5"

text \<open>The zero value of the struct.\<close>

definition zero_EmailProfile :: EmailProfile where
  "zero_EmailProfile = \<lparr>ep_ID = 0, ep_DomainID = 0, ep_Name = [], ep_Description = [],
     ep_Enabled = False, ep_EmailAddress = [], ep_SenderName = [], ep_ReplyTo = [],
     ep_Signature = [], ep_IMAPHost = [], ep_IMAPPort = 0, ep_IMAPSecurity = [],
     ep_SMTPHost = [], ep_SMTPPort = 0, ep_SMTPSecurity = [], ep_Username = [],
     ep_Mailbox = [], ep_FetchIntervalSeconds = 0, ep_FlowID = None, ep_AuthType = [],
     ep_OAuthProvider = [], ep_OAuthClientID = [], ep_OAuthConnected = False,
     ep_ConnectionState = [], ep_LastSuccessfulConnectionAt = None, ep_ConnectionError = [],
     ep_CreatedAt = 0, ep_CreatedBy = None, ep_UpdatedAt = 0, ep_UpdatedBy = None\<rparr>"

definition ApplyDefaults :: "EmailProfile \<Rightarrow> EmailProfile" where
  "ApplyDefaults p0 =
     (let p1 = (if ep_Mailbox p0 = '''' then p0\<lparr>ep_Mailbox := DefaultEmailProfileMailbox\<rparr> else p0)
      in if ep_FetchIntervalSeconds p1 = 0
         then p1\<lparr>ep_FetchIntervalSeconds := DefaultEmailProfileFetchIntervalSeconds\<rparr> else p1)"

definition OAuthClientChangedFrom :: "EmailProfile \<Rightarrow> EmailProfile \<Rightarrow> bool" where
  "OAuthClientChangedFrom p current =
     (if ep_AuthType p \<noteq> EmailAuthTypeOAuth2 then False
      else ep_AuthType current \<noteq> EmailAuthTypeOAuth2
         \<or> ep_OAuthProvider current \<noteq> ep_OAuthProvider p
         \<or> ep_OAuthClientID current \<noteq> ep_OAuthClientID p)"

record EmailConnectionTestResult =
  ct_Success :: bool
  ct_Error :: string

record EmailProfileTestResult =
  pt_IMAP :: EmailConnectionTestResult
  pt_SMTP :: EmailConnectionTestResult

section \<open>Serving state of a profile\<close>

record EmailProfileAssignment =
  as_ProfileID :: int
  as_DomainID :: int
  as_OwnerInstanceID :: string
  as_Generation :: int

record IMAPRecovery =
  rec_Since :: time
  rec_Checkpoint :: time
  rec_ToUID :: uid

record IMAPCursor =
  cur_Mailbox :: string
  cur_UIDValidity :: uid
  cur_LastUID :: uid
  cur_LastInternalDate :: time
  cur_Recovery :: "IMAPRecovery option"

text \<open>
  \<^verbatim>\<open>*ProviderCursor\<close> holds one optional pointer; a nil cursor and a cursor without an IMAP
  position are both empty, and no code tells them apart except through \<^verbatim>\<open>IsEmpty\<close>.
\<close>

record ProviderCursor =
  pc_IMAP :: "IMAPCursor option"

definition IsEmpty :: "ProviderCursor option \<Rightarrow> bool" where
  "IsEmpty c = (case c of None \<Rightarrow> True | Some pc \<Rightarrow> pc_IMAP pc = None)"

definition IsValidFor :: "IMAPCursor option \<Rightarrow> string \<Rightarrow> uid \<Rightarrow> bool" where
  "IsValidFor c mailbox uidValidity =
     (case c of None \<Rightarrow> False
      | Some cu \<Rightarrow> cur_Mailbox cu = mailbox \<and> cur_UIDValidity cu = uidValidity)"

record EmailProfileRuntime =
  rt_ProfileID :: int
  rt_DomainID :: int
  rt_OwnerInstanceID :: string
  rt_AssignmentGeneration :: int
  rt_NextCheckAt :: "time option"
  rt_ProviderCursor :: "ProviderCursor option"
  rt_LastPollStartedAt :: "time option"
  rt_LastPollFinishedAt :: "time option"
  rt_LastPollError :: string
  rt_CreatedAt :: time
  rt_UpdatedAt :: time

definition Assignment :: "EmailProfileRuntime option \<Rightarrow> EmailProfileAssignment option" where
  "Assignment r = (case r of None \<Rightarrow> None
     | Some rt \<Rightarrow> if rt_OwnerInstanceID rt = '''' then None
         else Some \<lparr>as_ProfileID = rt_ProfileID rt, as_DomainID = rt_DomainID rt,
                    as_OwnerInstanceID = rt_OwnerInstanceID rt,
                    as_Generation = rt_AssignmentGeneration rt\<rparr>)"

record EmailProfileOwnership =
  eo_ProfileID :: int
  eo_Enabled :: bool
  eo_OwnerInstanceID :: string

record EmailProfilePollResult =
  pr_ProviderCursor :: "ProviderCursor option"
  pr_NextCheckAt :: "time option"
  pr_Error :: string
  pr_ConnectionState :: EmailConnectionState
  pr_ConnectionError :: string
  pr_Connected :: bool

section \<open>Threads and Messages\<close>

datatype EmailThreadKind = EmailThreadKindRegular | EmailThreadKindService

datatype EmailThreadStatus =
    EmailThreadStatusNew
  | EmailThreadStatusDistributed
  | EmailThreadStatusInProgress
  | EmailThreadStatusProcessed

datatype EmailContactResolutionState =
    EmailContactResolutionPending
  | EmailContactResolutionResolved
  | EmailContactResolutionNotFound
  | EmailContactResolutionAmbiguous
  | EmailContactResolutionUnavailable
  | EmailContactResolutionUnlinked
  | EmailContactResolutionNotApplicable

record EmailThread =
  th_ID :: int
  th_DomainID :: int
  th_ProfileID :: int
  th_ContactID :: "int option"
  th_ContactResolutionState :: EmailContactResolutionState
  th_Kind :: EmailThreadKind
  th_Subject :: string
  th_Status :: EmailThreadStatus
  th_LastMessageAt :: "time option"
  th_CompletedAt :: "time option"
  th_CreatedAt :: time
  th_UpdatedAt :: time

datatype EmailMessageDirection = EmailMessageDirectionInbound | EmailMessageDirectionOutbound

datatype EmailMessageState =
    EmailMessageStateProcessing
  | EmailMessageStateReady
  | EmailMessageStateFailed

datatype EmailKind = EmailKindRegular | EmailKindAutoReply | EmailKindBounce

datatype EmailRecipientType =
    EmailRecipientTypeFrom
  | EmailRecipientTypeSender
  | EmailRecipientTypeReplyTo
  | EmailRecipientTypeTo
  | EmailRecipientTypeCc
  | EmailRecipientTypeBcc

record EmailIMAPIdentity =
  ii_Mailbox :: string
  ii_UIDValidity :: uid
  ii_UID :: uid

record EmailBounceInfo =
  bi_OriginalMessageID :: string
  bi_Recipient :: string
  bi_Status :: string
  bi_DiagnosticCode :: string

record EmailMessage =
  em_ID :: int
  em_DomainID :: int
  em_ThreadID :: int
  em_ProfileID :: int
  em_Direction :: EmailMessageDirection
  em_Kind :: EmailKind
  em_State :: EmailMessageState
  em_AttachmentAttempts :: int
  em_MessageID :: string
  em_MessageIDGenerated :: bool
  em_RawSHA256 :: string
  em_IMAP :: "EmailIMAPIdentity option"
  em_InReplyTo :: string
  em_References :: "string list"
  em_Subject :: string
  em_TextBody :: string
  em_HTMLBody :: string
  em_Bounce :: "EmailBounceInfo option"
  em_SentAt :: "time option"
  em_ReceivedAt :: time
  em_CreatedAt :: time
  em_UpdatedAt :: time

record EmailRecipient =
  er_ID :: int
  er_DomainID :: int
  er_MessageID :: int
  er_Type :: EmailRecipientType
  er_Address :: string
  er_NormalizedAddress :: string
  er_DisplayName :: string
  er_Ordinal :: int

datatype EmailAttachmentState =
    EmailAttachmentStatePending
  | EmailAttachmentStateStored
  | EmailAttachmentStateSkipped

datatype EmailPartDisposition = EmailPartDispositionAttachment | EmailPartDispositionInline

datatype EmailPartSkippedReason =
    EmailPartSkippedCountLimit
  | EmailPartSkippedSizeLimit
  | EmailPartSkippedTotalLimit
  | EmailPartSkippedReadError

text \<open>The empty skip reason of Go is \<open>None\<close>.\<close>

record EmailMessageAttachment =
  ma_ID :: int
  ma_DomainID :: int
  ma_MessageID :: int
  ma_FileID :: "int option"
  ma_ContentID :: string
  ma_Disposition :: EmailPartDisposition
  ma_FileName :: string
  ma_MimeType :: string
  ma_Size :: int
  ma_Position :: int
  ma_State :: EmailAttachmentState
  ma_SkippedReason :: "EmailPartSkippedReason option"
  ma_CreatedAt :: time
  ma_UpdatedAt :: time

record InboundFailure =
  if_ID :: int
  if_DomainID :: int
  if_ProfileID :: int
  if_Mailbox :: string
  if_UIDValidity :: uid
  if_UID :: uid
  if_Category :: InboundFailureCategory
  if_Reason :: string
  if_Size :: int
  if_MessageID :: string
  if_Sender :: string
  if_Subject :: string

section \<open>Parsed emails\<close>

record EmailAddress =
  ea_Name :: string
  ea_Address :: string
  ea_NormalizedAddress :: string

text \<open>\<^verbatim>\<open>Content\<close> is nil for a part whose bytes were not kept, which differs from an empty part.\<close>

record EmailPart =
  pa_Name :: string
  pa_ContentType :: string
  pa_ContentID :: string
  pa_Disposition :: EmailPartDisposition
  pa_Size :: int
  pa_Content :: "string option"
  pa_SkippedReason :: "EmailPartSkippedReason option"

record ParsedEmail =
  pe_DomainID :: int
  pe_ProfileID :: int
  pe_Assignment :: EmailProfileAssignment
  pe_Mailbox :: string
  pe_UIDValidity :: uid
  pe_UID :: uid
  pe_MessageID :: string
  pe_MessageIDGenerated :: bool
  pe_RawSHA256 :: string
  pe_InReplyTo :: string
  pe_References :: "string list"
  pe_Subject :: string
  pe_SentAt :: "time option"
  pe_ReceivedAt :: time
  pe_From :: "EmailAddress list"
  pe_Sender :: "EmailAddress option"
  pe_ReplyTo :: "EmailAddress list"
  pe_To :: "EmailAddress list"
  pe_Cc :: "EmailAddress list"
  pe_Bcc :: "EmailAddress list"
  pe_TextBody :: string
  pe_HTMLBody :: string
  pe_Parts :: "EmailPart list"
  pe_Kind :: EmailKind
  pe_Bounce :: "EmailBounceInfo option"

section \<open>Outbox events\<close>

datatype OutboxEventState =
    OutboxEventStatePending
  | OutboxEventStateProcessing
  | OutboxEventStatePublished
  | OutboxEventStateFailed

text \<open>An \<^verbatim>\<open>uuid.UUID\<close> is its 128-bit value; \<^verbatim>\<open>uuid.Nil\<close> is \<open>0\<close>.\<close>

type_synonym uuid = "128 word"

record OutboxEvent =
  oe_EventID :: uuid
  oe_DomainID :: int
  oe_EventType :: string
  oe_SchemaVersion :: int
  oe_DedupKey :: string
  oe_Exchange :: string
  oe_RoutingKey :: string
  oe_Payload :: string
  oe_State :: OutboxEventState
  oe_Attempts :: int
  oe_NextAttemptAt :: time
  oe_LockedBy :: string
  oe_LockedUntil :: "time option"
  oe_PublishedAt :: "time option"
  oe_LastError :: string
  oe_CreatedAt :: time
  oe_UpdatedAt :: time

definition OutboxEvent_Validate :: "OutboxEvent option \<Rightarrow> error option" where
  "OutboxEvent_Validate ev = (case ev of
       None \<Rightarrow> Some (PlainError ''outbox event is required'')
     | Some e \<Rightarrow>
         if oe_EventID e = 0 \<or> oe_DomainID e \<le> 0 \<or> oe_SchemaVersion e < 1
         then Some (PlainError ''outbox event needs an event id, a domain and a schema version'')
         else if oe_EventType e = '''' \<or> oe_Exchange e = '''' \<or> oe_RoutingKey e = ''''
         then Some (PlainError ''outbox event needs a type, an exchange and a routing key'')
         else if oe_Payload e = '''' then Some (PlainError ''outbox event needs a payload'')
         else None)"

lemma OutboxEvent_Validate_None:
  "OutboxEvent_Validate (Some e) = None \<longleftrightarrow>
     oe_EventID e \<noteq> 0 \<and> 0 < oe_DomainID e \<and> 1 \<le> oe_SchemaVersion e \<and> oe_EventType e \<noteq> '''' \<and>
     oe_Exchange e \<noteq> '''' \<and> oe_RoutingKey e \<noteq> '''' \<and> oe_Payload e \<noteq> ''''"
  by (auto simp: OutboxEvent_Validate_def not_le not_less)

lemma ApplyDefaults_filled:
  "ep_Mailbox (ApplyDefaults p) \<noteq> ''''" and "ep_FetchIntervalSeconds (ApplyDefaults p) \<noteq> 0"
  by (simp_all add: ApplyDefaults_def DefaultEmailProfileMailbox_def
        DefaultEmailProfileFetchIntervalSeconds_def Let_def)

lemma ApplyDefaults_idem: "ApplyDefaults (ApplyDefaults p) = ApplyDefaults p"
  by (simp add: ApplyDefaults_def DefaultEmailProfileMailbox_def
        DefaultEmailProfileFetchIntervalSeconds_def Let_def)

end
