(* ===== verification/Email_Db.thy ===== *)
theory Email_Db
  imports Email_Model
begin

text \<open>
  The database of the service: the tables of \<^verbatim>\<open>migrations/*.sql\<close> as lists of rows, and the
  world the handlers run in. A statement is a function of the transaction time and the
  database that either fails or returns its result with the new database. The world adds
  what a running handler meets: statements that fail at any point (\<open>w_faults\<close>), a context
  that is cancelled at any point (\<open>w_cancel\<close>), the clock, whether a statement or a commit that
  reported an error had been applied all the same (\<open>w_committed\<close>), and the events the broker has
  confirmed (\<open>w_sent\<close>). The oracles are indexed by the number of observations made so
  far, so a theorem about an arbitrary world covers every schedule of failures.
\<close>

record profile_row =
  pw_profile :: EmailProfile
  pw_password :: "string option"
  pw_oauth_client_secret :: "string option"
  pw_oauth_refresh_token :: "string option"

abbreviation pw_id :: "profile_row \<Rightarrow> int" where
  "pw_id r \<equiv> ep_ID (pw_profile r)"

abbreviation pw_domain :: "profile_row \<Rightarrow> int" where
  "pw_domain r \<equiv> ep_DomainID (pw_profile r)"

record runtime_row =
  rr_profile_id :: int
  rr_domain_id :: int
  rr_owner_instance_id :: "string option"
  rr_assignment_generation :: int
  rr_next_check_at :: "time option"
  rr_provider_cursor :: "ProviderCursor option"
  rr_last_poll_started_at :: "time option"
  rr_last_poll_finished_at :: "time option"
  rr_last_poll_error :: "string option"
  rr_created_at :: time
  rr_updated_at :: time

text \<open>
  Every \<^verbatim>\<open>GENERATED ALWAYS AS IDENTITY\<close> column has its own sequence. PostgreSQL does not
  roll sequences back, so they are kept apart from the tables.
\<close>

record sequences =
  sq_profile :: int
  sq_thread :: int
  sq_message :: int
  sq_recipient :: int
  sq_attachment :: int
  sq_failure :: int

record db =
  db_profiles :: "profile_row list"
  db_runtime :: "runtime_row list"
  db_threads :: "EmailThread list"
  db_messages :: "EmailMessage list"
  db_recipients :: "EmailRecipient list"
  db_attachments :: "EmailMessageAttachment list"
  db_failures :: "InboundFailure list"
  db_outbox :: "OutboxEvent list"
  db_seq :: sequences

definition empty_db :: db where
  "empty_db = \<lparr>db_profiles = [], db_runtime = [], db_threads = [], db_messages = [],
     db_recipients = [], db_attachments = [], db_failures = [], db_outbox = [],
     db_seq = \<lparr>sq_profile = 1, sq_thread = 1, sq_message = 1, sq_recipient = 1,
       sq_attachment = 1, sq_failure = 1\<rparr>\<rparr>"

type_synonym 'a stmt = "time \<Rightarrow> db \<Rightarrow> error + 'a \<times> db"

section \<open>The world of a running handler\<close>

record world =
  w_db :: db
  w_step :: nat
  w_tx :: "time option"
  w_faults :: "nat \<Rightarrow> error option"
  w_cancel :: "nat \<Rightarrow> bool"
  w_clock :: "nat \<Rightarrow> time"
  w_committed :: "nat \<Rightarrow> bool"
  w_sent :: "OutboxEvent list"

type_synonym 'a io = "world \<Rightarrow> (error + 'a) \<times> world"

definition returnM :: "'a \<Rightarrow> 'a io" where
  "returnM x w = (Inr x, w)"

definition throwM :: "error \<Rightarrow> 'a io" where
  "throwM e w = (Inl e, w)"

text \<open>\<^verbatim>\<open>x, err := m(); if err != nil \{ return err \}\<close> followed by the rest.\<close>

definition bindM :: "'a io \<Rightarrow> ('a \<Rightarrow> 'b io) \<Rightarrow> 'b io" where
  "bindM m f w = (case m w of (Inl e, w') \<Rightarrow> (Inl e, w') | (Inr x, w') \<Rightarrow> f x w')"

definition tick :: "world \<Rightarrow> world" where
  "tick w = w\<lparr>w_step := Suc (w_step w)\<rparr>"

text \<open>
  One database statement. It may fail, and then the database is as it was, or the statement was
  applied all the same: its answer was lost, or a row of it could not be read.
\<close>

definition exec :: "'a stmt \<Rightarrow> 'a io" where
  "exec s w =
     (let result = s (case w_tx w of Some t \<Rightarrow> t | None \<Rightarrow> w_clock w (w_step w)) (w_db w);
          applied = (case result of Inl e \<Rightarrow> w_db w | Inr (x, d) \<Rightarrow> d)
      in case w_faults w (w_step w) of
           Some e \<Rightarrow> (Inl e, (tick w)\<lparr>w_db := (if w_committed w (w_step w) then applied else w_db w)\<rparr>)
         | None \<Rightarrow>
             (case result of
                Inl e \<Rightarrow> (Inl e, tick w)
              | Inr (x, d) \<Rightarrow> (Inr x, (tick w)\<lparr>w_db := d\<rparr>)))"

text \<open>\<^verbatim>\<open>ctx.Err() != nil\<close> and \<^verbatim>\<open>time.Now()\<close>.\<close>

definition ctxErr :: "bool io" where
  "ctxErr w = (Inr (w_cancel w (w_step w)), tick w)"

definition timeNow :: "time io" where
  "timeNow w = (Inr (w_clock w (w_step w)), tick w)"

text \<open>
  Rolling back restores the tables and keeps the sequences. The rows of \<open>d0\<close> are the ones
  at the start of the transaction.
\<close>

definition rollback_to :: "db \<Rightarrow> db \<Rightarrow> db" where
  "rollback_to d0 d = d0\<lparr>db_seq := db_seq d\<rparr>"

text \<open>
  \<^verbatim>\<open>WithinTransaction\<close>. Beginning and committing are statements of their own that can fail.
  A commit whose answer was lost may have been applied; otherwise it keeps nothing. A unit
  of work already inside a transaction joins it.
\<close>

definition WithinTransaction :: "'a io \<Rightarrow> 'a io" where
  "WithinTransaction body w =
     (if w_tx w \<noteq> None then body w
      else case w_faults w (w_step w) of
        Some e \<Rightarrow> (Inl e, tick w)
      | None \<Rightarrow>
          (let d0 = w_db w;
               (r, w1) = body ((tick w)\<lparr>w_tx := Some (w_clock w (w_step w))\<rparr>)
           in case r of
                Inl e \<Rightarrow> (Inl e, (tick w1)\<lparr>w_tx := None, w_db := rollback_to d0 (w_db w1)\<rparr>)
              | Inr x \<Rightarrow>
                  (case w_faults w1 (w_step w1) of
                     Some e \<Rightarrow>
                       (Inl e, (tick w1)\<lparr>w_tx := None,
                          w_db := (if w_committed w1 (w_step w1) then w_db w1
                                   else rollback_to d0 (w_db w1))\<rparr>)
                   | None \<Rightarrow> (Inr x, (tick w1)\<lparr>w_tx := None\<rparr>))))"

text \<open>A call of another service: one observation of the world, which may answer differently each time.\<close>

definition call :: "(nat \<Rightarrow> error + 'a) \<Rightarrow> 'a io" where
  "call f w = (f (w_step w), tick w)"

text \<open>\<^verbatim>\<open>x, err := m(); if err != nil \{ ... \} else \{ ... \}\<close>, where the error is handled.\<close>

definition catchM :: "'a io \<Rightarrow> (error \<Rightarrow> 'b io) \<Rightarrow> ('a \<Rightarrow> 'b io) \<Rightarrow> 'b io" where
  "catchM m failed ok w = (case m w of (Inl e, w1) \<Rightarrow> failed e w1 | (Inr x, w1) \<Rightarrow> ok x w1)"

lemmas io_defs [step_defs] = returnM_def throwM_def bindM_def exec_def ctxErr_def timeNow_def tick_def

text \<open>What a statement leaves behind, seen from its caller.\<close>

lemma exec_Inr:
  assumes "exec s w = (Inr x, w')"
  shows "\<exists>now d. s now (w_db w) = Inr (x, d) \<and> w' = (tick w)\<lparr>w_db := d\<rparr>"
  using assms by (auto simp: exec_def Let_def split: option.splits sum.splits prod.splits)

lemma exec_Inl:
  assumes "exec s w = (Inl e, w')"
  obtains "w' = tick w" | (applied) now x d where "s now (w_db w) = Inr (x, d)" "w' = (tick w)\<lparr>w_db := d\<rparr>"
proof -
  have "(tick w)\<lparr>w_db := w_db w\<rparr> = tick w" by (simp add: tick_def)
  with assms that show thesis
    by (auto simp: exec_def Let_def split: option.splits sum.splits prod.splits if_splits)
qed

text \<open>A statement that only reads leaves the database alone however it ends.\<close>

lemma exec_read:
  assumes "\<And>now x d'. s now (w_db w) = Inr (x, d') \<Longrightarrow> d' = w_db w"
  shows "w_db (snd (exec s w)) = w_db w"
  using assms by (auto simp: exec_def Let_def tick_def split: option.splits sum.splits prod.splits)

lemma exec_db:
  "w_db (snd (exec s w)) = w_db w \<or> (\<exists>now x d. s now (w_db w) = Inr (x, d) \<and> w_db (snd (exec s w)) = d)"
  by (auto simp: exec_def Let_def tick_def split: option.splits sum.splits prod.splits)

lemma exec_ok:
  assumes "w_faults w (w_step w) = None"
  shows "exec s w = (case s (case w_tx w of Some t \<Rightarrow> t | None \<Rightarrow> w_clock w (w_step w)) (w_db w) of
     Inl e \<Rightarrow> (Inl e, tick w) | Inr (x, d) \<Rightarrow> (Inr x, (tick w)\<lparr>w_db := d\<rparr>))"
  using assms by (simp add: exec_def)

lemma tick_simps [simp]:
  "w_db (tick w) = w_db w" "w_sent (tick w) = w_sent w" "w_tx (tick w) = w_tx w"
  "w_faults (tick w) = w_faults w" "w_cancel (tick w) = w_cancel w" "w_clock (tick w) = w_clock w"
  "w_step (tick w) = Suc (w_step w)"
  by (simp_all add: tick_def)

section \<open>What a handler can change\<close>

text \<open>
  The lemmas below carry invariants of the database through any program built from these
  operations: \<open>keeps\<close> says that a program preserves a property of the database from
  every world, whatever the oracles do, and \<open>io_ok\<close> that it also restores \<open>w_tx\<close>
  and the oracles.
\<close>

definition keeps :: "(db \<Rightarrow> bool) \<Rightarrow> 'a io \<Rightarrow> bool" where
  "keeps I m \<longleftrightarrow> (\<forall>w. I (w_db w) \<longrightarrow> I (w_db (snd (m w))))"

lemma keepsI: "(\<And>w. I (w_db w) \<Longrightarrow> I (w_db (snd (m w)))) \<Longrightarrow> keeps I m"
  by (simp add: keeps_def)

lemma keepsD: "keeps I m \<Longrightarrow> I (w_db w) \<Longrightarrow> I (w_db (snd (m w)))"
  by (simp add: keeps_def)

named_theorems keeps_intros \<open>preservation rules for programs over the world\<close>

lemma keeps_return [keeps_intros]: "keeps I (returnM x)"
  by (simp add: keeps_def returnM_def)

lemma keeps_throw [keeps_intros]: "keeps I (throwM e)"
  by (simp add: keeps_def throwM_def)

lemma keeps_ctxErr [keeps_intros]: "keeps I ctxErr"
  by (simp add: keeps_def ctxErr_def tick_def)

lemma keeps_timeNow [keeps_intros]: "keeps I timeNow"
  by (simp add: keeps_def timeNow_def tick_def)

lemma keeps_bind [keeps_intros]:
  assumes "keeps I m" and "\<And>x. keeps I (f x)"
  shows "keeps I (bindM m f)"
proof (rule keepsI)
  fix w :: world
  assume "I (w_db w)"
  with assms(1) have "I (w_db (snd (m w)))" by (rule keepsD)
  with assms(2) show "I (w_db (snd (bindM m f w)))"
    by (auto simp: bindM_def keeps_def split: prod.splits sum.splits)
qed

lemma keeps_if [keeps_intros]: "keeps I a \<Longrightarrow> keeps I b \<Longrightarrow> keeps I (if c then a else b)"
  by simp

lemma keeps_option [keeps_intros]:
  "keeps I a \<Longrightarrow> (\<And>x. keeps I (b x)) \<Longrightarrow> keeps I (case m of None \<Rightarrow> a | Some x \<Rightarrow> b x)"
  by (cases m) auto

lemma keeps_sum [keeps_intros]:
  "(\<And>x. keeps I (a x)) \<Longrightarrow> (\<And>x. keeps I (b x)) \<Longrightarrow> keeps I (case m of Inl x \<Rightarrow> a x | Inr x \<Rightarrow> b x)"
  by (cases m) auto

lemma keeps_exec [keeps_intros]:
  assumes "\<And>t d x d'. I d \<Longrightarrow> s t d = Inr (x, d') \<Longrightarrow> I d'"
  shows "keeps I (exec s)"
  using assms by (auto simp: keeps_def exec_def Let_def tick_def split: option.splits sum.splits)

lemma keeps_WithinTransaction [keeps_intros]:
  assumes "keeps I body" and "\<And>d d'. I d \<Longrightarrow> I (rollback_to d d')"
  shows "keeps I (WithinTransaction body)"
proof (rule keepsI)
  fix w :: world
  assume inv: "I (w_db w)"
  have body: "I (w_db (snd (body w')))" if "w_db w' = w_db w" for w'
    using keepsD[OF assms(1), of w'] inv that by simp
  from inv assms(2) body[of w] body[of "(tick w)\<lparr>w_tx := Some (w_clock w (w_step w))\<rparr>"]
  show "I (w_db (snd (WithinTransaction body w)))"
    by (auto simp: WithinTransaction_def tick_def Let_def split: option.splits prod.splits sum.splits)
qed

text \<open>
  A transaction is all or nothing. When it reports an error, the tables are the ones it
  started from, or the commit was applied and only its answer was lost; then they are the
  ones of a body that succeeded.
\<close>

lemma WithinTransaction_error:
  assumes "w_tx w = None" and "WithinTransaction body w = (Inl e, w')"
  shows "(\<exists>d. w_db w' = rollback_to (w_db w) d) \<or>
    (\<exists>x w1. body ((tick w)\<lparr>w_tx := Some (w_clock w (w_step w))\<rparr>) = (Inr x, w1) \<and> w_db w' = w_db w1)"
proof (cases "w_faults w (w_step w)")
  case None
  let ?w0 = "(tick w)\<lparr>w_tx := Some (w_clock w (w_step w))\<rparr>"
  obtain r w1 where b: "body ?w0 = (r, w1)" by (cases "body ?w0")
  with assms None have "w_db w' = rollback_to (w_db w) (w_db w1) \<or> (\<exists>x. r = Inr x) \<and> w_db w' = w_db w1"
    by (auto simp: WithinTransaction_def tick_def Let_def split: sum.splits option.splits if_splits)
  with b show ?thesis by auto
next
  case (Some a)
  with assms have "w_db w' = rollback_to (w_db w) (w_db w)"
    by (auto simp: WithinTransaction_def tick_def rollback_to_def)
  then show ?thesis by blast
qed

lemma WithinTransaction_ok:
  assumes "w_tx w = None" and "WithinTransaction body w = (Inr x, w')"
  shows "\<exists>w1. body ((tick w)\<lparr>w_tx := Some (w_clock w (w_step w))\<rparr>) = (Inr x, w1) \<and>
    w' = (tick w1)\<lparr>w_tx := None\<rparr>"
  using assms
  by (auto simp: WithinTransaction_def Let_def split: sum.splits option.splits prod.splits if_splits)

text \<open>Taking a program that succeeded apart.\<close>

named_theorems io_success \<open>how a program succeeds\<close>

lemma bindM_Inr [io_success]:
  "bindM m f w = (Inr y, w') \<longleftrightarrow> (\<exists>x w1. m w = (Inr x, w1) \<and> f x w1 = (Inr y, w'))"
  by (auto simp: bindM_def split: prod.splits sum.splits)

lemma returnM_Inr [io_success]: "returnM x w = (Inr y, w') \<longleftrightarrow> y = x \<and> w' = w"
  by (auto simp: returnM_def)

lemma throwM_Inr [io_success]: "throwM e w = (Inr y, w') \<longleftrightarrow> False"
  by (simp add: throwM_def)

lemma ctxErr_Inr [io_success]: "ctxErr w = (Inr b, w') \<longleftrightarrow> b = w_cancel w (w_step w) \<and> w' = tick w"
  by (auto simp: ctxErr_def)

lemma timeNow_Inr [io_success]: "timeNow w = (Inr t, w') \<longleftrightarrow> t = w_clock w (w_step w) \<and> w' = tick w"
  by (auto simp: timeNow_def)

lemma WithinTransaction_Inr:
  assumes "WithinTransaction body w = (Inr x, w')"
  shows "\<exists>w0 w1. body w0 = (Inr x, w1) \<and> w_db w0 = w_db w \<and> w_db w' = w_db w1 \<and> w_tx w0 \<noteq> None"
proof (cases "w_tx w")
  case None
  let ?w0 = "(tick w)\<lparr>w_tx := Some (w_clock w (w_step w))\<rparr>"
  from WithinTransaction_ok[OF None assms] obtain w1 where "body ?w0 = (Inr x, w1)" "w' = (tick w1)\<lparr>w_tx := None\<rparr>" by blast
  then show ?thesis by (intro exI[of _ ?w0] exI[of _ w1]) simp
next
  case (Some t)
  with assms have "body w = (Inr x, w')" by (simp add: WithinTransaction_def)
  with Some show ?thesis by (intro exI[of _ w] exI[of _ w']) simp
qed

section \<open>A world to evaluate\<close>

definition sample_world :: "db \<Rightarrow> world" where
  "sample_world d = \<lparr>w_db = d, w_step = 0, w_tx = None, w_faults = (\<lambda>_. None), w_cancel = (\<lambda>_. False),
     w_clock = (\<lambda>n. 1000 + int n), w_committed = (\<lambda>_. False), w_sent = []\<rparr>"

end
