(* ===== verification/Runtime_Store.thy ===== *)
theory Runtime_Store
  imports Email_Db "HOL-Library.Product_Lexorder" "HOL-Library.Option_ord"
begin

text \<open>
  The ownership, schedule and sync position of Email Profiles:
  \<^verbatim>\<open>internal/store/postgres/email_profile_runtime_store.go\<close>, one definition per method, each
  the meaning of its SQL statement over the tables of \<^verbatim>\<open>Email_Db\<close>, and the fencing check
  of \<^verbatim>\<open>uow.go\<close>. A fencing token is the profile, the owning instance and the assignment
  generation. A token is current when the runtime row matches it; the lemmas say that a token is
  current for at most one owner, and that a token which has been superseded never becomes
  current again, whatever the leader and the other instances do. Which token that is, in terms
  of what the leader has done, is the subject of \<open>Serving_History\<close>.
\<close>

section \<open>Statements\<close>

definition scanEmailProfileRuntime :: "runtime_row \<Rightarrow> EmailProfileRuntime" where
  "scanEmailProfileRuntime r =
     \<lparr>rt_ProfileID = rr_profile_id r, rt_DomainID = rr_domain_id r,
      rt_OwnerInstanceID = (case rr_owner_instance_id r of Some o' \<Rightarrow> o' | None \<Rightarrow> ''''),
      rt_AssignmentGeneration = rr_assignment_generation r,
      rt_NextCheckAt = rr_next_check_at r,
      rt_ProviderCursor = rr_provider_cursor r,
      rt_LastPollStartedAt = rr_last_poll_started_at r,
      rt_LastPollFinishedAt = rr_last_poll_finished_at r,
      rt_LastPollError = (case rr_last_poll_error r of Some e \<Rightarrow> e | None \<Rightarrow> ''''),
      rt_CreatedAt = rr_created_at r, rt_UpdatedAt = rr_updated_at r\<rparr>"

definition emailProfileRuntimeNotFound :: error where
  "emailProfileRuntimeNotFound = NotFound ''store.email_profile_runtime.not_found''"

definition Runtime_Get :: "int \<Rightarrow> EmailProfileRuntime stmt" where
  "Runtime_Get profileID now d =
     (case find (\<lambda>r. rr_profile_id r = profileID) (db_runtime d) of
        None \<Rightarrow> Inl emailProfileRuntimeNotFound
      | Some r \<Rightarrow> Inr (scanEmailProfileRuntime r, d))"

definition assignment_of_row :: "runtime_row \<Rightarrow> EmailProfileAssignment" where
  "assignment_of_row r = \<lparr>as_ProfileID = rr_profile_id r, as_DomainID = rr_domain_id r,
     as_OwnerInstanceID = (case rr_owner_instance_id r of Some o' \<Rightarrow> o' | None \<Rightarrow> ''''),
     as_Generation = rr_assignment_generation r\<rparr>"

text \<open>
  The upsert of \<^verbatim>\<open>Assign\<close>. The generation, the schedule and \<^verbatim>\<open>updated_at\<close> change only when the
  owner \<^verbatim>\<open>IS DISTINCT FROM\<close> the new one; a blank owner violates a check constraint.
\<close>

definition assign_row :: "time \<Rightarrow> string \<Rightarrow> runtime_row \<Rightarrow> runtime_row" where
  "assign_row now instanceID r =
     (if rr_owner_instance_id r \<noteq> Some instanceID
      then r\<lparr>rr_owner_instance_id := Some instanceID,
             rr_assignment_generation := rr_assignment_generation r + 1,
             rr_next_check_at := Some now, rr_updated_at := now\<rparr>
      else r)"

definition new_runtime_row :: "time \<Rightarrow> string \<Rightarrow> profile_row \<Rightarrow> runtime_row" where
  "new_runtime_row now instanceID p =
     \<lparr>rr_profile_id = pw_id p, rr_domain_id = pw_domain p,
      rr_owner_instance_id = Some instanceID, rr_assignment_generation = 1,
      rr_next_check_at = Some now, rr_provider_cursor = None,
      rr_last_poll_started_at = None, rr_last_poll_finished_at = None,
      rr_last_poll_error = None, rr_created_at = now, rr_updated_at = now\<rparr>"

definition Assign :: "int \<Rightarrow> string \<Rightarrow> EmailProfileAssignment stmt" where
  "Assign profileID instanceID now d =
     (if instanceID = '''' then
        Inl (InvalidArgument ''store.email_profile_runtime.assign.owner_required'')
      else case find (\<lambda>p. pw_id p = profileID) (db_profiles d) of
        None \<Rightarrow> Inl emailProfileRuntimeNotFound
      | Some p \<Rightarrow>
          if sql_trim instanceID = '''' then Inl (DatabaseError ''profile_runtime_owner_not_empty'')
          else case find (\<lambda>r. rr_profile_id r = profileID) (db_runtime d) of
            None \<Rightarrow>
              Inr (assignment_of_row (new_runtime_row now instanceID p),
                   d\<lparr>db_runtime := db_runtime d @ [new_runtime_row now instanceID p]\<rparr>)
          | Some r \<Rightarrow>
              Inr (assignment_of_row (assign_row now instanceID r),
                   d\<lparr>db_runtime := update_where (\<lambda>x. rr_profile_id x = profileID)
                                     (assign_row now instanceID) (db_runtime d)\<rparr>))"

definition Unassign :: "int \<Rightarrow> unit stmt" where
  "Unassign profileID now d =
     Inr ((), d\<lparr>db_runtime :=
       update_where (\<lambda>r. rr_profile_id r = profileID \<and> rr_owner_instance_id r \<noteq> None)
         (\<lambda>r. r\<lparr>rr_owner_instance_id := None, rr_updated_at := now\<rparr>) (db_runtime d)\<rparr>)"

text \<open>The owner a \<^verbatim>\<open>LEFT JOIN\<close> of a profile with its runtime row reads.\<close>

definition joined_owner :: "db \<Rightarrow> profile_row \<Rightarrow> string option" where
  "joined_owner d p =
     (case find (\<lambda>r. rr_domain_id r = pw_domain p \<and> rr_profile_id r = pw_id p) (db_runtime d) of
        None \<Rightarrow> None | Some r \<Rightarrow> rr_owner_instance_id r)"

definition ListOwnership :: "EmailProfileOwnership list stmt" where
  "ListOwnership now d =
     Inr (map (\<lambda>p. \<lparr>eo_ProfileID = pw_id p, eo_Enabled = ep_Enabled (pw_profile p),
                    eo_OwnerInstanceID = (case joined_owner d p of Some o' \<Rightarrow> o' | None \<Rightarrow> '''')\<rparr>)
            (sort_key pw_id
               (filter (\<lambda>p. ep_Enabled (pw_profile p) \<or> joined_owner d p \<noteq> None) (db_profiles d))),
          d)"

definition is_due :: "time \<Rightarrow> string \<Rightarrow> db \<Rightarrow> runtime_row \<Rightarrow> bool" where
  "is_due now instanceID d r \<longleftrightarrow>
     rr_owner_instance_id r = Some instanceID \<and>
     (\<exists>p\<in>set (db_profiles d). pw_domain p = rr_domain_id r \<and> pw_id p = rr_profile_id r
        \<and> ep_Enabled (pw_profile p)
        \<and> ep_ConnectionState (pw_profile p) \<noteq> EmailConnectionStateReauthorizationRequired) \<and>
     (case rr_next_check_at r of None \<Rightarrow> True | Some t \<Rightarrow> t \<le> now)"

definition ListDue :: "string \<Rightarrow> int \<Rightarrow> EmailProfileRuntime list stmt" where
  "ListDue instanceID limit now d =
     (let due = sort_key (\<lambda>r. (rr_next_check_at r, rr_profile_id r))
                  (filter (is_due now instanceID d) (db_runtime d))
      in Inr (map scanEmailProfileRuntime (if limit > 0 then take (nat limit) due else due), d))"

text \<open>The \<^verbatim>\<open>WHERE\<close> clause of every fenced statement.\<close>

definition token_matches :: "EmailProfileAssignment \<Rightarrow> runtime_row \<Rightarrow> bool" where
  "token_matches a r \<longleftrightarrow> rr_profile_id r = as_ProfileID a \<and>
     rr_owner_instance_id r = Some (as_OwnerInstanceID a) \<and>
     rr_assignment_generation r = as_Generation a"

definition requireFencedWrite :: "nat \<Rightarrow> error option" where
  "requireFencedWrite affected =
     (if affected = 0 then Some ErrStaleEmailProfileAssignment else None)"

definition StartPoll :: "EmailProfileAssignment \<Rightarrow> unit stmt" where
  "StartPoll a now d =
     (case requireFencedWrite (rows_affected (token_matches a) (db_runtime d)) of
        Some e \<Rightarrow> Inl e
      | None \<Rightarrow> Inr ((), d\<lparr>db_runtime := update_where (token_matches a)
           (\<lambda>r. r\<lparr>rr_last_poll_started_at := Some now, rr_updated_at := now\<rparr>) (db_runtime d)\<rparr>))"

definition encodeProviderCursor :: "ProviderCursor option \<Rightarrow> ProviderCursor option" where
  "encodeProviderCursor c = (if IsEmpty c then None else c)"

definition complete_row ::
  "time \<Rightarrow> EmailProfilePollResult \<Rightarrow> int \<Rightarrow> runtime_row \<Rightarrow> runtime_row" where
  "complete_row now res interval r = r\<lparr>
     rr_provider_cursor := (case encodeProviderCursor (pr_ProviderCursor res) of
                              Some c \<Rightarrow> Some c | None \<Rightarrow> rr_provider_cursor r),
     rr_next_check_at := (case pr_NextCheckAt res of
                            Some t \<Rightarrow> Some t | None \<Rightarrow> Some (now + interval * second)),
     rr_last_poll_finished_at := Some now,
     rr_last_poll_error := (if pr_Error res = '''' then None else Some (pr_Error res)),
     rr_updated_at := now\<rparr>"

definition connection_row :: "time \<Rightarrow> EmailProfilePollResult \<Rightarrow> profile_row \<Rightarrow> profile_row" where
  "connection_row now res p = p\<lparr>pw_profile := (pw_profile p)\<lparr>
     ep_ConnectionState := pr_ConnectionState res,
     ep_LastSuccessfulConnectionAt := (if pr_Connected res then Some now
        else ep_LastSuccessfulConnectionAt (pw_profile p)),
     ep_ConnectionError := pr_ConnectionError res\<rparr>\<rparr>"

text \<open>
  \<^verbatim>\<open>CompletePoll\<close>: the runtime row is joined with its profile for the fetch interval; the
  profile is written only through the runtime row that matched.
\<close>

definition joined_profile :: "db \<Rightarrow> runtime_row \<Rightarrow> profile_row option" where
  "joined_profile d r =
     find (\<lambda>p. pw_domain p = rr_domain_id r \<and> pw_id p = rr_profile_id r) (db_profiles d)"

definition CompletePoll :: "EmailProfileAssignment \<Rightarrow> EmailProfilePollResult \<Rightarrow> unit stmt" where
  "CompletePoll a res now d =
     (let hit = (\<lambda>r. token_matches a r \<and> joined_profile d r \<noteq> None)
      in case requireFencedWrite (rows_affected hit (db_runtime d)) of
           Some e \<Rightarrow> Inl e
         | None \<Rightarrow>
             Inr ((), d\<lparr>
               db_runtime := update_where hit
                 (\<lambda>r. complete_row now res
                    (case joined_profile d r of Some p \<Rightarrow> ep_FetchIntervalSeconds (pw_profile p)
                     | None \<Rightarrow> 0) r) (db_runtime d),
               db_profiles := (if pr_ConnectionState res = '''' then db_profiles d
                 else update_where
                   (\<lambda>p. \<exists>r\<in>set (db_runtime d). hit r \<and> pw_domain p = rr_domain_id r
                        \<and> pw_id p = rr_profile_id r)
                   (connection_row now res) (db_profiles d))\<rparr>))"

definition EnsureEmailProfileAssignment :: "EmailProfileAssignment \<Rightarrow> unit stmt" where
  "EnsureEmailProfileAssignment a now d =
     (if \<exists>r\<in>set (db_runtime d). token_matches a r then Inr ((), d)
      else Inl ErrStaleEmailProfileAssignment)"

section \<open>Well-formed ownership\<close>

text \<open>
  What the schema guarantees: one runtime row per profile (primary key), positive
  generations for an owned row, owners that are not blank, and rows only for profiles that
  have existed (the foreign key and the identity column).
\<close>

definition runtime_ok :: "db \<Rightarrow> bool" where
  "runtime_ok d \<longleftrightarrow>
     distinct (map rr_profile_id (db_runtime d)) \<and>
     (\<forall>r\<in>set (db_runtime d). 0 \<le> rr_assignment_generation r
        \<and> rr_owner_instance_id r \<noteq> Some '''' \<and> rr_profile_id r < sq_profile (db_seq d)) \<and>
     (\<forall>p\<in>set (db_profiles d). pw_id p < sq_profile (db_seq d))"

definition current_token :: "db \<Rightarrow> EmailProfileAssignment \<Rightarrow> bool" where
  "current_token d a \<longleftrightarrow> (\<exists>r\<in>set (db_runtime d). token_matches a r)"

text \<open>
  A token has been issued when its profile exists or existed and the stored generation has
  reached the token's; it is superseded when the row has moved on from it.
\<close>

definition superseded :: "db \<Rightarrow> EmailProfileAssignment \<Rightarrow> bool" where
  "superseded d a \<longleftrightarrow> as_ProfileID a < sq_profile (db_seq d) \<and>
     (case find (\<lambda>r. rr_profile_id r = as_ProfileID a) (db_runtime d) of
        None \<Rightarrow> \<forall>p\<in>set (db_profiles d). pw_id p \<noteq> as_ProfileID a
      | Some r \<Rightarrow> as_Generation a < rr_assignment_generation r \<or>
          as_Generation a = rr_assignment_generation r \<and>
          rr_owner_instance_id r \<noteq> Some (as_OwnerInstanceID a))"

text \<open>
  The steps that touch ownership: the leader's \<^verbatim>\<open>Assign\<close> and \<^verbatim>\<open>Unassign\<close>, the polls of any
  instance, and profiles that are created with a fresh identity or deleted together with
  their runtime row (\<^verbatim>\<open>ON DELETE CASCADE\<close>).
\<close>

inductive serving_step :: "db \<Rightarrow> db \<Rightarrow> bool" where
  assign: "Assign pid inst now d = Inr (a, d') \<Longrightarrow> serving_step d d'"
| unassign: "Unassign pid now d = Inr (u, d') \<Longrightarrow> serving_step d d'"
| start_poll: "StartPoll a now d = Inr (u, d') \<Longrightarrow> serving_step d d'"
| complete_poll: "CompletePoll a res now d = Inr (u, d') \<Longrightarrow> serving_step d d'"
| create_profile: "pw_id p = sq_profile (db_seq d) \<Longrightarrow>
     serving_step d (d\<lparr>db_profiles := db_profiles d @ [p],
                       db_seq := (db_seq d)\<lparr>sq_profile := sq_profile (db_seq d) + 1\<rparr>\<rparr>)"
| delete_profile: "serving_step d
     (d\<lparr>db_profiles := filter (\<lambda>p. pw_id p \<noteq> pid) (db_profiles d),
        db_runtime := filter (\<lambda>r. rr_profile_id r \<noteq> pid) (db_runtime d)\<rparr>)"

inductive serving_steps :: "db \<Rightarrow> db \<Rightarrow> bool" where
  refl: "serving_steps d d"
| step: "serving_steps d d1 \<Longrightarrow> serving_step d1 d2 \<Longrightarrow> serving_steps d d2"

section \<open>The contract of a fenced write\<close>

text \<open>
  Every statement an instance runs on behalf of a poll carries its token. The contract: a
  token that is not current makes the statement fail with the stale-assignment error, and a
  statement that succeeds does not change which tokens are current. What follows from it for
  a worker that has lost its profile is proved once, for every such statement.
\<close>

locale fenced_write =
  fixes current :: "'d \<Rightarrow> 'tok \<Rightarrow> bool"
    and fwrite :: "'tok \<Rightarrow> 'arg \<Rightarrow> time \<Rightarrow> 'd \<Rightarrow> error + unit \<times> 'd"
  assumes stale_fails: "\<not> current d a \<Longrightarrow> fwrite a x now d = Inl ErrStaleEmailProfileAssignment"
    and keeps_tokens: "fwrite a x now d = Inr (u, d') \<Longrightarrow> current d' b = current d b"
begin

lemma write_needs_token: "fwrite a x now d = Inr (u, d') \<Longrightarrow> current d a"
  using stale_fails by fastforce

text \<open>A worker without a current token changes nothing, however many writes it tries.\<close>

lemma stale_run_unchanged:
  assumes "\<forall>(a, x, t)\<in>set ws. \<not> current d a"
  shows "foldl (\<lambda>d (a, x, t). case fwrite a x t d of Inl e \<Rightarrow> d | Inr (u, d') \<Rightarrow> d') d ws = d"
  using assms by (induction ws) (auto simp: stale_fails)

text \<open>A worker that keeps its token keeps it through any number of its own writes.\<close>

lemma run_keeps_tokens:
  "current (foldl (\<lambda>d (a, x, t). case fwrite a x t d of Inl e \<Rightarrow> d | Inr (u, d') \<Rightarrow> d') d ws) b
     = current d b"
proof (induction ws arbitrary: d)
  case (Cons w ws)
  obtain a x t where w: "w = (a, x, t)" by (cases w)
  show ?case
    by (cases "fwrite a x t d") (auto simp: w Cons.IH dest: keeps_tokens)
qed simp

end

lemma token_matches_update:
  assumes "\<And>r. rr_profile_id (f r) = rr_profile_id r"
    and "\<And>r. rr_owner_instance_id (f r) = rr_owner_instance_id r"
    and "\<And>r. rr_assignment_generation (f r) = rr_assignment_generation r"
  shows "(\<exists>r\<in>set (update_where P f rs). token_matches b r) \<longleftrightarrow> (\<exists>r\<in>set rs. token_matches b r)"
proof -
  have "token_matches b (if P r then f r else r) = token_matches b r" for r
    by (simp add: token_matches_def assms)
  then show ?thesis by (simp add: bex_update_where)
qed

lemma complete_row_token [simp]:
  "rr_profile_id (complete_row now res i r) = rr_profile_id r"
  "rr_owner_instance_id (complete_row now res i r) = rr_owner_instance_id r"
  "rr_assignment_generation (complete_row now res i r) = rr_assignment_generation r"
  by (simp_all add: complete_row_def)

lemma connection_row_key [simp]:
  "pw_id (connection_row now res p) = pw_id p" "pw_domain (connection_row now res p) = pw_domain p"
  by (simp_all add: connection_row_def)

lemma StartPoll_Inr:
  "StartPoll a now d = Inr (u, d') \<longleftrightarrow> current_token d a \<and>
     d' = d\<lparr>db_runtime := update_where (token_matches a)
        (\<lambda>r. r\<lparr>rr_last_poll_started_at := Some now, rr_updated_at := now\<rparr>) (db_runtime d)\<rparr>"
  by (auto simp: StartPoll_def requireFencedWrite_def rows_affected_0 current_token_def)

lemma CompletePoll_Inr_current:
  assumes "CompletePoll a res now d = Inr (u, d')"
  shows "current_token d a" and "current_token d' b = current_token d b"
    and "db_seq d' = db_seq d"
    and "map rr_profile_id (db_runtime d') = map rr_profile_id (db_runtime d)"
    and "map pw_id (db_profiles d') = map pw_id (db_profiles d)"
proof -
  let ?hit = "\<lambda>r. token_matches a r \<and> joined_profile d r \<noteq> None"
  let ?f = "\<lambda>r. complete_row now res (case joined_profile d r of
     Some p \<Rightarrow> ep_FetchIntervalSeconds (pw_profile p) | None \<Rightarrow> 0) r"
  from assms have rt: "db_runtime d' = update_where ?hit ?f (db_runtime d)"
    and seq: "db_seq d' = db_seq d" and hit: "rows_affected ?hit (db_runtime d) \<noteq> 0"
    and pr: "db_profiles d' = db_profiles d \<or>
       (\<exists>P. db_profiles d' = update_where P (connection_row now res) (db_profiles d))"
    by (auto simp: CompletePoll_def requireFencedWrite_def Let_def split: if_splits)
  from hit show "current_token d a" by (auto simp: rows_affected_0 current_token_def)
  show "current_token d' b = current_token d b"
    unfolding current_token_def rt by (rule token_matches_update) simp_all
  from seq show "db_seq d' = db_seq d" .
  show "map rr_profile_id (db_runtime d') = map rr_profile_id (db_runtime d)"
    unfolding rt by (rule map_update_where) simp
  have "map pw_id (update_where P (connection_row now res) (db_profiles d)) = map pw_id (db_profiles d)"
    for P by (rule map_update_where) simp
  with pr show "map pw_id (db_profiles d') = map pw_id (db_profiles d)" by metis
qed

interpretation start_poll: fenced_write current_token "\<lambda>a (_ :: unit). StartPoll a"
proof unfold_locales
  show "\<And>d a x now. \<not> current_token d a \<Longrightarrow> StartPoll a now d = Inl ErrStaleEmailProfileAssignment"
    by (simp add: StartPoll_def requireFencedWrite_def rows_affected_0 current_token_def)
  show "\<And>a x now d u d' b. StartPoll a now d = Inr (u, d') \<Longrightarrow> current_token d' b = current_token d b"
    by (auto simp: StartPoll_Inr current_token_def token_matches_update)
qed

interpretation complete_poll: fenced_write current_token CompletePoll
proof unfold_locales
  show "\<And>d a x now. \<not> current_token d a \<Longrightarrow> CompletePoll a x now d = Inl ErrStaleEmailProfileAssignment"
    by (auto simp: CompletePoll_def requireFencedWrite_def rows_affected_0 current_token_def Let_def)
qed (rule CompletePoll_Inr_current)

interpretation ensure: fenced_write current_token "\<lambda>a (_ :: unit). EnsureEmailProfileAssignment a"
  by unfold_locales (auto simp: EnsureEmailProfileAssignment_def current_token_def split: if_splits)

section \<open>Ownership over time\<close>

lemma Assign_Inr_cases:
  assumes "Assign pid inst now d = Inr (a, d')"
  obtains (insert) p where "find (\<lambda>p. pw_id p = pid) (db_profiles d) = Some p"
      and "find (\<lambda>r. rr_profile_id r = pid) (db_runtime d) = None"
      and "a = assignment_of_row (new_runtime_row now inst p)"
      and "inst \<noteq> ''''" and "d' = d\<lparr>db_runtime := db_runtime d @ [new_runtime_row now inst p]\<rparr>"
    | (update) r where "find (\<lambda>r. rr_profile_id r = pid) (db_runtime d) = Some r"
      and "a = assignment_of_row (assign_row now inst r)" and "inst \<noteq> ''''"
      and "d' = d\<lparr>db_runtime := update_where (\<lambda>x. rr_profile_id x = pid)
                                (assign_row now inst) (db_runtime d)\<rparr>"
  using assms by (auto simp: Assign_def Let_def split: if_splits option.splits)

lemma assign_row_simps [simp]:
  "rr_profile_id (assign_row now inst r) = rr_profile_id r"
  "rr_owner_instance_id (assign_row now inst r) = Some inst"
  "rr_assignment_generation r \<le> rr_assignment_generation (assign_row now inst r)"
  by (auto simp: assign_row_def)

lemma runtime_ok_update:
  assumes "runtime_ok d" and "\<And>r. rr_profile_id (f r) = rr_profile_id r"
    and "\<And>r. 0 \<le> rr_assignment_generation r \<Longrightarrow> 0 \<le> rr_assignment_generation (f r)"
    and "\<And>r. rr_owner_instance_id r \<noteq> Some '''' \<Longrightarrow> rr_owner_instance_id (f r) \<noteq> Some ''''"
  shows "runtime_ok (d\<lparr>db_runtime := update_where P f (db_runtime d)\<rparr>)"
  using assms by (auto simp: runtime_ok_def map_update_where set_update_where)

lemma serving_step_ok:
  assumes "serving_step d d'" and "runtime_ok d"
  shows "runtime_ok d'"
  using assms
proof (induction rule: serving_step.induct)
  case (assign pid inst now d a d')
  from assign.hyps show ?case
  proof (cases rule: Assign_Inr_cases)
    case (insert p)
    then have "pid \<notin> rr_profile_id ` set (db_runtime d)" by (auto simp: find_None_iff)
    moreover from insert(1) have "pw_id p = pid" "p \<in> set (db_profiles d)"
      by (auto dest: find_key_in)
    ultimately show ?thesis using assign.prems insert
      by (auto simp: runtime_ok_def new_runtime_row_def)
  next
    case (update r)
    then show ?thesis using runtime_ok_update[OF assign.prems, of "assign_row now inst"]
      by (force intro: order_trans)
  qed
next
  case (unassign pid now d u d')
  then show ?case by (auto simp: Unassign_def intro!: runtime_ok_update)
next
  case (start_poll a now d u d')
  then show ?case by (auto simp: StartPoll_Inr intro!: runtime_ok_update)
next
  case (complete_poll a res now d u d')
  let ?hit = "\<lambda>r. token_matches a r \<and> joined_profile d r \<noteq> None"
  let ?f = "\<lambda>r. complete_row now res (case joined_profile d r of
     Some p \<Rightarrow> ep_FetchIntervalSeconds (pw_profile p) | None \<Rightarrow> 0) r"
  from complete_poll.hyps have rt: "db_runtime d' = update_where ?hit ?f (db_runtime d)"
    by (auto simp: CompletePoll_def requireFencedWrite_def Let_def split: if_splits)
  note pres = CompletePoll_Inr_current(3,5)[OF complete_poll.hyps]
  have "runtime_ok (d\<lparr>db_runtime := update_where ?hit ?f (db_runtime d)\<rparr>)"
    using complete_poll.prems by (rule runtime_ok_update) simp_all
  moreover have "\<forall>p\<in>set (db_profiles d'). pw_id p < sq_profile (db_seq d)"
    using ball_same_keys[OF pres(2), of "\<lambda>i. i < sq_profile (db_seq d)"] complete_poll.prems
    by (simp add: runtime_ok_def)
  ultimately show ?case unfolding runtime_ok_def using pres(1) rt by simp
next
  case (create_profile p d)
  then show ?case by (force simp: runtime_ok_def)
next
  case (delete_profile d pid)
  then show ?case by (auto simp: runtime_ok_def distinct_map_filter)
qed

text \<open>
  How a statement may change one runtime row: the profile stays, the generation never goes
  down, and within a generation the owner can only be dropped.
\<close>

definition row_advances :: "runtime_row \<Rightarrow> runtime_row \<Rightarrow> bool" where
  "row_advances r r' \<longleftrightarrow> rr_profile_id r' = rr_profile_id r \<and>
     (rr_assignment_generation r < rr_assignment_generation r' \<or>
      rr_assignment_generation r = rr_assignment_generation r' \<and>
      (rr_owner_instance_id r' = rr_owner_instance_id r \<or> rr_owner_instance_id r' = None))"

lemma superseded_update:
  assumes "superseded d a" and "db_runtime d' = update_where P f (db_runtime d)"
    and "\<And>r. P r \<Longrightarrow> row_advances r (f r)" and "db_seq d' = db_seq d"
    and "map pw_id (db_profiles d') = map pw_id (db_profiles d)"
  shows "superseded d' a"
proof -
  have ids: "(\<forall>p\<in>set (db_profiles d'). pw_id p \<noteq> i) = (\<forall>p\<in>set (db_profiles d). pw_id p \<noteq> i)" for i
    using assms(5) by (rule ball_same_keys)
  have "\<And>r. P r \<Longrightarrow> rr_profile_id (f r) = rr_profile_id r"
    using assms(3) by (auto simp: row_advances_def)
  then have "find (\<lambda>r. rr_profile_id r = as_ProfileID a) (db_runtime d')
      = map_option (\<lambda>r. if P r then f r else r)
          (find (\<lambda>r. rr_profile_id r = as_ProfileID a) (db_runtime d))"
    unfolding assms(2) by (rule find_update_where)
  then show ?thesis using assms(1,3,4) ids
    by (fastforce simp: superseded_def row_advances_def split: option.splits)
qed

lemma CompletePoll_runtime:
  assumes "CompletePoll a res now d = Inr (u, d')"
  obtains hit f where "db_runtime d' = update_where hit f (db_runtime d)"
    and "\<And>r. hit r \<Longrightarrow> row_advances r (f r)"
proof
  let ?hit = "\<lambda>r. token_matches a r \<and> joined_profile d r \<noteq> None"
  let ?f = "\<lambda>r. complete_row now res (case joined_profile d r of
     Some p \<Rightarrow> ep_FetchIntervalSeconds (pw_profile p) | None \<Rightarrow> 0) r"
  from assms show "db_runtime d' = update_where ?hit ?f (db_runtime d)"
    by (auto simp: CompletePoll_def requireFencedWrite_def Let_def split: if_splits)
  show "row_advances r (?f r)" for r by (simp add: row_advances_def)
qed

lemma superseded_step:
  assumes "serving_step d d'" and "runtime_ok d" and "superseded d a"
  shows "superseded d' a"
  using assms
proof (induction rule: serving_step.induct)
  case (assign pid inst now d b d')
  from assign.hyps show ?case
  proof (cases rule: Assign_Inr_cases)
    case (insert p)
    then have "pw_id p = pid" "p \<in> set (db_profiles d)" by (auto dest: find_key_in)
    with insert(2) assign.prems(2) have "pid \<noteq> as_ProfileID a"
      by (auto simp: superseded_def split: option.splits)
    with insert \<open>pw_id p = pid\<close> assign.prems(2) show ?thesis
      by (auto simp: superseded_def new_runtime_row_def find_append split: option.splits)
  next
    case (update r)
    then have "db_runtime d' =
        update_where (\<lambda>x. rr_profile_id x = pid) (assign_row now inst) (db_runtime d)" by simp
    from superseded_update[OF assign.prems(2) this] update show ?thesis
      by (simp add: row_advances_def assign_row_def)
  qed
next
  case (unassign pid now d u d')
  then have "db_runtime d' = update_where (\<lambda>r. rr_profile_id r = pid \<and> rr_owner_instance_id r \<noteq> None)
      (\<lambda>r. r\<lparr>rr_owner_instance_id := None, rr_updated_at := now\<rparr>) (db_runtime d)"
    by (auto simp: Unassign_def)
  from superseded_update[OF unassign.prems(2) this] unassign.hyps show ?case
    by (auto simp: Unassign_def row_advances_def)
next
  case (start_poll b now d u d')
  then have "db_runtime d' = update_where (token_matches b)
      (\<lambda>r. r\<lparr>rr_last_poll_started_at := Some now, rr_updated_at := now\<rparr>) (db_runtime d)"
    by (simp add: StartPoll_Inr)
  from superseded_update[OF start_poll.prems(2) this] start_poll.hyps show ?case
    by (auto simp: StartPoll_Inr row_advances_def)
next
  case (complete_poll b res now d u d')
  from complete_poll.hyps obtain hit f where "db_runtime d' = update_where hit f (db_runtime d)"
    and "\<And>r. hit r \<Longrightarrow> row_advances r (f r)"
    by (rule CompletePoll_runtime) blast
  then show ?case
    by (rule superseded_update[OF complete_poll.prems(2)])
       (simp_all add: CompletePoll_Inr_current(3,5)[OF complete_poll.hyps])
next
  case (create_profile p d)
  then show ?case by (auto simp: superseded_def split: option.splits)
next
  case (delete_profile d pid)
  then show ?case by (auto simp: superseded_def find_filter_other split: option.splits)
qed

lemma superseded_not_current:
  assumes "superseded d a" and "runtime_ok d"
  shows "\<not> current_token d a"
proof
  assume "current_token d a"
  then obtain r where r: "r \<in> set (db_runtime d)" "token_matches a r"
    by (auto simp: current_token_def)
  then have "find (\<lambda>x. rr_profile_id x = as_ProfileID a) (db_runtime d) = Some r"
    using find_key_unique[of rr_profile_id "db_runtime d" r] assms(2)
    by (simp add: runtime_ok_def token_matches_def)
  with assms(1) r(2) show False by (auto simp: superseded_def token_matches_def)
qed

lemma serving_steps_superseded:
  assumes "serving_steps d d'" and "runtime_ok d" and "superseded d a"
  shows "runtime_ok d' \<and> superseded d' a"
  using assms by (induction rule: serving_steps.induct) (auto intro: serving_step_ok superseded_step)

lemma current_row:
  assumes "current_token d a" and "runtime_ok d"
  obtains r where "find (\<lambda>x. rr_profile_id x = as_ProfileID a) (db_runtime d) = Some r"
    and "token_matches a r"
proof -
  from assms(1) obtain r where r: "r \<in> set (db_runtime d)" "token_matches a r"
    by (auto simp: current_token_def)
  with assms(2) find_key_unique[of rr_profile_id "db_runtime d" r] that show thesis
    by (simp add: runtime_ok_def token_matches_def)
qed

lemma current_token_bound:
  "current_token d a \<Longrightarrow> runtime_ok d \<Longrightarrow> as_ProfileID a < sq_profile (db_seq d)"
  by (auto simp: current_token_def runtime_ok_def token_matches_def)

lemma Assign_issues_current:
  assumes "Assign pid inst now d = Inr (a, d')"
  shows "current_token d' a \<and> as_ProfileID a = pid \<and> as_OwnerInstanceID a = inst"
  using assms
proof (cases rule: Assign_Inr_cases)
  case (insert p)
  then show ?thesis
    by (auto simp: current_token_def token_matches_def assignment_of_row_def new_runtime_row_def
          dest: find_key_in)
next
  case (update r)
  then have "r \<in> set (db_runtime d)" "rr_profile_id r = pid" by (auto dest: find_key_in)
  with update show ?thesis
    by (auto simp: current_token_def token_matches_def assignment_of_row_def bex_update_where)
qed

lemma Assign_other_supersedes:
  assumes "Assign pid inst now d = Inr (b, d')" and "current_token d a" and "runtime_ok d"
    and "as_ProfileID a = pid" and "as_OwnerInstanceID a \<noteq> inst"
  shows "superseded d' a"
proof -
  obtain r where r: "find (\<lambda>x. rr_profile_id x = as_ProfileID a) (db_runtime d) = Some r"
    "token_matches a r" using assms(2,3) by (rule current_row)
  from assms(1) show ?thesis
  proof (cases rule: Assign_Inr_cases)
    case (insert p)
    with r assms(4) show ?thesis by simp
  next
    case (update r')
    with r assms(4) have [simp]: "r' = r" by simp
    have "find (\<lambda>x. rr_profile_id x = as_ProfileID a) (db_runtime d') = Some (assign_row now inst r)"
      using update r find_update_where[of "\<lambda>x. rr_profile_id x = pid" rr_profile_id
          "assign_row now inst" "as_ProfileID a" "db_runtime d"]
      by (simp add: assms(4)) (auto dest: find_key_in)
    with r update assms(5) current_token_bound[OF assms(2,3)] show ?thesis
      by (auto simp: superseded_def token_matches_def assign_row_def)
  qed
qed

lemma Unassign_supersedes:
  assumes "Unassign pid now d = Inr (u, d')" and "current_token d a" and "runtime_ok d"
    and "as_ProfileID a = pid"
  shows "superseded d' a"
proof -
  obtain r where r: "find (\<lambda>x. rr_profile_id x = as_ProfileID a) (db_runtime d) = Some r"
    "token_matches a r" using assms(2,3) by (rule current_row)
  moreover have "find (\<lambda>x. rr_profile_id x = as_ProfileID a) (db_runtime d')
      = map_option (\<lambda>r. if rr_profile_id r = pid \<and> rr_owner_instance_id r \<noteq> None
          then r\<lparr>rr_owner_instance_id := None, rr_updated_at := now\<rparr> else r)
        (find (\<lambda>x. rr_profile_id x = as_ProfileID a) (db_runtime d))"
    using assms(1) by (auto simp: Unassign_def intro!: find_update_where)
  ultimately show ?thesis using assms(1) current_token_bound[OF assms(2,3)] assms(4)
    by (auto simp: superseded_def token_matches_def Unassign_def)
qed

lemma empty_db_runtime_ok: "runtime_ok empty_db"
  by (simp add: runtime_ok_def empty_db_def)

lemma reachable_runtime_ok: "serving_steps d d' \<Longrightarrow> runtime_ok d \<Longrightarrow> runtime_ok d'"
  by (induction rule: serving_steps.induct) (auto intro: serving_step_ok)

section \<open>A serving state to evaluate\<close>

definition sample_profile :: profile_row where
  "sample_profile = \<lparr>pw_profile = zero_EmailProfile\<lparr>ep_ID := 1, ep_DomainID := 7,
     ep_Enabled := True, ep_FetchIntervalSeconds := 30\<rparr>,
     pw_password = None, pw_oauth_client_secret = None, pw_oauth_refresh_token = None\<rparr>"

definition sample_db :: db where
  "sample_db = empty_db\<lparr>db_profiles := [sample_profile],
     db_seq := (db_seq empty_db)\<lparr>sq_profile := 2\<rparr>\<rparr>"

definition sample_owned :: db where
  "sample_owned = sample_db\<lparr>db_runtime := [new_runtime_row 100 ''node-a'' sample_profile]\<rparr>"

definition sample_token :: EmailProfileAssignment where
  "sample_token = \<lparr>as_ProfileID = 1, as_DomainID = 7, as_OwnerInstanceID = ''node-a'',
     as_Generation = 1\<rparr>"

definition sample_moved :: db where
  "sample_moved = sample_db\<lparr>db_runtime :=
     [assign_row 200 ''node-b'' (new_runtime_row 100 ''node-a'' sample_profile)]\<rparr>"

lemmas sample_defs = sample_profile_def sample_db_def sample_owned_def sample_token_def
  sample_moved_def empty_db_def zero_EmailProfile_def new_runtime_row_def assign_row_def
  assignment_of_row_def sql_trim_def

lemma sample_assign: "Assign 1 ''node-a'' 100 sample_db = Inr (sample_token, sample_owned)"
  by (simp add: Assign_def sample_defs)

lemma sample_reassign:
  "Assign 1 ''node-b'' 200 sample_owned
     = Inr (sample_token\<lparr>as_OwnerInstanceID := ''node-b'', as_Generation := 2\<rparr>, sample_moved)"
  by (simp add: Assign_def sample_defs)

lemma sample_reachable: "serving_steps empty_db sample_owned"
proof -
  have "serving_step empty_db sample_db"
    using serving_step.create_profile[of sample_profile empty_db]
    by (simp add: sample_defs)
  moreover have "serving_step sample_db sample_owned"
    using sample_assign by (rule serving_step.assign)
  ultimately show ?thesis by (meson serving_steps.intros)
qed

lemma sample_current: "current_token sample_owned sample_token"
  by (simp add: current_token_def token_matches_def sample_defs)

section \<open>Properties\<close>

text \<open>
  C15: Once the leader has given a profile to another instance, or has unassigned it, the
  token of the previous owner is not current in any later state, whatever the leader and
  the instances do next (including giving the profile back to the same instance).
\<close>

theorem superseded_token_never_returns:
  assumes "serving_steps empty_db d" and "current_token d a"
    and "(as_OwnerInstanceID a \<noteq> inst \<and> Assign (as_ProfileID a) inst now d = Inr (b, d1))
       \<or> Unassign (as_ProfileID a) now d = Inr ((), d1)"
    and "serving_steps d1 d2"
  shows "\<not> current_token d2 a"
proof -
  have ok: "runtime_ok d" using assms(1) empty_db_runtime_ok by (rule reachable_runtime_ok)
  from assms(3) have "serving_step d d1" by (auto intro: serving_step.intros)
  then have ok1: "runtime_ok d1" using ok by (rule serving_step_ok)
  from assms(3) ok assms(2) have "superseded d1 a"
    by (auto intro: Assign_other_supersedes Unassign_supersedes)
  with serving_steps_superseded[OF assms(4) ok1] superseded_not_current show ?thesis by blast
qed

theorem superseded_token_never_returns_witness: "\<not> current_token sample_moved sample_token"
  using superseded_token_never_returns[OF sample_reachable sample_current, of "''node-b''" 200
      "sample_token\<lparr>as_OwnerInstanceID := ''node-b'', as_Generation := 2\<rparr>" sample_moved sample_moved]
    sample_reassign serving_steps.refl[of sample_moved]
  by (simp add: sample_token_def)

text \<open>
  In every reachable state two current tokens of the same profile name the same instance and
  the same generation.
\<close>

lemma at_most_one_owner:
  assumes "serving_steps empty_db d" and "current_token d a" and "current_token d b"
    and "as_ProfileID a = as_ProfileID b"
  shows "as_OwnerInstanceID a = as_OwnerInstanceID b \<and> as_Generation a = as_Generation b"
proof -
  have ok: "runtime_ok d" using assms(1) empty_db_runtime_ok by (rule reachable_runtime_ok)
  obtain r where "find (\<lambda>x. rr_profile_id x = as_ProfileID a) (db_runtime d) = Some r"
    "token_matches a r" using assms(2) ok by (rule current_row)
  moreover obtain r' where "find (\<lambda>x. rr_profile_id x = as_ProfileID b) (db_runtime d) = Some r'"
    "token_matches b r'" using assms(3) ok by (rule current_row)
  ultimately show ?thesis using assms(4) by (auto simp: token_matches_def)
qed

text \<open>
  Assigning a profile to the instance that already owns it is idempotent: it returns the
  current token and leaves the database, with the schedule of the profile, as it was.
\<close>

theorem assign_same_owner_is_noop:
  assumes "serving_steps empty_db d" and "current_token d a"
    and "Assign (as_ProfileID a) (as_OwnerInstanceID a) now d = Inr (b, d')"
  shows "d' = d \<and> as_Generation b = as_Generation a"
proof -
  have ok: "runtime_ok d" using assms(1) empty_db_runtime_ok by (rule reachable_runtime_ok)
  obtain r where r: "find (\<lambda>x. rr_profile_id x = as_ProfileID a) (db_runtime d) = Some r"
    "token_matches a r" using assms(2) ok by (rule current_row)
  from ok r have "x = r" if "x \<in> set (db_runtime d)" "rr_profile_id x = as_ProfileID a" for x
    using that find_key_unique[of rr_profile_id "db_runtime d" x] by (simp add: runtime_ok_def)
  moreover have "assign_row now (as_OwnerInstanceID a) r = r"
    using r by (simp add: assign_row_def token_matches_def)
  ultimately have "update_where (\<lambda>x. rr_profile_id x = as_ProfileID a)
      (assign_row now (as_OwnerInstanceID a)) (db_runtime d) = db_runtime d"
    by (intro update_where_fixed) auto
  with assms(3) r \<open>assign_row now _ r = r\<close> show ?thesis
    by (cases rule: Assign_Inr_cases) (auto simp: assignment_of_row_def token_matches_def)
qed

theorem assign_same_owner_is_noop_witness:
  "Assign 1 ''node-a'' 500 sample_owned = Inr (sample_token, sample_owned)"
  using assign_same_owner_is_noop[OF sample_reachable sample_current, of 500]
  by (auto simp: Assign_def sample_defs)

text \<open>
  Completing a poll with the current token of an existing profile succeeds and stores
  exactly the poll's outcome: the cursor of the result unless the result has none (a stored
  position is never erased), the requested next check or else now plus the profile's fetch
  interval, and the poll error; the runtime rows of all other profiles are unchanged.
\<close>

theorem complete_poll_records_outcome:
  assumes "serving_steps empty_db d" and "current_token d a"
    and "find (\<lambda>r. rr_profile_id r = as_ProfileID a) (db_runtime d) = Some r"
    and "joined_profile d r = Some p"
  shows "\<exists>d'. CompletePoll a res now d = Inr ((), d') \<and>
    find (\<lambda>r. rr_profile_id r = as_ProfileID a) (db_runtime d') = Some (r\<lparr>
      rr_provider_cursor := (if IsEmpty (pr_ProviderCursor res) then rr_provider_cursor r
                             else pr_ProviderCursor res),
      rr_next_check_at := Some (case pr_NextCheckAt res of Some t \<Rightarrow> t
         | None \<Rightarrow> now + ep_FetchIntervalSeconds (pw_profile p) * second),
      rr_last_poll_finished_at := Some now,
      rr_last_poll_error := (if pr_Error res = '''' then None else Some (pr_Error res)),
      rr_updated_at := now\<rparr>) \<and>
    (\<forall>pid. pid \<noteq> as_ProfileID a \<longrightarrow> find (\<lambda>r. rr_profile_id r = pid) (db_runtime d')
       = find (\<lambda>r. rr_profile_id r = pid) (db_runtime d))"
proof -
  let ?hit = "\<lambda>r. token_matches a r \<and> joined_profile d r \<noteq> None"
  let ?f = "\<lambda>r. complete_row now res (case joined_profile d r of
     Some p \<Rightarrow> ep_FetchIntervalSeconds (pw_profile p) | None \<Rightarrow> 0) r"
  have ok: "runtime_ok d" using assms(1) empty_db_runtime_ok by (rule reachable_runtime_ok)
  obtain r' where "find (\<lambda>x. rr_profile_id x = as_ProfileID a) (db_runtime d) = Some r'"
    "token_matches a r'" using assms(2) ok by (rule current_row)
  with assms(3) have tok: "token_matches a r" by simp
  from find_key_in[OF assms(3)] have mem: "r \<in> set (db_runtime d)" by simp
  with tok assms(4) have "rows_affected ?hit (db_runtime d) \<noteq> 0" by (auto simp: rows_affected_0)
  then obtain d' where d': "CompletePoll a res now d = Inr ((), d')"
      "db_runtime d' = update_where ?hit ?f (db_runtime d)"
    by (auto simp: CompletePoll_def requireFencedWrite_def Let_def)
  have "find (\<lambda>x. rr_profile_id x = pid) (db_runtime d') = map_option (\<lambda>r. if ?hit r then ?f r else r)
      (find (\<lambda>x. rr_profile_id x = pid) (db_runtime d))" for pid
    unfolding d'(2) by (rule find_update_where) simp
  then have "find (\<lambda>x. rr_profile_id x = as_ProfileID a) (db_runtime d')
      = Some (complete_row now res (ep_FetchIntervalSeconds (pw_profile p)) r)"
    using assms(3,4) tok by simp
  moreover have "complete_row now res i r = r\<lparr>
      rr_provider_cursor := (if IsEmpty (pr_ProviderCursor res) then rr_provider_cursor r
                             else pr_ProviderCursor res),
      rr_next_check_at := Some (case pr_NextCheckAt res of Some t \<Rightarrow> t | None \<Rightarrow> now + i * second),
      rr_last_poll_finished_at := Some now,
      rr_last_poll_error := (if pr_Error res = '''' then None else Some (pr_Error res)),
      rr_updated_at := now\<rparr>" for i
    by (simp add: complete_row_def encodeProviderCursor_def IsEmpty_def split: option.splits)
  moreover have "find (\<lambda>x. rr_profile_id x = pid) (db_runtime d') = find (\<lambda>x. rr_profile_id x = pid) (db_runtime d)"
    if "pid \<noteq> as_ProfileID a" for pid
    unfolding d'(2) using that by (intro find_update_where_other) (auto simp: token_matches_def)
  ultimately show ?thesis using d'(1) by simp
qed

theorem complete_poll_records_outcome_witness:
  "\<exists>d'. CompletePoll sample_token
     \<lparr>pr_ProviderCursor = None, pr_NextCheckAt = None, pr_Error = ''timeout'',
      pr_ConnectionState = '''', pr_ConnectionError = '''', pr_Connected = False\<rparr> 400 sample_owned
     = Inr ((), d') \<and>
     find (\<lambda>r. rr_profile_id r = 1) (db_runtime d') = Some
       ((new_runtime_row 100 ''node-a'' sample_profile)\<lparr>rr_next_check_at := Some 30000000400,
         rr_last_poll_finished_at := Some 400, rr_last_poll_error := Some ''timeout'',
         rr_updated_at := 400\<rparr>)"
  using complete_poll_records_outcome[OF sample_reachable sample_current,
      of "new_runtime_row 100 ''node-a'' sample_profile" sample_profile
        "\<lparr>pr_ProviderCursor = None, pr_NextCheckAt = None, pr_Error = ''timeout'',
          pr_ConnectionState = '''', pr_ConnectionError = '''', pr_Connected = False\<rparr>" 400]
  by (auto simp: joined_profile_def IsEmpty_def sample_defs)

end
