(* ===== verification/Distribution.thy ===== *)
theory Distribution
  imports Runtime_Store "HOL-Library.Multiset"
begin

text \<open>
  The leader's task that spreads the enabled Email Profiles over the healthy instances:
  \<^verbatim>\<open>planDistribution\<close> of \<^verbatim>\<open>internal/distribution/plan.go\<close> and \<^verbatim>\<open>reconcile\<close> of
  \<^verbatim>\<open>distributor.go\<close>. Go maps are HOL maps (a missing key reads as zero where the code relies
  on it), loops are folds over the same sequences. Proved: the plan makes the distribution
  balanced, no plan that balances moves fewer profiles, an already balanced distribution is
  left alone, and a reconcile over the runtime store leaves every enabled profile with a
  live owner.
\<close>

section \<open>The plan\<close>

record assignment =
  asg_profileID :: int
  asg_instanceID :: string

record plan =
  pl_assign :: "assignment list"
  pl_unassign :: "int list"

text \<open>\<^verbatim>\<open>m[k]\<close> of a Go map of integers.\<close>

definition at0 :: "('k \<rightharpoonup> nat) \<Rightarrow> 'k \<Rightarrow> nat" where
  "at0 m k = (case m k of Some n \<Rightarrow> n | None \<Rightarrow> 0)"

definition sortedInstances :: "string list \<Rightarrow> string list" where
  "sortedInstances instances = remdups_adj (sort instances)"

definition ownerLoad :: "string list \<Rightarrow> EmailProfileOwnership list \<Rightarrow> string \<rightharpoonup> nat" where
  "ownerLoad ids enabled =
     fold (\<lambda>p m. case m (eo_OwnerInstanceID p) of
                   Some n \<Rightarrow> m(eo_OwnerInstanceID p \<mapsto> Suc n) | None \<Rightarrow> m)
       enabled (map_of (map (\<lambda>inst. (inst, 0)) ids))"

definition instanceQuota :: "string list \<Rightarrow> nat \<Rightarrow> nat \<Rightarrow> string \<rightharpoonup> nat" where
  "instanceQuota byLoad base extra =
     map_of (map (\<lambda>(i, inst). (inst, if i < extra then base + 1 else base)) (enumerate 0 byLoad))"

text \<open>The most loaded instances get the extra slot.\<close>

definition planQuotas :: "string list \<Rightarrow> EmailProfileOwnership list \<Rightarrow> string \<rightharpoonup> nat" where
  "planQuotas ids enabled =
     (let load = ownerLoad ids enabled;
          byLoad = sort_key (\<lambda>inst. - int (at0 load inst)) ids;
          base = length enabled div length ids;
          extra = length enabled mod length ids
      in instanceQuota byLoad base extra)"

fun keepOwners :: "(string \<rightharpoonup> nat) \<Rightarrow> EmailProfileOwnership list \<Rightarrow> (string \<rightharpoonup> nat) \<Rightarrow>
    (string \<rightharpoonup> nat) \<times> int list" where
  "keepOwners quota [] kept = (kept, [])"
| "keepOwners quota (p # ps) kept =
     (let owner = eo_OwnerInstanceID p
      in case quota owner of
           Some q \<Rightarrow>
             if at0 kept owner < q then keepOwners quota ps (kept(owner \<mapsto> at0 kept owner + 1))
             else let (k, pending) = keepOwners quota ps kept in (k, eo_ProfileID p # pending)
         | None \<Rightarrow> let (k, pending) = keepOwners quota ps kept in (k, eo_ProfileID p # pending))"

definition headroom :: "(string \<rightharpoonup> nat) \<Rightarrow> (string \<rightharpoonup> nat) \<Rightarrow> string \<Rightarrow> int" where
  "headroom quota kept inst = int (at0 quota inst) - int (at0 kept inst)"

definition pickTarget :: "(string \<rightharpoonup> nat) \<Rightarrow> (string \<rightharpoonup> nat) \<Rightarrow> string list \<Rightarrow> string" where
  "pickTarget quota kept ids =
     foldl (\<lambda>target inst. if headroom quota kept inst > headroom quota kept target then inst else target)
       (hd ids) (tl ids)"

fun placePending :: "(string \<rightharpoonup> nat) \<Rightarrow> string list \<Rightarrow> int list \<Rightarrow> (string \<rightharpoonup> nat) \<Rightarrow> assignment list" where
  "placePending quota ids [] kept = []"
| "placePending quota ids (pid # pending) kept =
     (let target = pickTarget quota kept ids
      in \<lparr>asg_profileID = pid, asg_instanceID = target\<rparr>
           # placePending quota ids pending (kept(target \<mapsto> at0 kept target + 1)))"

definition planDistribution :: "string list \<Rightarrow> EmailProfileOwnership list \<Rightarrow> plan" where
  "planDistribution instances profiles =
     (let ids = sortedInstances instances
      in if ids = [] then \<lparr>pl_assign = [], pl_unassign = []\<rparr>
         else
           let unassign = map eo_ProfileID
                 (filter (\<lambda>p. \<not> eo_Enabled p \<and> eo_OwnerInstanceID p \<noteq> '''') profiles);
               quota = planQuotas ids (filter eo_Enabled profiles);
               enabled = sort_key eo_ProfileID (filter eo_Enabled profiles);
               (kept, pending) = keepOwners quota enabled Map.empty
           in \<lparr>pl_assign = placePending quota ids pending kept, pl_unassign = unassign\<rparr>)"

text \<open>
  \<^verbatim>\<open>reconcile\<close>. Discovery is outside the program: its answer is an argument, \<open>Inl\<close> when
  the registry could not be read. A failed change is logged and the rest goes on.
\<close>

fun unassignAll :: "int list \<Rightarrow> unit io" where
  "unassignAll [] = returnM ()"
| "unassignAll (pid # pids) = (\<lambda>w. unassignAll pids (snd (exec (Unassign pid) w)))"

fun assignAll :: "assignment list \<Rightarrow> unit io" where
  "assignAll [] = returnM ()"
| "assignAll (c # cs) =
     (\<lambda>w. assignAll cs (snd (exec (Assign (asg_profileID c) (asg_instanceID c)) w)))"

definition reconcile :: "error + string list \<Rightarrow> unit io" where
  "reconcile services = (case services of
       Inl e \<Rightarrow> returnM ()
     | Inr instances \<Rightarrow>
         if instances = [] then returnM ()
         else (\<lambda>w. case exec ListOwnership w of
                 (Inl e, w') \<Rightarrow> (Inr (), w')
               | (Inr profiles, w') \<Rightarrow>
                   (let changes = planDistribution instances profiles
                    in bindM (unassignAll (pl_unassign changes))
                         (\<lambda>_. assignAll (pl_assign changes)) w')))"

text \<open>
  \<^verbatim>\<open>Run\<close>, at most \<open>n\<close> rounds of it. The registry may answer differently each time. When the
  context is done and the ticker or a change of the instances is ready as well, \<^verbatim>\<open>select\<close> takes
  either, so the loop may go on for another round: \<open>ready\<close> says which. \<^verbatim>\<open>watchInstances\<close> only
  feeds that choice.
\<close>

fun Distributor_Run :: "nat \<Rightarrow> (nat \<Rightarrow> error + string list) \<Rightarrow> (nat \<Rightarrow> bool) \<Rightarrow> unit io" where
  "Distributor_Run 0 getService ready w = returnM () w"
| "Distributor_Run (Suc n) getService ready w =
     (case reconcile (getService (w_step w)) (tick w) of (_, w1) \<Rightarrow>
        if w_cancel w1 (w_step w1) \<and> \<not> ready (w_step w1) then (Inr (), tick w1)
        else Distributor_Run n getService ready (tick w1))"

section \<open>What a distribution is\<close>

text \<open>
  The owner of a profile after a plan, the number of profiles an instance gets, and when a
  choice of owners is balanced: every instance has the rounded-down or the rounded-up share.
\<close>

definition ownerAfter :: "plan \<Rightarrow> EmailProfileOwnership \<Rightarrow> string" where
  "ownerAfter pl p =
     (case find (\<lambda>c. asg_profileID c = eo_ProfileID p) (pl_assign pl) of
        Some c \<Rightarrow> asg_instanceID c | None \<Rightarrow> eo_OwnerInstanceID p)"

definition share :: "(EmailProfileOwnership \<Rightarrow> string) \<Rightarrow> EmailProfileOwnership list \<Rightarrow> string \<Rightarrow> nat" where
  "share owner ps inst = length (filter (\<lambda>p. eo_Enabled p \<and> owner p = inst) ps)"

definition balanced :: "string list \<Rightarrow> EmailProfileOwnership list \<Rightarrow>
    (EmailProfileOwnership \<Rightarrow> string) \<Rightarrow> bool" where
  "balanced instances ps owner \<longleftrightarrow>
     (\<forall>p\<in>set ps. eo_Enabled p \<longrightarrow> owner p \<in> set instances) \<and>
     (let n = length (filter eo_Enabled ps); k = card (set instances)
      in \<forall>inst\<in>set instances. share owner ps inst = n div k \<or>
           (n mod k \<noteq> 0 \<and> share owner ps inst = n div k + 1))"

section \<open>The loads and quotas\<close>

lemma at0_upd [simp]: "at0 (m(k \<mapsto> v)) x = (if x = k then v else at0 m x)"
  by (simp add: at0_def)

lemma at0_if [simp]: "at0 (\<lambda>a. if a = k then Some v else m a) x = (if x = k then v else at0 m x)"
  by (simp add: at0_def)

lemma at0_empty [simp]: "at0 Map.empty x = 0"
  by (simp add: at0_def)

lemma sortedInstances_props:
  "distinct (sortedInstances is)" "set (sortedInstances is) = set is"
  "sortedInstances is = [] \<longleftrightarrow> is = []"
  unfolding sortedInstances_def using remdups_adj_sort_props[of "is"]
  by (auto simp flip: set_empty)

lemma length_sortedInstances: "length (sortedInstances is) = card (set is)"
  using distinct_card[OF sortedInstances_props(1)[of "is"]] by (simp add: sortedInstances_props)

lemma ownerLoad_gen:
  "fold (\<lambda>p m. case m (eo_OwnerInstanceID p) of
                 Some n \<Rightarrow> m(eo_OwnerInstanceID p \<mapsto> Suc n) | None \<Rightarrow> m) ps m inst
     = map_option (\<lambda>n. n + length (filter (\<lambda>p. eo_OwnerInstanceID p = inst) ps)) (m inst)"
  by (induction ps arbitrary: m) (auto split: option.splits simp: option.map_comp comp_def option.map_ident)

lemma ownerLoad_count:
  "ownerLoad ids ps inst = (if inst \<in> set ids
     then Some (length (filter (\<lambda>p. eo_OwnerInstanceID p = inst) ps)) else None)"
  by (auto simp: ownerLoad_def ownerLoad_gen map_of_map_restrict restrict_map_def comp_def)

lemma map_of_enumerate_distinct:
  "distinct xs \<Longrightarrow> i < length xs \<Longrightarrow>
     map_of (map (\<lambda>(i, x). (x, f i)) (enumerate k xs)) (xs ! i) = Some (f (k + i))"
proof (induction xs arbitrary: i k)
  case (Cons x xs)
  then show ?case by (cases i) (auto simp: nth_mem)
qed simp

lemma instanceQuota_dom: "dom (instanceQuota ids b e) = set ids"
proof -
  have "map fst (map (\<lambda>(i, inst). (inst, if i < e then b + 1 else b)) (enumerate 0 ids)) = ids"
    by (simp add: comp_def case_prod_beta)
  then have "fst ` set (map (\<lambda>(i, inst). (inst, if i < e then b + 1 else b)) (enumerate 0 ids)) = set ids"
    by (metis list.set_map)
  then show ?thesis by (simp only: instanceQuota_def dom_map_of_conv_image_fst)
qed

lemma instanceQuota_nth:
  "distinct ids \<Longrightarrow> i < length ids \<Longrightarrow>
     instanceQuota ids b e (ids ! i) = Some (if i < e then b + 1 else b)"
  using map_of_enumerate_distinct[of ids i "\<lambda>i. if i < e then b + 1 else b" 0]
  by (simp add: instanceQuota_def)

lemma sum_at0_quota:
  assumes "distinct ids"
  shows "(\<Sum>inst\<in>set ids. f inst (at0 (instanceQuota ids b e) inst))
    = (\<Sum>i<length ids. f (ids ! i) (if i < e then b + 1 else b))"
proof -
  have "(\<Sum>inst\<in>set ids. f inst (at0 (instanceQuota ids b e) inst))
      = (\<Sum>i<length ids. f (ids ! i) (at0 (instanceQuota ids b e) (ids ! i)))"
    using assms by (intro sum.reindex_bij_betw[symmetric]) (rule bij_betw_nth, auto)
  also have "\<dots> = (\<Sum>i<length ids. f (ids ! i) (if i < e then b + 1 else b))"
    using assms by (intro sum.cong) (auto simp: at0_def instanceQuota_nth)
  finally show ?thesis .
qed

lemma quota_total:
  assumes "distinct ids" and "ids \<noteq> []"
  shows "(\<Sum>inst\<in>set ids. at0 (instanceQuota ids (n div length ids) (n mod length ids)) inst) = n"
proof -
  let ?k = "length ids" and ?b = "n div length ids" and ?e = "n mod length ids"
  have "(\<Sum>inst\<in>set ids. at0 (instanceQuota ids ?b ?e) inst)
      = (\<Sum>i<?k. if i < ?e then ?b + 1 else ?b)"
    using sum_at0_quota[OF assms(1), of "\<lambda>_ q. q"] by simp
  also have "\<dots> = (\<Sum>i<?k. ?b + (if i < ?e then 1 else 0))" by (rule sum.cong) auto
  also have "\<dots> = ?k * ?b + card {i \<in> {..<?k}. i < ?e}"
    by (simp add: sum.distrib sum.If_cases Int_def)
  also have "{i \<in> {..<?k}. i < ?e} = {..<?e}"
    using assms(2) by (auto intro: less_trans[OF _ mod_less_divisor])
  finally show ?thesis by simp
qed

section \<open>The keeping loop\<close>

abbreviation owned :: "string \<Rightarrow> EmailProfileOwnership list \<Rightarrow> nat" where
  "owned inst ps \<equiv> length (filter (\<lambda>p. eo_OwnerInstanceID p = inst) ps)"

lemma keepOwners_kept:
  assumes "keepOwners quota ps kept = (k, pending)" and "at0 kept inst \<le> at0 quota inst"
  shows "at0 k inst = min (at0 quota inst) (at0 kept inst + owned inst ps)"
  using assms
proof (induction ps arbitrary: kept pending)
  case (Cons p ps)
  let ?o = "eo_OwnerInstanceID p"
  show ?case
  proof (cases "\<exists>q. quota ?o = Some q \<and> at0 kept ?o < q")
    case True
    then have "at0 kept ?o < at0 quota ?o" by (auto simp: at0_def)
    moreover from Cons.prems True have "keepOwners quota ps (kept(?o \<mapsto> at0 kept ?o + 1)) = (k, pending)"
      by (auto simp: Let_def)
    note Cons.IH[OF this]
    ultimately show ?thesis using Cons.prems(2) by (auto split: if_splits)
  next
    case False
    with Cons.prems obtain pend' where "keepOwners quota ps kept = (k, pend')"
      by (auto simp: Let_def split: prod.splits option.splits if_splits)
    note IH = Cons.IH[OF this Cons.prems(2)]
    from False have "at0 quota ?o \<le> at0 kept ?o" by (auto simp: at0_def split: option.splits)
    with IH Cons.prems(2) show ?thesis by (auto simp: min_def)
  qed
qed simp

lemma keepOwners_pending:
  assumes "keepOwners quota ps kept = (k, pending)" and "distinct (map eo_ProfileID ps)"
  shows "pending = map eo_ProfileID (filter (\<lambda>p. eo_ProfileID p \<in> set pending) ps)"
    and "\<forall>p\<in>set ps. eo_ProfileID p \<notin> set pending \<longrightarrow> eo_OwnerInstanceID p \<in> dom quota"
    and "at0 k inst = at0 kept inst +
      length (filter (\<lambda>p. eo_ProfileID p \<notin> set pending \<and> eo_OwnerInstanceID p = inst) ps)"
proof -
  have "pending = map eo_ProfileID (filter (\<lambda>p. eo_ProfileID p \<in> set pending) ps) \<and>
    (\<forall>p\<in>set ps. eo_ProfileID p \<notin> set pending \<longrightarrow> eo_OwnerInstanceID p \<in> dom quota) \<and>
    at0 k inst = at0 kept inst +
      length (filter (\<lambda>p. eo_ProfileID p \<notin> set pending \<and> eo_OwnerInstanceID p = inst) ps)"
    using assms
  proof (induction ps arbitrary: kept pending)
    case (Cons p ps)
    let ?o = "eo_OwnerInstanceID p"
    show ?case
    proof (cases "\<exists>q. quota ?o = Some q \<and> at0 kept ?o < q")
      case True
      with Cons.prems have "keepOwners quota ps (kept(?o \<mapsto> at0 kept ?o + 1)) = (k, pending)"
        by (auto simp: Let_def)
      from Cons.IH[OF this] Cons.prems(2)
      have IH: "pending = map eo_ProfileID (filter (\<lambda>p. eo_ProfileID p \<in> set pending) ps)"
        "\<forall>p\<in>set ps. eo_ProfileID p \<notin> set pending \<longrightarrow> eo_OwnerInstanceID p \<in> dom quota"
        "at0 k inst = (if inst = ?o then at0 kept ?o + 1 else at0 kept inst) + length
          (filter (\<lambda>p. eo_ProfileID p \<notin> set pending \<and> eo_OwnerInstanceID p = inst) ps)"
        by auto
      have "set pending \<subseteq> eo_ProfileID ` set ps" by (subst IH(1)) auto
      with Cons.prems(2) have "eo_ProfileID p \<notin> set pending" by auto
      with IH True show ?thesis by auto
    next
      case False
      with Cons.prems obtain pend' where pend': "keepOwners quota ps kept = (k, pend')"
        "pending = eo_ProfileID p # pend'"
        by (auto simp: Let_def split: prod.splits option.splits if_splits)
      from Cons.IH[OF pend'(1)] Cons.prems(2)
      have IH: "pend' = map eo_ProfileID (filter (\<lambda>p. eo_ProfileID p \<in> set pend') ps)"
        "\<forall>p\<in>set ps. eo_ProfileID p \<notin> set pend' \<longrightarrow> eo_OwnerInstanceID p \<in> dom quota"
        "at0 k inst = at0 kept inst + length
          (filter (\<lambda>p. eo_ProfileID p \<notin> set pend' \<and> eo_OwnerInstanceID p = inst) ps)"
        by auto
      have "eo_ProfileID q \<noteq> eo_ProfileID p" if "q \<in> set ps" for q
        using Cons.prems(2) that by (metis distinct.simps(2) image_eqI list.map(2) list.set_map)
      then have same: "filter (\<lambda>q. (eo_ProfileID q = eo_ProfileID p \<or> eo_ProfileID q \<in> set pend')) ps
            = filter (\<lambda>q. eo_ProfileID q \<in> set pend') ps"
        "filter (\<lambda>q. eo_ProfileID q \<noteq> eo_ProfileID p \<and> eo_ProfileID q \<notin> set pend'
              \<and> eo_OwnerInstanceID q = inst) ps
            = filter (\<lambda>q. eo_ProfileID q \<notin> set pend' \<and> eo_OwnerInstanceID q = inst) ps"
        by (auto intro: filter_cong)
      from IH same show ?thesis by (simp add: pend'(2))
    qed
  qed simp
  then show "pending = map eo_ProfileID (filter (\<lambda>p. eo_ProfileID p \<in> set pending) ps)"
    and "\<forall>p\<in>set ps. eo_ProfileID p \<notin> set pending \<longrightarrow> eo_OwnerInstanceID p \<in> dom quota"
    and "at0 k inst = at0 kept inst +
      length (filter (\<lambda>p. eo_ProfileID p \<notin> set pending \<and> eo_OwnerInstanceID p = inst) ps)"
    by blast+
qed

section \<open>The placing loop\<close>

lemma pickTarget_foldl:
  "let t' = foldl (\<lambda>target inst. if h inst > h target then inst else target) t xs
   in t' \<in> insert t (set xs) \<and> (\<forall>x\<in>insert t (set xs). h x \<le> (h t' :: int))"
proof (induction xs arbitrary: t)
  case (Cons x xs)
  from Cons[of "if h x > h t then x else t"] show ?case
    by (fastforce simp: Let_def split: if_splits)
qed simp

lemma pickTarget_max:
  assumes "ids \<noteq> []"
  shows "pickTarget quota kept ids \<in> set ids"
    and "x \<in> set ids \<Longrightarrow> headroom quota kept x \<le> headroom quota kept (pickTarget quota kept ids)"
proof -
  have "insert (hd ids) (set (tl ids)) = set ids" using assms by (cases ids) auto
  with pickTarget_foldl[of "headroom quota kept" "hd ids" "tl ids"]
  have "pickTarget quota kept ids \<in> set ids \<and>
    (\<forall>x\<in>set ids. headroom quota kept x \<le> headroom quota kept (pickTarget quota kept ids))"
    by (simp add: pickTarget_def Let_def)
  then show "pickTarget quota kept ids \<in> set ids"
    and "x \<in> set ids \<Longrightarrow> headroom quota kept x \<le> headroom quota kept (pickTarget quota kept ids)"
    by auto
qed

lemma map_placePending: "map asg_profileID (placePending quota ids pending kept) = pending"
  by (induction pending arbitrary: kept) (auto simp: Let_def)

text \<open>As long as profiles are pending, some instance is below its quota, and it is picked.\<close>

lemma placePending_fills:
  assumes "ids \<noteq> []" and "\<forall>x\<in>set ids. at0 kept x \<le> at0 quota x"
    and "(\<Sum>x\<in>set ids. at0 quota x) = (\<Sum>x\<in>set ids. at0 kept x) + length pending"
    and "inst \<in> set ids"
  shows "at0 kept inst + length (filter (\<lambda>c. asg_instanceID c = inst) (placePending quota ids pending kept))
       = at0 quota inst"
  using assms(2,3)
proof (induction pending arbitrary: kept)
  case Nil
  then have "(\<Sum>x\<in>set ids. at0 quota x - at0 kept x) = 0"
    by (subst sum_subtractf_nat) auto
  with Nil(1) assms(4) show ?case by (force intro: antisym)
next
  case (Cons pid pending)
  let ?t = "pickTarget quota kept ids"
  note t = pickTarget_max[OF assms(1), where quota = quota and kept = kept]
  have "at0 kept ?t < at0 quota ?t"
  proof (rule ccontr)
    assume "\<not> ?thesis"
    then have "headroom quota kept ?t \<le> 0" by (simp add: headroom_def)
    with t(2) have "\<forall>x\<in>set ids. headroom quota kept x \<le> 0" by force
    then have "(\<Sum>x\<in>set ids. at0 quota x) \<le> (\<Sum>x\<in>set ids. at0 kept x)"
      by (intro sum_mono) (simp add: headroom_def)
    with Cons.prems(2) show False by simp
  qed
  define kept' where "kept' = kept(?t \<mapsto> at0 kept ?t + 1)"
  then have at0_kept': "at0 kept' x = at0 kept x + (if x = ?t then 1 else 0)" for x by simp
  have "(\<Sum>x\<in>set ids. at0 kept' x) = (\<Sum>x\<in>set ids. at0 kept x) + 1"
    using t(1) by (simp add: at0_kept' sum.distrib)
  then have "at0 kept' inst + length (filter (\<lambda>c. asg_instanceID c = inst)
      (placePending quota ids pending kept')) = at0 quota inst"
    using Cons.prems \<open>at0 kept ?t < at0 quota ?t\<close> by (intro Cons.IH) (auto simp: at0_kept')
  moreover have "kept(?t \<mapsto> Suc (at0 kept ?t)) = kept'" by (simp add: kept'_def)
  ultimately show ?case by (auto simp: Let_def at0_kept')
qed

lemma placePending_targets:
  "ids \<noteq> [] \<Longrightarrow> asg_instanceID ` set (placePending quota ids pending kept) \<subseteq> set ids"
  by (induction pending arbitrary: kept) (auto simp: Let_def pickTarget_max)

section \<open>Quotas of a plan\<close>

lemma planQuotas_facts:
  assumes "distinct ids" and "ids \<noteq> []"
  shows "dom (planQuotas ids ps) = set ids"
    and "(\<Sum>x\<in>set ids. at0 (planQuotas ids ps) x) = length ps"
    and "inst \<in> set ids \<Longrightarrow> at0 (planQuotas ids ps) inst = length ps div length ids \<or>
      (length ps mod length ids \<noteq> 0 \<and> at0 (planQuotas ids ps) inst = length ps div length ids + 1)"
proof -
  define by_load where "by_load = sort_key (\<lambda>inst. - int (at0 (ownerLoad ids ps) inst)) ids"
  have bl: "distinct by_load" "by_load \<noteq> []" "set by_load = set ids" "length by_load = length ids"
    using assms by (auto simp: by_load_def simp flip: set_empty)
  have q: "planQuotas ids ps = instanceQuota by_load (length ps div length by_load) (length ps mod length by_load)"
    by (simp add: planQuotas_def Let_def by_load_def)
  show "dom (planQuotas ids ps) = set ids" by (simp add: q instanceQuota_dom bl(3))
  show "(\<Sum>x\<in>set ids. at0 (planQuotas ids ps) x) = length ps"
    using quota_total[OF bl(1,2), of "length ps"] bl(3) by (simp add: q)
  assume "inst \<in> set ids"
  then obtain i where "i < length by_load" "inst = by_load ! i" using bl(3) by (metis in_set_conv_nth)
  then show "at0 (planQuotas ids ps) inst = length ps div length ids \<or>
      (length ps mod length ids \<noteq> 0 \<and> at0 (planQuotas ids ps) inst = length ps div length ids + 1)"
    by (auto simp: q at0_def instanceQuota_nth bl)
qed

lemma filter_take_front:
  assumes "sorted_wrt (\<lambda>a b. P b \<longrightarrow> P a) xs"
  shows "length (filter P (take n xs)) = min n (length (filter P xs))"
  using assms
proof (induction xs arbitrary: n)
  case (Cons x xs)
  show ?case
  proof (cases "P x")
    case True
    with Cons show ?thesis by (cases n) auto
  next
    case False
    with Cons.prems have "\<forall>y\<in>set xs. \<not> P y" by auto
    then have "filter P xs = []" "filter P (take m xs) = []" for m
      by (auto simp: filter_empty_conv dest: in_set_takeD)
    with False show ?thesis by (cases n) auto
  qed
qed simp

lemma sum_min_step:
  assumes "finite A" and "\<forall>x\<in>A. c x = b \<or> c x = b + (1 :: nat)"
  shows "(\<Sum>x\<in>A. min (l x) (c x)) = (\<Sum>x\<in>A. min (l x) b) + card {x \<in> A. c x = b + 1 \<and> b < l x}"
proof -
  have "(\<Sum>x\<in>A. min (l x) (c x)) = (\<Sum>x\<in>A. min (l x) b + (if c x = b + 1 \<and> b < l x then 1 else 0))"
    using assms(2) by (intro sum.cong) (auto simp: min_def)
  with assms(1) show ?thesis by (simp add: sum.distrib sum.If_cases Int_def)
qed

text \<open>However the shares are rounded, as many instances get an extra slot as there is remainder.\<close>

lemma extra_slots:
  assumes ids: "distinct ids"
    and c: "\<forall>x\<in>set ids. c x = n div length ids \<or> c x = n div length ids + 1"
    and total: "(\<Sum>x\<in>set ids. c x) = n"
  shows "card {x \<in> set ids. c x = n div length ids + 1} = n mod length ids"
proof -
  have "(\<Sum>x\<in>set ids. c x) = (\<Sum>x\<in>set ids. n div length ids + (if c x = n div length ids + 1 then 1 else 0))"
    using c by (intro sum.cong) auto
  also have "\<dots> = length ids * (n div length ids) + card {x \<in> set ids. c x = n div length ids + 1}"
    using ids by (simp add: sum.distrib sum.If_cases Int_def distinct_card)
  finally show ?thesis unfolding total using mult_div_mod_eq[of "length ids" n] by linarith
qed

lemma planQuotas_top:
  assumes ids: "distinct ids" "ids \<noteq> []"
  shows "card {x \<in> set ids. at0 (planQuotas ids ps) x = length ps div length ids + 1
              \<and> length ps div length ids < owned x ps}
    = min (length ps mod length ids) (card {x \<in> set ids. length ps div length ids < owned x ps})"
proof -
  let ?b = "length ps div length ids" and ?e = "length ps mod length ids"
  let ?P = "\<lambda>x. ?b < owned x ps"
  define by_load where "by_load = sort_key (\<lambda>inst. - int (at0 (ownerLoad ids ps) inst)) ids"
  have bl: "distinct by_load" "set by_load = set ids" "length by_load = length ids"
    using ids by (auto simp: by_load_def)
  have at: "at0 (planQuotas ids ps) (by_load ! i) = (if i < ?e then ?b + 1 else ?b)"
    if "i < length by_load" for i
  proof -
    have "planQuotas ids ps = instanceQuota by_load ?b ?e" by (simp add: planQuotas_def Let_def by_load_def)
    then show ?thesis using that bl by (simp add: at0_def instanceQuota_nth)
  qed
  have load: "at0 (ownerLoad ids ps) x = owned x ps" if "x \<in> set by_load" for x
    using that bl(2) by (simp add: at0_def ownerLoad_count)
  have "sorted_wrt (\<lambda>a b. - int (at0 (ownerLoad ids ps) a) \<le> - int (at0 (ownerLoad ids ps) b)) by_load"
    by (rule sorted_map[THEN iffD1]) (simp add: by_load_def)
  then have srt: "sorted_wrt (\<lambda>a b. ?P b \<longrightarrow> ?P a) by_load"
    by (rule sorted_wrt_mono_rel[rotated]) (auto simp: load)
  have "x \<in> set ids \<and> at0 (planQuotas ids ps) x = ?b + 1 \<longleftrightarrow> x \<in> set (take ?e by_load)" for x
  proof -
    have "x \<in> set ids \<longleftrightarrow> (\<exists>i<length by_load. x = by_load ! i)"
      unfolding bl(2)[symmetric] in_set_conv_nth by auto
    moreover have "x \<in> set (take ?e by_load) \<longleftrightarrow> (\<exists>i<length by_load. i < ?e \<and> x = by_load ! i)"
      unfolding in_set_conv_nth by auto
    moreover have "at0 (planQuotas ids ps) x = ?b + 1 \<longleftrightarrow> i < ?e"
      if "i < length by_load" "x = by_load ! i" for i
      unfolding that(2) at[OF that(1)] by simp
    ultimately show ?thesis by blast
  qed
  then have "{x \<in> set ids. at0 (planQuotas ids ps) x = ?b + 1 \<and> ?P x} = set (filter ?P (take ?e by_load))"
    by auto
  moreover have "card (set (filter ?P xs)) = length (filter ?P xs)" if "distinct xs" for xs
    using that by (simp add: distinct_card del: set_filter)
  moreover have "{x \<in> set ids. ?P x} = set (filter ?P by_load)" using bl(2) by simp
  ultimately show ?thesis using bl(1) by (simp add: filter_take_front[OF srt] del: set_filter)
qed

text \<open>Giving the extra slots to the most loaded instances keeps as many profiles as possible.\<close>

lemma planQuotas_optimal:
  assumes ids: "distinct ids" "ids \<noteq> []"
    and c: "\<forall>x\<in>set ids. c x = length ps div length ids \<or> c x = length ps div length ids + 1"
    and total: "(\<Sum>x\<in>set ids. c x) = length ps"
  shows "(\<Sum>x\<in>set ids. min (owned x ps) (c x)) \<le> (\<Sum>x\<in>set ids. min (owned x ps) (at0 (planQuotas ids ps) x))"
proof -
  let ?b = "length ps div length ids"
  let ?P = "\<lambda>x. ?b < owned x ps"
  have "card {x \<in> set ids. c x = ?b + 1 \<and> ?P x} \<le> card {x \<in> set ids. c x = ?b + 1}"
    by (rule card_mono) auto
  moreover have "card {x \<in> set ids. c x = ?b + 1 \<and> ?P x} \<le> card {x \<in> set ids. ?P x}"
    by (rule card_mono) auto
  ultimately have "card {x \<in> set ids. c x = ?b + 1 \<and> ?P x}
      \<le> card {x \<in> set ids. at0 (planQuotas ids ps) x = ?b + 1 \<and> ?P x}"
    by (simp only: extra_slots[OF ids(1) c total] planQuotas_top[OF ids] min.bounded_iff)
  then show ?thesis using planQuotas_facts(3)[OF ids, of _ ps] c
    by (subst (1 2) sum_min_step) auto
qed

section \<open>The plan as a whole\<close>

lemma length_filter_mono:
  "(\<And>x. x \<in> set xs \<Longrightarrow> P x \<Longrightarrow> Q x) \<Longrightarrow> length (filter P xs) \<le> length (filter Q xs)"
  by (induction xs) (auto simp: le_SucI)

lemma length_filter_count: "length (filter (\<lambda>x. f x = a) xs) = count_list (map f xs) a"
  by (induction xs) auto

lemma length_filter_sort_key: "length (filter P (sort_key f xs)) = length (filter P xs)"
  by (metis mset_filter mset_sort size_mset)

text \<open>The loops of a plan over at least one instance, with their results named.\<close>

lemma plan_loops:
  assumes "instances \<noteq> []" and "distinct (map eo_ProfileID ps)"
  obtains kept pending enabled quota ids where
    "ids = sortedInstances instances" and "enabled = sort_key eo_ProfileID (filter eo_Enabled ps)"
    and "quota = planQuotas ids (filter eo_Enabled ps)"
    and "keepOwners quota enabled Map.empty = (kept, pending)"
    and "pl_assign (planDistribution instances ps) = placePending quota ids pending kept"
    and "distinct ids" and "ids \<noteq> []" and "distinct (map eo_ProfileID enabled)"
    and "length pending + (\<Sum>x\<in>set ids. at0 kept x) = length enabled"
    and "\<forall>x. at0 kept x = min (at0 quota x) (owned x enabled)"
proof -
  define ids where "ids = sortedInstances instances"
  define enabled where "enabled = sort_key eo_ProfileID (filter eo_Enabled ps)"
  define quota where "quota = planQuotas ids (filter eo_Enabled ps)"
  obtain kept pending where kp: "keepOwners quota enabled Map.empty = (kept, pending)" by fastforce
  have ids: "distinct ids" "ids \<noteq> []"
    using assms(1) by (simp_all add: ids_def sortedInstances_props)
  have "distinct (map eo_ProfileID (filter eo_Enabled ps))" using assms(2) by (rule distinct_map_filter)
  then have dis: "distinct (map eo_ProfileID enabled)"
    unfolding enabled_def distinct_map by simp
  note pend = keepOwners_pending[OF kp dis]
  have own: "filter (\<lambda>p. eo_ProfileID p \<notin> set pending) enabled
      = filter (\<lambda>p. eo_ProfileID p \<notin> set pending \<and> eo_OwnerInstanceID p \<in> set ids) enabled"
    using pend(2) planQuotas_facts(1)[OF ids] by (intro filter_cong) (auto simp: quota_def)
  have "(\<Sum>x\<in>set ids. at0 kept x) = length (filter (\<lambda>p. eo_ProfileID p \<notin> set pending) enabled)"
    unfolding own pend(3)
    by (subst length_filter_sum[of "set ids" _ eo_OwnerInstanceID]) (auto intro: sum.cong arg_cong[where f = length] filter_cong)
  moreover have "length pending = length (filter (\<lambda>p. eo_ProfileID p \<in> set pending) enabled)"
    by (metis length_map pend(1))
  ultimately have len: "length pending + (\<Sum>x\<in>set ids. at0 kept x) = length enabled"
    using sum_length_filter_compl[of "\<lambda>p. eo_ProfileID p \<in> set pending" enabled] by simp
  have "pl_assign (planDistribution instances ps) = placePending quota ids pending kept"
    using kp ids(2) by (simp add: planDistribution_def Let_def ids_def enabled_def quota_def)
  moreover have "\<forall>x. at0 kept x = min (at0 quota x) (owned x enabled)"
    using keepOwners_kept[OF kp] by simp
  ultimately show thesis
    using that[OF ids_def enabled_def quota_def kp] ids dis len by blast
qed

text \<open>The assigned profiles are exactly the pending ones, in order.\<close>

lemma ownerAfter_assigned:
  assumes "distinct (map asg_profileID cs)" and "map eo_ProfileID ps = map asg_profileID cs"
    and "pl_assign pl = cs"
  shows "map (ownerAfter pl) ps = map asg_instanceID cs"
proof (rule nth_equalityI)
  show "length (map (ownerAfter pl) ps) = length (map asg_instanceID cs)"
    using assms(2) by (metis length_map)
  fix i assume "i < length (map (ownerAfter pl) ps)"
  then have i: "i < length ps" "i < length cs" using assms(2) by (auto dest: map_eq_imp_length_eq)
  then have "eo_ProfileID (ps ! i) = asg_profileID (cs ! i)"
    using assms(2) by (metis nth_map)
  with find_key_unique[OF assms(1) nth_mem[OF i(2)]] i assms(3)
  show "map (ownerAfter pl) ps ! i = map asg_instanceID cs ! i" by (simp add: ownerAfter_def)
qed

lemma ownerAfter_kept:
  "eo_ProfileID p \<notin> asg_profileID ` set (pl_assign pl) \<Longrightarrow> ownerAfter pl p = eo_OwnerInstanceID p"
  by (cases "find (\<lambda>c. asg_profileID c = eo_ProfileID p) (pl_assign pl)")
     (auto simp: ownerAfter_def image_iff dest!: find_key_in)

lemma plan_shares:
  assumes "instances \<noteq> []" and "distinct (map eo_ProfileID ps)" and "inst \<in> set instances"
  shows "share (ownerAfter (planDistribution instances ps)) ps inst
    = at0 (planQuotas (sortedInstances instances) (filter eo_Enabled ps)) inst"
proof -
  obtain kept pending enabled quota ids where
    ids: "ids = sortedInstances instances" and en: "enabled = sort_key eo_ProfileID (filter eo_Enabled ps)"
    and quota: "quota = planQuotas ids (filter eo_Enabled ps)"
    and kp: "keepOwners quota enabled Map.empty = (kept, pending)"
    and asg: "pl_assign (planDistribution instances ps) = placePending quota ids pending kept"
    and ok: "distinct ids" "ids \<noteq> []" "distinct (map eo_ProfileID enabled)"
    and len: "length pending + (\<Sum>x\<in>set ids. at0 kept x) = length enabled"
    and kept: "\<forall>x. at0 kept x = min (at0 quota x) (owned x enabled)"
    using assms(1,2) by (rule plan_loops)
  let ?pl = "planDistribution instances ps"
  let ?P = "\<lambda>p. eo_ProfileID p \<in> set pending"
  note pend = keepOwners_pending[OF kp ok(3)]
  have pids: "asg_profileID ` set (pl_assign ?pl) = set pending"
    unfolding asg using map_placePending by (metis list.set_map)
  have dpend: "distinct pending" by (subst pend(1)) (rule distinct_map_filter[OF ok(3)])
  have "map (ownerAfter ?pl) (filter ?P enabled) = map asg_instanceID (pl_assign ?pl)"
    using dpend pend(1) by (intro ownerAfter_assigned) (simp_all add: asg map_placePending)
  then have moved: "length (filter (\<lambda>p. ownerAfter ?pl p = inst) (filter ?P enabled))
      = length (filter (\<lambda>c. asg_instanceID c = inst) (pl_assign ?pl))"
    by (simp only: length_filter_count)
  have "length (filter (\<lambda>p. ownerAfter ?pl p = inst) (filter (\<lambda>p. \<not> ?P p) enabled)) = at0 kept inst"
    unfolding pend(3) filter_filter at0_empty add_0
    by (rule arg_cong[where f = length], rule filter_cong) (auto simp: ownerAfter_kept pids)
  with moved have "length (filter (\<lambda>p. ownerAfter ?pl p = inst) enabled)
      = at0 kept inst + length (filter (\<lambda>c. asg_instanceID c = inst) (pl_assign ?pl))"
    using sum_length_filter_compl[of ?P "filter (\<lambda>p. ownerAfter ?pl p = inst) enabled"]
    by (simp add: conj_commute)
  also have "\<dots> = at0 quota inst"
    unfolding asg
  proof (rule placePending_fills[OF ok(2)])
    show "\<forall>x\<in>set ids. at0 kept x \<le> at0 quota x" using kept by simp
    show "(\<Sum>x\<in>set ids. at0 quota x) = (\<Sum>x\<in>set ids. at0 kept x) + length pending"
      using planQuotas_facts(2)[OF ok(1,2), of "filter eo_Enabled ps"] len by (simp add: quota en)
    show "inst \<in> set ids" using assms(3) by (simp add: ids sortedInstances_props)
  qed
  finally show ?thesis
    by (simp add: share_def en length_filter_sort_key quota ids conj_commute)
qed

lemma plan_owner_live:
  assumes "instances \<noteq> []" and "distinct (map eo_ProfileID ps)" and "p \<in> set ps" and "eo_Enabled p"
  shows "ownerAfter (planDistribution instances ps) p \<in> set instances"
proof -
  obtain kept pending enabled quota ids where
    ids: "ids = sortedInstances instances" and en: "enabled = sort_key eo_ProfileID (filter eo_Enabled ps)"
    and quota: "quota = planQuotas ids (filter eo_Enabled ps)"
    and kp: "keepOwners quota enabled Map.empty = (kept, pending)"
    and asg: "pl_assign (planDistribution instances ps) = placePending quota ids pending kept"
    and ok: "distinct ids" "ids \<noteq> []" "distinct (map eo_ProfileID enabled)"
    using assms(1,2) by (rule plan_loops)
  let ?pl = "planDistribution instances ps"
  have live: "set ids = set instances" by (simp add: ids sortedInstances_props)
  have pids: "asg_profileID ` set (pl_assign ?pl) = set pending"
    unfolding asg using map_placePending by (metis list.set_map)
  show ?thesis
  proof (cases "find (\<lambda>c. asg_profileID c = eo_ProfileID p) (pl_assign ?pl)")
    case None
    then have "eo_ProfileID p \<notin> set pending" unfolding pids[symmetric] by (auto simp: find_None_iff)
    then have "eo_OwnerInstanceID p \<in> dom quota"
      using keepOwners_pending(2)[OF kp ok(3)] assms(3,4) by (simp add: en)
    with None show ?thesis
      by (simp add: ownerAfter_def quota planQuotas_facts(1)[OF ok(1,2)] live)
  next
    case (Some c)
    then have "asg_instanceID c \<in> set ids"
      using placePending_targets[OF ok(2)] asg find_key_in[OF Some] by fastforce
    with Some live show ?thesis by (simp add: ownerAfter_def)
  qed
qed

lemma plan_moves:
  assumes "instances \<noteq> []" and "distinct (map eo_ProfileID ps)"
  shows "length (pl_assign (planDistribution instances ps)) +
      (\<Sum>x\<in>set instances. min (owned x (filter eo_Enabled ps))
         (at0 (planQuotas (sortedInstances instances) (filter eo_Enabled ps)) x))
    = length (filter eo_Enabled ps)"
proof -
  obtain kept pending enabled quota ids where
    ids: "ids = sortedInstances instances" and en: "enabled = sort_key eo_ProfileID (filter eo_Enabled ps)"
    and quota: "quota = planQuotas ids (filter eo_Enabled ps)"
    and kp: "keepOwners quota enabled Map.empty = (kept, pending)"
    and asg: "pl_assign (planDistribution instances ps) = placePending quota ids pending kept"
    and len: "length pending + (\<Sum>x\<in>set ids. at0 kept x) = length enabled"
    and kept: "\<forall>x. at0 kept x = min (at0 quota x) (owned x enabled)"
    using assms(1,2) by (rule plan_loops)
  have "length (pl_assign (planDistribution instances ps)) = length pending"
    using map_placePending[of quota ids pending kept] asg by (metis length_map)
  moreover have "set ids = set instances" by (simp add: ids sortedInstances_props)
  moreover have "owned x enabled = owned x (filter eo_Enabled ps)" for x
    by (simp add: en length_filter_sort_key del: filter_filter)
  moreover have "length enabled = length (filter eo_Enabled ps)" by (simp add: en)
  ultimately show ?thesis using len kept by (simp add: quota ids min.commute del: filter_filter)
qed

lemma plan_balanced_lemma:
  assumes "instances \<noteq> []" and "distinct (map eo_ProfileID ps)"
  shows "balanced instances ps (ownerAfter (planDistribution instances ps))"
proof -
  have ids: "distinct (sortedInstances instances)" "sortedInstances instances \<noteq> []"
    using assms(1) by (simp_all add: sortedInstances_props)
  show ?thesis
    unfolding balanced_def Let_def
    using plan_owner_live[OF assms] plan_shares[OF assms]
      planQuotas_facts(3)[OF ids, of _ "filter eo_Enabled ps"]
    by (auto simp: length_sortedInstances sortedInstances_props)
qed

lemma plan_minimal_lemma:
  assumes "instances \<noteq> []" and "distinct (map eo_ProfileID ps)" and "balanced instances ps f"
  shows "length (pl_assign (planDistribution instances ps))
    \<le> length (filter (\<lambda>p. eo_Enabled p \<and> f p \<noteq> eo_OwnerInstanceID p) ps)"
proof -
  let ?E = "filter eo_Enabled ps" and ?ids = "sortedInstances instances"
  have ids: "distinct ?ids" "?ids \<noteq> []" "set ?ids = set instances"
    using assms(1) by (simp_all add: sortedInstances_props)
  have sh: "share f ps x = length (filter (\<lambda>p. f p = x) ?E)" for x
    by (simp add: share_def conj_commute)
  have "(\<Sum>x\<in>set instances. share f ps x) = length ?E"
    unfolding sh using assms(3) by (intro length_filter_sum[symmetric]) (auto simp: balanced_def)
  with planQuotas_optimal[OF ids(1,2), of "share f ps" ?E] assms(3)
  have "(\<Sum>x\<in>set instances. min (owned x ?E) (share f ps x))
      \<le> (\<Sum>x\<in>set instances. min (owned x ?E) (at0 (planQuotas ?ids ?E) x))"
    by (auto simp: balanced_def Let_def ids(3) length_sortedInstances simp del: filter_filter)
  moreover have "length (filter (\<lambda>p. f p = eo_OwnerInstanceID p) ?E)
      \<le> (\<Sum>x\<in>set instances. min (owned x ?E) (share f ps x))"
  proof -
    have "length (filter (\<lambda>p. f p = eo_OwnerInstanceID p) ?E)
      = (\<Sum>x\<in>set instances. length (filter (\<lambda>p. f p = x) (filter (\<lambda>p. f p = eo_OwnerInstanceID p) ?E)))"
      using assms(3) by (intro length_filter_sum) (auto simp: balanced_def)
    also have "\<dots> \<le> (\<Sum>x\<in>set instances. min (owned x ?E) (share f ps x))"
      unfolding sh by (intro sum_mono min.boundedI; unfold filter_filter; rule length_filter_mono) auto
    finally show ?thesis .
  qed
  moreover have "length (filter (\<lambda>p. f p = eo_OwnerInstanceID p) ?E)
      + length (filter (\<lambda>p. eo_Enabled p \<and> f p \<noteq> eo_OwnerInstanceID p) ps) = length ?E"
    using sum_length_filter_compl[of "\<lambda>p. f p = eo_OwnerInstanceID p" ?E] by (simp add: conj_commute)
  ultimately show ?thesis using plan_moves[OF assms(1,2)] by linarith
qed

section \<open>Owners over the tables\<close>

text \<open>
  What the keys of the schema add: profile identities are unique and a runtime row belongs
  to an existing profile of the same domain.
\<close>

definition ownership_ok :: "db \<Rightarrow> bool" where
  "ownership_ok d \<longleftrightarrow> runtime_ok d \<and> distinct (map pw_id (db_profiles d)) \<and>
     (\<forall>r\<in>set (db_runtime d). (rr_profile_id r, rr_domain_id r)
        \<in> (\<lambda>p. (pw_id p, pw_domain p)) ` set (db_profiles d))"

definition owner_of :: "db \<Rightarrow> int \<Rightarrow> string option" where
  "owner_of d pid = (case find (\<lambda>r. rr_profile_id r = pid) (db_runtime d) of
     None \<Rightarrow> None | Some r \<Rightarrow> rr_owner_instance_id r)"

lemma ownership_ok_update:
  assumes "ownership_ok d" and "runtime_ok d'"
    and "db_runtime d' = update_where P f (db_runtime d)"
    and "\<And>r. rr_profile_id (f r) = rr_profile_id r \<and> rr_domain_id (f r) = rr_domain_id r"
    and "map (\<lambda>p. (pw_id p, pw_domain p)) (db_profiles d') = map (\<lambda>p. (pw_id p, pw_domain p)) (db_profiles d)"
  shows "ownership_ok d'"
proof -
  have "map fst (map (\<lambda>p. (pw_id p, pw_domain p)) (db_profiles d'))
      = map fst (map (\<lambda>p. (pw_id p, pw_domain p)) (db_profiles d))" using assms(5) by simp
  then have "map pw_id (db_profiles d') = map pw_id (db_profiles d)" by (simp add: comp_def)
  moreover have "(\<lambda>p. (pw_id p, pw_domain p)) ` set (db_profiles d')
      = (\<lambda>p. (pw_id p, pw_domain p)) ` set (db_profiles d)"
    using arg_cong[OF assms(5), of set] by simp
  ultimately show ?thesis using assms(1,2,4) unfolding ownership_ok_def assms(3)
    by (simp add: ball_update_where)
qed

lemma CompletePoll_rows:
  assumes "CompletePoll a res now d = Inr (u, d')"
  obtains hit f where "db_runtime d' = update_where hit f (db_runtime d)"
    and "\<And>r. rr_profile_id (f r) = rr_profile_id r \<and> rr_domain_id (f r) = rr_domain_id r"
    and "map (\<lambda>p. (pw_id p, pw_domain p)) (db_profiles d') = map (\<lambda>p. (pw_id p, pw_domain p)) (db_profiles d)"
proof
  let ?hit = "\<lambda>r. token_matches a r \<and> joined_profile d r \<noteq> None"
  let ?f = "\<lambda>r. complete_row now res (case joined_profile d r of
     Some p \<Rightarrow> ep_FetchIntervalSeconds (pw_profile p) | None \<Rightarrow> 0) r"
  from assms show "db_runtime d' = update_where ?hit ?f (db_runtime d)"
    by (auto simp: CompletePoll_def requireFencedWrite_def Let_def split: if_splits)
  show "rr_profile_id (?f r) = rr_profile_id r \<and> rr_domain_id (?f r) = rr_domain_id r" for r
    by (simp add: complete_row_def)
  have "map (\<lambda>p. (pw_id p, pw_domain p)) (update_where P (connection_row now res) (db_profiles d))
      = map (\<lambda>p. (pw_id p, pw_domain p)) (db_profiles d)" for P
    by (rule map_update_where) simp
  with assms show "map (\<lambda>p. (pw_id p, pw_domain p)) (db_profiles d') = map (\<lambda>p. (pw_id p, pw_domain p)) (db_profiles d)"
    by (auto simp: CompletePoll_def requireFencedWrite_def Let_def split: if_splits)
qed

lemma serving_step_ownership:
  assumes "serving_step d d'" and "ownership_ok d"
  shows "ownership_ok d'"
  using assms
proof (induction rule: serving_step.induct)
  case (assign pid inst now d a d')
  have ok': "runtime_ok d'"
    using serving_step_ok[OF serving_step.assign[OF assign.hyps]] assign.prems by (simp add: ownership_ok_def)
  from assign.hyps show ?case
  proof (cases rule: Assign_Inr_cases)
    case (insert p)
    then show ?thesis using assign.prems ok' find_key_in[OF insert(1)]
      by (auto simp: ownership_ok_def new_runtime_row_def)
  next
    case (update r)
    then have "db_runtime d' =
        update_where (\<lambda>x. rr_profile_id x = pid) (assign_row now inst) (db_runtime d)" by simp
    then show ?thesis
      by (rule ownership_ok_update[OF assign.prems ok']) (simp_all add: assign_row_def update)
  qed
next
  case (unassign pid now d u d')
  have ok': "runtime_ok d'"
    using serving_step_ok[OF serving_step.unassign[OF unassign.hyps]] unassign.prems by (simp add: ownership_ok_def)
  have d': "d' = d\<lparr>db_runtime :=
       update_where (\<lambda>r. rr_profile_id r = pid \<and> rr_owner_instance_id r \<noteq> None)
         (\<lambda>r. r\<lparr>rr_owner_instance_id := None, rr_updated_at := now\<rparr>) (db_runtime d)\<rparr>"
    using unassign.hyps by (simp add: Unassign_def)
  then have "db_runtime d' = update_where (\<lambda>r. rr_profile_id r = pid \<and> rr_owner_instance_id r \<noteq> None)
      (\<lambda>r. r\<lparr>rr_owner_instance_id := None, rr_updated_at := now\<rparr>) (db_runtime d)"
    by simp
  then show ?case by (rule ownership_ok_update[OF unassign.prems ok']) (simp_all add: d')
next
  case (start_poll a now d u d')
  have ok': "runtime_ok d'"
    using serving_step_ok[OF serving_step.start_poll[OF start_poll.hyps]] start_poll.prems by (simp add: ownership_ok_def)
  from start_poll.hyps have d': "d' = d\<lparr>db_runtime := update_where (token_matches a)
      (\<lambda>r. r\<lparr>rr_last_poll_started_at := Some now, rr_updated_at := now\<rparr>) (db_runtime d)\<rparr>"
    by (simp add: StartPoll_Inr)
  then have "db_runtime d' = update_where (token_matches a)
      (\<lambda>r. r\<lparr>rr_last_poll_started_at := Some now, rr_updated_at := now\<rparr>) (db_runtime d)"
    by simp
  then show ?case by (rule ownership_ok_update[OF start_poll.prems ok']) (simp_all add: d')
next
  case (complete_poll a res now d u d')
  have ok': "runtime_ok d'"
    using serving_step_ok[OF serving_step.complete_poll[OF complete_poll.hyps]] complete_poll.prems
    by (simp add: ownership_ok_def)
  from complete_poll.hyps obtain hit f where "db_runtime d' = update_where hit f (db_runtime d)"
    "\<And>r. rr_profile_id (f r) = rr_profile_id r \<and> rr_domain_id (f r) = rr_domain_id r"
    "map (\<lambda>p. (pw_id p, pw_domain p)) (db_profiles d') = map (\<lambda>p. (pw_id p, pw_domain p)) (db_profiles d)"
    by (rule CompletePoll_rows) blast
  then show ?case by (rule ownership_ok_update[OF complete_poll.prems ok'])
next
  case (create_profile p d)
  then show ?case using serving_step_ok[OF serving_step.create_profile[OF create_profile.hyps]]
    by (auto simp: ownership_ok_def runtime_ok_def)
next
  case (delete_profile d pid)
  then show ?case using serving_step_ok[OF serving_step.delete_profile]
    by (fastforce simp: ownership_ok_def distinct_map_filter)
qed

lemma reachable_ownership_ok:
  "serving_steps d d' \<Longrightarrow> ownership_ok d \<Longrightarrow> ownership_ok d'"
  by (induction rule: serving_steps.induct) (auto intro: serving_step_ownership)

lemma empty_db_ownership_ok: "ownership_ok empty_db"
  using empty_db_runtime_ok by (simp add: ownership_ok_def) (simp add: empty_db_def)

lemma joined_owner_of:
  assumes "ownership_ok d" and "p \<in> set (db_profiles d)"
  shows "joined_owner d p = owner_of d (pw_id p)"
proof -
  have "rr_domain_id r = pw_domain p" if r: "r \<in> set (db_runtime d)" "rr_profile_id r = pw_id p" for r
  proof -
    from assms(1) r obtain q where q: "q \<in> set (db_profiles d)" "pw_id q = pw_id p" "pw_domain q = rr_domain_id r"
      by (fastforce simp: ownership_ok_def)
    with assms have "q = p" by (auto simp: ownership_ok_def distinct_map inj_on_def)
    with q show ?thesis by simp
  qed
  then have "find (\<lambda>r. rr_domain_id r = pw_domain p \<and> rr_profile_id r = pw_id p) (db_runtime d)
      = find (\<lambda>r. rr_profile_id r = pw_id p) (db_runtime d)"
    by (intro find_cong) auto
  then show ?thesis by (simp add: joined_owner_def owner_of_def)
qed

lemma Assign_owner:
  assumes "pid \<in> pw_id ` set (db_profiles d)" and "sql_trim inst \<noteq> ''''"
  obtains a d' where "Assign pid inst now d = Inr (a, d')" and "db_profiles d' = db_profiles d"
    and "owner_of d' = (owner_of d)(pid := Some inst)"
proof -
  from assms(1) obtain p where p: "find (\<lambda>p. pw_id p = pid) (db_profiles d) = Some p"
    by (cases "find (\<lambda>p. pw_id p = pid) (db_profiles d)") (auto simp: find_None_iff)
  then have pid: "pw_id p = pid" by (auto dest: find_key_in)
  have inst: "inst \<noteq> ''''" using assms(2) by (auto simp: sql_trim_def)
  let ?find = "find (\<lambda>r. rr_profile_id r = pid) (db_runtime d)"
  show thesis
  proof (cases ?find)
    case None
    let ?d = "d\<lparr>db_runtime := db_runtime d @ [new_runtime_row now inst p]\<rparr>"
    have "owner_of ?d = (owner_of d)(pid := Some inst)"
      using None pid by (auto simp: owner_of_def find_append new_runtime_row_def split: option.splits)
    with that[of _ ?d] show thesis using None p inst assms(2) by (simp add: Assign_def)
  next
    case (Some r)
    let ?d = "d\<lparr>db_runtime := update_where (\<lambda>x. rr_profile_id x = pid) (assign_row now inst) (db_runtime d)\<rparr>"
    have "find (\<lambda>r. rr_profile_id r = i) (db_runtime ?d) = map_option
        (\<lambda>r. if rr_profile_id r = pid then assign_row now inst r else r)
        (find (\<lambda>r. rr_profile_id r = i) (db_runtime d))" for i
      by (simp add: find_update_where)
    then have "owner_of ?d i = ((owner_of d)(pid := Some inst)) i" for i
      using Some by (auto simp: owner_of_def split: option.splits dest: find_key_in)
    with that[of _ ?d] show thesis using Some p inst assms(2) by (simp add: Assign_def fun_eq_iff)
  qed
qed

lemma Unassign_owner:
  obtains d' where "Unassign pid now d = Inr ((), d')" and "db_profiles d' = db_profiles d"
    and "owner_of d' = (owner_of d)(pid := None)"
proof -
  let ?f = "\<lambda>r. r\<lparr>rr_owner_instance_id := None, rr_updated_at := now\<rparr>"
  let ?d = "d\<lparr>db_runtime := update_where (\<lambda>r. rr_profile_id r = pid \<and> rr_owner_instance_id r \<noteq> None)
      ?f (db_runtime d)\<rparr>"
  have "find (\<lambda>r. rr_profile_id r = i) (db_runtime ?d) = map_option
      (\<lambda>r. if rr_profile_id r = pid \<and> rr_owner_instance_id r \<noteq> None then ?f r else r)
      (find (\<lambda>r. rr_profile_id r = i) (db_runtime d))" for i
    unfolding db.select_convs db.update_convs by (simp add: find_update_where)
  then have "owner_of ?d i = ((owner_of d)(pid := None)) i" for i
    by (auto simp: owner_of_def split: option.splits dest: find_key_in)
  with that[of ?d] show thesis by (simp add: Unassign_def fun_eq_iff)
qed

text \<open>Without failing statements, the two loops set the owners they were asked to set.\<close>

lemma unassignAll_owner:
  assumes "w_faults w = (\<lambda>_. None)"
  obtains w' where "unassignAll pids w = (Inr (), w')" and "w_faults w' = (\<lambda>_. None)"
    and "db_profiles (w_db w') = db_profiles (w_db w)"
    and "owner_of (w_db w') = (\<lambda>pid. if pid \<in> set pids then None else owner_of (w_db w) pid)"
  using assms
proof (induction pids arbitrary: w thesis)
  case Nil
  then show ?case by (simp add: returnM_def)
next
  case (Cons pid pids)
  obtain d' where d': "Unassign pid (case w_tx w of Some t \<Rightarrow> t | None \<Rightarrow> w_clock w (w_step w)) (w_db w) = Inr ((), d')"
    "db_profiles d' = db_profiles (w_db w)" "owner_of d' = (owner_of (w_db w))(pid := None)"
    by (rule Unassign_owner)
  let ?w = "(tick w)\<lparr>w_db := d'\<rparr>"
  have ex: "exec (Unassign pid) w = (Inr (), ?w)" using d'(1) Cons.prems(2) by (simp add: exec_def)
  have "w_faults ?w = (\<lambda>_. None)" using Cons.prems(2) by (simp add: tick_def)
  then obtain w' where "unassignAll pids ?w = (Inr (), w')" "w_faults w' = (\<lambda>_. None)"
    "db_profiles (w_db w') = db_profiles (w_db ?w)"
    "owner_of (w_db w') = (\<lambda>i. if i \<in> set pids then None else owner_of (w_db ?w) i)"
    by (rule Cons.IH[rotated])
  with d' ex show ?case by (intro Cons.prems(1)[of w']) auto
qed

lemma assignAll_owner:
  assumes "w_faults w = (\<lambda>_. None)" and "distinct (map asg_profileID cs)"
    and "\<forall>c\<in>set cs. asg_profileID c \<in> pw_id ` set (db_profiles (w_db w)) \<and> sql_trim (asg_instanceID c) \<noteq> ''''"
  obtains w' where "assignAll cs w = (Inr (), w')" and "db_profiles (w_db w') = db_profiles (w_db w)"
    and "owner_of (w_db w') = (\<lambda>pid. case find (\<lambda>c. asg_profileID c = pid) cs of
           Some c \<Rightarrow> Some (asg_instanceID c) | None \<Rightarrow> owner_of (w_db w) pid)"
  using assms
proof (induction cs arbitrary: w thesis)
  case Nil
  then show ?case by (simp add: returnM_def)
next
  case (Cons c cs)
  obtain a d' where d': "Assign (asg_profileID c) (asg_instanceID c)
      (case w_tx w of Some t \<Rightarrow> t | None \<Rightarrow> w_clock w (w_step w)) (w_db w) = Inr (a, d')"
    "db_profiles d' = db_profiles (w_db w)"
    "owner_of d' = (owner_of (w_db w))(asg_profileID c := Some (asg_instanceID c))"
  proof (rule Assign_owner)
    show "asg_profileID c \<in> pw_id ` set (db_profiles (w_db w))" "sql_trim (asg_instanceID c) \<noteq> ''''"
      using Cons.prems(4) by auto
  qed
  let ?w = "(tick w)\<lparr>w_db := d'\<rparr>"
  have ex: "exec (Assign (asg_profileID c) (asg_instanceID c)) w = (Inr a, ?w)"
    using d'(1) Cons.prems(2) by (simp add: exec_def)
  have "w_faults ?w = (\<lambda>_. None)" "distinct (map asg_profileID cs)"
    "\<forall>c\<in>set cs. asg_profileID c \<in> pw_id ` set (db_profiles (w_db ?w)) \<and> sql_trim (asg_instanceID c) \<noteq> ''''"
    using Cons.prems d'(2) by (auto simp: tick_def)
  then obtain w' where w': "assignAll cs ?w = (Inr (), w')" "db_profiles (w_db w') = db_profiles (w_db ?w)"
    "owner_of (w_db w') = (\<lambda>pid. case find (\<lambda>c. asg_profileID c = pid) cs of
           Some c \<Rightarrow> Some (asg_instanceID c) | None \<Rightarrow> owner_of (w_db ?w) pid)"
    by (rule Cons.IH[rotated])
  have "find (\<lambda>x. asg_profileID x = asg_profileID c) cs = None"
    using Cons.prems(3) by (auto simp: find_None_iff image_iff)
  with w' d' ex show ?case by (intro Cons.prems(1)[of w']) (auto simp: fun_eq_iff split: option.splits)
qed

text \<open>The rows \<^verbatim>\<open>ListOwnership\<close> reads, and its enabled part.\<close>

definition ownership_of :: "db \<Rightarrow> profile_row \<Rightarrow> EmailProfileOwnership" where
  "ownership_of d p = \<lparr>eo_ProfileID = pw_id p, eo_Enabled = ep_Enabled (pw_profile p),
     eo_OwnerInstanceID = (case joined_owner d p of Some o' \<Rightarrow> o' | None \<Rightarrow> '''')\<rparr>"

definition listed :: "db \<Rightarrow> EmailProfileOwnership list" where
  "listed d = map (ownership_of d) (sort_key pw_id
     (filter (\<lambda>p. ep_Enabled (pw_profile p) \<or> joined_owner d p \<noteq> None) (db_profiles d)))"

lemma ListOwnership_listed: "ListOwnership now d = Inr (listed d, d)"
  by (simp add: ListOwnership_def listed_def ownership_of_def)

lemma ownership_of_simps [simp]:
  "eo_ProfileID (ownership_of d p) = pw_id p"
  "eo_Enabled (ownership_of d p) = ep_Enabled (pw_profile p)"
  by (simp_all add: ownership_of_def)

lemma set_listed: "set (listed d) = ownership_of d `
    {p \<in> set (db_profiles d). ep_Enabled (pw_profile p) \<or> joined_owner d p \<noteq> None}"
  by (simp add: listed_def)

lemma distinct_listed:
  assumes "ownership_ok d"
  shows "distinct (map eo_ProfileID (listed d))"
proof -
  have "distinct (map pw_id (filter P (db_profiles d)))" for P
    using assms by (intro distinct_map_filter) (simp add: ownership_ok_def)
  moreover have "map eo_ProfileID (listed d) = map pw_id (sort_key pw_id
      (filter (\<lambda>p. ep_Enabled (pw_profile p) \<or> joined_owner d p \<noteq> None) (db_profiles d)))"
    by (simp add: listed_def)
  ultimately show ?thesis by (simp add: distinct_map)
qed

lemma enabled_listed:
  "filter eo_Enabled (listed d)
     = map (ownership_of d) (sort_key pw_id (filter (\<lambda>p. ep_Enabled (pw_profile p)) (db_profiles d)))"
  by (simp add: listed_def filter_map comp_def filter_sort conj_commute)
     (metis (mono_tags, lifting))

lemma share_listed:
  "share f (listed d) x = length (filter (\<lambda>p. f (ownership_of d p) = x)
     (filter (\<lambda>p. ep_Enabled (pw_profile p)) (db_profiles d)))"
proof -
  have "share f (listed d) x = length (filter (\<lambda>p. f p = x) (filter eo_Enabled (listed d)))"
    by (simp add: share_def conj_commute)
  then show ?thesis by (simp add: enabled_listed filter_map comp_def length_filter_sort_key del: filter_filter)
qed

lemma plan_unassigns:
  "instances \<noteq> [] \<Longrightarrow> pid \<in> set (pl_unassign (planDistribution instances ps))
     \<longleftrightarrow> (\<exists>p\<in>set ps. \<not> eo_Enabled p \<and> eo_OwnerInstanceID p \<noteq> '''' \<and> eo_ProfileID p = pid)"
  by (auto simp: planDistribution_def Let_def sortedInstances_props split: prod.splits)

lemma plan_assigns:
  assumes "instances \<noteq> []" and "distinct (map eo_ProfileID ps)"
  shows "distinct (map asg_profileID (pl_assign (planDistribution instances ps)))"
    and "c \<in> set (pl_assign (planDistribution instances ps)) \<Longrightarrow>
      asg_instanceID c \<in> set instances \<and> (\<exists>p\<in>set ps. eo_Enabled p \<and> eo_ProfileID p = asg_profileID c)"
proof -
  obtain kept pending enabled quota ids where
    ids: "ids = sortedInstances instances" and en: "enabled = sort_key eo_ProfileID (filter eo_Enabled ps)"
    and kp: "keepOwners quota enabled Map.empty = (kept, pending)"
    and asg: "pl_assign (planDistribution instances ps) = placePending quota ids pending kept"
    and ok: "distinct ids" "ids \<noteq> []" "distinct (map eo_ProfileID enabled)"
    using assms by (rule plan_loops)
  note pend = keepOwners_pending(1)[OF kp ok(3)]
  have "distinct pending" by (subst pend) (rule distinct_map_filter[OF ok(3)])
  then show "distinct (map asg_profileID (pl_assign (planDistribution instances ps)))"
    by (simp add: asg map_placePending)
  assume c: "c \<in> set (pl_assign (planDistribution instances ps))"
  then have "asg_instanceID c \<in> set ids" using placePending_targets[OF ok(2)] unfolding asg by blast
  moreover have "asg_profileID c \<in> set pending"
    using c map_placePending[of quota ids pending kept] unfolding asg by (metis image_eqI list.set_map)
  then have "asg_profileID c \<in> eo_ProfileID ` set enabled" using arg_cong[OF pend, of set] by auto
  ultimately show "asg_instanceID c \<in> set instances \<and> (\<exists>p\<in>set ps. eo_Enabled p \<and> eo_ProfileID p = asg_profileID c)"
    by (auto simp: ids sortedInstances_props en)
qed

text \<open>The owner the two loops leave behind, read off the plan.\<close>

lemma planned_owner:
  assumes ok: "ownership_ok d" and inst: "instances \<noteq> []" "\<forall>i\<in>set instances. sql_trim i \<noteq> ''''"
    and p: "p \<in> set (db_profiles d)"
  shows "(case find (\<lambda>c. asg_profileID c = pw_id p) (pl_assign (planDistribution instances (listed d))) of
       Some c \<Rightarrow> Some (asg_instanceID c)
     | None \<Rightarrow> if pw_id p \<in> set (pl_unassign (planDistribution instances (listed d))) then None
               else owner_of d (pw_id p))
    = (if ep_Enabled (pw_profile p)
       then Some (ownerAfter (planDistribution instances (listed d)) (ownership_of d p)) else None)"
proof -
  let ?pl = "planDistribution instances (listed d)"
  note dis = distinct_listed[OF ok]
  have uniq: "q = p" if "q \<in> set (db_profiles d)" "pw_id q = pw_id p" for q
    using ok p that by (auto simp: ownership_ok_def distinct_map inj_on_def)
  have assigned: "ep_Enabled (pw_profile p)" if "c \<in> set (pl_assign ?pl)" "asg_profileID c = pw_id p" for c
    using plan_assigns(2)[OF inst(1) dis that(1)] that(2) uniq by (auto simp: set_listed)
  have unassigned: "pw_id p \<in> set (pl_unassign ?pl) \<longleftrightarrow> \<not> ep_Enabled (pw_profile p) \<and>
      (\<exists>o'. joined_owner d p = Some o' \<and> o' \<noteq> '''')"
    unfolding plan_unassigns[OF inst(1)] set_listed bex_simps
    using uniq p by (auto simp: ownership_of_def split: option.splits)
  have nonblank: "owner_of d (pw_id p) \<noteq> Some ''''"
    using ok by (auto simp: owner_of_def ownership_ok_def runtime_ok_def split: option.splits dest!: find_key_in)
  note jo = joined_owner_of[OF ok p]
  show ?thesis
  proof (cases "ep_Enabled (pw_profile p)")
    case False
    then have "find (\<lambda>c. asg_profileID c = pw_id p) (pl_assign ?pl) = None"
      using assigned by (auto simp: find_None_iff)
    with False nonblank show ?thesis by (cases "owner_of d (pw_id p)") (auto simp: unassigned jo)
  next
    case True
    have live: "ownerAfter ?pl (ownership_of d p) \<in> set instances"
      using plan_owner_live[OF inst(1) dis, of "ownership_of d p"] p True by (auto simp: set_listed)
    then have "ownerAfter ?pl (ownership_of d p) \<noteq> ''''" using inst(2) by (auto simp: sql_trim_def)
    with True show ?thesis
      by (auto simp: unassigned ownerAfter_def ownership_of_def jo split: option.splits)
  qed
qed

text \<open>One reconcile in a world whose statements do not fail.\<close>

lemma reconcile_owners:
  assumes ok: "ownership_ok (w_db w)" and nofault: "w_faults w = (\<lambda>_. None)"
    and inst: "instances \<noteq> []" "\<forall>i\<in>set instances. sql_trim i \<noteq> ''''"
  obtains w' where "reconcile (Inr instances) w = (Inr (), w')"
    and "db_profiles (w_db w') = db_profiles (w_db w)"
    and "\<forall>p\<in>set (db_profiles (w_db w)). owner_of (w_db w') (pw_id p) =
      (if ep_Enabled (pw_profile p)
       then Some (ownerAfter (planDistribution instances (listed (w_db w))) (ownership_of (w_db w) p)) else None)"
proof -
  let ?d = "w_db w" and ?pl = "planDistribution instances (listed (w_db w))"
  note dis = distinct_listed[OF ok]
  have ex: "exec ListOwnership w = (Inr (listed ?d), (tick w)\<lparr>w_db := ?d\<rparr>)" (is "_ = (_, ?w0)")
    using nofault by (simp add: exec_def ListOwnership_listed)
  have "w_faults ?w0 = (\<lambda>_. None)" using nofault by (simp add: tick_def)
  then obtain w1 where w1: "unassignAll (pl_unassign ?pl) ?w0 = (Inr (), w1)" "w_faults w1 = (\<lambda>_. None)"
    "db_profiles (w_db w1) = db_profiles (w_db ?w0)"
    "owner_of (w_db w1) = (\<lambda>pid. if pid \<in> set (pl_unassign ?pl) then None else owner_of (w_db ?w0) pid)"
    by (rule unassignAll_owner)
  have w0: "w_db ?w0 = ?d" by simp
  note w1 = w1[unfolded w0]
  have "\<forall>c\<in>set (pl_assign ?pl). asg_profileID c \<in> pw_id ` set (db_profiles (w_db w1)) \<and> sql_trim (asg_instanceID c) \<noteq> ''''"
  proof
    fix c assume "c \<in> set (pl_assign ?pl)"
    from plan_assigns(2)[OF inst(1) dis this] inst(2)
    show "asg_profileID c \<in> pw_id ` set (db_profiles (w_db w1)) \<and> sql_trim (asg_instanceID c) \<noteq> ''''"
      by (auto simp: w1(3) set_listed) (metis image_eqI)+
  qed
  with w1(2) plan_assigns(1)[OF inst(1) dis]
  obtain w' where w': "assignAll (pl_assign ?pl) w1 = (Inr (), w')" "db_profiles (w_db w') = db_profiles (w_db w1)"
    "owner_of (w_db w') = (\<lambda>pid. case find (\<lambda>c. asg_profileID c = pid) (pl_assign ?pl) of
       Some c \<Rightarrow> Some (asg_instanceID c) | None \<Rightarrow> owner_of (w_db w1) pid)"
    by (rule assignAll_owner)
  have "reconcile (Inr instances) w = (Inr (), w')"
    using ex w1(1) w'(1) inst(1) by (simp add: reconcile_def bindM_def Let_def)
  moreover have "owner_of (w_db w') (pw_id p) =
      (if ep_Enabled (pw_profile p) then Some (ownerAfter ?pl (ownership_of ?d p)) else None)"
    if p: "p \<in> set (db_profiles ?d)" for p
    unfolding w'(3) w1(4) by (rule planned_owner[OF ok inst p])
  ultimately show thesis using that w1(3) w'(2) by auto
qed

text \<open>A reconcile is a sequence of serving steps, whatever fails in between.\<close>

lemma serving_steps_trans: "serving_steps d1 d2 \<Longrightarrow> serving_steps d d1 \<Longrightarrow> serving_steps d d2"
  by (induction rule: serving_steps.induct) (auto intro: serving_steps.intros)

lemma exec_steps:
  assumes "\<And>t d x d'. s t d = Inr (x, d') \<Longrightarrow> serving_steps d d'"
  shows "serving_steps (w_db w) (w_db (snd (exec s w)))"
  using exec_db[of s w] assms by (auto simp: serving_steps.refl)

lemma loops_steps:
  "serving_steps (w_db w) (w_db (snd (unassignAll pids w)))"
  "serving_steps (w_db w) (w_db (snd (assignAll cs w)))"
proof -
  show "serving_steps (w_db w) (w_db (snd (unassignAll pids w)))"
  proof (induction pids arbitrary: w)
    case (Cons pid pids)
    have "serving_steps (w_db w) (w_db (snd (exec (Unassign pid) w)))"
      by (rule exec_steps) (metis serving_steps.intros serving_step.unassign)
    with Cons show ?case by (auto intro: serving_steps_trans)
  qed (simp add: returnM_def serving_steps.refl)
  show "serving_steps (w_db w) (w_db (snd (assignAll cs w)))"
  proof (induction cs arbitrary: w)
    case (Cons c cs)
    have "serving_steps (w_db w) (w_db (snd (exec (Assign (asg_profileID c) (asg_instanceID c)) w)))"
      by (rule exec_steps) (metis serving_steps.intros serving_step.assign)
    with Cons show ?case by (auto intro: serving_steps_trans)
  qed (simp add: returnM_def serving_steps.refl)
qed

lemma reconcile_steps: "serving_steps (w_db w) (w_db (snd (reconcile services w)))"
proof (cases "\<exists>instances. services = Inr instances \<and> instances \<noteq> []")
  case True
  then obtain instances where inst: "services = Inr instances" "instances \<noteq> []" by blast
  obtain r w0 where ex: "exec ListOwnership w = (r, w0)" by fastforce
  have w0: "serving_steps (w_db w) (w_db w0)"
    using exec_steps[of ListOwnership w] ex
    by (auto simp: ListOwnership_listed serving_steps.refl)
  show ?thesis
  proof (cases r)
    case (Inl e)
    with w0 ex inst show ?thesis by (simp add: reconcile_def)
  next
    case (Inr ps)
    let ?pl = "planDistribution instances ps"
    obtain r1 w1 where un: "unassignAll (pl_unassign ?pl) w0 = (r1, w1)" by fastforce
    have "serving_steps (w_db w0) (w_db w1)" using loops_steps(1)[of w0 "pl_unassign ?pl"] un by simp
    with w0 have "serving_steps (w_db w) (w_db w1)" by (auto intro: serving_steps_trans)
    moreover have "serving_steps (w_db w1) (w_db (snd (assignAll (pl_assign ?pl) w1)))"
      by (rule loops_steps)
    ultimately show ?thesis using ex inst un Inr
      by (cases r1) (auto simp: reconcile_def Let_def bindM_def intro: serving_steps_trans)
  qed
qed (auto simp: reconcile_def returnM_def serving_steps.refl split: sum.splits)

text \<open>
  The task as a whole: however long it runs and whatever fails, it only makes the steps of the
  runtime store, so every profile keeps at most one owner and a token that was superseded
  before stays superseded.
\<close>

lemma Distributor_Run_steps: "serving_steps (w_db w) (w_db (snd (Distributor_Run n getService ready w)))"
proof (induction n arbitrary: w)
  case (Suc n)
  obtain r w1 where rec: "reconcile (getService (w_step w)) (tick w) = (r, w1)" by fastforce
  have "serving_steps (w_db w) (w_db w1)"
    using reconcile_steps[of "tick w" "getService (w_step w)"] rec by (simp add: tick_def)
  moreover have "serving_steps (w_db w1) (w_db (snd (Distributor_Run n getService ready (tick w1))))"
    using Suc.IH[of "tick w1"] by (simp add: tick_def)
  ultimately show ?case using rec by (auto simp: tick_def intro: serving_steps_trans)
qed (simp add: returnM_def serving_steps.refl)

lemma Distributor_Run_keeps_order:
  assumes "serving_steps empty_db (w_db w)"
  shows "ownership_ok (w_db (snd (Distributor_Run n getService ready w)))"
    and "superseded (w_db w) a \<Longrightarrow> \<not> current_token (w_db (snd (Distributor_Run n getService ready w))) a"
proof -
  note steps = Distributor_Run_steps[of w n getService ready]
  show "ownership_ok (w_db (snd (Distributor_Run n getService ready w)))"
    using reachable_ownership_ok[OF steps reachable_ownership_ok[OF assms empty_db_ownership_ok]] .
  have "runtime_ok (w_db w)" using assms empty_db_runtime_ok by (rule reachable_runtime_ok)
  from serving_steps_superseded[OF steps this] superseded_not_current
  show "superseded (w_db w) a \<Longrightarrow> \<not> current_token (w_db (snd (Distributor_Run n getService ready w))) a" by blast
qed

section \<open>Properties\<close>

text \<open>
  C19: After the plan is applied, every enabled profile is owned by one of the given instances
  and every instance has the rounded-down or rounded-up share of the enabled profiles.
\<close>

theorem plan_balances:
  assumes "instances \<noteq> []" and "distinct (map eo_ProfileID ps)"
  shows "balanced instances ps (ownerAfter (planDistribution instances ps))"
  using assms by (rule plan_balanced_lemma)

definition sample_ownership :: "EmailProfileOwnership list" where
  "sample_ownership =
     [\<lparr>eo_ProfileID = 4, eo_Enabled = True, eo_OwnerInstanceID = ''a''\<rparr>,
      \<lparr>eo_ProfileID = 1, eo_Enabled = True, eo_OwnerInstanceID = ''a''\<rparr>,
      \<lparr>eo_ProfileID = 2, eo_Enabled = True, eo_OwnerInstanceID = ''gone''\<rparr>,
      \<lparr>eo_ProfileID = 3, eo_Enabled = False, eo_OwnerInstanceID = ''b''\<rparr>]"

theorem plan_balances_witness:
  "balanced [''b'', ''a'', ''b''] sample_ownership
     (ownerAfter (planDistribution [''b'', ''a'', ''b''] sample_ownership))"
  by (rule plan_balances) (simp_all add: sample_ownership_def)

text \<open>
  C20: The plan moves as few profiles as possible: any choice of owners that is balanced
  changes the owner of at least as many enabled profiles as the plan assigns.
\<close>

theorem plan_is_minimal:
  assumes "instances \<noteq> []" and "distinct (map eo_ProfileID ps)" and "balanced instances ps f"
  shows "length (pl_assign (planDistribution instances ps))
    \<le> length (filter (\<lambda>p. eo_Enabled p \<and> f p \<noteq> eo_OwnerInstanceID p) ps)"
  using assms by (rule plan_minimal_lemma)

theorem plan_is_minimal_witness:
  "length (pl_assign (planDistribution [''a'', ''b''] sample_ownership)) \<le> 1"
  using plan_is_minimal[of "[''a'', ''b'']" sample_ownership
      "\<lambda>p. if eo_ProfileID p = 2 then ''b'' else ''a''"]
  by (simp add: sample_ownership_def balanced_def share_def
        flip: numeral_2_eq_2 numeral_3_eq_3)

text \<open>
  A distribution that is already balanced over live instances is left alone, so a second
  plan after the first has been applied assigns nothing.
\<close>

theorem plan_is_stable:
  assumes "instances \<noteq> []" and "distinct (map eo_ProfileID ps)"
  shows "pl_assign (planDistribution instances
    (map (\<lambda>p. p\<lparr>eo_OwnerInstanceID := ownerAfter (planDistribution instances ps) p\<rparr>) ps)) = []"
proof -
  let ?f = "ownerAfter (planDistribution instances ps)"
  let ?ps = "map (\<lambda>p. p\<lparr>eo_OwnerInstanceID := ?f p\<rparr>) ps"
  have sh: "share eo_OwnerInstanceID ?ps x = share ?f ps x" for x
    by (simp add: share_def filter_map comp_def)
  have bal: "balanced instances ps ?f" using plan_balanced_lemma[OF assms] .
  have "length (filter eo_Enabled ?ps) = length (filter eo_Enabled ps)"
    by (simp add: filter_map comp_def)
  with bal sh have "balanced instances ?ps eo_OwnerInstanceID"
    by (auto simp: balanced_def Let_def)
  from plan_minimal_lemma[OF assms(1) _ this] assms(2) show ?thesis by (simp add: comp_def)
qed

theorem plan_is_stable_witness:
  "pl_assign (planDistribution [''b'', ''a'', ''b'']
     (map (\<lambda>p. p\<lparr>eo_OwnerInstanceID := ownerAfter (planDistribution [''b'', ''a'', ''b''] sample_ownership) p\<rparr>)
        sample_ownership)) = []"
  by (rule plan_is_stable) (simp_all add: sample_ownership_def)

text \<open>
  C18: A reconcile whose statements succeed, on any state the service can reach, leaves every
  enabled profile owned by a live instance, every disabled profile without an owner, and
  the owners the store then lists balanced over the instances.
\<close>

theorem reconcile_serves_every_profile:
  assumes "serving_steps empty_db (w_db w)" and "w_faults w = (\<lambda>_. None)"
    and "instances \<noteq> []" and "\<forall>i\<in>set instances. sql_trim i \<noteq> ''''"
  shows "\<exists>w'. reconcile (Inr instances) w = (Inr (), w') \<and>
    db_profiles (w_db w') = db_profiles (w_db w) \<and>
    (\<forall>p\<in>set (db_profiles (w_db w')). if ep_Enabled (pw_profile p)
       then \<exists>i\<in>set instances. joined_owner (w_db w') p = Some i else joined_owner (w_db w') p = None) \<and>
    (\<exists>ps. ListOwnership now (w_db w') = Inr (ps, w_db w') \<and> balanced instances ps eo_OwnerInstanceID)"
proof -
  let ?d = "w_db w" and ?pl = "planDistribution instances (listed (w_db w))"
  have ok: "ownership_ok ?d" using assms(1) empty_db_ownership_ok by (rule reachable_ownership_ok)
  obtain w' where w': "reconcile (Inr instances) w = (Inr (), w')"
    "db_profiles (w_db w') = db_profiles ?d"
    "\<forall>p\<in>set (db_profiles ?d). owner_of (w_db w') (pw_id p) = (if ep_Enabled (pw_profile p)
       then Some (ownerAfter ?pl (ownership_of ?d p)) else None)"
    using ok assms(2-4) by (rule reconcile_owners)
  have "serving_steps ?d (w_db w')" using reconcile_steps[of w "Inr instances"] w'(1) by simp
  then have ok': "ownership_ok (w_db w')" using ok by (rule reachable_ownership_ok)
  have jo: "joined_owner (w_db w') p = (if ep_Enabled (pw_profile p)
       then Some (ownerAfter ?pl (ownership_of ?d p)) else None)" if "p \<in> set (db_profiles ?d)" for p
    using that w'(3) joined_owner_of[OF ok'] by (simp add: w'(2))
  have bal: "balanced instances (listed ?d) (ownerAfter ?pl)"
    using assms(3) distinct_listed[OF ok] by (rule plan_balanced_lemma)
  have live: "ownerAfter ?pl (ownership_of ?d p) \<in> set instances"
    if "p \<in> set (db_profiles ?d)" "ep_Enabled (pw_profile p)" for p
    using bal that by (auto simp: balanced_def set_listed)
  have "share eo_OwnerInstanceID (listed (w_db w')) x = share (ownerAfter ?pl) (listed ?d) x" for x
    unfolding share_listed w'(2) filter_filter
    by (rule arg_cong[where f = length], rule filter_cong) (auto simp: jo ownership_of_def[of "w_db w'"])
  moreover have "length (filter eo_Enabled (listed (w_db w'))) = length (filter eo_Enabled (listed ?d))"
    by (simp add: enabled_listed w'(2))
  moreover have "\<forall>p\<in>set (listed (w_db w')). eo_Enabled p \<longrightarrow> eo_OwnerInstanceID p \<in> set instances"
    using live jo by (auto simp: set_listed w'(2) ownership_of_def[of "w_db w'"])
  ultimately have "balanced instances (listed (w_db w')) eo_OwnerInstanceID"
    using bal by (simp add: balanced_def Let_def)
  then show ?thesis using w' jo live by (simp add: ListOwnership_listed)
qed

theorem reconcile_serves_every_profile_witness:
  "\<exists>w'. reconcile (Inr [''node-b'']) (sample_world sample_owned) = (Inr (), w') \<and>
    (\<forall>p\<in>set (db_profiles (w_db w')). if ep_Enabled (pw_profile p)
       then \<exists>i\<in>set [''node-b'']. joined_owner (w_db w') p = Some i else joined_owner (w_db w') p = None)"
proof -
  have "serving_steps empty_db (w_db (sample_world sample_owned))"
    "w_faults (sample_world sample_owned) = (\<lambda>_. None)" "[''node-b''] \<noteq> []"
    "\<forall>i\<in>set [''node-b'']. sql_trim i \<noteq> ''''"
    using sample_reachable by (simp_all add: sample_world_def sql_trim_def)
  from reconcile_serves_every_profile[OF this, of 0] show ?thesis by blast
qed

end
