(* ===== verification/Serving_History.thy ===== *)
theory Serving_History
  imports Distribution
begin

text \<open>
  Who may write for a profile, told from what has happened rather than from the table: a history
  lists the assignments the leader made, with the tokens they returned, and what it took back. The
  token of a profile is the last one issued, unless the profile was unassigned or deleted since.
  The theorem says that the writes of \<open>Runtime_Store\<close> accept this token and no other.
\<close>

datatype serving_event = Issued EmailProfileAssignment | Revoked int

text \<open>The history has the latest event first.\<close>

inductive serving_run :: "serving_event list \<Rightarrow> db \<Rightarrow> bool" where
  start: "serving_run [] empty_db"
| issue: "serving_run h d \<Longrightarrow> Assign pid inst now d = Inr (a, d') \<Longrightarrow> serving_run (Issued a # h) d'"
| revoke: "serving_run h d \<Longrightarrow> Unassign pid now d = Inr (u, d') \<Longrightarrow> serving_run (Revoked pid # h) d'"
| start_poll: "serving_run h d \<Longrightarrow> StartPoll a now d = Inr (u, d') \<Longrightarrow> serving_run h d'"
| complete_poll: "serving_run h d \<Longrightarrow> CompletePoll a res now d = Inr (u, d') \<Longrightarrow> serving_run h d'"
| create: "serving_run h d \<Longrightarrow> pw_id p = sq_profile (db_seq d) \<Longrightarrow>
     serving_run h (d\<lparr>db_profiles := db_profiles d @ [p],
                       db_seq := (db_seq d)\<lparr>sq_profile := sq_profile (db_seq d) + 1\<rparr>\<rparr>)"
| delete: "serving_run h d \<Longrightarrow> serving_run (Revoked pid # h)
     (d\<lparr>db_profiles := filter (\<lambda>p. pw_id p \<noteq> pid) (db_profiles d),
        db_runtime := filter (\<lambda>r. rr_profile_id r \<noteq> pid) (db_runtime d)\<rparr>)"

fun holder :: "serving_event list \<Rightarrow> int \<Rightarrow> (string \<times> int) option" where
  "holder [] pid = None"
| "holder (Issued a # h) pid = (if as_ProfileID a = pid then Some (as_OwnerInstanceID a, as_Generation a) else holder h pid)"
| "holder (Revoked q # h) pid = (if q = pid then None else holder h pid)"

lemma serving_run_steps: "serving_run h d \<Longrightarrow> serving_steps empty_db d"
  by (induction rule: serving_run.induct) (blast intro: serving_steps.intros serving_step.intros)+

lemma serving_run_ok:
  assumes "serving_run h d"
  shows "ownership_ok d"
  using serving_run_steps[OF assms] empty_db_ownership_ok by (rule reachable_ownership_ok)

text \<open>The token a runtime row stands for.\<close>

definition row_token :: "runtime_row \<Rightarrow> (string \<times> int) option" where
  "row_token r = map_option (\<lambda>i. (i, rr_assignment_generation r)) (rr_owner_instance_id r)"

definition stored_token :: "db \<Rightarrow> int \<Rightarrow> (string \<times> int) option" where
  "stored_token d pid = Option.bind (find (\<lambda>r. rr_profile_id r = pid) (db_runtime d)) row_token"

lemma stored_token_update:
  assumes "db_runtime d' = update_where P f (db_runtime d)" and "\<And>r. P r \<Longrightarrow> rr_profile_id (f r) = rr_profile_id r"
  shows "stored_token d' pid = Option.bind (find (\<lambda>r. rr_profile_id r = pid) (db_runtime d)) (\<lambda>r. row_token (if P r then f r else r))"
  using find_update_where[of P rr_profile_id f pid "db_runtime d", OF assms(2)]
  by (simp add: stored_token_def assms(1) map_option_case split: option.splits)

lemma stored_token_same:
  assumes "db_runtime d' = update_where P f (db_runtime d)" and "\<And>r. P r \<Longrightarrow> rr_profile_id (f r) = rr_profile_id r"
    and "\<And>r. P r \<Longrightarrow> row_token (f r) = row_token r"
  shows "stored_token d' pid = stored_token d pid"
  using stored_token_update[OF assms(1,2), of pid] assms(3)
  by (cases "find (\<lambda>r. rr_profile_id r = pid) (db_runtime d)") (simp_all add: stored_token_def)

lemma Assign_stored:
  assumes "Assign pid inst now d = Inr (a, d')"
  shows "stored_token d' q = (if q = as_ProfileID a then Some (as_OwnerInstanceID a, as_Generation a) else stored_token d q)"
  using assms
proof (cases rule: Assign_Inr_cases)
  case (insert p)
  have "pw_id p = pid" using insert(1) by (auto dest: find_key_in)
  with insert show ?thesis
    by (auto simp: stored_token_def find_append assignment_of_row_def new_runtime_row_def row_token_def split: option.splits)
next
  case (update r)
  have pid: "rr_profile_id r = pid" using update(1) by (auto dest: find_key_in)
  have "stored_token d' q = Option.bind (find (\<lambda>r. rr_profile_id r = q) (db_runtime d))
      (\<lambda>r. row_token (if rr_profile_id r = pid then assign_row now inst r else r))"
    using update(4) by (intro stored_token_update) simp_all
  with update(1,2) pid show ?thesis
    by (cases "q = pid"; cases "find (\<lambda>r. rr_profile_id r = q) (db_runtime d)")
       (auto simp: stored_token_def row_token_def assignment_of_row_def dest!: find_key_in)
qed

lemma CompletePoll_stored:
  assumes "CompletePoll a res now d = Inr (u, d')"
  shows "stored_token d' pid = stored_token d pid"
proof -
  let ?hit = "\<lambda>r. token_matches a r \<and> joined_profile d r \<noteq> None"
  let ?f = "\<lambda>r. complete_row now res (case joined_profile d r of
     Some p \<Rightarrow> ep_FetchIntervalSeconds (pw_profile p) | None \<Rightarrow> 0) r"
  from assms have "db_runtime d' = update_where ?hit ?f (db_runtime d)"
    by (auto simp: CompletePoll_def requireFencedWrite_def Let_def split: if_splits)
  then show ?thesis by (rule stored_token_same) (simp_all add: row_token_def)
qed

text \<open>The table follows the history.\<close>

lemma stored_holder:
  assumes "serving_run h d"
  shows "stored_token d pid = holder h pid"
  using assms
proof (induction rule: serving_run.induct)
  case start
  show ?case by (simp add: stored_token_def empty_db_def)
next
  case (issue h d q inst now a d')
  then show ?case using Assign_stored[OF issue.hyps(2)] by simp
next
  case (revoke h d q now u d')
  have "stored_token d' pid = Option.bind (find (\<lambda>r. rr_profile_id r = pid) (db_runtime d))
      (\<lambda>r. row_token (if rr_profile_id r = q \<and> rr_owner_instance_id r \<noteq> None
         then r\<lparr>rr_owner_instance_id := None, rr_updated_at := now\<rparr> else r))"
    using revoke.hyps(2) by (intro stored_token_update) (auto simp: Unassign_def)
  with revoke.IH show ?case
    by (cases "find (\<lambda>r. rr_profile_id r = pid) (db_runtime d)")
       (auto simp: stored_token_def row_token_def dest!: find_key_in)
next
  case (start_poll h d a now u d')
  then have "db_runtime d' = update_where (token_matches a)
      (\<lambda>r. r\<lparr>rr_last_poll_started_at := Some now, rr_updated_at := now\<rparr>) (db_runtime d)" by (simp add: StartPoll_Inr)
  then have "stored_token d' pid = stored_token d pid" by (rule stored_token_same) (simp_all add: row_token_def)
  with start_poll.IH show ?case by simp
next
  case (complete_poll h d a res now u d')
  then show ?case using CompletePoll_stored by simp
next
  case (create h d p)
  then show ?case by (simp add: stored_token_def)
next
  case (delete h d q)
  show ?case
  proof (cases "q = pid")
    case True
    then have "find (\<lambda>r. rr_profile_id r = pid) (filter (\<lambda>r. rr_profile_id r \<noteq> q) (db_runtime d)) = None"
      by (auto simp: find_None_iff)
    with True show ?thesis by (simp add: stored_token_def)
  next
    case False
    then show ?thesis using delete.IH by (simp add: stored_token_def find_filter_other)
  qed
qed

lemma current_token_stored:
  assumes "runtime_ok d"
  shows "current_token d a \<longleftrightarrow> stored_token d (as_ProfileID a) = Some (as_OwnerInstanceID a, as_Generation a)"
proof
  assume "current_token d a"
  then obtain r where "find (\<lambda>x. rr_profile_id x = as_ProfileID a) (db_runtime d) = Some r" "token_matches a r"
    using assms by (rule current_row)
  then show "stored_token d (as_ProfileID a) = Some (as_OwnerInstanceID a, as_Generation a)"
    by (simp add: stored_token_def row_token_def token_matches_def)
next
  assume "stored_token d (as_ProfileID a) = Some (as_OwnerInstanceID a, as_Generation a)"
  then obtain r where "find (\<lambda>x. rr_profile_id x = as_ProfileID a) (db_runtime d) = Some r"
    "rr_owner_instance_id r = Some (as_OwnerInstanceID a)" "rr_assignment_generation r = as_Generation a"
    by (auto simp: stored_token_def row_token_def bind_eq_Some_conv)
  then show "current_token d a" by (auto simp: current_token_def token_matches_def dest!: find_key_in)
qed

lemma CompletePoll_succeeds:
  assumes "ownership_ok d" and "current_token d a"
  shows "\<exists>d'. CompletePoll a res now d = Inr ((), d')"
proof -
  from assms(2) obtain r where r: "r \<in> set (db_runtime d)" "token_matches a r" by (auto simp: current_token_def)
  from assms(1) r(1) have "(rr_profile_id r, rr_domain_id r) \<in> (\<lambda>p. (pw_id p, pw_domain p)) ` set (db_profiles d)"
    by (simp add: ownership_ok_def)
  then obtain p where "p \<in> set (db_profiles d)" "pw_id p = rr_profile_id r" "pw_domain p = rr_domain_id r" by auto
  then have "joined_profile d r \<noteq> None" by (auto simp: joined_profile_def find_None_iff)
  with r have "rows_affected (\<lambda>r. token_matches a r \<and> joined_profile d r \<noteq> None) (db_runtime d) \<noteq> 0" by (auto simp: rows_affected_0)
  then show ?thesis by (simp add: CompletePoll_def requireFencedWrite_def Let_def)
qed

section \<open>Properties\<close>

text \<open>
  C16: Only the token issued last can write. After any sequence of assignments, revocations, polls,
  creations and deletions, starting a poll, completing one and the check inside every storing
  transaction succeed for a token whose instance and generation are those the leader's last
  assignment of the profile returned, unless the profile was unassigned or deleted since; with any
  other token, an older one of the same instance too, each of them fails with the
  stale-assignment error.
\<close>

theorem only_the_last_token_writes:
  assumes "serving_run h d"
  shows "if holder h (as_ProfileID a) = Some (as_OwnerInstanceID a, as_Generation a)
    then (\<exists>d'. StartPoll a now d = Inr ((), d')) \<and> (\<exists>d'. CompletePoll a res now d = Inr ((), d')) \<and>
      EnsureEmailProfileAssignment a now d = Inr ((), d)
    else StartPoll a now d = Inl ErrStaleEmailProfileAssignment \<and>
      CompletePoll a res now d = Inl ErrStaleEmailProfileAssignment \<and>
      EnsureEmailProfileAssignment a now d = Inl ErrStaleEmailProfileAssignment"
proof -
  note ok = serving_run_ok[OF assms]
  have iff: "current_token d a \<longleftrightarrow> holder h (as_ProfileID a) = Some (as_OwnerInstanceID a, as_Generation a)"
    using current_token_stored[of d a] ok stored_holder[OF assms] by (simp add: ownership_ok_def)
  show ?thesis
  proof (cases "current_token d a")
    case True
    then have "EnsureEmailProfileAssignment a now d = Inr ((), d)" by (simp add: EnsureEmailProfileAssignment_def current_token_def)
    with True iff CompletePoll_succeeds[OF ok True] show ?thesis by (simp add: StartPoll_Inr)
  next
    case False
    with iff start_poll.stale_fails[OF False] complete_poll.stale_fails[OF False] ensure.stale_fails[OF False]
    show ?thesis by simp
  qed
qed

text \<open>A profile that went from one instance to another and came back.\<close>

definition sample_returned :: db where
  "sample_returned = sample_moved\<lparr>db_runtime := map (assign_row 300 ''node-a'') (db_runtime sample_moved)\<rparr>"

definition sample_history :: "serving_event list" where
  "sample_history = [Issued (sample_token\<lparr>as_Generation := 3\<rparr>),
     Issued (sample_token\<lparr>as_OwnerInstanceID := ''node-b'', as_Generation := 2\<rparr>), Issued sample_token]"

lemma sample_returns:
  "Assign 1 ''node-a'' 300 sample_moved = Inr (sample_token\<lparr>as_Generation := 3\<rparr>, sample_returned)"
  by (simp add: Assign_def sample_defs sample_returned_def)

lemma sample_history_run: "serving_run sample_history sample_returned"
proof -
  have "serving_run [] sample_db"
    using serving_run.create[OF serving_run.start, of sample_profile] by (simp add: sample_defs)
  then show ?thesis unfolding sample_history_def
    by (intro serving_run.issue[OF _ sample_returns] serving_run.issue[OF _ sample_reassign] serving_run.issue[OF _ sample_assign])
qed

theorem only_the_last_token_writes_witness:
  "StartPoll sample_token 400 sample_returned = Inl ErrStaleEmailProfileAssignment \<and>
   (\<exists>d'. StartPoll (sample_token\<lparr>as_Generation := 3\<rparr>) 400 sample_returned = Inr ((), d'))"
  using only_the_last_token_writes[OF sample_history_run, of sample_token 400]
    only_the_last_token_writes[OF sample_history_run, of "sample_token\<lparr>as_Generation := 3\<rparr>" 400]
  by (simp add: sample_history_def sample_token_def)

end
