(* ===== verification/Outbox_Store.thy ===== *)
theory Outbox_Store
  imports Email_Db "HOL-Library.Product_Lexorder"
begin

text \<open>
  The transactional outbox of \<^verbatim>\<open>internal/store/postgres/outbox_store.go\<close> over the table of
  \<^verbatim>\<open>migrations/00008_create_email_outbox.sql\<close>. A NULL text column is the empty string, as Go reads it. Every
  statement runs atomically, so \<^verbatim>\<open>FOR UPDATE SKIP LOCKED\<close> has nothing to skip; what
  concurrent relays and writers do is an interleaving of these statements
  (\<open>outbox_step\<close>). The payload column only accepts JSON; what is appended is the output of
  \<^verbatim>\<open>json.Marshal\<close>.
\<close>

section \<open>Appending\<close>

definition same_event :: "OutboxEvent \<Rightarrow> OutboxEvent \<Rightarrow> bool" where
  "same_event a b \<longleftrightarrow> oe_DedupKey a \<noteq> '''' \<and> oe_DedupKey a = oe_DedupKey b \<and> oe_EventType a = oe_EventType b"

definition pending_row :: "OutboxEvent \<Rightarrow> time \<Rightarrow> OutboxEvent" where
  "pending_row ev now = ev\<lparr>oe_State := OutboxEventStatePending, oe_Attempts := 0, oe_NextAttemptAt := now,
     oe_LockedBy := '''', oe_LockedUntil := None, oe_PublishedAt := None, oe_LastError := '''',
     oe_CreatedAt := now, oe_UpdatedAt := now\<rparr>"

definition insertOutbox :: "OutboxEvent \<Rightarrow> bool stmt" where
  "insertOutbox ev now d =
     (if \<exists>e\<in>set (db_outbox d). same_event ev e then Inr (False, d)
      else if \<exists>e\<in>set (db_outbox d). oe_EventID e = oe_EventID ev then Inl (DatabaseError ''outbox_pkey'')
      else Inr (True, d\<lparr>db_outbox := db_outbox d @ [pending_row ev now]\<rparr>))"

definition Append :: "OutboxEvent \<Rightarrow> bool io" where
  "Append ev w =
     (if w_tx w = None then (Inl ErrOutboxNeedsTransaction, w)
      else case OutboxEvent_Validate (Some ev) of
        Some e \<Rightarrow> (Inl e, w)
      | None \<Rightarrow> exec (insertOutbox ev) w)"

section \<open>Publishing\<close>

text \<open>An update of the outbox; every one of them stamps \<^verbatim>\<open>updated_at\<close>.\<close>

definition update_outbox ::
  "(OutboxEvent \<Rightarrow> bool) \<Rightarrow> (OutboxEvent \<Rightarrow> OutboxEvent) \<Rightarrow> time \<Rightarrow> db \<Rightarrow> db" where
  "update_outbox P f now d = d\<lparr>db_outbox := update_where P (\<lambda>e. (f e)\<lparr>oe_UpdatedAt := now\<rparr>) (db_outbox d)\<rparr>"

definition released :: "OutboxEvent \<Rightarrow> OutboxEvent" where
  "released e = e\<lparr>oe_State := OutboxEventStatePending, oe_LockedBy := '''', oe_LockedUntil := None\<rparr>"

definition expired :: "time \<Rightarrow> OutboxEvent \<Rightarrow> bool" where
  "expired now e = (case oe_LockedUntil e of None \<Rightarrow> False | Some t \<Rightarrow> t < now)"

definition RecoverLeases :: "string \<Rightarrow> bool \<Rightarrow> int stmt" where
  "RecoverLeases owner own now d =
     (let hit = (\<lambda>e. oe_State e = OutboxEventStateProcessing \<and> (expired now e \<or> (own \<and> oe_LockedBy e = owner)))
      in Inr (int (rows_affected hit (db_outbox d)), update_outbox hit released now d))"

definition publication_order :: "OutboxEvent \<Rightarrow> time \<times> time \<times> uuid" where
  "publication_order e = (oe_NextAttemptAt e, oe_CreatedAt e, oe_EventID e)"

definition due :: "time \<Rightarrow> OutboxEvent \<Rightarrow> bool" where
  "due now e \<longleftrightarrow> oe_State e = OutboxEventStatePending \<and> oe_NextAttemptAt e \<le> now"

definition due_rows :: "nat \<Rightarrow> time \<Rightarrow> OutboxEvent list \<Rightarrow> OutboxEvent list" where
  "due_rows limit now rows = take limit (sort_key publication_order (filter (due now) rows))"

text \<open>\<^verbatim>\<open>Duration.Milliseconds\<close> truncates toward zero.\<close>

definition Milliseconds :: "duration \<Rightarrow> int" where
  "Milliseconds d = sgn d * (\<bar>d\<bar> div 1000000)"

definition leased :: "string \<Rightarrow> time \<Rightarrow> OutboxEvent \<Rightarrow> OutboxEvent" where
  "leased owner until e = e\<lparr>oe_State := OutboxEventStateProcessing, oe_LockedBy := owner,
     oe_LockedUntil := Some until\<rparr>"

text \<open>The columns \<^verbatim>\<open>published_at\<close> and \<^verbatim>\<open>last_error\<close> are not among the ones \<^verbatim>\<open>Claim\<close> returns.\<close>

definition claimed :: "OutboxEvent \<Rightarrow> OutboxEvent" where
  "claimed e = e\<lparr>oe_PublishedAt := None, oe_LastError := ''''\<rparr>"

definition Claim :: "string \<Rightarrow> int \<Rightarrow> duration \<Rightarrow> OutboxEvent list stmt" where
  "Claim owner limit lease now d =
     (if limit < 0 then Inl (DatabaseError ''LIMIT must not be negative'')
      else
        let ids = map oe_EventID (due_rows (nat limit) now (db_outbox d));
            hit = (\<lambda>e. oe_EventID e \<in> set ids);
            d' = update_outbox hit (leased owner (now + Milliseconds lease * 1000000)) now d
        in Inr (sort_key publication_order (map claimed (filter hit (db_outbox d'))), d'))"

definition heldBy :: "string \<Rightarrow> OutboxEvent \<Rightarrow> bool" where
  "heldBy owner e \<longleftrightarrow> oe_State e = OutboxEventStateProcessing \<and> oe_LockedBy e = owner"

definition MarkPublished :: "string \<Rightarrow> uuid \<Rightarrow> bool stmt" where
  "MarkPublished owner eventID now d =
     (let hit = (\<lambda>e. oe_EventID e = eventID \<and> heldBy owner e)
      in Inr (rows_affected hit (db_outbox d) = 1,
              update_outbox hit (\<lambda>e. e\<lparr>oe_State := OutboxEventStatePublished, oe_PublishedAt := Some now,
                oe_LockedBy := '''', oe_LockedUntil := None, oe_LastError := ''''\<rparr>) now d))"

definition Release :: "string \<Rightarrow> uuid list \<Rightarrow> time \<Rightarrow> unit stmt" where
  "Release owner eventIDs nextAttemptAt now d =
     (if eventIDs = [] then Inr ((), d)
      else Inr ((), update_outbox (\<lambda>e. oe_EventID e \<in> set eventIDs \<and> heldBy owner e)
                      (\<lambda>e. (released e)\<lparr>oe_NextAttemptAt := nextAttemptAt\<rparr>) now d))"

definition OutboxMarkFailed :: "string \<Rightarrow> uuid \<Rightarrow> string \<Rightarrow> bool stmt" where
  "OutboxMarkFailed owner eventID reason now d =
     (let hit = (\<lambda>e. oe_EventID e = eventID \<and> heldBy owner e)
      in Inr (rows_affected hit (db_outbox d) = 1,
              update_outbox hit (\<lambda>e. e\<lparr>oe_State := OutboxEventStateFailed, oe_Attempts := oe_Attempts e + 1,
                oe_LastError := take 1024 reason, oe_LockedBy := '''', oe_LockedUntil := None\<rparr>) now d))"

definition deletable :: "time \<Rightarrow> OutboxEvent \<Rightarrow> bool" where
  "deletable before e \<longleftrightarrow> oe_State e = OutboxEventStatePublished \<and>
     (case oe_PublishedAt e of None \<Rightarrow> False | Some t \<Rightarrow> t < before)"

definition published_at :: "OutboxEvent \<Rightarrow> time" where
  "published_at e = (case oe_PublishedAt e of None \<Rightarrow> 0 | Some t \<Rightarrow> t)"

definition DeletePublishedBefore :: "time \<Rightarrow> int \<Rightarrow> int stmt" where
  "DeletePublishedBefore before limit now d =
     (if limit < 0 then Inl (DatabaseError ''LIMIT must not be negative'')
      else
        let ids = map oe_EventID (take (nat limit) (sort_key published_at (filter (deletable before) (db_outbox d))));
            gone = (\<lambda>e. oe_EventID e \<in> set ids)
        in Inr (int (rows_affected gone (db_outbox d)),
                d\<lparr>db_outbox := filter (\<lambda>e. \<not> gone e) (db_outbox d)\<rparr>))"

record OutboxBacklog =
  bl_Pending :: int
  bl_Processing :: int
  bl_Failed :: int
  bl_OldestUndelivered :: duration

text \<open>The age is computed in floating point in the code; here it is exact.\<close>

definition Backlog :: "OutboxBacklog stmt" where
  "Backlog now d =
     (let inState = (\<lambda>s. filter (\<lambda>e. oe_State e = s) (db_outbox d));
          waiting = map oe_CreatedAt (inState OutboxEventStatePending @ inState OutboxEventStateProcessing)
      in Inr (\<lparr>bl_Pending = int (length (inState OutboxEventStatePending)),
               bl_Processing = int (length (inState OutboxEventStateProcessing)),
               bl_Failed = int (length (inState OutboxEventStateFailed)),
               bl_OldestUndelivered = (if waiting = [] then 0 else now - fold min waiting (hd waiting))\<rparr>, d))"

section \<open>What every statement keeps\<close>

text \<open>The part of a row that is published, and that no statement may touch.\<close>

definition content :: "OutboxEvent \<Rightarrow> uuid \<times> int \<times> string \<times> int \<times> string \<times> string \<times> string \<times> string \<times> time" where
  "content e = (oe_EventID e, oe_DomainID e, oe_EventType e, oe_SchemaVersion e, oe_DedupKey e,
     oe_Exchange e, oe_RoutingKey e, oe_Payload e, oe_CreatedAt e)"

lemma content_claimed [simp]: "content (claimed e) = content e"
  by (simp add: content_def claimed_def)

text \<open>The check constraints of the table.\<close>

definition row_ok :: "OutboxEvent \<Rightarrow> bool" where
  "row_ok e \<longleftrightarrow> 0 < oe_DomainID e \<and> oe_EventType e \<noteq> '''' \<and> oe_Exchange e \<noteq> '''' \<and> oe_RoutingKey e \<noteq> '''' \<and>
     0 < oe_SchemaVersion e \<and> 0 \<le> oe_Attempts e \<and>
     (oe_State e = OutboxEventStateProcessing \<longleftrightarrow> oe_LockedUntil e \<noteq> None) \<and>
     (oe_State e = OutboxEventStatePublished \<longleftrightarrow> oe_PublishedAt e \<noteq> None)"

definition outbox_ok :: "db \<Rightarrow> bool" where
  "outbox_ok d \<longleftrightarrow> distinct (map oe_EventID (db_outbox d)) \<and> list_all row_ok (db_outbox d) \<and>
     distinct (map (\<lambda>e. (oe_EventType e, oe_DedupKey e)) (filter (\<lambda>e. oe_DedupKey e \<noteq> '''') (db_outbox d)))"

text \<open>How a row may move through publication.\<close>

fun legal :: "OutboxEventState \<Rightarrow> OutboxEventState \<Rightarrow> bool" where
  "legal OutboxEventStatePending s \<longleftrightarrow> s \<in> {OutboxEventStatePending, OutboxEventStateProcessing}"
| "legal OutboxEventStateProcessing s \<longleftrightarrow> True"
| "legal OutboxEventStatePublished s \<longleftrightarrow> s = OutboxEventStatePublished"
| "legal OutboxEventStateFailed s \<longleftrightarrow> s = OutboxEventStateFailed"

text \<open>
  From \<open>d\<close> to \<open>d'\<close> no event is lost unless it was published, what an event says does not
  change, and its state moves as it may.
\<close>

definition evolves :: "db \<Rightarrow> db \<Rightarrow> bool" where
  "evolves d d' \<longleftrightarrow> (\<forall>e\<in>set (db_outbox d).
     (\<exists>e'\<in>set (db_outbox d'). content e' = content e \<and> legal (oe_State e) (oe_State e')) \<or>
     oe_State e = OutboxEventStatePublished)"

lemma legal_refl [simp]: "legal s s"
  by (cases s) simp_all

lemma evolves_refl: "evolves d d"
  by (auto simp: evolves_def)

text \<open>
  The interface of a row update: which rows of a sound table it touches and what it makes of
  them. Every update of the relay is an instance.
\<close>

locale lawful_update =
  fixes hit :: "db \<Rightarrow> time \<Rightarrow> OutboxEvent \<Rightarrow> bool" and f :: "time \<Rightarrow> OutboxEvent \<Rightarrow> OutboxEvent"
  assumes keeps_content: "content (f now e) = content e"
    and keeps_row: "outbox_ok d \<Longrightarrow> e \<in> set (db_outbox d) \<Longrightarrow> hit d now e \<Longrightarrow> row_ok (f now e)"
    and moves: "outbox_ok d \<Longrightarrow> e \<in> set (db_outbox d) \<Longrightarrow> hit d now e \<Longrightarrow> legal (oe_State e) (oe_State (f now e))"
begin

abbreviation result :: "time \<Rightarrow> db \<Rightarrow> db" where
  "result now d \<equiv> update_outbox (hit d now) (f now) now d"

lemma contents: "map content (db_outbox (result now d)) = map content (db_outbox d)"
proof -
  have "content ((f now e)\<lparr>oe_UpdatedAt := now\<rparr>) = content e" for e
    using keeps_content[of now e] by (simp add: content_def)
  then show ?thesis by (simp add: update_outbox_def map_update_where)
qed

lemma key: "map (\<lambda>e. k (content e)) (db_outbox (result now d)) = map (\<lambda>e. k (content e)) (db_outbox d)"
  using arg_cong[OF contents, of "map k"] by (simp add: comp_def)

lemma lawful: "outbox_ok d \<Longrightarrow> outbox_ok (result now d)"
proof -
  assume ok: "outbox_ok d"
  have ids: "map oe_EventID (db_outbox (result now d)) = map oe_EventID (db_outbox d)"
    using key[of "\<lambda>(i, _). i"] by (simp add: content_def)
  have "map (\<lambda>e. (oe_EventType e, oe_DedupKey e)) (db_outbox (result now d))
      = map (\<lambda>e. (oe_EventType e, oe_DedupKey e)) (db_outbox d)"
    using key[of "\<lambda>(i, dm, ty, v, k, _). (ty, k)"] by (simp add: content_def)
  from arg_cong[OF this, of "filter (\<lambda>(ty, k). k \<noteq> [])"]
  have dedup: "map (\<lambda>e. (oe_EventType e, oe_DedupKey e)) (filter (\<lambda>e. oe_DedupKey e \<noteq> []) (db_outbox (result now d)))
      = map (\<lambda>e. (oe_EventType e, oe_DedupKey e)) (filter (\<lambda>e. oe_DedupKey e \<noteq> []) (db_outbox d))"
    by (simp add: filter_map comp_def)
  have "\<forall>e\<in>set (db_outbox (result now d)). row_ok e"
    using ok keeps_row[OF ok] by (auto simp: update_outbox_def ball_update_where outbox_ok_def list_all_iff row_ok_def)
  with ok ids dedup show ?thesis by (simp add: outbox_ok_def list_all_iff)
qed

lemma evolving: "outbox_ok d \<Longrightarrow> evolves d (result now d)"
proof -
  assume ok: "outbox_ok d"
  have "\<exists>e'\<in>set (db_outbox (result now d)). content e' = content e \<and> legal (oe_State e) (oe_State e')"
    if e: "e \<in> set (db_outbox d)" for e
  proof -
    have c: "content ((f now e)\<lparr>oe_UpdatedAt := now\<rparr>) = content e"
      using keeps_content[of now e] by (simp add: content_def)
    show ?thesis
      unfolding update_outbox_def
      by (simp add: bex_update_where)
         (rule bexI[OF _ e], use c moves[OF ok e] in auto)
  qed
  then show ?thesis by (auto simp: evolves_def)
qed

end

lemma due_rows_set:
  assumes "outbox_ok d" and "e \<in> set (db_outbox d)"
    and "oe_EventID e \<in> oe_EventID ` set (due_rows n now (db_outbox d))"
  shows "due now e"
proof -
  from assms(3) obtain x where x: "x \<in> set (due_rows n now (db_outbox d))" "oe_EventID x = oe_EventID e" by auto
  then have "x \<in> set (db_outbox d)" "due now x"
    by (auto simp: due_rows_def dest!: in_set_takeD)
  moreover have "x = e"
    using assms(1,2) x(2) \<open>x \<in> set (db_outbox d)\<close> by (auto simp: outbox_ok_def distinct_map dest: inj_onD)
  ultimately show ?thesis by simp
qed

lemma outbox_row: "outbox_ok d \<Longrightarrow> e \<in> set (db_outbox d) \<Longrightarrow> row_ok e"
  by (simp add: outbox_ok_def list_all_iff)

lemmas update_rows = content_def row_ok_def released_def leased_def heldBy_def due_def

interpretation recover: lawful_update
    "\<lambda>d now e. oe_State e = OutboxEventStateProcessing \<and> (expired now e \<or> (own \<and> oe_LockedBy e = owner))"
    "\<lambda>now. released" for own owner
  by unfold_locales (auto simp: update_rows dest: outbox_row)

interpretation claim: lawful_update
    "\<lambda>d now e. oe_EventID e \<in> oe_EventID ` set (due_rows n now (db_outbox d))"
    "\<lambda>now. leased owner (now + lease)" for n owner lease
proof unfold_locales
  fix now e d
  show "content (leased owner (now + lease) e) = content e" by (simp add: update_rows)
  assume "outbox_ok d" "e \<in> set (db_outbox d)" "oe_EventID e \<in> oe_EventID ` set (due_rows n now (db_outbox d))"
  from outbox_row[OF this(1,2)] due_rows_set[OF this]
  show "row_ok (leased owner (now + lease) e)" and "legal (oe_State e) (oe_State (leased owner (now + lease) e))"
    by (auto simp: update_rows)
qed

interpretation published: lawful_update
    "\<lambda>d now e. oe_EventID e = eventID \<and> heldBy owner e"
    "\<lambda>now e. e\<lparr>oe_State := OutboxEventStatePublished, oe_PublishedAt := Some now, oe_LockedBy := '''',
       oe_LockedUntil := None, oe_LastError := ''''\<rparr>" for eventID owner
  by unfold_locales (auto simp: update_rows dest: outbox_row)

interpretation release: lawful_update
    "\<lambda>d now e. oe_EventID e \<in> ids \<and> heldBy owner e"
    "\<lambda>now e. (released e)\<lparr>oe_NextAttemptAt := at\<rparr>" for ids owner at
  by unfold_locales (auto simp: update_rows dest: outbox_row)

interpretation failed: lawful_update
    "\<lambda>d now e. oe_EventID e = eventID \<and> heldBy owner e"
    "\<lambda>now e. e\<lparr>oe_State := OutboxEventStateFailed, oe_Attempts := oe_Attempts e + 1,
       oe_LastError := take 1024 reason, oe_LockedBy := '''', oe_LockedUntil := None\<rparr>" for eventID owner reason
  by unfold_locales (auto simp: update_rows dest: outbox_row)

section \<open>Interleaved writers and relays\<close>

text \<open>Any statement of any writer or relay, at any time.\<close>

inductive outbox_step :: "db \<Rightarrow> db \<Rightarrow> bool" where
  append: "OutboxEvent_Validate (Some ev) = None \<Longrightarrow> insertOutbox ev now d = Inr (b, d') \<Longrightarrow> outbox_step d d'"
| recover: "RecoverLeases owner own now d = Inr (n, d') \<Longrightarrow> outbox_step d d'"
| claim: "Claim owner limit lease now d = Inr (es, d') \<Longrightarrow> outbox_step d d'"
| published: "MarkPublished owner eventID now d = Inr (b, d') \<Longrightarrow> outbox_step d d'"
| release: "Release owner ids at now d = Inr (u, d') \<Longrightarrow> outbox_step d d'"
| failed: "OutboxMarkFailed owner eventID reason now d = Inr (b, d') \<Longrightarrow> outbox_step d d'"
| deleted: "DeletePublishedBefore before limit now d = Inr (n, d') \<Longrightarrow> outbox_step d d'"

lemma append_ok:
  assumes "outbox_ok d" and "OutboxEvent_Validate (Some ev) = None" and "insertOutbox ev now d = Inr (b, d')"
  shows "outbox_ok d'" and "evolves d d'"
proof -
  have row: "row_ok (pending_row ev now)"
    using assms(2) by (auto simp: OutboxEvent_Validate_None row_ok_def pending_row_def)
  from assms(1,3) row show "outbox_ok d'"
    by (auto simp: outbox_ok_def insertOutbox_def same_event_def pending_row_def split: if_splits) blast+
  from assms(3) evolves_refl[of d] show "evolves d d'"
    by (auto simp: insertOutbox_def evolves_def split: if_splits)
qed

lemma deleted_ok:
  assumes "outbox_ok d" and "DeletePublishedBefore before limit now d = Inr (n, d')"
  shows "outbox_ok d'" and "evolves d d'"
proof -
  define ids where "ids = oe_EventID ` set (take (nat limit) (sort_key published_at (filter (deletable before) (db_outbox d))))"
  from assms(2) have d': "d' = d\<lparr>db_outbox := filter (\<lambda>e. oe_EventID e \<notin> ids) (db_outbox d)\<rparr>"
    by (auto simp: DeletePublishedBefore_def Let_def ids_def split: if_splits)
  have "filter (\<lambda>e. oe_DedupKey e \<noteq> []) (filter (\<lambda>e. oe_EventID e \<notin> ids) (db_outbox d))
      = filter (\<lambda>e. oe_EventID e \<notin> ids) (filter (\<lambda>e. oe_DedupKey e \<noteq> []) (db_outbox d))"
    by (simp add: conj_commute)
  with assms(1) show "outbox_ok d'"
    by (simp add: outbox_ok_def d' list_all_iff distinct_map_filter del: filter_filter)
  have "oe_State e = OutboxEventStatePublished" if e: "e \<in> set (db_outbox d)" "oe_EventID e \<in> ids" for e
  proof -
    from e(2) obtain x where x: "x \<in> set (db_outbox d)" "deletable before x" "oe_EventID x = oe_EventID e"
      by (auto simp: ids_def dest!: in_set_takeD)
    with e(1) assms(1) have "x = e" by (auto simp: outbox_ok_def distinct_map dest: inj_onD)
    with x(2) show ?thesis by (simp add: deletable_def)
  qed
  then show "evolves d d'" by (auto simp: evolves_def d')
qed

lemma outbox_step_ok:
  assumes "outbox_step d d'" and "outbox_ok d"
  shows "outbox_ok d' \<and> evolves d d'"
  using assms
proof cases
  case append
  with append_ok[OF assms(2)] show ?thesis by blast
next
  case (recover owner own now n)
  then show ?thesis using recover.lawful[OF assms(2)] recover.evolving[OF assms(2)]
    by (auto simp: RecoverLeases_def Let_def)
next
  case (claim owner limit lease now es)
  then show ?thesis using claim.lawful[OF assms(2)] claim.evolving[OF assms(2)]
    by (auto simp: Claim_def Let_def split: if_splits)
next
  case (published owner eventID now b)
  then show ?thesis using published.lawful[OF assms(2)] published.evolving[OF assms(2)]
    by (auto simp: MarkPublished_def Let_def)
next
  case (release owner ids at now u)
  then show ?thesis using release.lawful[OF assms(2), of "set ids"] release.evolving[OF assms(2), of "set ids"]
      assms(2) evolves_refl
    by (auto simp: Release_def split: if_splits)
next
  case (failed owner eventID reason now b)
  then show ?thesis using failed.lawful[OF assms(2)] failed.evolving[OF assms(2)]
    by (auto simp: OutboxMarkFailed_def Let_def)
next
  case deleted
  with deleted_ok[OF assms(2)] show ?thesis by blast
qed

lemma outbox_steps_ok: "outbox_step\<^sup>*\<^sup>* d d' \<Longrightarrow> outbox_ok d \<Longrightarrow> outbox_ok d'"
  by (induction rule: rtranclp_induct) (auto dest: outbox_step_ok)

lemma outbox_steps_survive:
  assumes "outbox_step\<^sup>*\<^sup>* d d'" and "outbox_ok d" and "e \<in> set (db_outbox d)"
  shows "(\<exists>e'\<in>set (db_outbox d'). content e' = content e) \<or>
    (\<exists>m. outbox_step\<^sup>*\<^sup>* d m \<and> outbox_step\<^sup>*\<^sup>* m d' \<and>
       (\<exists>e'\<in>set (db_outbox m). content e' = content e \<and> oe_State e' = OutboxEventStatePublished))"
  using assms(1)
proof (induction rule: rtranclp_induct)
  case (step y z)
  from step.IH show ?case
  proof (elim disjE bexE)
    fix e' assume e': "e' \<in> set (db_outbox y)" "content e' = content e"
    have "evolves y z"
      using outbox_step_ok[OF step.hyps(2) outbox_steps_ok[OF step.hyps(1) assms(2)]] by simp
    with e'(1) consider e'' where "e'' \<in> set (db_outbox z)" "content e'' = content e'"
      | "oe_State e' = OutboxEventStatePublished" unfolding evolves_def by blast
    then show ?thesis
    proof cases
      case 1
      with e'(2) show ?thesis by auto
    next
      case 2
      with e' step.hyps show ?thesis by (intro disjI2 exI[of _ y]) auto
    qed
  next
    assume "\<exists>m. outbox_step\<^sup>*\<^sup>* d m \<and> outbox_step\<^sup>*\<^sup>* m y \<and>
       (\<exists>e'\<in>set (db_outbox m). content e' = content e \<and> oe_State e' = OutboxEventStatePublished)"
    with step.hyps(2) show ?thesis by (meson rtranclp.rtrancl_into_rtrancl)
  qed
qed (use assms(3) in auto)

section \<open>Properties\<close>

text \<open>
  C21: No event of the outbox is ever lost. Whatever writers and relays do, in any order, an
  event that was appended stays in the table with the content it was written with until it
  has been marked as published; only then may it be deleted. Throughout, event ids are
  unique, one event exists per type and dedup key, and the constraints of the table hold.
\<close>

theorem event_survives_until_published:
  assumes "db_outbox d0 = []" and "outbox_step\<^sup>*\<^sup>* d0 d" and "e \<in> set (db_outbox d)" and "outbox_step\<^sup>*\<^sup>* d d'"
  shows "outbox_ok d' \<and> ((\<exists>e'\<in>set (db_outbox d'). content e' = content e) \<or>
    (\<exists>m. outbox_step\<^sup>*\<^sup>* d m \<and> outbox_step\<^sup>*\<^sup>* m d' \<and>
       (\<exists>e'\<in>set (db_outbox m). content e' = content e \<and> oe_State e' = OutboxEventStatePublished)))"
proof -
  have "outbox_ok d" using outbox_steps_ok[OF assms(2)] assms(1) by (simp add: outbox_ok_def)
  then show ?thesis using outbox_steps_ok[OF assms(4)] outbox_steps_survive[OF assms(4) _ assms(3)] by simp
qed

definition sample_event :: OutboxEvent where
  "sample_event = \<lparr>oe_EventID = 7, oe_DomainID = 1, oe_EventType = ''t'', oe_SchemaVersion = 1, oe_DedupKey = ''1:1'',
     oe_Exchange = ''x'', oe_RoutingKey = ''r'', oe_Payload = ''{}'', oe_State = OutboxEventStatePending, oe_Attempts = 0,
     oe_NextAttemptAt = 0, oe_LockedBy = '''', oe_LockedUntil = None, oe_PublishedAt = None, oe_LastError = '''',
     oe_CreatedAt = 0, oe_UpdatedAt = 0\<rparr>"

definition sample_outbox :: db where
  "sample_outbox = empty_db\<lparr>db_outbox := [pending_row sample_event 0]\<rparr>"

lemma sample_append: "outbox_step empty_db sample_outbox"
  by (rule outbox_step.append[of sample_event 0 _ True])
     (simp_all add: insertOutbox_def sample_outbox_def empty_db_def OutboxEvent_Validate_None sample_event_def)

theorem event_survives_until_published_witness:
  "\<exists>d'. Claim ''a'' 10 second 5 sample_outbox = Inr ([claimed (leased ''a'' 1000000005 (pending_row sample_event 0))\<lparr>oe_UpdatedAt := 5\<rparr>], d') \<and>
     outbox_ok d' \<and> ((\<exists>e'\<in>set (db_outbox d'). content e' = content (pending_row sample_event 0)) \<or>
    (\<exists>m. outbox_step\<^sup>*\<^sup>* sample_outbox m \<and> outbox_step\<^sup>*\<^sup>* m d' \<and>
       (\<exists>e'\<in>set (db_outbox m). content e' = content (pending_row sample_event 0) \<and>
          oe_State e' = OutboxEventStatePublished)))"
proof -
  obtain d' where c: "Claim ''a'' 10 second 5 sample_outbox
      = Inr ([claimed (leased ''a'' 1000000005 (pending_row sample_event 0))\<lparr>oe_UpdatedAt := 5\<rparr>], d')"
    by (simp add: Claim_def Let_def sample_outbox_def due_rows_def due_def pending_row_def Milliseconds_def
          update_outbox_def leased_def claimed_def sample_event_def empty_db_def)
  from outbox_step.claim[OF c] have step: "outbox_step\<^sup>*\<^sup>* sample_outbox d'" by blast
  have "db_outbox empty_db = []" "pending_row sample_event 0 \<in> set (db_outbox sample_outbox)"
    by (simp_all add: empty_db_def sample_outbox_def)
  moreover have "outbox_step\<^sup>*\<^sup>* empty_db sample_outbox" using sample_append by blast
  ultimately show ?thesis using event_survives_until_published[of empty_db sample_outbox _ d'] step c by blast
qed

end
