(* ===== verification/Outbox_Relay.thy ===== *)
theory Outbox_Relay
  imports Outbox_Store
begin

text \<open>
  The relay of \<^verbatim>\<open>internal/outbox/relay.go\<close>, which moves pending outbox rows to the broker
  while its instance is the leader. The state of a term is passed along explicitly; the
  broker is an argument, because it is a client of RabbitMQ: for the n-th observation it
  says whether an exchange declaration and a publication succeed, and whether a failed
  publication reached the queue all the same. A publication without an error was confirmed
  by the broker (\<^verbatim>\<open>Broker.Publish\<close> in \<^verbatim>\<open>infra/pubsub/pubsub.go\<close>), and the accepted events are
  \<open>w_sent\<close>. Logging is left out.
\<close>

section \<open>State\<close>

record OutboxConfig =
  oc_PublishTimeout :: duration
  oc_PollInterval :: duration
  oc_BatchSize :: int
  oc_LeaseDuration :: duration
  oc_RetryInitialInterval :: duration
  oc_RetryMaxInterval :: duration
  oc_Retention :: duration
  oc_CleanupInterval :: duration
  oc_CleanupBatch :: int

record Relay =
  ry_owner :: string
  ry_cfg :: OutboxConfig
  ry_maxPayloadSize :: int

record term_state =
  tm_recovered :: bool
  tm_declared :: bool
  tm_backoff :: duration

definition newTerm :: term_state where
  "newTerm = \<lparr>tm_recovered = False, tm_declared = False, tm_backoff = 0\<rparr>"

record broker =
  br_DeclareTopology :: "nat \<Rightarrow> error option"
  br_Publish :: "nat \<Rightarrow> OutboxEvent \<Rightarrow> (error \<times> bool) option"

definition DeclareTopology :: "broker \<Rightarrow> unit io" where
  "DeclareTopology br w = (case br_DeclareTopology br (w_step w) of
     Some e \<Rightarrow> (Inl e, tick w) | None \<Rightarrow> (Inr (), tick w))"

definition accept :: "OutboxEvent \<Rightarrow> world \<Rightarrow> world" where
  "accept ev w = w\<lparr>w_sent := w_sent w @ [ev]\<rparr>"

definition Publish :: "broker \<Rightarrow> OutboxEvent \<Rightarrow> unit io" where
  "Publish br ev w = (case br_Publish br (w_step w) ev of
     None \<Rightarrow> (Inr (), accept ev (tick w))
   | Some (e, accepted) \<Rightarrow> (Inl e, if accepted then accept ev (tick w) else tick w))"

section \<open>Operations\<close>

definition cancelled :: "world \<Rightarrow> bool" where
  "cancelled w = w_cancel w (w_step w)"

definition clock :: "world \<Rightarrow> time" where
  "clock w = w_clock w (w_step w)"

definition maxPublishDuration :: "Relay \<Rightarrow> duration" where
  "maxPublishDuration ry = 2 * oc_PublishTimeout (ry_cfg ry)"

definition pause :: "Relay \<Rightarrow> term_state \<Rightarrow> world \<Rightarrow> duration \<times> term_state \<times> world" where
  "pause ry t w =
     (if cancelled w then (0, t, tick w)
      else let b = min (max (2 * tm_backoff t) (oc_RetryInitialInterval (ry_cfg ry))) (oc_RetryMaxInterval (ry_cfg ry))
           in (b, t\<lparr>tm_backoff := b\<rparr>, tick w))"

text \<open>\<^verbatim>\<open>release\<close> runs detached from the cancellation of the term.\<close>

definition release_rows :: "Relay \<Rightarrow> OutboxEvent list \<Rightarrow> time \<Rightarrow> term_state \<Rightarrow> world \<Rightarrow> term_state \<times> world" where
  "release_rows ry rows nextAttemptAt t w =
     (if rows = [] then (t, w)
      else case exec (Release (ry_owner ry) (map oe_EventID rows) nextAttemptAt) w of
        (Inl e, w1) \<Rightarrow> (t\<lparr>tm_recovered := False\<rparr>, w1)
      | (Inr _, w1) \<Rightarrow> (t, w1))"

definition stopBatch :: "Relay \<Rightarrow> OutboxEvent list \<Rightarrow> error option \<Rightarrow> term_state \<Rightarrow> world \<Rightarrow>
    (duration \<times> bool) \<times> term_state \<times> world" where
  "stopBatch ry rest err t w =
     (let t1 = t\<lparr>tm_recovered := False\<rparr>
      in case err of
           None \<Rightarrow> (case release_rows ry rest (clock w) t1 (tick w) of (t2, w2) \<Rightarrow> ((0, False), t2, w2))
         | Some _ \<Rightarrow>
             (case pause ry t1 w of (wait, t2, w2) \<Rightarrow>
               (case release_rows ry rest (clock w2 + wait) t2 (tick w2) of
                  (t3, w3) \<Rightarrow> ((wait, False), t3, w3))))"

definition check_row :: "Relay \<Rightarrow> OutboxEvent \<Rightarrow> error option" where
  "check_row ry row = (case OutboxEvent_Validate (Some row) of
     Some e \<Rightarrow> Some e
   | None \<Rightarrow> if int (length (oe_Payload row)) > ry_maxPayloadSize ry
             then Some (PlainError ''payload exceeds the limit'') else None)"

definition error_text :: "error \<Rightarrow> string" where
  "error_text e = (case e of PlainError s \<Rightarrow> s | DatabaseError s \<Rightarrow> s | InvalidArgument s \<Rightarrow> s | NotFound s \<Rightarrow> s | _ \<Rightarrow> ''error'')"

definition fail_row :: "Relay \<Rightarrow> OutboxEvent \<Rightarrow> error \<Rightarrow> OutboxEvent list \<Rightarrow> term_state \<Rightarrow> world \<Rightarrow>
    (duration \<times> bool) \<times> term_state \<times> world" where
  "fail_row ry row reason rest t w =
     (case exec (OutboxMarkFailed (ry_owner ry) (oe_EventID row) (error_text reason)) w of
        (Inl e, w1) \<Rightarrow> stopBatch ry rest (Some e) t w1
      | (Inr marked, w1) \<Rightarrow> if \<not> marked then stopBatch ry rest None t w1 else ((0, True), t, w1))"

definition giveBack :: "Relay \<Rightarrow> OutboxEvent list \<Rightarrow> term_state \<Rightarrow> world \<Rightarrow>
    (duration \<times> bool) \<times> term_state \<times> world" where
  "giveBack ry rows t w =
     (case release_rows ry rows (clock w) t (tick w) of (t1, w1) \<Rightarrow> ((0, False), t1, w1))"

fun publish :: "Relay \<Rightarrow> broker \<Rightarrow> time \<Rightarrow> OutboxEvent list \<Rightarrow> term_state \<Rightarrow> world \<Rightarrow>
    (duration \<times> bool) \<times> term_state \<times> world" where
  "publish ry br deadline [] t w = ((0, True), t, w)"
| "publish ry br deadline (row # rest) t w =
     (if cancelled w then giveBack ry (row # rest) t (tick w)
      else if deadline - clock (tick w) < maxPublishDuration ry then giveBack ry (row # rest) t (tick (tick w))
      else case check_row ry row of
        Some reason \<Rightarrow>
          (case fail_row ry row reason rest t (tick (tick w)) of
             ((wait, done), t1, w1) \<Rightarrow>
               if \<not> done then ((wait, False), t1, w1) else publish ry br deadline rest t1 w1)
      | None \<Rightarrow>
          (case Publish br row (tick (tick w)) of
             (Inl e, w1) \<Rightarrow>
               if cancelled w1 then giveBack ry (row # rest) t (tick w1)
               else (case pause ry t (tick w1) of (wait, t2, w2) \<Rightarrow>
                 (case release_rows ry (row # rest) (clock w2 + wait) (t2\<lparr>tm_declared := False\<rparr>) (tick w2) of
                    (t3, w3) \<Rightarrow> ((wait, False), t3, w3)))
           | (Inr _, w1) \<Rightarrow>
               (case exec (MarkPublished (ry_owner ry) (oe_EventID row)) w1 of
                  (Inl e, w2) \<Rightarrow> stopBatch ry rest (Some e) t w2
                | (Inr marked, w2) \<Rightarrow>
                    if \<not> marked then stopBatch ry rest None t w2
                    else publish ry br deadline rest t w2)))"

text \<open>The part of \<^verbatim>\<open>cycle\<close> after the topology is declared.\<close>

definition claimAndPublish :: "Relay \<Rightarrow> broker \<Rightarrow> term_state \<Rightarrow> world \<Rightarrow> duration \<times> term_state \<times> world" where
  "claimAndPublish ry br t w =
     (let cfg = ry_cfg ry; deadline = clock w + oc_LeaseDuration cfg
      in case exec (Claim (ry_owner ry) (oc_BatchSize cfg) (oc_LeaseDuration cfg)) (tick w) of
           (Inl e, w1) \<Rightarrow> pause ry t w1
         | (Inr rows, w1) \<Rightarrow>
             (case publish ry br deadline rows t w1 of
                ((wait, done), t2, w2) \<Rightarrow>
                  if \<not> done then (wait, t2, w2)
                  else (if int (length rows) = oc_BatchSize cfg then 0 else oc_PollInterval cfg,
                        t2\<lparr>tm_backoff := 0\<rparr>, w2)))"

definition cycle :: "Relay \<Rightarrow> broker \<Rightarrow> term_state \<Rightarrow> world \<Rightarrow> duration \<times> term_state \<times> world" where
  "cycle ry br t w =
     (case exec (RecoverLeases (ry_owner ry) (\<not> tm_recovered t)) w of
        (Inl e, w1) \<Rightarrow> pause ry t w1
      | (Inr _, w1) \<Rightarrow>
          (let t1 = t\<lparr>tm_recovered := True\<rparr>
           in if tm_declared t1 then claimAndPublish ry br t1 w1
              else case DeclareTopology br w1 of
                (Inl e, w2) \<Rightarrow> pause ry t1 w2
              | (Inr _, w2) \<Rightarrow> claimAndPublish ry br (t1\<lparr>tm_declared := True\<rparr>) w2))"

text \<open>
  A term: cycles until the context is done. The pause between two cycles only lets time
  pass; it is one observation of the context.
\<close>

fun runTerm :: "nat \<Rightarrow> Relay \<Rightarrow> broker \<Rightarrow> term_state \<Rightarrow> world \<Rightarrow> term_state \<times> world" where
  "runTerm 0 ry br t w = (t, w)"
| "runTerm (Suc n) ry br t w =
     (case cycle ry br t w of (wait, t1, w1) \<Rightarrow>
        if cancelled w1 then (t1, tick w1) else runTerm n ry br t1 (tick w1))"

partial_function (option) cleanupLoop :: "Relay \<Rightarrow> time \<Rightarrow> int \<Rightarrow> world \<Rightarrow> (int \<times> world) option" where
  "cleanupLoop ry before removed w =
     (if cancelled w then Some (removed, tick w)
      else case exec (DeletePublishedBefore before (oc_CleanupBatch (ry_cfg ry))) (tick w) of
        (Inl e, w1) \<Rightarrow> Some (removed, w1)
      | (Inr deleted, w1) \<Rightarrow>
          if deleted < oc_CleanupBatch (ry_cfg ry) then Some (removed + deleted, w1)
          else cleanupLoop ry before (removed + deleted) w1)"

definition cleanup :: "Relay \<Rightarrow> world \<Rightarrow> (int \<times> world) option" where
  "cleanup ry w = cleanupLoop ry (clock w - oc_Retention (ry_cfg ry)) 0 (tick w)"

section \<open>What the statements do to the table\<close>

definition contents :: "db \<Rightarrow> (uuid \<times> int \<times> string \<times> int \<times> string \<times> string \<times> string \<times> string \<times> time) set" where
  "contents d = content ` set (db_outbox d)"

definition published_contents :: "db \<Rightarrow> (uuid \<times> int \<times> string \<times> int \<times> string \<times> string \<times> string \<times> string \<times> time) set" where
  "published_contents d = content ` {e \<in> set (db_outbox d). oe_State e = OutboxEventStatePublished}"

text \<open>The rows \<open>owner\<close> holds, but for those with a property \<open>L\<close>.\<close>

definition held :: "(OutboxEvent \<Rightarrow> bool) \<Rightarrow> string \<Rightarrow> db \<Rightarrow> uuid set" where
  "held L owner d = oe_EventID ` {e \<in> set (db_outbox d). heldBy owner e \<and> \<not> L e}"

text \<open>
  How a statement run by \<open>owner\<close> may change a sound table: the events stay what they are,
  only events in \<open>C\<close> become published, and but for rows with \<open>L\<close> only ids in \<open>I\<close> are held.
\<close>

definition relay_change :: "(OutboxEvent \<Rightarrow> bool) \<Rightarrow> string \<Rightarrow> (uuid \<times> int \<times> string \<times> int \<times> string \<times> string \<times> string \<times> string \<times> time) set \<Rightarrow>
    uuid set \<Rightarrow> db \<Rightarrow> db \<Rightarrow> bool" where
  "relay_change L owner C I d d' \<longleftrightarrow> outbox_ok d' \<and> contents d' = contents d \<and>
     published_contents d' \<subseteq> published_contents d \<union> C \<and> held L owner d' \<subseteq> I"

lemma claimed_id [simp]: "oe_EventID (claimed e) = oe_EventID e"
  by (simp add: claimed_def)

lemma contents_eq: "map content (db_outbox d') = map content (db_outbox d) \<Longrightarrow> contents d' = contents d"
  unfolding contents_def by (metis set_map)

lemma update_published:
  assumes "\<And>e. P e \<Longrightarrow> oe_State (f e) \<noteq> OutboxEventStatePublished"
  shows "published_contents (update_outbox P f now d) \<subseteq> published_contents d"
  using assms by (auto simp: published_contents_def update_outbox_def set_update_where)

lemma update_held:
  assumes "\<And>e. P e \<Longrightarrow> \<not> heldBy owner (f e)"
  shows "held L owner (update_outbox P f now d) \<subseteq> oe_EventID ` {e \<in> set (db_outbox d). heldBy owner e \<and> \<not> L e \<and> \<not> P e}"
proof -
  have "\<not> heldBy owner ((f e)\<lparr>oe_UpdatedAt := now\<rparr>)" if "P e" for e
    using assms[OF that] by (simp add: heldBy_def)
  then show ?thesis by (auto simp: held_def update_outbox_def set_update_where)
qed

lemma RecoverLeases_change:
  assumes "outbox_ok d" and "RecoverLeases owner own now d = Inr (n, d')" and "\<not> own \<Longrightarrow> held L owner d = {}"
  shows "relay_change L owner {} {} d d'"
proof -
  let ?hit = "\<lambda>e. oe_State e = OutboxEventStateProcessing \<and> (expired now e \<or> (own \<and> oe_LockedBy e = owner))"
  have d': "d' = update_outbox ?hit released now d" using assms(2) by (auto simp: RecoverLeases_def Let_def)
  have "held L owner d' \<subseteq> oe_EventID ` {e \<in> set (db_outbox d). heldBy owner e \<and> \<not> L e \<and> \<not> ?hit e}"
    unfolding d' by (rule update_held) (simp add: released_def heldBy_def)
  also have "\<dots> = {}" using assms(3) by (auto simp: held_def heldBy_def)
  finally have "held L owner d' \<subseteq> {}" .
  moreover have "published_contents d' \<subseteq> published_contents d"
    unfolding d' by (rule update_published) (simp add: released_def)
  ultimately show ?thesis
    using recover.lawful[OF assms(1)] contents_eq[OF recover.contents] by (simp add: relay_change_def d')
qed

lemma Release_change:
  assumes "outbox_ok d" and "Release owner ids at now d = Inr (u, d')" and "held L owner d \<subseteq> set ids \<union> K"
  shows "relay_change L owner {} K d d'"
proof (cases "ids = []")
  case True
  with assms show ?thesis by (auto simp: relay_change_def Release_def)
next
  case False
  let ?hit = "\<lambda>e. oe_EventID e \<in> set ids \<and> heldBy owner e" and ?f = "\<lambda>e. (released e)\<lparr>oe_NextAttemptAt := at\<rparr>"
  have d': "d' = update_outbox ?hit ?f now d" using assms(2) False by (auto simp: Release_def)
  have "held L owner d' \<subseteq> oe_EventID ` {e \<in> set (db_outbox d). heldBy owner e \<and> \<not> L e \<and> \<not> ?hit e}"
    unfolding d' by (rule update_held) (simp add: released_def heldBy_def)
  also have "\<dots> \<subseteq> K" using assms(3) by (auto simp: held_def)
  finally have "held L owner d' \<subseteq> K" .
  moreover have "published_contents d' \<subseteq> published_contents d"
    unfolding d' by (rule update_published) (simp add: released_def)
  ultimately show ?thesis
    using release.lawful[OF assms(1)] contents_eq[OF release.contents] by (simp add: relay_change_def d')
qed

text \<open>Marking a row that was held as failed or published gives it up.\<close>

lemma OutboxMarkFailed_change:
  assumes "outbox_ok d" and "OutboxMarkFailed owner eventID reason now d = Inr (b, d')"
    and "held L owner d \<subseteq> insert eventID K"
  shows "relay_change L owner {} K d d'"
proof -
  let ?hit = "\<lambda>e. oe_EventID e = eventID \<and> heldBy owner e"
  let ?f = "\<lambda>e. e\<lparr>oe_State := OutboxEventStateFailed, oe_Attempts := oe_Attempts e + 1,
     oe_LastError := take 1024 reason, oe_LockedBy := '''', oe_LockedUntil := None\<rparr>"
  have d': "d' = update_outbox ?hit ?f now d" using assms(2) by (auto simp: OutboxMarkFailed_def Let_def)
  have "held L owner d' \<subseteq> oe_EventID ` {e \<in> set (db_outbox d). heldBy owner e \<and> \<not> L e \<and> \<not> ?hit e}"
    unfolding d' by (rule update_held) (simp add: heldBy_def)
  also have "\<dots> \<subseteq> K" using assms(3) by (auto simp: held_def)
  finally have "held L owner d' \<subseteq> K" .
  moreover have "published_contents d' \<subseteq> published_contents d"
    unfolding d' by (rule update_published) simp
  ultimately show ?thesis
    using failed.lawful[OF assms(1)] contents_eq[OF failed.contents] by (simp add: relay_change_def d')
qed

lemma MarkPublished_change:
  assumes "outbox_ok d" and "MarkPublished owner eventID now d = Inr (b, d')" and "held L owner d \<subseteq> insert eventID K"
  shows "relay_change L owner {c \<in> contents d. fst c = eventID} K d d'"
proof -
  let ?hit = "\<lambda>e. oe_EventID e = eventID \<and> heldBy owner e"
  let ?f = "\<lambda>e. e\<lparr>oe_State := OutboxEventStatePublished, oe_PublishedAt := Some now, oe_LockedBy := '''',
     oe_LockedUntil := None, oe_LastError := ''''\<rparr>"
  have d': "d' = update_outbox ?hit ?f now d" using assms(2) by (auto simp: MarkPublished_def Let_def)
  have "held L owner d' \<subseteq> oe_EventID ` {e \<in> set (db_outbox d). heldBy owner e \<and> \<not> L e \<and> \<not> ?hit e}"
    unfolding d' by (rule update_held) (simp add: heldBy_def)
  also have "\<dots> \<subseteq> K" using assms(3) by (auto simp: held_def)
  finally have "held L owner d' \<subseteq> K" .
  moreover have "published_contents d' \<subseteq> published_contents d \<union> {c \<in> contents d. fst c = eventID}"
    by (auto simp: published_contents_def contents_def update_outbox_def set_update_where d' content_def)
  ultimately show ?thesis
    using published.lawful[OF assms(1)] contents_eq[OF published.contents] by (simp add: relay_change_def d')
qed

lemma Claim_change:
  assumes "outbox_ok d" and "Claim owner limit lease now d = Inr (rows, d')" and "held L owner d = {}"
  shows "relay_change L owner {} (oe_EventID ` set rows) d d'" and "content ` set rows \<subseteq> contents d'"
proof -
  let ?hit = "\<lambda>e. oe_EventID e \<in> oe_EventID ` set (due_rows (nat limit) now (db_outbox d))"
  let ?f = "leased owner (now + Milliseconds lease * 1000000)"
  have d': "d' = update_outbox ?hit ?f now d" and rows: "set rows = claimed ` {e \<in> set (db_outbox d'). ?hit e}"
    using assms(2) by (auto simp: Claim_def Let_def split: if_splits)
  have "oe_EventID e \<in> oe_EventID ` set rows" if "e \<in> set (db_outbox d')" "heldBy owner e" "\<not> L e" for e
  proof -
    from that assms(3) have "?hit e"
      by (auto simp: d' update_outbox_def set_update_where held_def leased_def)
    with that(1) have "claimed e \<in> set rows" by (simp add: rows)
    then show ?thesis by (metis claimed_id image_eqI)
  qed
  then have "held L owner d' \<subseteq> oe_EventID ` set rows" by (auto simp: held_def)
  moreover have "published_contents d' \<subseteq> published_contents d"
    unfolding d' by (rule update_published) (simp add: leased_def)
  ultimately show "relay_change L owner {} (oe_EventID ` set rows) d d'"
    using claim.lawful[OF assms(1)] contents_eq[OF claim.contents] by (simp add: relay_change_def d')
  show "content ` set rows \<subseteq> contents d'" by (auto simp: rows contents_def)
qed

section \<open>The invariant of a term\<close>

text \<open>
  A claim that fails after it was applied leases rows the relay does not know of. Such a lease runs
  from the time of a statement that failed and was applied, after the start \<open>w0\<close> of the run.
\<close>

definition stmt_time :: "world \<Rightarrow> nat \<Rightarrow> time" where
  "stmt_time w n = (case w_tx w of Some t \<Rightarrow> t | None \<Rightarrow> w_clock w n)"

definition same_oracles :: "world \<Rightarrow> world \<Rightarrow> bool" where
  "same_oracles w0 w \<longleftrightarrow> w_faults w = w_faults w0 \<and> w_committed w = w_committed w0 \<and> w_clock w = w_clock w0 \<and> w_tx w = w_tx w0 \<and>
     w_step w0 \<le> w_step w"

definition lost_claim :: "world \<Rightarrow> Relay \<Rightarrow> world \<Rightarrow> OutboxEvent \<Rightarrow> bool" where
  "lost_claim w0 ry w e \<longleftrightarrow> (\<exists>n\<ge>w_step w0. n < w_step w \<and> w_faults w0 n \<noteq> None \<and> w_committed w0 n \<and>
     oe_LockedUntil e = Some (stmt_time w0 n + Milliseconds (oc_LeaseDuration (ry_cfg ry)) * 1000000))"

text \<open>
  \<open>batch_inv w0 ry rows t w\<close> holds while the relay works through \<open>rows\<close>: everything marked as
  published was accepted by the broker, and as long as the term believes that nothing of
  its own is in flight, only rows of the batch are held, and rows of a lost claim.
\<close>

definition batch_inv :: "world \<Rightarrow> Relay \<Rightarrow> OutboxEvent list \<Rightarrow> term_state \<Rightarrow> world \<Rightarrow> bool" where
  "batch_inv w0 ry rows t w \<longleftrightarrow> same_oracles w0 w \<and> outbox_ok (w_db w) \<and> content ` set rows \<subseteq> contents (w_db w) \<and>
     published_contents (w_db w) \<subseteq> content ` set (w_sent w) \<and>
     (tm_recovered t \<longrightarrow> held (lost_claim w0 ry w) (ry_owner ry) (w_db w) \<subseteq> oe_EventID ` set rows)"

abbreviation relay_inv :: "world \<Rightarrow> Relay \<Rightarrow> term_state \<Rightarrow> world \<Rightarrow> bool" where
  "relay_inv w0 ry \<equiv> batch_inv w0 ry []"

lemma lost_claim_update [simp]:
  "lost_claim w0 ry (w\<lparr>w_db := d\<rparr>) = lost_claim w0 ry w" "lost_claim w0 ry (w\<lparr>w_sent := es\<rparr>) = lost_claim w0 ry w"
  by (auto simp: lost_claim_def)

lemma same_oracles_update [simp]:
  "same_oracles w0 (w\<lparr>w_db := d\<rparr>) = same_oracles w0 w" "same_oracles w0 (w\<lparr>w_sent := es\<rparr>) = same_oracles w0 w"
  "same_oracles w0 w \<Longrightarrow> same_oracles w0 (tick w)" "same_oracles w w"
  by (auto simp: same_oracles_def tick_def)

lemma lost_claim_tick: "lost_claim w0 ry w e \<Longrightarrow> lost_claim w0 ry (tick w) e"
  by (auto simp: lost_claim_def less_Suc_eq)

lemma held_tick: "held (lost_claim w0 ry (tick w)) owner d \<subseteq> held (lost_claim w0 ry w) owner d"
  by (auto simp: held_def dest: lost_claim_tick)

lemma batch_inv_tick [simp, intro]: "batch_inv w0 ry rows t w \<Longrightarrow> batch_inv w0 ry rows t (tick w)"
  using held_tick[of w0 ry w "ry_owner ry" "w_db w"] by (auto simp: batch_inv_def)

lemma batch_inv_backoff [simp]: "batch_inv w0 ry rows (t\<lparr>tm_backoff := b\<rparr>) w = batch_inv w0 ry rows t w"
  by (simp add: batch_inv_def)

lemma batch_inv_declared [simp]: "batch_inv w0 ry rows (t\<lparr>tm_declared := b\<rparr>) w = batch_inv w0 ry rows t w"
  by (simp add: batch_inv_def)

lemma batch_inv_forget: "batch_inv w0 ry rows t w \<Longrightarrow> set rest \<subseteq> set rows \<Longrightarrow> batch_inv w0 ry rest (t\<lparr>tm_recovered := False\<rparr>) w"
  by (auto simp: batch_inv_def)

lemma batch_inv_accept: "batch_inv w0 ry rows t w \<Longrightarrow> batch_inv w0 ry rows t (accept ev w)"
  by (auto simp: batch_inv_def accept_def)

lemma pause_inv: "batch_inv w0 ry rows t w \<Longrightarrow> pause ry t w = (wait, t', w') \<Longrightarrow> batch_inv w0 ry rows t' w'"
  by (auto simp: pause_def Let_def split: if_splits)

text \<open>A statement of the relay, from one part of the batch to the next.\<close>

lemma changed_inv:
  assumes "relay_change (lost_claim w0 ry w) (ry_owner ry) C I (w_db w) d" and "batch_inv w0 ry rows t w"
    and "C \<subseteq> content ` set (w_sent w)" and "tm_recovered t \<Longrightarrow> I \<subseteq> oe_EventID ` set rest"
    and "content ` set rest \<subseteq> contents (w_db w)"
  shows "batch_inv w0 ry rest t ((tick w)\<lparr>w_db := d\<rparr>)"
proof -
  from assms(1) have c: "outbox_ok d" "contents d = contents (w_db w)"
    "published_contents d \<subseteq> published_contents (w_db w) \<union> C" "held (lost_claim w0 ry w) (ry_owner ry) d \<subseteq> I"
    by (simp_all add: relay_change_def)
  from assms(2) have "published_contents (w_db w) \<subseteq> content ` set (w_sent w)" by (simp add: batch_inv_def)
  with c(3) assms(3) have "published_contents d \<subseteq> content ` set (w_sent w)" by blast
  moreover have "held (lost_claim w0 ry (tick w)) (ry_owner ry) d \<subseteq> oe_EventID ` set rest" if "tm_recovered t"
    using c(4) assms(4)[OF that] held_tick by blast
  ultimately show ?thesis using c(1,2) assms(2,5) by (simp add: batch_inv_def)
qed

lemma exec_change:
  assumes "exec s w = (Inr x, w')" and "batch_inv w0 ry rows t w"
    and "\<And>now d. s now (w_db w) = Inr (x, d) \<Longrightarrow> relay_change (lost_claim w0 ry w) (ry_owner ry) C I (w_db w) d"
    and "C \<subseteq> content ` set (w_sent w)" and "tm_recovered t \<Longrightarrow> I \<subseteq> oe_EventID ` set rest"
    and "content ` set rest \<subseteq> contents (w_db w)"
  shows "batch_inv w0 ry rest t w'"
proof -
  from exec_Inr[OF assms(1)] obtain now d where "s now (w_db w) = Inr (x, d)" and w': "w' = (tick w)\<lparr>w_db := d\<rparr>" by blast
  from changed_inv[OF assms(3)[OF this(1)] assms(2,4-6)] w' show ?thesis by simp
qed

lemma exec_failed:
  assumes "exec s w = (Inl e, w')" and "batch_inv w0 ry rows t w"
    and "\<And>now x d. s now (w_db w) = Inr (x, d) \<Longrightarrow> relay_change (lost_claim w0 ry w) (ry_owner ry) C I (w_db w) d"
    and "C \<subseteq> content ` set (w_sent w)" and "tm_recovered t \<Longrightarrow> I \<subseteq> oe_EventID ` set rows"
  shows "batch_inv w0 ry rows t w'"
  using assms(1)
proof (cases rule: exec_Inl)
  case (applied now x d)
  from changed_inv[OF assms(3)[OF applied(1)] assms(2,4,5)] applied(2) assms(2) show ?thesis by (simp add: batch_inv_def)
qed (use assms(2) in simp)

text \<open>The rows a failed claim has leased are those of a lost claim.\<close>

lemma claim_failed:
  assumes "exec (Claim (ry_owner ry) limit (oc_LeaseDuration (ry_cfg ry))) w = (Inl e, w')" and "relay_inv w0 ry t w" and "tm_recovered t"
  shows "relay_inv w0 ry t w'"
proof (cases "w' = tick w")
  case False
  let ?s = "Claim (ry_owner ry) limit (oc_LeaseDuration (ry_cfg ry))"
  let ?until = "stmt_time w (w_step w) + Milliseconds (oc_LeaseDuration (ry_cfg ry)) * 1000000"
  have none: "outbox_ok (w_db w)" "held (lost_claim w0 ry w) (ry_owner ry) (w_db w) = {}" using assms(2,3) by (auto simp: batch_inv_def)
  have "(tick w)\<lparr>w_db := w_db w\<rparr> = tick w" by (simp add: tick_def)
  with assms(1) False obtain rows d where fault: "w_faults w (w_step w) \<noteq> None" "w_committed w (w_step w)"
    and claim: "?s (stmt_time w (w_step w)) (w_db w) = Inr (rows, d)" and w': "w' = (tick w)\<lparr>w_db := d\<rparr>"
    by (auto simp: exec_def Let_def stmt_time_def split: option.splits sum.splits prod.splits if_splits)
  have d: "db_outbox d = update_where (\<lambda>e. oe_EventID e \<in> oe_EventID ` set (due_rows (nat limit) (stmt_time w (w_step w)) (db_outbox (w_db w))))
      (\<lambda>e. (leased (ry_owner ry) ?until e)\<lparr>oe_UpdatedAt := stmt_time w (w_step w)\<rparr>) (db_outbox (w_db w))"
    using claim by (auto simp: Claim_def Let_def update_outbox_def split: if_splits)
  have same: "same_oracles w0 w" using assms(2) by (simp add: batch_inv_def)
  then have "stmt_time w0 (w_step w) = stmt_time w (w_step w)" by (cases "w_tx w0") (simp_all add: same_oracles_def stmt_time_def)
  then have "lost_claim w0 ry (tick w) e" if "oe_LockedUntil e = Some ?until" for e
    using that fault same by (auto simp: lost_claim_def same_oracles_def intro!: exI[of _ "w_step w"])
  moreover have "e \<in> set (db_outbox (w_db w)) \<or> oe_LockedUntil e = Some ?until" if "e \<in> set (db_outbox d)" for e
    using that by (auto simp: d set_update_where leased_def)
  ultimately have "held (lost_claim w0 ry (tick w)) (ry_owner ry) d \<subseteq> held (lost_claim w0 ry (tick w)) (ry_owner ry) (w_db w)"
    by (auto simp: held_def)
  then have "held (lost_claim w0 ry (tick w)) (ry_owner ry) d = {}" using held_tick none(2) by blast
  with Claim_change(1)[OF none(1) claim none(2)] assms(2) show ?thesis
    by (auto simp: batch_inv_def relay_change_def w')
qed (use assms(2) in simp)

lemma release_rows_inv:
  assumes "batch_inv w0 ry rows t w" and "release_rows ry rows at t w = (t', w')"
  shows "relay_inv w0 ry t' w'"
proof (cases "rows = []")
  case False
  show ?thesis
  proof (cases "exec (Release (ry_owner ry) (map oe_EventID rows) at) w")
    case (Pair r w1)
    show ?thesis
    proof (cases r)
      case (Inl e)
      from Pair Inl False assms(2) have t': "t' = t\<lparr>tm_recovered := False\<rparr>" "w' = w1" by (auto simp: release_rows_def)
      have "relay_change (lost_claim w0 ry w) (ry_owner ry) {} (held (lost_claim w0 ry w) (ry_owner ry) (w_db w)) (w_db w) d"
        if "Release (ry_owner ry) (map oe_EventID rows) at now (w_db w) = Inr (x, d)" for now x d
        using assms(1) by (intro Release_change[OF _ that]) (auto simp: batch_inv_def)
      from exec_failed[OF Pair[unfolded Inl] batch_inv_forget[OF assms(1), of "[]"] this] t' show ?thesis by simp
    next
      case (Inr u)
      have "relay_change (lost_claim w0 ry w) (ry_owner ry) {} (if tm_recovered t then {} else held (lost_claim w0 ry w) (ry_owner ry) (w_db w)) (w_db w) d"
        if "Release (ry_owner ry) (map oe_EventID rows) at now (w_db w) = Inr (u, d)" for now d
        using assms(1) by (intro Release_change[OF _ that]) (auto simp: batch_inv_def)
      from exec_change[OF Pair[unfolded Inr] assms(1) this, where rest = "[]"] Pair Inr False assms(2) show ?thesis
        by (auto simp: release_rows_def)
    qed
  qed
qed (use assms in \<open>auto simp: release_rows_def\<close>)

lemma stopBatch_inv:
  assumes "batch_inv w0 ry rows t w" and "set rest \<subseteq> set rows" and "stopBatch ry rest err t w = (r, t', w')"
  shows "relay_inv w0 ry t' w'"
proof -
  note inv = batch_inv_forget[OF assms(1,2)]
  show ?thesis
  proof (cases err)
    case None
    with assms(3) obtain at where "release_rows ry rest at (t\<lparr>tm_recovered := False\<rparr>) (tick w) = (t', w')"
      by (auto simp: stopBatch_def split: prod.splits)
    with inv show ?thesis by (intro release_rows_inv[of w0 ry rest _ "tick w"]) simp_all
  next
    case (Some e)
    with assms(3) obtain wait t2 w2 at where "pause ry (t\<lparr>tm_recovered := False\<rparr>) w = (wait, t2, w2)"
      and "release_rows ry rest at t2 (tick w2) = (t', w')"
      by (auto simp: stopBatch_def split: prod.splits)
    with pause_inv[OF inv] show ?thesis by (intro release_rows_inv[of w0 ry rest t2 "tick w2"]) simp_all
  qed
qed

lemma giveBack_inv: "batch_inv w0 ry rows t w \<Longrightarrow> giveBack ry rows t w = (r, t', w') \<Longrightarrow> relay_inv w0 ry t' w'"
  by (auto simp: giveBack_def split: prod.splits intro!: release_rows_inv[of w0 ry rows t "tick w"])

lemma fail_row_inv:
  assumes "batch_inv w0 ry (row # rest) t w" and "fail_row ry row reason rest t w = ((wait, done), t', w')"
  shows "batch_inv w0 ry (if done then rest else []) t' w'"
proof (cases "exec (OutboxMarkFailed (ry_owner ry) (oe_EventID row) (error_text reason)) w")
  case (Pair r w1)
  have change: "relay_change (lost_claim w0 ry w) (ry_owner ry) {} (if tm_recovered t then oe_EventID ` set rest else held (lost_claim w0 ry w) (ry_owner ry) (w_db w)) (w_db w) d"
    if "OutboxMarkFailed (ry_owner ry) (oe_EventID row) (error_text reason) now (w_db w) = Inr (b, d)" for now b d
    using assms(1) by (intro OutboxMarkFailed_change[OF _ that]) (auto simp: batch_inv_def)
  show ?thesis
  proof (cases r)
    case (Inl e)
    have inv: "batch_inv w0 ry (row # rest) t w1" by (rule exec_failed[OF Pair[unfolded Inl] assms(1)]) (erule change, auto)
    from Pair Inl assms(2) have "stopBatch ry rest (Some e) t w1 = ((wait, done), t', w')" by (auto simp: fail_row_def)
    moreover from this have "\<not> done" by (auto simp: stopBatch_def split: prod.splits)
    ultimately show ?thesis using stopBatch_inv[OF inv, of rest "Some e"] by auto
  next
    case (Inr b)
    from exec_change[OF Pair[unfolded Inr] assms(1) change, where rest = rest] assms(1)
    have inv: "batch_inv w0 ry rest t w1" by (auto simp: batch_inv_def)
    show ?thesis
    proof (cases b)
      case True
      with Pair Inr assms(2) inv show ?thesis by (auto simp: fail_row_def)
    next
      case False
      with Pair Inr assms(2) have "stopBatch ry rest None t w1 = ((wait, done), t', w')" by (auto simp: fail_row_def)
      moreover from this have "\<not> done" by (auto simp: stopBatch_def split: prod.splits)
      ultimately show ?thesis using stopBatch_inv[OF inv, of rest None] by auto
    qed
  qed
qed

lemma content_id: "fst (content e) = oe_EventID e"
  by (simp add: content_def)

lemma known_content:
  assumes "outbox_ok d" and "content row \<in> contents d" and "c \<in> contents d" and "fst c = oe_EventID row"
  shows "c = content row"
proof -
  from assms(2,3) obtain e e' where e: "e \<in> set (db_outbox d)" "content e = content row"
    "e' \<in> set (db_outbox d)" "c = content e'" by (auto simp: contents_def)
  with assms(4) have "oe_EventID e' = oe_EventID e" using content_id[of e] content_id[of row] by (simp add: content_id)
  with e assms(1) have "e' = e" by (auto simp: outbox_ok_def distinct_map dest: inj_onD)
  with e show ?thesis by simp
qed

lemma Publish_inv:
  assumes "batch_inv w0 ry rows t w" and "Publish br row w = (r, w')"
  shows "batch_inv w0 ry rows t w'" and "r = Inr u \<Longrightarrow> row \<in> set (w_sent w')"
  using assms batch_inv_accept[of w0 ry rows t "tick w" row]
  by (auto simp: Publish_def accept_def split: option.splits prod.splits if_splits)

lemma MarkPublished_inv:
  assumes "batch_inv w0 ry (row # rest) t w" and "row \<in> set (w_sent w)"
    and "exec (MarkPublished (ry_owner ry) (oe_EventID row)) w = (r, w')"
  shows "batch_inv w0 ry (if isl r then row # rest else rest) t w'"
proof -
  have "{c \<in> contents (w_db w). fst c = oe_EventID row} \<subseteq> {content row}"
    using assms(1) known_content[of "w_db w" row] by (auto simp: batch_inv_def)
  then have sent: "{c \<in> contents (w_db w). fst c = oe_EventID row} \<subseteq> content ` set (w_sent w)"
    using assms(2) by blast
  have change: "relay_change (lost_claim w0 ry w) (ry_owner ry) {c \<in> contents (w_db w). fst c = oe_EventID row}
      (if tm_recovered t then oe_EventID ` set rest else held (lost_claim w0 ry w) (ry_owner ry) (w_db w)) (w_db w) d"
    if "MarkPublished (ry_owner ry) (oe_EventID row) now (w_db w) = Inr (b, d)" for now b d
    using assms(1) by (intro MarkPublished_change[OF _ that]) (auto simp: batch_inv_def)
  show ?thesis
  proof (cases r)
    case (Inl e)
    have "batch_inv w0 ry (row # rest) t w'"
      by (rule exec_failed[OF assms(3)[unfolded Inl] assms(1)]) (erule change, use sent in auto)
    with Inl show ?thesis by simp
  next
    case (Inr b)
    from exec_change[OF assms(3)[unfolded Inr] assms(1) change sent, where rest = rest] Inr assms(1) show ?thesis by (auto simp: batch_inv_def)
  qed
qed

lemma publish_inv:
  assumes "batch_inv w0 ry rows t w" and "publish ry br deadline rows t w = (r, t', w')"
  shows "relay_inv w0 ry t' w'"
  using assms
proof (induction rows arbitrary: t w)
  case (Cons row rest)
  let ?w = "tick (tick w)"
  have inv: "batch_inv w0 ry (row # rest) t ?w" using Cons.prems(1) by simp
  consider "cancelled w" | "\<not> cancelled w" "deadline - clock (tick w) < maxPublishDuration ry"
    | "\<not> cancelled w" "\<not> deadline - clock (tick w) < maxPublishDuration ry" by blast
  then show ?case
  proof cases
    case 1
    with Cons.prems show ?thesis by (auto intro: giveBack_inv[of w0 ry "row # rest" t "tick w"])
  next
    case 2
    with Cons.prems show ?thesis by (auto intro: giveBack_inv[of w0 ry "row # rest" t ?w])
  next
    case go: 3
    show ?thesis
    proof (cases "check_row ry row")
      case (Some reason)
      obtain wait dn t1 w1 where f: "fail_row ry row reason rest t ?w = ((wait, dn), t1, w1)" by (metis surj_pair)
      from fail_row_inv[OF inv f] Cons.IH[of t1 w1] Cons.prems(2) go Some f show ?thesis
        by (cases dn) auto
    next
      case None
      obtain pr w1 where p: "Publish br row ?w = (pr, w1)" by fastforce
      note inv1 = Publish_inv(1)[OF inv p]
      show ?thesis
      proof (cases pr)
        case (Inl e)
        obtain wait t2 w2 where ps: "pause ry t (tick w1) = (wait, t2, w2)" by (metis surj_pair)
        obtain t3 w3 where rl: "release_rows ry (row # rest) (clock w2 + wait) (t2\<lparr>tm_declared := False\<rparr>) (tick w2) = (t3, w3)"
          by fastforce
        from pause_inv[of w0 ry "row # rest" t "tick w1"] ps inv1
        have "batch_inv w0 ry (row # rest) (t2\<lparr>tm_declared := False\<rparr>) (tick w2)" by simp
        from release_rows_inv[OF this rl] giveBack_inv[of w0 ry "row # rest" t "tick w1"] inv1 Cons.prems(2) go None p Inl ps rl
        show ?thesis by (auto split: if_splits)
      next
        case (Inr u)
        note sent = Publish_inv(2)[OF inv p Inr]
        obtain mr w2 where m: "exec (MarkPublished (ry_owner ry) (oe_EventID row)) w1 = (mr, w2)" by fastforce
        show ?thesis
        proof (cases mr)
          case er: (Inl e)
          from MarkPublished_inv[OF inv1 sent m[unfolded er]] have "batch_inv w0 ry (row # rest) t w2" by simp
          with Cons.prems(2) go None p Inr m er show ?thesis by (auto intro: stopBatch_inv[of w0 ry "row # rest" t w2 rest])
        next
          case ok: (Inr b)
          from MarkPublished_inv[OF inv1 sent m[unfolded ok]] have inv2: "batch_inv w0 ry rest t w2" by simp
          with Cons.prems(2) go None p Inr m ok show ?thesis
            by (auto split: if_splits intro: stopBatch_inv[OF inv2, of rest] Cons.IH)
        qed
      qed
    qed
  qed
qed simp

lemma claimAndPublish_inv:
  assumes "relay_inv w0 ry t w" and "tm_recovered t" and "claimAndPublish ry br t w = (wait, t', w')"
  shows "relay_inv w0 ry t' w'"
proof -
  let ?claim = "Claim (ry_owner ry) (oc_BatchSize (ry_cfg ry)) (oc_LeaseDuration (ry_cfg ry))"
  obtain r w1 where c: "exec ?claim (tick w) = (r, w1)" by fastforce
  show ?thesis
  proof (cases r)
    case (Inl e)
    have "relay_inv w0 ry t w1" by (rule claim_failed[OF c[unfolded Inl] _ assms(2)]) (use assms(1) in simp)
    with Inl assms(3) c show ?thesis by (auto simp: claimAndPublish_def intro: pause_inv[of w0 ry "[]" t w1])
  next
    case (Inr rows)
    from exec_Inr[OF c[unfolded Inr]] obtain now d where d: "?claim now (w_db w) = Inr (rows, d)"
      and w1: "w1 = (tick (tick w))\<lparr>w_db := d\<rparr>" by auto
    let ?L = "lost_claim w0 ry (tick (tick w))"
    have "relay_inv w0 ry t (tick (tick w))" using assms(1) by simp
    with assms(2) have ok: "outbox_ok (w_db w)" and none: "held ?L (ry_owner ry) (w_db w) = {}" by (auto simp: batch_inv_def)
    from Claim_change[OF ok d none] assms(1) have "batch_inv w0 ry rows t w1"
      by (auto simp: batch_inv_def relay_change_def w1)
    from publish_inv[OF this] assms(3) c Inr show ?thesis
      by (auto simp: claimAndPublish_def Let_def split: prod.splits if_splits)
  qed
qed

lemma cycle_inv:
  assumes "relay_inv w0 ry t w" and "cycle ry br t w = (wait, t', w')"
  shows "relay_inv w0 ry t' w'"
proof -
  let ?recover = "RecoverLeases (ry_owner ry) (\<not> tm_recovered t)"
  obtain r w1 where c: "exec ?recover w = (r, w1)" by fastforce
  show ?thesis
  proof (cases r)
    case (Inl e)
    have "relay_change (lost_claim w0 ry w) (ry_owner ry) {} {} (w_db w) d" if "?recover now (w_db w) = Inr (x, d)" for now x d
      using assms(1) by (intro RecoverLeases_change[OF _ that]) (auto simp: batch_inv_def)
    from exec_failed[OF c[unfolded Inl] assms(1) this] have "relay_inv w0 ry t w1" by simp
    with Inl assms(2) c show ?thesis by (auto simp: cycle_def intro: pause_inv[of w0 ry "[]" t w1])
  next
    case (Inr n)
    from exec_Inr[OF c[unfolded Inr]] obtain now d where d: "?recover now (w_db w) = Inr (n, d)"
      and w1: "w1 = (tick w)\<lparr>w_db := d\<rparr>" by auto
    have "relay_change (lost_claim w0 ry w) (ry_owner ry) {} {} (w_db w) d"
      using assms(1) by (intro RecoverLeases_change[OF _ d]) (auto simp: batch_inv_def)
    from changed_inv[OF this, where rest = "[]"] assms(1) have "relay_inv w0 ry t w1" "held (lost_claim w0 ry w) (ry_owner ry) d = {}"
      using \<open>relay_change _ _ _ _ _ _\<close> by (auto simp: w1 relay_change_def)
    then have inv: "relay_inv w0 ry (t\<lparr>tm_recovered := True\<rparr>) w1"
      using held_tick[of w0 ry w "ry_owner ry" d] by (auto simp: batch_inv_def w1)
    then have inv': "relay_inv w0 ry (t\<lparr>tm_recovered := True, tm_declared := True\<rparr>) (tick w1)" by simp
    from assms(2) c Inr inv claimAndPublish_inv[OF inv] claimAndPublish_inv[OF inv'] show ?thesis
      by (auto simp: cycle_def Let_def DeclareTopology_def split: if_splits option.splits
          intro: pause_inv[of w0 ry "[]" _ "tick w1"])
  qed
qed

lemma runTerm_inv: "relay_inv w0 ry t w \<Longrightarrow> runTerm n ry br t w = (t', w') \<Longrightarrow> relay_inv w0 ry t' w'"
proof (induction n arbitrary: t w)
  case (Suc n)
  obtain wait t1 w1 where c: "cycle ry br t w = (wait, t1, w1)" by (metis surj_pair)
  from cycle_inv[OF Suc.prems(1) c] have "relay_inv w0 ry t1 (tick w1)" by simp
  from Suc.IH[OF this] this Suc.prems(2) c show ?case by (auto split: if_splits)
qed simp

section \<open>An undisturbed cycle\<close>

lemma insort_key_map: "insort_key k (f x) (map f xs) = map f (insort_key (\<lambda>x. k (f x)) x xs)"
  by (induction xs) simp_all

lemma sort_key_map: "sort_key k (map f xs) = map f (sort_key (\<lambda>x. k (f x)) xs)"
  by (induction xs) (simp_all add: insort_key_map)

lemma sorted_key_unique:
  assumes "sorted (map k xs)" "sorted (map k ys)" "distinct (map k xs)" "distinct (map k ys)" "set xs = set ys"
    and "inj_on k (set xs)"
  shows "xs = ys"
proof -
  have "map k xs = map k ys" using assms(1-5) by (intro sorted_distinct_set_unique) simp_all
  with assms(5,6) show ?thesis by (simp add: inj_on_map_eq_map)
qed

lemma publication_order_inj:
  assumes "outbox_ok d"
  shows "inj_on publication_order (set (db_outbox d))" and "distinct (db_outbox d)"
  using assms by (auto simp: inj_on_def outbox_ok_def distinct_map publication_order_def)

lemma due_rows_props:
  assumes "outbox_ok d"
  shows "sorted (map publication_order (due_rows n now (db_outbox d)))"
    and "distinct (due_rows n now (db_outbox d))" and "set (due_rows n now (db_outbox d)) \<subseteq> set (db_outbox d)"
  using publication_order_inj(2)[OF assms]
  by (auto simp: due_rows_def take_map[symmetric] sorted_wrt_take dest: in_set_takeD)

text \<open>A claim hands out the due rows, oldest first, at most as many as it was asked for.\<close>

lemma Claim_rows:
  assumes "outbox_ok d" and "Claim owner limit lease now d = Inr (rows, d')"
  shows "map content rows = map content (due_rows (nat limit) now (db_outbox d))"
proof -
  let ?due = "due_rows (nat limit) now (db_outbox d)"
  let ?hit = "\<lambda>e. oe_EventID e \<in> oe_EventID ` set ?due"
  let ?f = "\<lambda>e. claimed ((leased owner (now + Milliseconds lease * 1000000) e)\<lparr>oe_UpdatedAt := now\<rparr>)"
  have "filter ?hit (update_where ?hit (\<lambda>e. (leased owner (now + Milliseconds lease * 1000000) e)\<lparr>oe_UpdatedAt := now\<rparr>) xs)
      = map (\<lambda>e. (leased owner (now + Milliseconds lease * 1000000) e)\<lparr>oe_UpdatedAt := now\<rparr>) (filter ?hit xs)" for xs
    by (induction xs) (simp_all add: leased_def)
  then have "rows = sort_key publication_order (map ?f (filter ?hit (db_outbox d)))"
    using assms(2) by (auto simp: Claim_def Let_def update_outbox_def comp_def split: if_splits)
  also have "\<dots> = map ?f (sort_key publication_order (filter ?hit (db_outbox d)))"
  proof -
    have "publication_order (?f e) = publication_order e" for e
      by (simp add: publication_order_def claimed_def leased_def)
    then show ?thesis by (simp only: sort_key_map)
  qed
  also have "sort_key publication_order (filter ?hit (db_outbox d)) = ?due"
  proof (rule sorted_key_unique)
    note due = due_rows_props[OF assms(1), of "nat limit" now]
    have "inj_on oe_EventID (set (db_outbox d))" using assms(1) by (simp add: outbox_ok_def distinct_map)
    then have "?hit e \<longleftrightarrow> e \<in> set ?due" if "e \<in> set (db_outbox d)" for e
      using that due(3) by (auto dest: inj_onD)
    then show same: "set (sort_key publication_order (filter ?hit (db_outbox d))) = set ?due" using due(3) by auto
    show inj: "inj_on publication_order (set (sort_key publication_order (filter ?hit (db_outbox d))))"
      using publication_order_inj(1)[OF assms(1)] by (rule inj_on_subset) auto
    show "distinct (map publication_order (sort_key publication_order (filter ?hit (db_outbox d))))"
      using inj publication_order_inj(2)[OF assms(1)] by (simp add: distinct_map)
    show "distinct (map publication_order ?due)"
      using inj due(2) unfolding same by (simp add: distinct_map)
    show "sorted (map publication_order ?due)" by (rule due(1))
  qed simp
  finally have "rows = map ?f ?due" .
  then show ?thesis by (simp add: content_def claimed_def leased_def)
qed

text \<open>What a published row of the table says.\<close>

definition is_published :: "db \<Rightarrow> OutboxEvent \<Rightarrow> bool" where
  "is_published d row \<longleftrightarrow> content row \<in> published_contents d"

lemma MarkPublished_marks:
  assumes "outbox_ok d" and "e \<in> set (db_outbox d)" and "heldBy owner e"
  shows "\<exists>d'. MarkPublished owner (oe_EventID e) now d = Inr (True, d') \<and> outbox_ok d' \<and>
    content e \<in> published_contents d' \<and> published_contents d \<subseteq> published_contents d' \<and>
    (\<forall>x\<in>set (db_outbox d). oe_EventID x \<noteq> oe_EventID e \<longrightarrow> x \<in> set (db_outbox d'))"
proof -
  let ?hit = "\<lambda>x. oe_EventID x = oe_EventID e \<and> heldBy owner x"
  let ?f = "\<lambda>x. x\<lparr>oe_State := OutboxEventStatePublished, oe_PublishedAt := Some now, oe_LockedBy := '''',
     oe_LockedUntil := None, oe_LastError := '''', oe_UpdatedAt := now\<rparr>"
  let ?d = "d\<lparr>db_outbox := update_where ?hit ?f (db_outbox d)\<rparr>"
  have "inj_on oe_EventID (set (db_outbox d))" "distinct (db_outbox d)"
    using assms(1) by (simp_all add: outbox_ok_def distinct_map)
  then have "filter ?hit (db_outbox d) = [e]"
    using assms(2,3) by (intro filter_unique_one) (auto dest: inj_onD)
  then have run: "MarkPublished owner (oe_EventID e) now d = Inr (True, ?d)"
    by (simp add: MarkPublished_def Let_def update_outbox_def rows_affected_def)
  have c: "content (?f x) = content x" for x by (simp add: content_def)
  have "outbox_ok ?d" using outbox_step_ok[OF outbox_step.published[OF run] assms(1)] by simp
  moreover have "?f e \<in> set (db_outbox ?d)"
    using imageI[of e "{x \<in> set (db_outbox d). ?hit x}" ?f] assms(2,3) by (simp add: set_update_where)
  then have "content (?f e) \<in> published_contents ?d"
    unfolding published_contents_def by (intro imageI) simp
  then have "content e \<in> published_contents ?d" unfolding c .
  moreover have "x \<in> set (db_outbox ?d)" if "x \<in> set (db_outbox d)" "oe_State x = OutboxEventStatePublished" for x
    using that by (simp add: set_update_where heldBy_def)
  then have "published_contents d \<subseteq> published_contents ?d"
    unfolding published_contents_def by blast
  moreover have "\<forall>x\<in>set (db_outbox d). oe_EventID x \<noteq> oe_EventID e \<longrightarrow> x \<in> set (db_outbox ?d)"
    by (auto simp: set_update_where)
  ultimately show ?thesis using run by blast
qed

text \<open>
  A world in which nothing goes wrong: no statement fails, the context is not cancelled, the
  broker confirms, and the clock never runs past the reserve the relay keeps of its lease.
\<close>

definition undisturbed :: "Relay \<Rightarrow> broker \<Rightarrow> world \<Rightarrow> bool" where
  "undisturbed ry br w \<longleftrightarrow> (\<forall>n. w_faults w n = None) \<and> (\<forall>n. \<not> w_cancel w n) \<and>
     (\<forall>n e. br_Publish br n e = None) \<and> (\<forall>n. br_DeclareTopology br n = None) \<and>
     (\<forall>m n. w_clock w n + maxPublishDuration ry \<le> w_clock w m + oc_LeaseDuration (ry_cfg ry))"

lemma undisturbed_step [simp]:
  "undisturbed ry br (tick w) = undisturbed ry br w"
  "undisturbed ry br (w\<lparr>w_db := d\<rparr>) = undisturbed ry br w"
  "undisturbed ry br (accept e w) = undisturbed ry br w"
  by (simp_all add: undisturbed_def accept_def)

lemma exec_run:
  assumes "w_faults w (w_step w) = None"
    and "s (case w_tx w of Some t \<Rightarrow> t | None \<Rightarrow> w_clock w (w_step w)) (w_db w) = Inr (x, d)"
  shows "exec s w = (Inr x, (tick w)\<lparr>w_db := d\<rparr>)"
  using assms by (simp add: exec_def)

lemma exec_undisturbed:
  assumes "undisturbed ry br w" and "\<And>now. \<exists>d. s now (w_db w) = Inr (x now, d)"
  shows "\<exists>now d. s now (w_db w) = Inr (x now, d) \<and> exec s w = (Inr (x now), (tick w)\<lparr>w_db := d\<rparr>)"
proof -
  define now where "now = (case w_tx w of Some t \<Rightarrow> t | None \<Rightarrow> w_clock w (w_step w))"
  obtain d where "s now (w_db w) = Inr (x now, d)" using assms(2) by blast
  then have "exec s w = (Inr (x now), (tick w)\<lparr>w_db := d\<rparr>)"
    using assms(1) by (simp add: exec_def undisturbed_def now_def)
  with \<open>s now (w_db w) = Inr (x now, d)\<close> show ?thesis by blast
qed

definition holds_row :: "string \<Rightarrow> db \<Rightarrow> OutboxEvent \<Rightarrow> bool" where
  "holds_row owner d row \<longleftrightarrow> (\<exists>e\<in>set (db_outbox d). content e = content row \<and> heldBy owner e)"

lemma publish_all:
  assumes "undisturbed ry br w" and "\<And>n. w_clock w n + maxPublishDuration ry \<le> deadline" and "outbox_ok (w_db w)"
    and "\<forall>row\<in>set rows. check_row ry row = None \<and> holds_row (ry_owner ry) (w_db w) row"
    and "distinct (map oe_EventID rows)"
  shows "\<exists>w'. publish ry br deadline rows t w = ((0, True), t, w') \<and> w_sent w' = w_sent w @ rows \<and>
    published_contents (w_db w) \<union> content ` set rows \<subseteq> published_contents (w_db w')"
  using assms
proof (induction rows arbitrary: w)
  case (Cons row rest)
  let ?w1 = "accept row (tick (tick (tick w)))"
  have db: "w_db ?w1 = w_db w" and sent: "w_sent ?w1 = w_sent w @ [row]" by (simp_all add: accept_def)
  from Cons.prems(4) obtain e where e: "e \<in> set (db_outbox (w_db w))" "content e = content row" "heldBy (ry_owner ry) e"
    by (auto simp: holds_row_def)
  have eid: "oe_EventID e = oe_EventID row" using e(2) by (metis content_id)
  note marks = MarkPublished_marks[OF Cons.prems(3) e(1,3), unfolded eid]
  have "\<exists>d. MarkPublished (ry_owner ry) (oe_EventID row) now (w_db ?w1) = Inr (True, d)" for now
    unfolding db using marks[of now] by blast
  moreover have "undisturbed ry br ?w1" using Cons.prems(1) by simp
  ultimately obtain now d where d: "MarkPublished (ry_owner ry) (oe_EventID row) now (w_db w) = Inr (True, d)"
    and run: "exec (MarkPublished (ry_owner ry) (oe_EventID row)) ?w1 = (Inr True, (tick ?w1)\<lparr>w_db := d\<rparr>)"
    using exec_undisturbed[of ry br ?w1 "MarkPublished (ry_owner ry) (oe_EventID row)" "\<lambda>_. True"] unfolding db by blast
  let ?w2 = "(tick ?w1)\<lparr>w_db := d\<rparr>"
  from marks[of now] d have d': "outbox_ok d" "content e \<in> published_contents d"
    "published_contents (w_db w) \<subseteq> published_contents d"
    "\<forall>x\<in>set (db_outbox (w_db w)). oe_EventID x \<noteq> oe_EventID row \<longrightarrow> x \<in> set (db_outbox d)" by auto
  have "holds_row (ry_owner ry) d r" if r: "r \<in> set rest" for r
  proof -
    from Cons.prems(4) r obtain x where x: "x \<in> set (db_outbox (w_db w))" "content x = content r" "heldBy (ry_owner ry) x"
      by (auto simp: holds_row_def)
    have "oe_EventID x = oe_EventID r" using x(2) by (metis content_id)
    moreover have "oe_EventID r \<noteq> oe_EventID row" using Cons.prems(5) imageI[OF r, of oe_EventID] by auto
    ultimately have "oe_EventID x \<noteq> oe_EventID row" by simp
    with d'(4) x show ?thesis by (auto simp: holds_row_def)
  qed
  moreover have "undisturbed ry br ?w2" using Cons.prems(1) by simp
  moreover have "w_clock ?w2 n + maxPublishDuration ry \<le> deadline" for n
    using Cons.prems(2)[of n] by (simp add: accept_def)
  ultimately obtain w' where w': "publish ry br deadline rest t ?w2 = ((0, True), t, w')"
    "w_sent w' = w_sent ?w2 @ rest" "published_contents d \<union> content ` set rest \<subseteq> published_contents (w_db w')"
    using Cons.IH[of ?w2] d'(1) Cons.prems(4,5) by auto
  have "publish ry br deadline (row # rest) t w = publish ry br deadline rest t ?w2"
    using Cons.prems(1) Cons.prems(2)[of "Suc (w_step w)"] Cons.prems(4) run
    by (simp add: undisturbed_def cancelled_def clock_def Publish_def not_less algebra_simps)
  with w' d'(2,3) e(2) sent show ?case by auto
qed simp

lemma Claim_holds:
  assumes "outbox_ok d" and "Claim owner limit lease now d = Inr (rows, d')"
  shows "\<forall>row\<in>set rows. holds_row owner d' row" and "distinct (map oe_EventID rows)"
    and "content ` set rows \<subseteq> contents d" and "outbox_ok d'"
proof -
  let ?hit = "\<lambda>e. oe_EventID e \<in> oe_EventID ` set (due_rows (nat limit) now (db_outbox d))"
  let ?f = "leased owner (now + Milliseconds lease * 1000000)"
  have d': "d' = update_outbox ?hit ?f now d" and rows: "set rows = claimed ` {e \<in> set (db_outbox d'). ?hit e}"
    using assms(2) by (auto simp: Claim_def Let_def split: if_splits)
  have "heldBy owner e" if "e \<in> set (db_outbox d')" "?hit e" for e
    using that by (auto simp: d' update_outbox_def set_update_where heldBy_def leased_def)
  then show "\<forall>row\<in>set rows. holds_row owner d' row" by (auto simp: rows holds_row_def)
  show "outbox_ok d'" using outbox_step_ok[OF outbox_step.claim[OF assms(2)] assms(1)] by simp
  have contents: "map content rows = map content (due_rows (nat limit) now (db_outbox d))" by (rule Claim_rows[OF assms])
  from arg_cong[OF this, of "map fst"] have "map oe_EventID rows = map oe_EventID (due_rows (nat limit) now (db_outbox d))"
    by (simp add: comp_def content_id)
  moreover have "distinct (map oe_EventID (due_rows (nat limit) now (db_outbox d)))"
    using due_rows_props(2,3)[OF assms(1), of "nat limit" now] assms(1) inj_on_subset
    by (fastforce simp: outbox_ok_def distinct_map)
  ultimately show "distinct (map oe_EventID rows)" by simp
  from arg_cong[OF contents, of set] show "content ` set rows \<subseteq> contents d"
    using due_rows_props(3)[OF assms(1), of "nat limit" now] by (auto simp: contents_def)
qed

text \<open>Whether a row can be published depends on its content only.\<close>

lemma check_row_content: "content a = content b \<Longrightarrow> check_row ry a = check_row ry b"
  by (simp add: check_row_def content_def OutboxEvent_Validate_def)

lemma claimAndPublish_all:
  assumes "undisturbed ry br w" and "outbox_ok (w_db w)" and "oc_BatchSize (ry_cfg ry) \<ge> 0"
    and "\<forall>e\<in>set (db_outbox (w_db w)). check_row ry e = None"
  shows "\<exists>sent wait w'. claimAndPublish ry br t w = (wait, t\<lparr>tm_backoff := 0\<rparr>, w') \<and> w_sent w' = w_sent w @ sent \<and>
    map content sent = map content (due_rows (nat (oc_BatchSize (ry_cfg ry))) (stmt_time w (Suc (w_step w))) (db_outbox (w_db w))) \<and>
    content ` set sent \<subseteq> published_contents (w_db w') \<and>
    wait = (if int (length sent) = oc_BatchSize (ry_cfg ry) then 0 else oc_PollInterval (ry_cfg ry))"
proof -
  let ?c = "Claim (ry_owner ry) (oc_BatchSize (ry_cfg ry)) (oc_LeaseDuration (ry_cfg ry))"
  define now where "now = stmt_time w (Suc (w_step w))"
  obtain rows d where claim: "?c now (w_db w) = Inr (rows, d)" using assms(3) by (simp add: Claim_def Let_def)
  have run: "exec ?c (tick w) = (Inr rows, (tick (tick w))\<lparr>w_db := d\<rparr>)"
    by (rule exec_run) (use assms(1) claim in \<open>simp add: undisturbed_def\<close>, use claim in \<open>simp add: now_def stmt_time_def split: option.splits\<close>)
  let ?w = "(tick (tick w))\<lparr>w_db := d\<rparr>" and ?deadline = "clock w + oc_LeaseDuration (ry_cfg ry)"
  note held = Claim_holds[OF assms(2) claim]
  have "check_row ry row = None" if row: "row \<in> set rows" for row
  proof -
    from subsetD[OF held(3) imageI[OF row]] obtain e where "e \<in> set (db_outbox (w_db w))" "content row = content e"
      by (auto simp: contents_def)
    with assms(4) check_row_content show ?thesis by metis
  qed
  with held(1) have ready: "\<forall>row\<in>set rows. check_row ry row = None \<and> holds_row (ry_owner ry) (w_db ?w) row" by simp
  have calm: "undisturbed ry br ?w" using assms(1) by simp
  have intime: "w_clock ?w n + maxPublishDuration ry \<le> ?deadline" for n
    using assms(1) by (simp add: undisturbed_def clock_def)
  have ok: "outbox_ok (w_db ?w)" using held(4) by simp
  from publish_all[OF calm intime ok ready held(2), of t] obtain w' where
    w': "publish ry br ?deadline rows t ?w = ((0, True), t, w')" "w_sent w' = w_sent w @ rows"
      "content ` set rows \<subseteq> published_contents (w_db w')" by auto
  with run Claim_rows[OF assms(2) claim] show ?thesis
    by (intro exI[of _ rows]) (auto simp: claimAndPublish_def Let_def now_def)
qed

section \<open>Cleaning up\<close>

lemma DeletePublishedBefore_shrinks:
  assumes "DeletePublishedBefore before limit now d = Inr (n, d')"
  shows "length (db_outbox d') + nat n = length (db_outbox d)" and "0 \<le> n"
proof -
  have "length (filter (\<lambda>e. \<not> P e) xs) + length (filter P xs) = length xs" for P and xs :: "OutboxEvent list"
    using sum_length_filter_compl[of P xs] by simp
  with assms show "length (db_outbox d') + nat n = length (db_outbox d)" and "0 \<le> n"
    by (auto simp: DeletePublishedBefore_def Let_def rows_affected_def split: if_splits)
qed

lemma cleanupLoop_returns:
  assumes "oc_CleanupBatch (ry_cfg ry) \<ge> 1"
  shows "\<exists>r. cleanupLoop ry before removed w = Some r"
proof (induction "length (db_outbox (w_db w))" arbitrary: removed w rule: less_induct)
  case less
  let ?stmt = "DeletePublishedBefore before (oc_CleanupBatch (ry_cfg ry))"
  obtain r w1 where ex: "exec ?stmt (tick w) = (r, w1)" by fastforce
  have "\<exists>x. cleanupLoop ry before (removed + deleted) w1 = Some x"
    if r: "r = Inr deleted" and big: "\<not> deleted < oc_CleanupBatch (ry_cfg ry)" for deleted
  proof (rule less.hyps)
    from exec_Inr[OF ex[unfolded r]] obtain now d where "?stmt now (w_db w) = Inr (deleted, d)" "w_db w1 = d" by auto
    with DeletePublishedBefore_shrinks[OF this(1)] big assms
    show "length (db_outbox (w_db w1)) < length (db_outbox (w_db w))" by simp
  qed
  with ex show ?case
    by (cases r) (auto simp: cleanupLoop.simps[of ry before removed w])
qed

section \<open>Properties\<close>

lemma published_accepted:
  "published_contents d \<subseteq> content ` set sent \<longleftrightarrow>
     (\<forall>e\<in>set (db_outbox d). oe_State e = OutboxEventStatePublished \<longrightarrow> (\<exists>s\<in>set sent. content s = content e))"
  unfolding published_contents_def image_subset_iff by (auto simp: image_iff eq_commute)

text \<open>
  C22: An event is marked as published only after the broker accepted it: after any number of
  cycles of a term, whatever statements fail, whatever the broker answers and whenever the
  term is cancelled, every published row of the outbox is among the events the broker
  accepted, with the same content.
\<close>

theorem published_means_accepted:
  assumes "outbox_ok (w_db w)"
    and "\<forall>e\<in>set (db_outbox (w_db w)). oe_State e = OutboxEventStatePublished \<longrightarrow>
           (\<exists>s\<in>set (w_sent w). content s = content e)"
    and "runTerm n ry br newTerm w = (t', w')"
  shows "\<forall>e\<in>set (db_outbox (w_db w')). oe_State e = OutboxEventStatePublished \<longrightarrow>
           (\<exists>s\<in>set (w_sent w'). content s = content e)"
proof -
  have "relay_inv w ry newTerm w"
    using assms(1,2) by (simp add: batch_inv_def newTerm_def published_accepted)
  from runTerm_inv[OF this assms(3)] have "published_contents (w_db w') \<subseteq> content ` set (w_sent w')"
    by (simp add: batch_inv_def)
  then show ?thesis by (simp only: published_accepted)
qed

definition sample_relay :: Relay where
  "sample_relay = \<lparr>ry_owner = ''a'', ry_cfg = \<lparr>oc_PublishTimeout = second, oc_PollInterval = second, oc_BatchSize = 10,
     oc_LeaseDuration = 60 * second, oc_RetryInitialInterval = second, oc_RetryMaxInterval = 30 * second,
     oc_Retention = 100 * second, oc_CleanupInterval = second, oc_CleanupBatch = 5\<rparr>, ry_maxPayloadSize = 1000\<rparr>"

definition sample_broker :: broker where
  "sample_broker = \<lparr>br_DeclareTopology = (\<lambda>_. None), br_Publish = (\<lambda>_ _. None)\<rparr>"

lemma sample_outbox_ok: "outbox_ok sample_outbox"
  using outbox_step_ok[OF sample_append] by (simp add: outbox_ok_def empty_db_def)

lemma sample_term_publishes:
  "\<exists>e\<in>set (db_outbox (w_db (snd (runTerm 1 sample_relay sample_broker newTerm (sample_world sample_outbox))))).
     oe_State e = OutboxEventStatePublished"
  by code_simp

theorem published_means_accepted_witness:
  "\<exists>t' w' e s. runTerm 1 sample_relay sample_broker newTerm (sample_world sample_outbox) = (t', w') \<and>
     e \<in> set (db_outbox (w_db w')) \<and> oe_State e = OutboxEventStatePublished \<and>
     s \<in> set (w_sent w') \<and> content s = content e"
proof -
  obtain t' w' where run: "runTerm 1 sample_relay sample_broker newTerm (sample_world sample_outbox) = (t', w')" by fastforce
  have "outbox_ok (w_db (sample_world sample_outbox))" by (simp add: sample_world_def sample_outbox_ok)
  moreover have "\<forall>e\<in>set (db_outbox (w_db (sample_world sample_outbox))). oe_State e = OutboxEventStatePublished \<longrightarrow>
      (\<exists>s\<in>set (w_sent (sample_world sample_outbox)). content s = content e)"
    by (simp add: sample_world_def sample_outbox_def pending_row_def)
  ultimately have sent: "\<forall>e\<in>set (db_outbox (w_db w')). oe_State e = OutboxEventStatePublished \<longrightarrow>
      (\<exists>s\<in>set (w_sent w'). content s = content e)"
    by (rule published_means_accepted[OF _ _ run])
  from sample_term_publishes obtain e where "e \<in> set (db_outbox (w_db w'))" "oe_State e = OutboxEventStatePublished"
    unfolding run snd_conv by blast
  with sent run show ?thesis by blast
qed

text \<open>
  C23: The relay forgets no lease it knows of. Take any number of cycles of a term, under any
  failures, and the recovery that starts the next cycle. A row of the outbox that is leased to this
  relay after it was leased by a statement that failed although it was applied, a claim whose
  answer was lost, and its lease, counted from that statement, has not run out; so no row stays
  leased longer than one lease, and without a lost claim none stays leased at all.
\<close>

theorem no_lease_is_forgotten:
  assumes "outbox_ok (w_db w)"
    and "\<forall>e\<in>set (db_outbox (w_db w)). oe_State e = OutboxEventStatePublished \<longrightarrow>
           (\<exists>s\<in>set (w_sent w). content s = content e)"
    and "runTerm n ry br newTerm w = (t', w')"
    and "w_tx w = None"
  shows "\<exists>k d. RecoverLeases (ry_owner ry) (\<not> tm_recovered t') now (w_db w') = Inr (k, d) \<and>
    (\<forall>e\<in>set (db_outbox d). oe_State e = OutboxEventStateProcessing \<and> oe_LockedBy e = ry_owner ry \<longrightarrow>
       (\<exists>i. w_step w \<le> i \<and> i < w_step w' \<and> w_faults w i \<noteq> None \<and> w_committed w i \<and>
          oe_LockedUntil e = Some (w_clock w i + Milliseconds (oc_LeaseDuration (ry_cfg ry)) * 1000000) \<and>
          now \<le> w_clock w i + Milliseconds (oc_LeaseDuration (ry_cfg ry)) * 1000000))"
proof -
  let ?L = "lost_claim w ry w'"
  have "relay_inv w ry newTerm w"
    using assms(1,2) by (simp add: batch_inv_def newTerm_def published_accepted)
  from runTerm_inv[OF this assms(3)] have inv: "outbox_ok (w_db w')" "tm_recovered t' \<Longrightarrow> held ?L (ry_owner ry) (w_db w') = {}"
    by (auto simp: batch_inv_def)
  obtain k d where r: "RecoverLeases (ry_owner ry) (\<not> tm_recovered t') now (w_db w') = Inr (k, d)"
    by (simp add: RecoverLeases_def Let_def)
  from RecoverLeases_change[OF inv(1) r] inv(2) have none: "held ?L (ry_owner ry) d = {}" by (simp add: relay_change_def)
  have unexpired: "\<not> expired now e" if "e \<in> set (db_outbox d)" "heldBy (ry_owner ry) e" for e
    using r that by (auto simp: RecoverLeases_def Let_def update_outbox_def set_update_where released_def heldBy_def)
  have "?L e \<and> \<not> expired now e" if "e \<in> set (db_outbox d)" "heldBy (ry_owner ry) e" for e
    using that none unexpired by (auto simp: held_def)
  then have "\<forall>e\<in>set (db_outbox d). heldBy (ry_owner ry) e \<longrightarrow> ?L e \<and> \<not> expired now e" by blast
  with r show ?thesis using assms(4) unfolding lost_claim_def stmt_time_def heldBy_def
    by (intro exI[of _ k] exI[of _ d] conjI) (simp, fastforce simp: expired_def)
qed

theorem no_lease_is_forgotten_witness:
  "\<exists>t' w' k d. runTerm 2 sample_relay sample_broker newTerm (sample_world sample_outbox) = (t', w') \<and>
     RecoverLeases ''a'' (\<not> tm_recovered t') 9000 (w_db w') = Inr (k, d) \<and>
     filter (\<lambda>e. oe_State e = OutboxEventStateProcessing \<and> oe_LockedBy e = ''a'') (db_outbox d) = []"
proof -
  let ?w = "sample_world sample_outbox"
  obtain t' w' where run: "runTerm 2 sample_relay sample_broker newTerm ?w = (t', w')" by fastforce
  have calm: "outbox_ok (w_db ?w)" "w_tx ?w = None" "w_faults ?w i = None" for i by (simp_all add: sample_world_def sample_outbox_ok)
  have none: "\<forall>e\<in>set (db_outbox (w_db ?w)). oe_State e = OutboxEventStatePublished \<longrightarrow> (\<exists>s\<in>set (w_sent ?w). content s = content e)"
    by (simp add: sample_world_def sample_outbox_def pending_row_def)
  obtain k d where r: "RecoverLeases (ry_owner sample_relay) (\<not> tm_recovered t') 9000 (w_db w') = Inr (k, d)"
    and free: "\<forall>e\<in>set (db_outbox d). \<not> (oe_State e = OutboxEventStateProcessing \<and> oe_LockedBy e = ry_owner sample_relay)"
    using no_lease_is_forgotten[OF calm(1) none run calm(2), of 9000] unfolding calm(3) by blast
  have "ry_owner sample_relay = ''a''" by (simp add: sample_relay_def)
  with run r free show ?thesis by (auto simp: filter_empty_conv)
qed

text \<open>
  The exception is real. When the answer of the claim is lost, the term goes on believing that
  nothing of its own is in flight, and the recovery of the next cycle leaves the row leased.
\<close>

lemma lost_claim_keeps_the_lease:
  "\<exists>w t' w' k d. runTerm 1 sample_relay sample_broker newTerm w = (t', w') \<and> w_db w = sample_outbox \<and> tm_recovered t' \<and>
     RecoverLeases ''a'' (\<not> tm_recovered t') 9000 (w_db w') = Inr (k, d) \<and>
     map oe_LockedBy (db_outbox d) = [''a''] \<and> w_sent w' = []"
proof -
  let ?w = "(sample_world sample_outbox)\<lparr>w_faults := (\<lambda>n. if n = 3 then Some CtxErr else None), w_committed := (\<lambda>n. n = 3)\<rparr>"
  obtain t' w' where run: "runTerm 1 sample_relay sample_broker newTerm ?w = (t', w')" by fastforce
  have "(case runTerm 1 sample_relay sample_broker newTerm ?w of (t', w') \<Rightarrow> tm_recovered t' \<and> w_sent w' = [] \<and>
      (case RecoverLeases ''a'' (\<not> tm_recovered t') 9000 (w_db w') of Inl _ \<Rightarrow> False | Inr (k, d) \<Rightarrow> map oe_LockedBy (db_outbox d) = [''a'']))"
    by code_simp
  with run show ?thesis
    by (intro exI[of _ ?w] exI[of _ t'] exI[of _ w']) (auto simp: sample_world_def split: sum.splits)
qed

text \<open>
  C24: A cycle that nothing disturbs delivers what is due: once expired leases, and its own
  left-over ones, are returned to pending, the relay sends the events that are due at the time of
  its claim oldest first, all of them or as many as one batch holds, each of them is marked as
  published, and the backoff is reset. The claim is the third or fourth observation of the cycle,
  after the recovery, the declaration of the exchange where it is needed, and the reading of the
  clock. The next cycle follows at once after a full batch and after the poll interval otherwise.
\<close>

theorem undisturbed_cycle_delivers:
  assumes "outbox_ok (w_db w)" and "undisturbed ry br w" and "0 \<le> oc_BatchSize (ry_cfg ry)"
    and "\<forall>e\<in>set (db_outbox (w_db w)). check_row ry e = None" and "w_tx w = None"
  shows "\<exists>k d t' sent w'. RecoverLeases (ry_owner ry) (\<not> tm_recovered t) (w_clock w (w_step w)) (w_db w) = Inr (k, d) \<and>
      cycle ry br t w = (if int (length sent) = oc_BatchSize (ry_cfg ry) then 0 else oc_PollInterval (ry_cfg ry), t', w') \<and>
      w_sent w' = w_sent w @ sent \<and>
      map content sent = map content (due_rows (nat (oc_BatchSize (ry_cfg ry)))
        (w_clock w (w_step w + (if tm_declared t then 2 else 3))) (db_outbox d)) \<and>
      content ` set sent \<subseteq> published_contents (w_db w') \<and> tm_backoff t' = 0"
proof -
  let ?now = "w_clock w (w_step w)" and ?at = "w_clock w (w_step w + (if tm_declared t then 2 else 3))"
  let ?r = "RecoverLeases (ry_owner ry) (\<not> tm_recovered t)"
  obtain k d where r: "?r ?now (w_db w) = Inr (k, d)" by (simp add: RecoverLeases_def Let_def)
  have run: "exec ?r w = (Inr k, (tick w)\<lparr>w_db := d\<rparr>)"
    by (rule exec_run) (use assms(2,5) r in \<open>simp_all add: undisturbed_def\<close>)
  have ok: "outbox_ok d" using outbox_step_ok[OF outbox_step.recover[OF r] assms(1)] by simp
  have "d = update_outbox (\<lambda>e. oe_State e = OutboxEventStateProcessing \<and>
      (expired ?now e \<or> (\<not> tm_recovered t \<and> oe_LockedBy e = ry_owner ry))) released ?now (w_db w)"
    using r by (simp add: RecoverLeases_def Let_def)
  then have same: "contents d = contents (w_db w)" using contents_eq[OF recover.contents] by simp
  have checks: "\<forall>e\<in>set (db_outbox d). check_row ry e = None"
  proof
    fix e assume "e \<in> set (db_outbox d)"
    then have "content e \<in> contents (w_db w)" using same by (auto simp: contents_def)
    then obtain x where "x \<in> set (db_outbox (w_db w))" "content e = content x" by (auto simp: contents_def)
    with assms(4) check_row_content show "check_row ry e = None" by metis
  qed
  define t1 where "t1 = t\<lparr>tm_recovered := True\<rparr>"
  define t2 where "t2 = (if tm_declared t then t1 else t1\<lparr>tm_declared := True\<rparr>)"
  define w1 where "w1 = (tick w)\<lparr>w_db := d\<rparr>"
  define w2 where "w2 = (if tm_declared t then w1 else tick w1)"
  have calm: "undisturbed ry br w2" using assms(2) by (simp add: w2_def w1_def)
  have db: "w_db w2 = d" "w_sent w2 = w_sent w" by (simp_all add: w2_def w1_def)
  have at: "stmt_time w2 (Suc (w_step w2)) = ?at" using assms(5) by (simp add: stmt_time_def w2_def w1_def eval_nat_numeral)
  have "cycle ry br t w = claimAndPublish ry br t2 w2"
    using assms(2) by (simp add: cycle_def run t1_def t2_def w1_def w2_def Let_def DeclareTopology_def undisturbed_def)
  moreover obtain sent wait w' where "claimAndPublish ry br t2 w2 = (wait, t2\<lparr>tm_backoff := 0\<rparr>, w')"
    "w_sent w' = w_sent w @ sent"
    "map content sent = map content (due_rows (nat (oc_BatchSize (ry_cfg ry))) ?at (db_outbox d))"
    "content ` set sent \<subseteq> published_contents (w_db w')"
    "wait = (if int (length sent) = oc_BatchSize (ry_cfg ry) then 0 else oc_PollInterval (ry_cfg ry))"
    using claimAndPublish_all[OF calm, of t2] ok checks assms(3) unfolding db at by blast
  ultimately show ?thesis
    by (intro exI[of _ k] exI[of _ d] exI[of _ "t2\<lparr>tm_backoff := 0\<rparr>"] exI[of _ sent] exI[of _ w']) (use r in simp)
qed

theorem undisturbed_cycle_delivers_witness:
  "\<exists>t' e w'. cycle sample_relay sample_broker newTerm ((sample_world sample_outbox)\<lparr>w_clock := \<lambda>_. 1000\<rparr>) = (second, t', w') \<and>
      w_sent w' = [e] \<and> content e = content (pending_row sample_event 0) \<and> content e \<in> published_contents (w_db w')"
proof -
  let ?w = "(sample_world sample_outbox)\<lparr>w_clock := \<lambda>_. 1000\<rparr>"
  have ok: "outbox_ok (w_db ?w)" "undisturbed sample_relay sample_broker ?w" "0 \<le> oc_BatchSize (ry_cfg sample_relay)" "w_tx ?w = None"
    by (simp_all add: sample_outbox_ok undisturbed_def sample_world_def sample_broker_def sample_relay_def maxPublishDuration_def)
  have checks: "\<forall>e\<in>set (db_outbox (w_db ?w)). check_row sample_relay e = None" by code_simp
  from undisturbed_cycle_delivers[OF ok(1-3) checks ok(4), of newTerm] obtain k d t' sent w' where
    r: "RecoverLeases (ry_owner sample_relay) (\<not> tm_recovered newTerm) 1000 sample_outbox = Inr (k, d)"
    and c: "cycle sample_relay sample_broker newTerm ?w = (if int (length sent) = 10 then 0 else second, t', w')" "w_sent w' = sent"
      "map content sent = map content (due_rows 10 1000 (db_outbox d))" "content ` set sent \<subseteq> published_contents (w_db w')"
    by (auto simp: sample_world_def sample_relay_def)
  from r have "due_rows 10 1000 (db_outbox d) = [pending_row sample_event 0]"
    by (auto simp: RecoverLeases_def Let_def update_outbox_def sample_outbox_def pending_row_def due_rows_def due_def)
  with c(3) have "map content sent = [content (pending_row sample_event 0)]" by simp
  then obtain e where "sent = [e]" "content e = content (pending_row sample_event 0)" by auto
  with c show ?thesis by auto
qed

text \<open>
  The removal of old published events always comes to an end, whatever fails, when the
  configured batch holds at least one event, as the configuration requires.
\<close>

theorem cleanup_returns:
  assumes "oc_CleanupBatch (ry_cfg ry) \<ge> 1"
  shows "\<exists>removed w'. cleanup ry w = Some (removed, w')"
  using cleanupLoop_returns[OF assms, of "clock w - oc_Retention (ry_cfg ry)" 0 "tick w"]
  by (auto simp: cleanup_def)

theorem cleanup_returns_witness: "\<exists>removed w'. cleanup sample_relay (sample_world sample_outbox) = Some (removed, w')"
  by (rule cleanup_returns) (simp add: sample_relay_def)

end
