(* ===== verification/Imap_Session.thy ===== *)
theory Imap_Session
  imports Email_Db
begin

text \<open>
  The IMAP session of \<^verbatim>\<open>infra/mail/imap.go\<close>: the search with its range filter, and the fetch
  that streams messages in ascending UID order whatever order the server answers in. The
  go-imap client is outside the program: its answers are the fields of \<open>imap_client\<close>,
  one client per observation of the world, so the server may answer differently every time.
  A message the server returns carries its body as \<open>None\<close> (no body section), as an
  error while reading it, or as bytes.
\<close>

section \<open>The client library\<close>

record fetched_message =
  fm_Uid :: uid
  fm_InternalDate :: time
  fm_Size :: uid
  fm_Body :: "(error + string) option"

record imap_client =
  ic_Select :: "string \<Rightarrow> error + uid \<times> uid"
  ic_UidSearch :: "uid \<Rightarrow> uid \<Rightarrow> time \<Rightarrow> error + uid list"
  ic_UidFetch :: "uid list \<Rightarrow> fetched_message list \<times> error option"
  ic_UidFetchDates :: "uid list \<Rightarrow> (uid \<times> time) list \<times> error option"

type_synonym imap_env = "nat \<Rightarrow> imap_client"

section \<open>The session\<close>

record IMAPMailbox =
  mb_Name :: string
  mb_UIDValidity :: uid
  mb_UIDNext :: uid

record IMAPMessage =
  im_UID :: uid
  im_InternalDate :: time
  im_Size :: uid
  im_Raw :: string
  im_TooLarge :: bool

definition Examine :: "imap_env \<Rightarrow> string \<Rightarrow> IMAPMailbox io" where
  "Examine env mailbox w =
     (case ic_Select (env (w_step w)) mailbox of
        Inl e \<Rightarrow> (Inl e, tick w)
      | Inr (validity, next) \<Rightarrow>
          (Inr \<lparr>mb_Name = mailbox, mb_UIDValidity = validity, mb_UIDNext = next\<rparr>, tick w))"

definition SearchUIDsRange :: "imap_env \<Rightarrow> uid \<Rightarrow> uid \<Rightarrow> time \<Rightarrow> uid list io" where
  "SearchUIDsRange env from to since w =
     (case ic_UidSearch (env (w_step w)) from to since of
        Inl e \<Rightarrow> (Inl e, tick w)
      | Inr found \<Rightarrow>
          (Inr (remdups_adj (sort (filter (\<lambda>u. \<not> (u < from \<or> (to \<noteq> 0 \<and> u > to))) found))), tick w))"

definition FetchInternalDates :: "imap_env \<Rightarrow> uid list \<Rightarrow> (uid \<rightharpoonup> time) io" where
  "FetchInternalDates env uids w =
     (if uids = [] then (Inr Map.empty, w)
      else case ic_UidFetchDates (env (w_step w)) uids of
        (dates, Some e) \<Rightarrow> (Inl e, tick w)
      | (dates, None) \<Rightarrow> (Inr (foldl (\<lambda>m (u, t). m(u \<mapsto> t)) Map.empty dates), tick w))"

text \<open>
  Reading one fetched message. The body was asked for up to one byte beyond the limit, so a
  longer prefix proves that the message is too large.
\<close>

definition readFetchedMessage :: "nat \<Rightarrow> fetched_message \<Rightarrow> error + IMAPMessage" where
  "readFetchedMessage maxMessageSize m =
     (case fm_Body m of
        None \<Rightarrow> Inl (PlainError ''imap: message has no body in the FETCH response'')
      | Some (Inl e) \<Rightarrow> Inl e
      | Some (Inr raw) \<Rightarrow>
          Inr \<lparr>im_UID = fm_Uid m, im_InternalDate = fm_InternalDate m, im_Size = fm_Size m,
               im_Raw = raw, im_TooLarge = length raw > maxMessageSize\<rparr>)"

text \<open>
  The loop of \<^verbatim>\<open>fetchRawBatch\<close> over the stream of answers. \<open>'s\<close> is what the callback
  changes.
\<close>

record batch_state =
  bs_seen :: "uid list"
  bs_next :: nat
  bs_fallbackAt :: "nat option"
  bs_lastUID :: uid
  bs_unordered :: bool
  bs_readErr :: "error option"

definition batch_start :: batch_state where
  "batch_start = \<lparr>bs_seen = [], bs_next = 0, bs_fallbackAt = None, bs_lastUID = 0,
     bs_unordered = False, bs_readErr = None\<rparr>"

definition batchStep :: "nat \<Rightarrow> uid list \<Rightarrow> (IMAPMessage \<Rightarrow> 's \<Rightarrow> 's) \<Rightarrow>
    fetched_message \<Rightarrow> batch_state \<times> 's \<Rightarrow> batch_state \<times> 's" where
  "batchStep maxMessageSize uids handle m st = (case st of (b, s) \<Rightarrow>
     if fm_Uid m \<notin> set uids then (b, s)
     else if fm_Uid m \<in> set (bs_seen b) then (b, s)
     else
       let b1 = b\<lparr>bs_seen := fm_Uid m # bs_seen b,
                  bs_unordered := bs_unordered b \<or> (bs_lastUID b \<noteq> 0 \<and> fm_Uid m < bs_lastUID b),
                  bs_lastUID := fm_Uid m\<rparr>
       in if bs_fallbackAt b1 \<noteq> None \<or> bs_readErr b1 \<noteq> None then (b1, s)
          else if bs_next b1 \<ge> length uids \<or> fm_Uid m \<noteq> uids ! bs_next b1
          then (b1\<lparr>bs_fallbackAt := Some (bs_next b1)\<rparr>, s)
          else (case readFetchedMessage maxMessageSize m of
            Inl e \<Rightarrow> (b1\<lparr>bs_readErr := Some e\<rparr>, s)
          | Inr r \<Rightarrow> (b1\<lparr>bs_next := Suc (bs_next b1)\<rparr>, handle r s)))"

definition fetchRawBatch :: "nat \<Rightarrow> uid list \<Rightarrow> (IMAPMessage \<Rightarrow> 's \<Rightarrow> 's) \<Rightarrow>
    fetched_message list \<times> error option \<Rightarrow> 's \<Rightarrow> (nat \<times> bool \<times> error option) \<times> 's" where
  "fetchRawBatch maxMessageSize uids handle response s =
     (case fold (batchStep maxMessageSize uids handle) (fst response) (batch_start, s) of (b, s') \<Rightarrow>
        (case snd response of
           Some e \<Rightarrow> ((bs_next b, bs_unordered b, Some e), s')
         | None \<Rightarrow>
             (case bs_readErr b of
                Some e \<Rightarrow> ((bs_next b, bs_unordered b, Some e), s')
              | None \<Rightarrow>
                  (case bs_fallbackAt b of
                     Some n \<Rightarrow> ((n, bs_unordered b, None), s')
                   | None \<Rightarrow> ((length uids, bs_unordered b, None), s')))))"

text \<open>One message, \<open>None\<close> when it was expunged after the search.\<close>

definition fetchRaw :: "nat \<Rightarrow> fetched_message list \<times> error option \<Rightarrow> uid \<Rightarrow> error + IMAPMessage option" where
  "fetchRaw maxMessageSize response u =
     (case snd response of
        Some e \<Rightarrow> Inl e
      | None \<Rightarrow>
          (case find (\<lambda>m. fm_Uid m = u) (fst response) of
             None \<Rightarrow> Inr None
           | Some m \<Rightarrow>
               (case readFetchedMessage maxMessageSize m of Inl e \<Rightarrow> Inl e | Inr r \<Rightarrow> Inr (Some r))))"

text \<open>
  The callback runs in the world; \<open>'s\<close> pairs what it captures with the world, so that
  the fetches in between see the observations it makes.
\<close>

fun fetchRawSequential :: "imap_env \<Rightarrow> nat \<Rightarrow> uid list \<Rightarrow> (IMAPMessage \<Rightarrow> 's \<times> world \<Rightarrow> 's \<times> world) \<Rightarrow>
    's \<times> world \<Rightarrow> error option \<times> 's \<times> world" where
  "fetchRawSequential env maxMessageSize [] handle sw = (None, sw)"
| "fetchRawSequential env maxMessageSize (u # us) handle (s, w) =
     (case fetchRaw maxMessageSize (ic_UidFetch (env (w_step w)) [u]) u of
        Inl e \<Rightarrow> (Some e, s, tick w)
      | Inr None \<Rightarrow> fetchRawSequential env maxMessageSize us handle (s, tick w)
      | Inr (Some m) \<Rightarrow> fetchRawSequential env maxMessageSize us handle (handle m (s, tick w)))"

definition FetchRaw :: "imap_env \<Rightarrow> nat \<Rightarrow> bool \<Rightarrow> uid list \<Rightarrow>
    (IMAPMessage \<Rightarrow> 's \<times> world \<Rightarrow> 's \<times> world) \<Rightarrow> 's \<times> world \<Rightarrow> error option \<times> bool \<times> 's \<times> world" where
  "FetchRaw env maxMessageSize sequentialFetch uids handle sw =
     (if uids = [] then (None, sequentialFetch, sw)
      else
        let ordered = remdups_adj (sort uids)
        in if sequentialFetch then
             (case fetchRawSequential env maxMessageSize ordered handle sw of
                (e, sw') \<Rightarrow> (e, sequentialFetch, sw'))
           else
             (case sw of (s, w) \<Rightarrow>
                (case fetchRawBatch maxMessageSize ordered handle (ic_UidFetch (env (w_step w)) ordered) (s, tick w) of
                   ((next, unordered, err), sw1) \<Rightarrow>
                     (case err of
                        Some e \<Rightarrow> (Some e, unordered, sw1)
                      | None \<Rightarrow>
                          if next < length ordered then
                            (case fetchRawSequential env maxMessageSize (drop next ordered) handle sw1 of
                               (e, sw2) \<Rightarrow> (e, unordered, sw2))
                          else (None, unordered, sw1)))))"

section \<open>What the server promises about a fetch\<close>

text \<open>
  \<open>msgs\<close> is the content of the mailbox. A server may answer in any order, repeat
  answers, add unsolicited ones and fail at any point; what it returns for a requested UID is
  the message of that UID, and an answer that ends without an error left no existing
  requested message out.
\<close>

definition fetch_contract :: "imap_env \<Rightarrow> nat \<Rightarrow> (uid \<rightharpoonup> IMAPMessage) \<Rightarrow> bool" where
  "fetch_contract env maxMessageSize msgs \<longleftrightarrow> (\<forall>n us.
     (\<forall>f\<in>set (fst (ic_UidFetch (env n) us)). fm_Uid f \<in> set us \<longrightarrow>
        (\<exists>m. msgs (fm_Uid f) = Some m \<and>
           (\<forall>r. readFetchedMessage maxMessageSize f = Inr r \<longrightarrow> r = m))) \<and>
     (snd (ic_UidFetch (env n) us) = None \<longrightarrow>
        (\<forall>u\<in>set us. msgs u \<noteq> None \<longrightarrow> u \<in> fm_Uid ` set (fst (ic_UidFetch (env n) us)))))"

lemma fetch_contract_answer:
  assumes "fetch_contract env maxMessageSize msgs" and "f \<in> set (fst (ic_UidFetch (env n) us))"
    and "fm_Uid f \<in> set us"
  obtains m where "msgs (fm_Uid f) = Some m"
    and "\<And>r. readFetchedMessage maxMessageSize f = Inr r \<Longrightarrow> r = m"
  using assms unfolding fetch_contract_def by blast

lemma fetch_contract_complete:
  assumes "fetch_contract env maxMessageSize msgs" and "snd (ic_UidFetch (env n) us) = None"
    and "u \<in> set us" and "u \<notin> fm_Uid ` set (fst (ic_UidFetch (env n) us))"
  shows "msgs u = None"
  using assms unfolding fetch_contract_def by blast

text \<open>The existing messages among some UIDs, in order.\<close>

definition existing :: "(uid \<rightharpoonup> IMAPMessage) \<Rightarrow> uid list \<Rightarrow> IMAPMessage list" where
  "existing msgs us = map (\<lambda>u. the (msgs u)) (filter (\<lambda>u. msgs u \<noteq> None) us)"

lemma existing_simps [simp]:
  "existing msgs [] = []"
  "existing msgs (u # us) = (case msgs u of None \<Rightarrow> [] | Some m \<Rightarrow> [m]) @ existing msgs us"
  "existing msgs (us @ vs) = existing msgs us @ existing msgs vs"
  by (auto simp: existing_def split: option.splits)

section \<open>The fetch loops\<close>

text \<open>
  The state of the batch loop: the messages handled so far are the ones of the first
  \<open>next\<close> requested UIDs, all of which exist; until a gap or a read error is met, no
  other requested UID has been answered.
\<close>

definition batch_inv :: "(uid \<rightharpoonup> IMAPMessage) \<Rightarrow> uid list \<Rightarrow> uid set \<Rightarrow> batch_state \<Rightarrow> IMAPMessage list \<Rightarrow> bool" where
  "batch_inv msgs uids answered b log \<longleftrightarrow>
     bs_next b \<le> length uids \<and> log = existing msgs (take (bs_next b) uids) \<and>
     (\<forall>u\<in>set (take (bs_next b) uids). msgs u \<noteq> None) \<and>
     bs_fallbackAt b \<in> {None, Some (bs_next b)} \<and>
     (bs_fallbackAt b = None \<and> bs_readErr b = None \<longrightarrow>
        answered \<inter> set uids \<subseteq> set (take (bs_next b) uids) \<and> set (bs_seen b) = set (take (bs_next b) uids))"

lemma batch_inv_start: "batch_inv msgs uids {} batch_start []"
  by (simp add: batch_inv_def batch_start_def)

lemma batchStep_inv:
  assumes inv: "batch_inv msgs uids A b log" and Q: "Q log sw"
    and m: "fm_Uid m \<in> set uids \<Longrightarrow> \<exists>x. msgs (fm_Uid m) = Some x \<and>
         (\<forall>r. readFetchedMessage maxSize m = Inr r \<longrightarrow> r = x)"
    and handle: "\<And>l x sw. Q l sw \<Longrightarrow> Q (l @ [x]) (handle x sw)"
    and step: "batchStep maxSize uids handle m (b, sw) = (b', sw')"
  shows "\<exists>log'. batch_inv msgs uids (insert (fm_Uid m) A) b' log' \<and> Q log' sw'"
proof (cases "fm_Uid m \<in> set uids \<and> fm_Uid m \<notin> set (bs_seen b) \<and> bs_fallbackAt b = None \<and> bs_readErr b = None")
  case False
  have "batch_inv msgs uids (insert (fm_Uid m) A) b' log \<and> sw' = sw"
  proof (cases "fm_Uid m \<notin> set uids \<or> fm_Uid m \<in> set (bs_seen b)")
    case True
    with step have "b' = b" "sw' = sw"
      by (cases "fm_Uid m \<in> set uids"; simp add: batchStep_def)+
    with True inv show ?thesis by (auto simp: batch_inv_def)
  next
    case fresh: False
    with False step have "sw' = sw" "bs_next b' = bs_next b" "bs_fallbackAt b' = bs_fallbackAt b"
      "bs_readErr b' = bs_readErr b" by (auto simp: batchStep_def Let_def)
    with fresh False inv show ?thesis by (auto simp: batch_inv_def)
  qed
  with Q show ?thesis by blast
next
  case True
  then obtain x where x: "msgs (fm_Uid m) = Some x"
    "\<And>r. readFetchedMessage maxSize m = Inr r \<Longrightarrow> r = x" using m by blast
  show ?thesis
  proof (cases "bs_next b < length uids \<and> fm_Uid m = uids ! bs_next b \<and> (\<exists>r. readFetchedMessage maxSize m = Inr r)")
    case False
    then have "batch_inv msgs uids (insert (fm_Uid m) A) b' log \<and> sw' = sw"
      using inv step True by (auto simp: batch_inv_def batchStep_def Let_def split: if_splits sum.splits)
    with Q show ?thesis by blast
  next
    case next_one: True
    then have "readFetchedMessage maxSize m = Inr x" using x(2) by auto
    with step True next_one have b': "sw' = handle x sw" "bs_next b' = Suc (bs_next b)"
      "bs_fallbackAt b' = None" "bs_readErr b' = None" "bs_seen b' = fm_Uid m # bs_seen b"
      by (auto simp: batchStep_def Let_def split: if_splits)
    have "take (Suc (bs_next b)) uids = take (bs_next b) uids @ [fm_Uid m]"
      using next_one by (simp add: take_Suc_conv_app_nth)
    with inv True b' x(1) next_one have "batch_inv msgs uids (insert (fm_Uid m) A) b' (log @ [x])"
      by (auto simp: batch_inv_def)
    with handle[OF Q, of x] b'(1) show ?thesis by blast
  qed
qed

lemma batchFold_inv:
  assumes "batch_inv msgs uids A b log" and "Q log sw"
    and "\<forall>f\<in>set fs. fm_Uid f \<in> set uids \<longrightarrow> (\<exists>x. msgs (fm_Uid f) = Some x \<and>
         (\<forall>r. readFetchedMessage maxSize f = Inr r \<longrightarrow> r = x))"
    and handle: "\<And>l x sw. Q l sw \<Longrightarrow> Q (l @ [x]) (handle x sw)"
    and "fold (batchStep maxSize uids handle) fs (b, sw) = (b', sw')"
  shows "\<exists>log'. batch_inv msgs uids (A \<union> fm_Uid ` set fs) b' log' \<and> Q log' sw'"
  using assms(1-3,5)
proof (induction fs arbitrary: A b sw log)
  case (Cons f fs)
  obtain b1 sw1 where st: "batchStep maxSize uids handle f (b, sw) = (b1, sw1)" by fastforce
  from batchStep_inv[where Q = Q, OF Cons.prems(1,2) _ handle st] Cons.prems(3)
  obtain log1 where "batch_inv msgs uids (insert (fm_Uid f) A) b1 log1" "Q log1 sw1" by auto
  with Cons.IH[of "insert (fm_Uid f) A" b1 log1 sw1] Cons.prems(3,4) st show ?case by auto
qed auto

text \<open>
  One batch: what was handled is the prefix of the existing messages up to the position it
  returns, and without an error nothing that exists was skipped before that position.
\<close>

lemma fetchRawBatch_trace:
  assumes contract: "fetch_contract env maxSize msgs" and dist: "distinct uids" and Q: "Q [] sw"
    and handle: "\<And>l x sw. Q l sw \<Longrightarrow> Q (l @ [x]) (handle x sw)"
    and run: "fetchRawBatch maxSize uids handle (ic_UidFetch (env n) uids) sw = ((next, unordered, err), sw')"
  shows "\<exists>log. Q log sw' \<and> (err \<noteq> None \<longrightarrow> (\<exists>k. log = existing msgs (take k uids))) \<and>
    (err = None \<longrightarrow> log = existing msgs (take next uids))"
proof -
  let ?resp = "ic_UidFetch (env n) uids"
  obtain b sw1 where fl: "fold (batchStep maxSize uids handle) (fst ?resp) (batch_start, sw) = (b, sw1)"
    by fastforce
  have "\<forall>f\<in>set (fst ?resp). fm_Uid f \<in> set uids \<longrightarrow> (\<exists>x. msgs (fm_Uid f) = Some x \<and>
      (\<forall>r. readFetchedMessage maxSize f = Inr r \<longrightarrow> r = x))"
    using contract by (auto simp: fetch_contract_def)
  from batchFold_inv[where Q = Q, OF batch_inv_start Q this handle fl]
  obtain log where inv: "batch_inv msgs uids (fm_Uid ` set (fst ?resp)) b log" and "Q log sw1" by auto
  have sw1: "sw' = sw1" using run fl by (auto simp: fetchRawBatch_def split: option.splits)
  have log: "log = existing msgs (take (bs_next b) uids)" using inv by (simp add: batch_inv_def)
  have "log = existing msgs (take next uids)" if err: "err = None"
  proof (cases "bs_fallbackAt b")
    case (Some k)
    with inv run fl err show ?thesis
      by (auto simp: fetchRawBatch_def batch_inv_def split: option.splits)
  next
    case None
    from run fl err None have ok: "snd ?resp = None" "bs_readErr b = None" "next = length uids"
      by (auto simp: fetchRawBatch_def split: option.splits)
    have "msgs u = None" if u: "u \<in> set (drop (bs_next b) uids)" for u
    proof -
      have "u \<notin> set (take (bs_next b) uids)" "u \<in> set uids"
        using dist u set_take_disj_set_drop_if_distinct[of uids "bs_next b" "bs_next b"]
        by (auto dest: in_set_dropD)
      with inv None ok(2) have "u \<notin> fm_Uid ` set (fst ?resp)" by (auto simp: batch_inv_def)
      with contract ok(1) \<open>u \<in> set uids\<close> show ?thesis by (simp add: fetch_contract_complete)
    qed
    then have "existing msgs (drop (bs_next b) uids) = []"
      by (simp add: existing_def filter_empty_conv)
    then show ?thesis using log ok(3) existing_simps(3)[of msgs "take (bs_next b) uids" "drop (bs_next b) uids"]
      by simp
  qed
  with \<open>Q log sw1\<close> log sw1 show ?thesis by (intro exI[of _ log]) auto
qed

lemma fetchRaw_contract:
  assumes "fetch_contract env maxSize msgs" and "fetchRaw maxSize (ic_UidFetch (env n) [u]) u = Inr r"
  shows "r = msgs u"
proof (cases "find (\<lambda>m. fm_Uid m = u) (fst (ic_UidFetch (env n) [u]))")
  case None
  with assms(2) have "snd (ic_UidFetch (env n) [u]) = None" "r = None"
    by (auto simp: fetchRaw_def split: option.splits)
  moreover from None have "u \<notin> fm_Uid ` set (fst (ic_UidFetch (env n) [u]))"
    by (auto simp: find_None_iff)
  ultimately show ?thesis using fetch_contract_complete[OF assms(1), of n "[u]" u] by simp
next
  case (Some m)
  then have "m \<in> set (fst (ic_UidFetch (env n) [u]))" "fm_Uid m = u"
    by (auto dest: find_key_in)
  with assms(1) obtain x where x: "msgs u = Some x" "\<And>r. readFetchedMessage maxSize m = Inr r \<Longrightarrow> r = x"
    by (metis fetch_contract_answer list.set_intros(1))
  from assms(2) Some obtain r' where "readFetchedMessage maxSize m = Inr r'" "r = Some r'"
    by (auto simp: fetchRaw_def split: option.splits sum.splits)
  with x show ?thesis by simp
qed

lemma fetchRawSequential_trace:
  assumes contract: "fetch_contract env maxSize msgs"
    and handle: "\<And>l x sw. Q l sw \<Longrightarrow> Q (l @ [x]) (handle x sw)"
    and tick: "\<And>l s w. Q l (s, w) \<Longrightarrow> Q l (s, tick w)"
    and "fetchRawSequential env maxSize us handle sw = (err, sw')" and "Q log sw"
  shows "\<exists>log'. Q (log @ log') sw' \<and> (\<exists>k. log' = existing msgs (take k us)) \<and>
    (err = None \<longrightarrow> log' = existing msgs us)"
  using assms(4,5)
proof (induction us arbitrary: sw log)
  case Nil
  then show ?case by (intro exI[of _ "[]"]) auto
next
  case (Cons u us)
  obtain s w where sw: "sw = (s, w)" by fastforce
  have Qt: "Q log (s, tick w)" using Cons.prems(2) sw tick by blast
  show ?case
  proof (cases "fetchRaw maxSize (ic_UidFetch (env (w_step w)) [u]) u")
    case (Inl e)
    with Cons.prems sw have "err = Some e" "sw' = (s, tick w)" by auto
    with Qt show ?thesis by (intro exI[of _ "[]"]) (auto intro: exI[of _ 0])
  next
    case (Inr r)
    with contract have r: "r = msgs u" by (rule fetchRaw_contract)
    obtain log1 sw1 where run: "fetchRawSequential env maxSize us handle sw1 = (err, sw')"
      "Q (log @ log1) sw1" "log1 = existing msgs [u]"
    proof (cases r)
      case None
      with Cons.prems(1) sw Inr Qt r that[of "(s, tick w)" "[]"] show ?thesis by auto
    next
      case (Some m)
      have "fetchRawSequential env maxSize us handle (handle m (s, tick w)) = (err, sw')"
        using Cons.prems(1) sw Inr Some by simp
      then show ?thesis
      proof (rule that)
        show "Q (log @ [m]) (handle m (s, tick w))" using Qt by (rule handle)
        show "[m] = existing msgs [u]" using r Some by (cases "msgs u") auto
      qed
    qed
    from Cons.IH[OF run(1,2)] obtain log2 k where "Q ((log @ log1) @ log2) sw'"
      "log2 = existing msgs (take k us)" "err = None \<longrightarrow> log2 = existing msgs us" by blast
    with run(3) show ?thesis
      by (intro exI[of _ "log1 @ log2"]) (auto intro: exI[of _ "Suc k"])
  qed
qed

text \<open>
  A fetch hands over the existing messages in ascending UID order, each once: all of them
  when it succeeds, the first ones when it fails.
\<close>

lemma FetchRaw_trace:
  assumes contract: "fetch_contract env maxSize msgs"
    and handle: "\<And>l x sw. Q l sw \<Longrightarrow> Q (l @ [x]) (handle x sw)"
    and tick: "\<And>l s w. Q l (s, w) \<Longrightarrow> Q l (s, tick w)"
    and run: "FetchRaw env maxSize seq uids handle sw = (err, seq', sw')" and Q: "Q [] sw"
  shows "\<exists>log. Q log sw' \<and> (\<exists>k. log = existing msgs (take k (remdups_adj (sort uids)))) \<and>
    (err = None \<longrightarrow> log = existing msgs (remdups_adj (sort uids)))"
proof -
  let ?us = "remdups_adj (sort uids)"
  obtain s w where sw: "sw = (s, w)" by fastforce
  consider "uids = []" | "uids \<noteq> []" "seq" | "uids \<noteq> []" "\<not> seq" by blast
  then show ?thesis
  proof cases
    case 1
    with run Q show ?thesis by (intro exI[of _ "[]"]) (auto simp: FetchRaw_def)
  next
    case 2
    with run obtain "fetchRawSequential env maxSize ?us handle sw = (err, sw')"
      by (auto simp: FetchRaw_def split: prod.splits)
    from fetchRawSequential_trace[where Q = Q, OF contract handle tick this Q] show ?thesis by simp
  next
    case 3
    obtain x sw1 where x: "fetchRawBatch maxSize ?us handle
        (ic_UidFetch (env (w_step w)) ?us) (s, tick w) = (x, sw1)" by (rule prod.exhaust)
    obtain n unordered err1 where "x = (n, unordered, err1)" by (cases x)
    with x have b: "fetchRawBatch maxSize ?us handle
        (ic_UidFetch (env (w_step w)) ?us) (s, tick w) = ((n, unordered, err1), sw1)" by simp
    have "distinct ?us" by (rule remdups_adj_sort_props)
    moreover have "Q [] (s, tick w)" using Q sw tick by simp
    ultimately obtain log where log: "Q log sw1" "err1 \<noteq> None \<longrightarrow> (\<exists>k. log = existing msgs (take k ?us))"
      "err1 = None \<longrightarrow> log = existing msgs (take n ?us)"
      using fetchRawBatch_trace[where Q = Q, OF contract _ _ handle b] by metis
    show ?thesis
    proof (cases "err1 = None \<and> n < length ?us")
      case False
      with 3 run sw b have "sw' = sw1" "err = err1" by (auto simp: FetchRaw_def Let_def split: option.splits)
      with log False show ?thesis by (intro exI[of _ log]) auto
    next
      case True
      with 3 run sw b have rest: "fetchRawSequential env maxSize (drop n ?us) handle sw1 = (err, sw')"
        by (auto simp: FetchRaw_def Let_def split: prod.splits)
      from fetchRawSequential_trace[where Q = Q, OF contract handle tick rest log(1)]
      obtain log' k where log': "Q (log @ log') sw'" "log' = existing msgs (take k (drop n ?us))"
        "err = None \<longrightarrow> log' = existing msgs (drop n ?us)" by blast
      have "log @ log' = existing msgs (take (n + k) ?us)"
        using log(3) True log'(2) by (simp add: take_add)
      moreover have "err = None \<longrightarrow> log @ log' = existing msgs ?us"
        using log(3) True log'(3) existing_simps(3)[of msgs "take n ?us" "drop n ?us"] by simp
      ultimately show ?thesis using log'(1) by blast
    qed
  qed
qed

section \<open>A server to evaluate\<close>

text \<open>
  A mailbox with fixed content that answers a fetch in descending UID order, the worst case
  for the batch, and a search by the documented meaning of the range and of \<^verbatim>\<open>SINCE\<close>, which
  compares whole days.
\<close>

definition day_of :: "time \<Rightarrow> int" where
  "day_of t = t div (86400 * second)"

text \<open>
  RFC 3501 compares the two dates as they are written, without time and time zone. So the offset
  counts with which the client writes the date of \<^verbatim>\<open>SINCE\<close> (the zone of the Go time it is given),
  and the one with which the server keeps the date of each message.
\<close>

record zones =
  zn_since :: "time \<Rightarrow> duration"
  zn_message :: "uid \<Rightarrow> duration"

definition since_matches :: "zones \<Rightarrow> time \<Rightarrow> uid \<Rightarrow> time \<Rightarrow> bool" where
  "since_matches zn since u date \<longleftrightarrow>
     IsZero since \<or> day_of (since + zn_since zn since) \<le> day_of (date + zn_message zn u)"

text \<open>The zones a mailbox uses lie within a day of each other.\<close>

definition zones_within_a_day :: "zones \<Rightarrow> bool" where
  "zones_within_a_day zn \<longleftrightarrow> (\<forall>since u. zn_since zn since - zn_message zn u \<le> 86400 * second)"

definition box_client :: "zones \<Rightarrow> uid \<Rightarrow> uid \<Rightarrow> (uid \<times> time \<times> string) list \<Rightarrow> imap_client" where
  "box_client zn validity uidNext box =
     \<lparr>ic_Select = (\<lambda>_. Inr (validity, uidNext)),
      ic_UidSearch = (\<lambda>from to since. Inr (map fst
        (filter (\<lambda>(u, date, raw). from \<le> u \<and> (to = 0 \<or> u \<le> to) \<and> since_matches zn since u date) box))),
      ic_UidFetch = (\<lambda>us. (rev (map (\<lambda>(u, date, raw). \<lparr>fm_Uid = u, fm_InternalDate = date,
          fm_Size = of_nat (length raw), fm_Body = Some (Inr raw)\<rparr>)
          (filter (\<lambda>(u, date, raw). u \<in> set us) box)), None)),
      ic_UidFetchDates = (\<lambda>us. (map (\<lambda>(u, date, raw). (u, date))
          (filter (\<lambda>(u, date, raw). u \<in> set us) box), None))\<rparr>"

definition box_messages :: "nat \<Rightarrow> (uid \<times> time \<times> string) list \<Rightarrow> uid \<rightharpoonup> IMAPMessage" where
  "box_messages maxMessageSize box u = (case map_of box u of None \<Rightarrow> None | Some (date, raw) \<Rightarrow>
     Some \<lparr>im_UID = u, im_InternalDate = date, im_Size = of_nat (length raw), im_Raw = raw,
           im_TooLarge = length raw > maxMessageSize\<rparr>)"

lemma box_fetch_contract:
  assumes "distinct (map fst box)"
  shows "fetch_contract (\<lambda>_. box_client zn v nx box) maxSize (box_messages maxSize box)"
  unfolding fetch_contract_def
proof (intro allI conjI impI ballI)
  fix n :: nat and us f
  assume "f \<in> set (fst (ic_UidFetch (box_client zn v nx box) us))"
  then obtain u date raw where f: "(u, date, raw) \<in> set box"
    "f = \<lparr>fm_Uid = u, fm_InternalDate = date, fm_Size = of_nat (length raw), fm_Body = Some (Inr raw)\<rparr>"
    by (auto simp: box_client_def)
  then have "map_of box u = Some (date, raw)" using assms by simp
  with f(2) show "\<exists>m. box_messages maxSize box (fm_Uid f) = Some m \<and>
      (\<forall>r. readFetchedMessage maxSize f = Inr r \<longrightarrow> r = m)"
    by (simp add: box_messages_def readFetchedMessage_def)
next
  fix n :: nat and us u
  assume "u \<in> set us" "box_messages maxSize box u \<noteq> None"
  then obtain date raw where "(u, date, raw) \<in> set box"
    by (auto simp: box_messages_def split: option.splits dest: map_of_SomeD)
  with \<open>u \<in> set us\<close> show "u \<in> fm_Uid ` set (fst (ic_UidFetch (box_client zn v nx box) us))"
    by (force simp: box_client_def image_iff)
qed

section \<open>Properties\<close>

text \<open>A callback that also writes down what it was called with.\<close>

definition logged :: "(IMAPMessage \<Rightarrow> 's \<times> world \<Rightarrow> 's \<times> world) \<Rightarrow> IMAPMessage \<Rightarrow>
    (IMAPMessage list \<times> 's) \<times> world \<Rightarrow> (IMAPMessage list \<times> 's) \<times> world" where
  "logged handle m st = (case st of ((log, s), w) \<Rightarrow>
     (case handle m (s, w) of (s', w') \<Rightarrow> ((log @ [m], s'), w')))"

text \<open>
  C27: A fetch calls its handler with the existing requested messages in ascending UID order,
  each once, whatever order the server answers in, whatever it repeats or adds: with all of
  them when the fetch succeeds, with the first ones when it fails.
\<close>

theorem fetch_raw_in_order:
  assumes "fetch_contract env maxSize msgs"
    and "FetchRaw env maxSize seq uids (logged handle) (([], s), w) = (err, seq', (log, s'), w')"
  shows "(\<exists>k. log = existing msgs (take k (remdups_adj (sort uids)))) \<and>
    (err = None \<longrightarrow> log = existing msgs (remdups_adj (sort uids)))"
  using FetchRaw_trace[where Q = "\<lambda>l st. fst (fst st) = l", OF assms(1) _ _ assms(2)]
  by (auto simp: logged_def split: prod.splits)

text \<open>The server keeps its dates five hours behind UTC, the checkpoint was read nine hours ahead of it.\<close>

definition sample_zones :: zones where
  "sample_zones = \<lparr>zn_since = (\<lambda>_. 9 * 3600 * second), zn_message = (\<lambda>_. - 5 * 3600 * second)\<rparr>"

definition sample_box :: "(uid \<times> time \<times> string) list" where
  "sample_box = [(5, 1000, ''five''), (7, 2000, ''seven''), (9, 3000, ''nine'')]"

lemma sample_fetch:
  "FetchRaw (\<lambda>_. box_client sample_zones 1 10 sample_box) 100 False [9, 5, 6, 5] (logged (\<lambda>m st. st))
     (([], ()), sample_world empty_db)
   = (None, True, ([\<lparr>im_UID = 5, im_InternalDate = 1000, im_Size = 4, im_Raw = ''five'', im_TooLarge = False\<rparr>,
                    \<lparr>im_UID = 9, im_InternalDate = 3000, im_Size = 4, im_Raw = ''nine'', im_TooLarge = False\<rparr>], ()),
      (sample_world empty_db)\<lparr>w_step := 4\<rparr>)"
  by (simp add: FetchRaw_def fetchRawBatch_def batchStep_def batch_start_def box_client_def sample_box_def
        fetchRaw_def readFetchedMessage_def logged_def tick_def sample_world_def)

theorem fetch_raw_in_order_witness:
  "existing (box_messages 100 sample_box) (remdups_adj (sort [9, 5, 6, 5]))
   = [\<lparr>im_UID = 5, im_InternalDate = 1000, im_Size = 4, im_Raw = ''five'', im_TooLarge = False\<rparr>,
      \<lparr>im_UID = 9, im_InternalDate = 3000, im_Size = 4, im_Raw = ''nine'', im_TooLarge = False\<rparr>]"
proof -
  have "distinct (map fst sample_box)" by (simp add: sample_box_def)
  from fetch_raw_in_order[OF box_fetch_contract[OF this] sample_fetch] show ?thesis by simp
qed

end
