(* ===== verification/Inbox_Store.thy ===== *)
theory Inbox_Store
  imports Email_Db "HOL-Library.Product_Lexorder"
begin

text \<open>
  The tables an inbound email is written to: threads, messages, recipients, the attachment
  manifest and the quarantine, with the statements of
  \<^verbatim>\<open>internal/store/postgres/email_thread_store.go\<close>, \<^verbatim>\<open>email_message_store.go\<close>,
  \<^verbatim>\<open>email_recipient_store.go\<close>, \<^verbatim>\<open>email_message_attachment_store.go\<close>,
  \<^verbatim>\<open>inbound_failure_store.go\<close> and \<^verbatim>\<open>email_profile_routing_store.go\<close>. A statement that would break
  a constraint of the schema fails, as PostgreSQL makes it fail; the constraints are the
  \<open>_valid\<close> predicates. A nullable text column that Go reads as the empty string is kept
  as the empty string.
\<close>

section \<open>Threads\<close>

record EmailThreadLookup =
  tl_DomainID :: int
  tl_ProfileID :: int
  tl_OnlyRegular :: bool

definition profile_exists :: "db \<Rightarrow> int \<Rightarrow> int \<Rightarrow> bool" where
  "profile_exists d domainID profileID \<longleftrightarrow>
     (\<exists>p\<in>set (db_profiles d). pw_domain p = domainID \<and> pw_id p = profileID)"

text \<open>The check constraints of \<^verbatim>\<open>email.thread\<close>.\<close>

definition thread_valid :: "EmailThread \<Rightarrow> bool" where
  "thread_valid t \<longleftrightarrow>
     (th_CompletedAt t \<noteq> None \<longrightarrow> th_Status t = EmailThreadStatusProcessed) \<and>
     (th_Kind t = EmailThreadKindService \<longrightarrow>
        th_Status t = EmailThreadStatusProcessed \<and> th_CompletedAt t \<noteq> None) \<and>
     (th_ContactResolutionState t = EmailContactResolutionResolved \<longleftrightarrow> th_ContactID t \<noteq> None) \<and>
     (th_Kind t = EmailThreadKindService \<longleftrightarrow>
        th_ContactResolutionState t = EmailContactResolutionNotApplicable)"

text \<open>\<^verbatim>\<open>ParseError\<close> of a violated constraint and of a row that is not there.\<close>

definition constraintError :: "string \<Rightarrow> error" where
  "constraintError name = DatabaseError name"

definition pgNotFound :: error where
  "pgNotFound = NotFound ''store.pg.not_found''"

definition Thread_Create :: "EmailThread \<Rightarrow> EmailThread stmt" where
  "Thread_Create thread now d =
     (let row = thread\<lparr>th_ID := sq_thread (db_seq d), th_CreatedAt := now, th_UpdatedAt := now\<rparr>
      in if \<not> thread_valid row then Inl (constraintError ''thread_check'')
         else if \<exists>t\<in>set (db_threads d). th_ID t = th_ID row then Inl (constraintError ''thread_pkey'')
         else if \<not> profile_exists d (th_DomainID row) (th_ProfileID row)
         then Inl (constraintError ''thread_profile_fk'')
         else Inr (row, d\<lparr>db_threads := db_threads d @ [row],
                          db_seq := (db_seq d)\<lparr>sq_thread := sq_thread (db_seq d) + 1\<rparr>\<rparr>))"

definition Thread_Get :: "int \<Rightarrow> int \<Rightarrow> EmailThread stmt" where
  "Thread_Get domainID threadID now d =
     (case find (\<lambda>t. th_DomainID t = domainID \<and> th_ID t = threadID) (db_threads d) of
        None \<Rightarrow> Inl pgNotFound | Some t \<Rightarrow> Inr (t, d))"

text \<open>The join of a message with its thread, within one domain and profile.\<close>

definition same_thread :: "EmailMessage \<Rightarrow> EmailThread \<Rightarrow> bool" where
  "same_thread m t \<longleftrightarrow> em_DomainID m = th_DomainID t \<and> em_ProfileID m = th_ProfileID t \<and>
     em_ThreadID m = th_ID t"

definition threadsByMessage ::
  "EmailThreadLookup \<Rightarrow> (EmailMessage \<Rightarrow> bool) \<Rightarrow> db \<Rightarrow> (EmailThread \<times> EmailMessage) list" where
  "threadsByMessage lookup P d =
     filter (\<lambda>(t, m). same_thread m t \<and> th_DomainID t = tl_DomainID lookup
               \<and> th_ProfileID t = tl_ProfileID lookup
               \<and> (tl_OnlyRegular lookup \<longrightarrow> th_Kind t = EmailThreadKindRegular) \<and> P m)
       (List.product (db_threads d) (db_messages d))"

text \<open>\<^verbatim>\<open>array_position\<close>: the first position of a value in an array.\<close>

fun array_position :: "'a list \<Rightarrow> 'a \<Rightarrow> nat" where
  "array_position [] x = 0"
| "array_position (y # ys) x = (if y = x then 0 else Suc (array_position ys x))"

definition firstThread :: "(EmailThread \<times> EmailMessage) list \<Rightarrow> EmailThread option" where
  "firstThread rows = (case rows of [] \<Rightarrow> None | (t, m) # _ \<Rightarrow> Some t)"

definition LocateByMessageIDs :: "EmailThreadLookup \<Rightarrow> string list \<Rightarrow> EmailThread option stmt" where
  "LocateByMessageIDs lookup messageIDs now d =
     (if messageIDs = [] then Inr (None, d)
      else Inr (firstThread (sort_key (\<lambda>(t, m). - int (array_position messageIDs (em_MessageID m)))
        (threadsByMessage lookup (\<lambda>m. em_MessageID m \<in> set messageIDs) d)), d))"

definition LocateByInReplyTo :: "EmailThreadLookup \<Rightarrow> string \<Rightarrow> EmailThread option stmt" where
  "LocateByInReplyTo lookup inReplyTo now d =
     (if inReplyTo = '''' then Inr (None, d)
      else Inr (firstThread (sort_key
        (\<lambda>(t, m). (th_Kind t \<noteq> EmailThreadKindRegular, em_ReceivedAt m, em_ID m))
        (threadsByMessage lookup (\<lambda>m. em_InReplyTo m = inReplyTo) d)), d))"

text \<open>An update whose result would break a check of the table fails as a whole.\<close>

definition update_threads ::
  "(EmailThread \<Rightarrow> bool) \<Rightarrow> (EmailThread \<Rightarrow> EmailThread) \<Rightarrow> db \<Rightarrow> error + nat \<times> db" where
  "update_threads P f d =
     (if \<exists>t\<in>set (db_threads d). P t \<and> \<not> thread_valid (f t) then Inl (constraintError ''thread_check'')
      else Inr (rows_affected P (db_threads d), d\<lparr>db_threads := update_where P f (db_threads d)\<rparr>))"

definition resolvable :: "EmailContactResolutionState \<Rightarrow> bool" where
  "resolvable s \<longleftrightarrow> s = EmailContactResolutionPending \<or> s = EmailContactResolutionUnavailable"

definition ResolveContact ::
  "int \<Rightarrow> int \<Rightarrow> EmailContactResolutionState \<Rightarrow> int option \<Rightarrow> bool stmt" where
  "ResolveContact domainID threadID state contactID now d =
     (case update_threads
        (\<lambda>t. th_DomainID t = domainID \<and> th_ID t = threadID \<and> th_Kind t = EmailThreadKindRegular
             \<and> resolvable (th_ContactResolutionState t))
        (\<lambda>t. t\<lparr>th_ContactID := contactID, th_ContactResolutionState := state, th_UpdatedAt := now\<rparr>) d of
        Inl e \<Rightarrow> Inl e | Inr (n, d') \<Rightarrow> Inr (n > 0, d'))"

definition SetContactManually :: "int \<Rightarrow> int \<Rightarrow> int option \<Rightarrow> bool stmt" where
  "SetContactManually domainID threadID contactID now d =
     (case update_threads
        (\<lambda>t. th_DomainID t = domainID \<and> th_ID t = threadID \<and> th_Kind t = EmailThreadKindRegular)
        (\<lambda>t. t\<lparr>th_ContactID := contactID,
              th_ContactResolutionState := (if contactID = None then EmailContactResolutionUnlinked
                                            else EmailContactResolutionResolved),
              th_UpdatedAt := now\<rparr>) d of
        Inl e \<Rightarrow> Inl e | Inr (n, d') \<Rightarrow> Inr (n > 0, d'))"

definition FirstSenderAddress :: "int \<Rightarrow> int \<Rightarrow> string stmt" where
  "FirstSenderAddress domainID threadID now d =
     (case sort_key em_ID (filter (\<lambda>m. em_DomainID m = domainID \<and> em_ThreadID m = threadID) (db_messages d)) of
        [] \<Rightarrow> Inr ('''', d)
      | m # _ \<Rightarrow>
          (case find (\<lambda>r. er_DomainID r = em_DomainID m \<and> er_MessageID r = em_ID m
                        \<and> er_Type r = EmailRecipientTypeFrom \<and> er_Ordinal r = 0) (db_recipients d) of
             None \<Rightarrow> Inr ('''', d) | Some r \<Rightarrow> Inr (er_NormalizedAddress r, d)))"

definition AdvanceLastMessage :: "int \<Rightarrow> int \<Rightarrow> int \<Rightarrow> time \<Rightarrow> unit stmt" where
  "AdvanceLastMessage domainID profileID threadID at now d =
     (case update_threads
        (\<lambda>t. th_DomainID t = domainID \<and> th_ProfileID t = profileID \<and> th_ID t = threadID
             \<and> (case th_LastMessageAt t of None \<Rightarrow> True | Some l \<Rightarrow> l < at))
        (\<lambda>t. t\<lparr>th_LastMessageAt := Some at, th_UpdatedAt := now\<rparr>) d of
        Inl e \<Rightarrow> Inl e | Inr (n, d') \<Rightarrow> Inr ((), d'))"

section \<open>Messages\<close>

record EmailMessageIdentity =
  mi_ID :: int
  mi_ThreadID :: int
  mi_State :: EmailMessageState
  mi_ThreadKind :: EmailThreadKind
  mi_ContactResolution :: EmailContactResolutionState

text \<open>\<^verbatim>\<open>locateEmailMessageIdentity\<close> over the join of \<^verbatim>\<open>identityFromMessage\<close>.\<close>

definition locateIdentity :: "(EmailMessage \<Rightarrow> bool) \<Rightarrow> EmailMessageIdentity option stmt" where
  "locateIdentity P now d =
     Inr (case find (\<lambda>(m, t). P m \<and> same_thread m t) (List.product (db_messages d) (db_threads d)) of
            None \<Rightarrow> None
          | Some (m, t) \<Rightarrow> Some \<lparr>mi_ID = em_ID m, mi_ThreadID = em_ThreadID m, mi_State = em_State m,
              mi_ThreadKind = th_Kind t, mi_ContactResolution = th_ContactResolutionState t\<rparr>, d)"

definition LocateByMessageID :: "int \<Rightarrow> int \<Rightarrow> string \<Rightarrow> EmailMessageIdentity option stmt" where
  "LocateByMessageID domainID profileID messageID =
     locateIdentity (\<lambda>m. em_DomainID m = domainID \<and> em_ProfileID m = profileID \<and> em_MessageID m = messageID)"

definition LocateByIMAPIdentity :: "int \<Rightarrow> int \<Rightarrow> EmailIMAPIdentity \<Rightarrow> EmailMessageIdentity option stmt" where
  "LocateByIMAPIdentity domainID profileID identity =
     locateIdentity (\<lambda>m. em_DomainID m = domainID \<and> em_ProfileID m = profileID \<and> em_IMAP m = Some identity)"

definition LocateByRawChecksum :: "int \<Rightarrow> int \<Rightarrow> string \<Rightarrow> EmailMessageIdentity option stmt" where
  "LocateByRawChecksum domainID profileID checksum =
     locateIdentity (\<lambda>m. em_DomainID m = domainID \<and> em_ProfileID m = profileID \<and>
       em_RawSHA256 m = checksum \<and> checksum \<noteq> '''' \<and> em_MessageIDGenerated m)"

definition Message_Get :: "int \<Rightarrow> int \<Rightarrow> EmailMessage stmt" where
  "Message_Get domainID messageID now d =
     (case find (\<lambda>m. em_DomainID m = domainID \<and> em_ID m = messageID) (db_messages d) of
        None \<Rightarrow> Inl pgNotFound | Some m \<Rightarrow> Inr (m, d))"

text \<open>
  The bounce columns read back as no bounce at all when each of them is empty; a nil
  checksum is the empty one.
\<close>

definition scanBounce :: "EmailBounceInfo option \<Rightarrow> EmailBounceInfo option" where
  "scanBounce b = (case b of None \<Rightarrow> None | Some i \<Rightarrow>
     if i = \<lparr>bi_OriginalMessageID = '''', bi_Recipient = '''', bi_Status = '''', bi_DiagnosticCode = ''''\<rparr>
     then None else Some i)"

definition message_valid :: "EmailMessage \<Rightarrow> bool" where
  "message_valid m \<longleftrightarrow> sql_trim (em_MessageID m) \<noteq> '''' \<and>
     (em_RawSHA256 m = '''' \<or> length (em_RawSHA256 m) = 32) \<and>
     (em_MessageIDGenerated m \<longrightarrow> em_RawSHA256 m \<noteq> '''') \<and>
     (case em_IMAP m of None \<Rightarrow> True | Some i \<Rightarrow> ii_UIDValidity i \<noteq> 0 \<and> ii_UID i \<noteq> 0) \<and>
     (em_Kind m \<noteq> EmailKindBounce \<longrightarrow> em_Bounce m = None) \<and> 0 \<le> em_AttachmentAttempts m"

text \<open>The three unique indexes a second copy of an email would violate.\<close>

definition same_identity :: "EmailMessage \<Rightarrow> EmailMessage \<Rightarrow> bool" where
  "same_identity a b \<longleftrightarrow> em_DomainID a = em_DomainID b \<and> em_ProfileID a = em_ProfileID b \<and>
     (em_MessageID a = em_MessageID b \<or>
      (em_IMAP a \<noteq> None \<and> em_IMAP a = em_IMAP b) \<or>
      (em_MessageIDGenerated a \<and> em_MessageIDGenerated b \<and> em_RawSHA256 a = em_RawSHA256 b))"

definition Message_Create :: "EmailMessage \<Rightarrow> EmailMessage stmt" where
  "Message_Create message now d =
     (let row = message\<lparr>em_ID := sq_message (db_seq d), em_AttachmentAttempts := 0,
                        em_Bounce := scanBounce (em_Bounce message),
                        em_CreatedAt := now, em_UpdatedAt := now\<rparr>
      in if \<not> message_valid row then Inl (constraintError ''message_check'')
         else if \<exists>m\<in>set (db_messages d). em_ID m = em_ID row then Inl (constraintError ''message_pkey'')
         else if \<exists>m\<in>set (db_messages d). same_identity row m then Inl ErrEmailMessageExists
         else if \<not> (\<exists>t\<in>set (db_threads d). same_thread row t) \<or>
                 \<not> profile_exists d (em_DomainID row) (em_ProfileID row)
         then Inl (constraintError ''message_fk'')
         else Inr (row, d\<lparr>db_messages := db_messages d @ [row],
                          db_seq := (db_seq d)\<lparr>sq_message := sq_message (db_seq d) + 1\<rparr>\<rparr>))"

definition pendingPart :: "db \<Rightarrow> EmailMessage \<Rightarrow> bool" where
  "pendingPart d m \<longleftrightarrow> (\<exists>a\<in>set (db_attachments d). ma_DomainID a = em_DomainID m \<and>
     ma_MessageID a = em_ID m \<and> ma_State a = EmailAttachmentStatePending)"

text \<open>The missing state of a message that does not exist is \<open>None\<close>.\<close>

definition MarkReady :: "int \<Rightarrow> int \<Rightarrow> EmailMessageState option stmt" where
  "MarkReady domainID messageID now d =
     (let hit = (\<lambda>m. em_DomainID m = domainID \<and> em_ID m = messageID
                   \<and> em_State m = EmailMessageStateProcessing \<and> \<not> pendingPart d m)
      in if rows_affected hit (db_messages d) > 0
         then Inr (Some EmailMessageStateReady, d\<lparr>db_messages := update_where hit
                (\<lambda>m. m\<lparr>em_State := EmailMessageStateReady, em_UpdatedAt := now\<rparr>) (db_messages d)\<rparr>)
         else Inr (map_option em_State
                (find (\<lambda>m. em_DomainID m = domainID \<and> em_ID m = messageID) (db_messages d)), d))"

definition processingMessage :: "int \<Rightarrow> int \<Rightarrow> EmailMessage \<Rightarrow> bool" where
  "processingMessage domainID messageID m \<longleftrightarrow> em_DomainID m = domainID \<and> em_ID m = messageID
     \<and> em_State m = EmailMessageStateProcessing"

definition MarkFailed :: "int \<Rightarrow> int \<Rightarrow> bool stmt" where
  "MarkFailed domainID messageID now d =
     Inr (rows_affected (processingMessage domainID messageID) (db_messages d) > 0,
          d\<lparr>db_messages := update_where (processingMessage domainID messageID)
              (\<lambda>m. m\<lparr>em_State := EmailMessageStateFailed, em_UpdatedAt := now\<rparr>) (db_messages d)\<rparr>)"

definition IncrementAttachmentAttempts :: "int \<Rightarrow> int \<Rightarrow> int stmt" where
  "IncrementAttachmentAttempts domainID messageID now d =
     (case find (processingMessage domainID messageID) (db_messages d) of
        None \<Rightarrow> Inl pgNotFound
      | Some m \<Rightarrow> Inr (em_AttachmentAttempts m + 1,
          d\<lparr>db_messages := update_where (processingMessage domainID messageID)
             (\<lambda>m. m\<lparr>em_AttachmentAttempts := em_AttachmentAttempts m + 1, em_UpdatedAt := now\<rparr>)
             (db_messages d)\<rparr>))"

definition LastReceivedAt :: "int \<Rightarrow> int \<Rightarrow> time stmt" where
  "LastReceivedAt domainID profileID now d =
     (let ready = map em_ReceivedAt (filter (\<lambda>m. em_DomainID m = domainID \<and> em_ProfileID m = profileID
                    \<and> em_State m = EmailMessageStateReady) (db_messages d))
      in Inr (if ready = [] then zero_time else fold max ready (hd ready), d))"

section \<open>Recipients\<close>

definition message_exists :: "db \<Rightarrow> int \<Rightarrow> int \<Rightarrow> bool" where
  "message_exists d domainID messageID \<longleftrightarrow>
     (\<exists>m\<in>set (db_messages d). em_DomainID m = domainID \<and> em_ID m = messageID)"

definition recipient_valid :: "EmailRecipient \<Rightarrow> bool" where
  "recipient_valid r \<longleftrightarrow> sql_trim (er_Address r) \<noteq> '''' \<and> sql_trim (er_NormalizedAddress r) \<noteq> '''' \<and>
     0 \<le> er_Ordinal r"

definition recipient_key :: "EmailRecipient \<Rightarrow> int \<times> int \<times> EmailRecipientType \<times> int" where
  "recipient_key r = (er_DomainID r, er_MessageID r, er_Type r, er_Ordinal r)"

text \<open>Numbering the rows of one insert from the sequence.\<close>

definition numbered :: "int \<Rightarrow> 'a list \<Rightarrow> (int \<times> 'a) list" where
  "numbered start xs = zip (map (\<lambda>i. start + int i) [0..<length xs]) xs"

definition Recipient_CreateBulk :: "int \<Rightarrow> int \<Rightarrow> EmailRecipient list \<Rightarrow> unit stmt" where
  "Recipient_CreateBulk domainID messageID recipients now d =
     (if recipients = [] then Inr ((), d)
      else
        let rows = map (\<lambda>(i, r). r\<lparr>er_ID := i, er_DomainID := domainID, er_MessageID := messageID\<rparr>)
                     (numbered (sq_recipient (db_seq d)) recipients)
        in if \<exists>r\<in>set rows. \<not> recipient_valid r then Inl (constraintError ''recipient_check'')
           else if \<not> distinct (map recipient_key (db_recipients d @ rows))
           then Inl (constraintError ''recipient_message_type_ordinal_uniq'')
           else if \<not> message_exists d domainID messageID then Inl (constraintError ''recipient_message_fk'')
           else Inr ((), d\<lparr>db_recipients := db_recipients d @ rows,
                  db_seq := (db_seq d)\<lparr>sq_recipient := sq_recipient (db_seq d) + int (length rows)\<rparr>\<rparr>))"

definition recipientTypeText :: "EmailRecipientType \<Rightarrow> string" where
  "recipientTypeText t = (case t of EmailRecipientTypeFrom \<Rightarrow> ''from'' | EmailRecipientTypeSender \<Rightarrow> ''sender''
     | EmailRecipientTypeReplyTo \<Rightarrow> ''reply_to'' | EmailRecipientTypeTo \<Rightarrow> ''to''
     | EmailRecipientTypeCc \<Rightarrow> ''cc'' | EmailRecipientTypeBcc \<Rightarrow> ''bcc'')"

definition Recipient_List :: "int \<Rightarrow> int \<Rightarrow> EmailRecipient list stmt" where
  "Recipient_List domainID messageID now d =
     Inr (sort_key (\<lambda>r. (recipientTypeText (er_Type r), er_Ordinal r))
       (filter (\<lambda>r. er_DomainID r = domainID \<and> er_MessageID r = messageID) (db_recipients d)), d)"

section \<open>The attachment manifest\<close>

definition attachment_valid :: "EmailMessageAttachment \<Rightarrow> bool" where
  "attachment_valid a \<longleftrightarrow> 0 \<le> ma_Size a \<and> 0 \<le> ma_Position a \<and>
     (case ma_State a of
        EmailAttachmentStatePending \<Rightarrow> ma_FileID a = None \<and> ma_SkippedReason a = None
      | EmailAttachmentStateStored \<Rightarrow> ma_FileID a \<noteq> None \<and> ma_SkippedReason a = None
      | EmailAttachmentStateSkipped \<Rightarrow> ma_FileID a = None \<and> ma_SkippedReason a \<noteq> None)"

definition attachment_key :: "EmailMessageAttachment \<Rightarrow> int \<times> int \<times> int" where
  "attachment_key a = (ma_DomainID a, ma_MessageID a, ma_Position a)"

definition Attachment_CreateBulk :: "int \<Rightarrow> int \<Rightarrow> EmailMessageAttachment list \<Rightarrow> unit stmt" where
  "Attachment_CreateBulk domainID messageID attachments now d =
     (if attachments = [] then Inr ((), d)
      else
        let rows = map (\<lambda>(i, a). a\<lparr>ma_ID := i, ma_DomainID := domainID, ma_MessageID := messageID,
                          ma_FileID := None, ma_CreatedAt := now, ma_UpdatedAt := now\<rparr>)
                     (numbered (sq_attachment (db_seq d)) attachments)
        in if \<exists>a\<in>set rows. \<not> attachment_valid a then Inl (constraintError ''message_attachment_check'')
           else if \<not> distinct (map attachment_key (db_attachments d @ rows))
           then Inl (constraintError ''message_attachment_message_position_uniq'')
           else if \<not> message_exists d domainID messageID
           then Inl (constraintError ''message_attachment_message_fk'')
           else Inr ((), d\<lparr>db_attachments := db_attachments d @ rows,
                  db_seq := (db_seq d)\<lparr>sq_attachment := sq_attachment (db_seq d) + int (length rows)\<rparr>\<rparr>))"

definition Attachment_List :: "int \<Rightarrow> int \<Rightarrow> EmailMessageAttachment list stmt" where
  "Attachment_List domainID messageID now d =
     Inr (sort_key ma_Position
       (filter (\<lambda>a. ma_DomainID a = domainID \<and> ma_MessageID a = messageID) (db_attachments d)), d)"

definition pendingAt :: "int \<Rightarrow> int \<Rightarrow> int \<Rightarrow> EmailMessageAttachment \<Rightarrow> bool" where
  "pendingAt domainID messageID position a \<longleftrightarrow> ma_DomainID a = domainID \<and> ma_MessageID a = messageID \<and>
     ma_Position a = position \<and> ma_State a = EmailAttachmentStatePending \<and> ma_FileID a = None"

definition MarkStored :: "int \<Rightarrow> int \<Rightarrow> int \<Rightarrow> int \<Rightarrow> bool stmt" where
  "MarkStored domainID messageID position fileID now d =
     Inr (rows_affected (pendingAt domainID messageID position) (db_attachments d) > 0,
          d\<lparr>db_attachments := update_where (pendingAt domainID messageID position)
             (\<lambda>a. a\<lparr>ma_FileID := Some fileID, ma_State := EmailAttachmentStateStored, ma_UpdatedAt := now\<rparr>)
             (db_attachments d)\<rparr>)"

section \<open>Quarantine and routing\<close>

definition failure_key :: "InboundFailure \<Rightarrow> int \<times> int \<times> string \<times> uid \<times> uid" where
  "failure_key f = (if_DomainID f, if_ProfileID f, if_Mailbox f, if_UIDValidity f, if_UID f)"

text \<open>\<^verbatim>\<open>Record\<close>: an upsert by the position of the email; a size that is not positive is stored as NULL.\<close>

definition Record :: "InboundFailure \<Rightarrow> unit stmt" where
  "Record failure now d =
     (let row = failure\<lparr>if_Size := (if if_Size failure > 0 then if_Size failure else 0)\<rparr>
      in if sql_trim (if_Mailbox row) = '''' \<or> if_UIDValidity row = 0 \<or> if_UID row = 0
         then Inl (constraintError ''inbound_failure_check'')
         else if \<exists>f\<in>set (db_failures d). failure_key f = failure_key row
         then Inr ((), d\<lparr>db_failures := update_where (\<lambda>f. failure_key f = failure_key row)
                (\<lambda>f. f\<lparr>if_Category := if_Category row, if_Reason := if_Reason row, if_Size := if_Size row,
                      if_MessageID := if_MessageID row, if_Sender := if_Sender row,
                      if_Subject := if_Subject row\<rparr>) (db_failures d)\<rparr>)
         else if \<not> profile_exists d (if_DomainID row) (if_ProfileID row)
         then Inl (constraintError ''inbound_failure_profile_fk'')
         else Inr ((), d\<lparr>db_failures := db_failures d @ [row\<lparr>if_ID := sq_failure (db_seq d)\<rparr>],
                db_seq := (db_seq d)\<lparr>sq_failure := sq_failure (db_seq d) + 1\<rparr>\<rparr>))"

definition FlowID :: "int \<Rightarrow> int \<Rightarrow> int option stmt" where
  "FlowID domainID profileID now d =
     (case find (\<lambda>p. pw_domain p = domainID \<and> pw_id p = profileID) (db_profiles d) of
        None \<Rightarrow> Inl pgNotFound | Some p \<Rightarrow> Inr (ep_FlowID (pw_profile p), d))"

end
