(* ===== verification/Mailbox_Sync.thy ===== *)
theory Mailbox_Sync
  imports Imap_Session Inbox_Store
begin

text \<open>
  Reading one mailbox: \<^verbatim>\<open>internal/polling/sync.go\<close> and \<^verbatim>\<open>internal/polling/recovery.go\<close>. The handler
  an email is passed to is an argument, a program over the world; it is instantiated with
  the inbound pipeline elsewhere. UIDs are 32-bit words, so the window arithmetic wraps as
  it does in Go. \<open>deliver\<close> returns \<open>None\<close> when its loop cannot make progress, which
  is when the fetch batch size is not positive.
\<close>

section \<open>Messages handed to the pipeline\<close>

record Message =
  msg_DomainID :: int
  msg_ProfileID :: int
  msg_Assignment :: EmailProfileAssignment
  msg_Mailbox :: string
  msg_UIDValidity :: uid
  msg_UID :: uid
  msg_InternalDate :: time
  msg_Size :: int
  msg_Raw :: string
  msg_TooLarge :: bool

type_synonym handler = "Message \<Rightarrow> unit io"

record syncResult =
  sr_cursor :: "ProviderCursor option"
  sr_more :: bool
  sr_imapErr :: "error option"
  sr_handlerErr :: "error option"

text \<open>The part of the polling configuration the sync reads, and the client's size limit.\<close>

record sync_config =
  sc_MaxMessagesPerPoll :: int
  sc_FetchBatchSize :: int
  sc_MaxMessageSize :: nat

definition imapCursor :: "IMAPCursor \<Rightarrow> ProviderCursor option" where
  "imapCursor c = Some \<lparr>pc_IMAP = Some c\<rparr>"

definition cursorOnly :: "IMAPCursor \<Rightarrow> syncResult" where
  "cursorOnly c = \<lparr>sr_cursor = imapCursor c, sr_more = False, sr_imapErr = None, sr_handlerErr = None\<rparr>"

definition imapFailed :: "ProviderCursor option \<Rightarrow> error \<Rightarrow> syncResult" where
  "imapFailed c e = \<lparr>sr_cursor = c, sr_more = False, sr_imapErr = Some e, sr_handlerErr = None\<rparr>"

section \<open>Searching\<close>

record searchRange =
  se_after :: uid
  se_to :: uid
  se_since :: time
  se_limit :: int

definition windowEnd :: "uid \<Rightarrow> uid \<Rightarrow> uid" where
  "windowEnd start to = (let end = start + 10000 - 1 in if end < start \<or> end > to then to else end)"

lemma windowEnd_ge: "start \<le> to \<Longrightarrow> start \<le> windowEnd start to \<and> windowEnd start to \<le> to"
  by (auto simp: windowEnd_def Let_def)

lemma windowEnd_progress:
  assumes "start \<le> to" and "windowEnd start to \<noteq> - 1"
  shows "unat start < unat (windowEnd start to + 1)"
proof -
  have "unat (windowEnd start to + 1) = Suc (unat (windowEnd start to))"
    using assms(2) by (metis add.commute add_eq_0_iff unatSuc)
  with windowEnd_ge[OF assms(1)] show ?thesis by (simp add: word_le_nat_alt)
qed

lemma uid_bound: "unat (u :: uid) < 4294967296"
  using unsigned_less[where 'a = nat, of u] by simp

text \<open>The windows of \<^verbatim>\<open>searchUIDs\<close>. A cancelled search discards what it found.\<close>

function searchWindows :: "imap_env \<Rightarrow> uid \<Rightarrow> time \<Rightarrow> int \<Rightarrow> uid \<Rightarrow> uid list \<Rightarrow> uid list io" where
  "searchWindows env to since limit start all w =
     (if start \<le> to then
        let end = windowEnd start to
        in case SearchUIDsRange env start end since w of
             (Inl e, w1) \<Rightarrow> (Inl e, w1)
           | (Inr found, w1) \<Rightarrow>
               (let all' = all @ found
                in if limit > 0 \<and> int (length all') > limit then (Inr (take (nat (limit + 1)) all'), w1)
                   else if end = - 1 then (Inr all', w1)
                   else case ctxErr w1 of
                     (Inl e, w2) \<Rightarrow> (Inl e, w2)
                   | (Inr cancelled, w2) \<Rightarrow>
                       if cancelled then (Inl CtxErr, w2)
                       else searchWindows env to since limit (end + 1) all' w2)
      else (Inr all, w))"
  by pat_completeness auto
termination
  by (relation "measure (\<lambda>(env, to, since, limit, start, all, w). 2 ^ 32 - unat start)")
     (auto intro!: diff_less_mono2 windowEnd_progress uid_bound)

declare searchWindows.simps [simp del]

definition searchUIDs :: "imap_env \<Rightarrow> searchRange \<Rightarrow> uid list io" where
  "searchUIDs env window w =
     (if se_after window = - 1 then (Inr [], w)
      else let start = se_after window + 1
           in if se_to window = 0 then SearchUIDsRange env start 0 (se_since window) w
              else searchWindows env (se_to window) (se_since window) (se_limit window) start [] w)"

definition lastSearchableUID :: "IMAPMailbox \<Rightarrow> uid" where
  "lastSearchableUID mailbox = (if mb_UIDNext mailbox = 0 then 0 else mb_UIDNext mailbox - 1)"

definition lastUID :: "imap_env \<Rightarrow> IMAPMailbox \<Rightarrow> uid io" where
  "lastUID env mailbox w =
     (if mb_UIDNext mailbox > 0 then (Inr (mb_UIDNext mailbox - 1), w)
      else case SearchUIDsRange env 1 0 zero_time w of
        (Inl e, w1) \<Rightarrow> (Inl e, w1)
      | (Inr uids, w1) \<Rightarrow> (Inr (if uids = [] then 0 else last uids), w1))"

section \<open>Delivering\<close>

definition message_of :: "EmailProfile \<Rightarrow> EmailProfileAssignment \<Rightarrow> IMAPCursor \<Rightarrow> IMAPMessage \<Rightarrow> Message" where
  "message_of profile a cursor m =
     \<lparr>msg_DomainID = ep_DomainID profile, msg_ProfileID = ep_ID profile, msg_Assignment = a,
      msg_Mailbox = cur_Mailbox cursor, msg_UIDValidity = cur_UIDValidity cursor, msg_UID = im_UID m,
      msg_InternalDate = im_InternalDate m, msg_Size = uint (im_Size m), msg_Raw = im_Raw m,
      msg_TooLarge = im_TooLarge m\<rparr>"

text \<open>The callback of \<^verbatim>\<open>deliver\<close>: it captures the handler error and the confirmed UIDs.\<close>

definition deliverOne :: "handler \<Rightarrow> EmailProfile \<Rightarrow> EmailProfileAssignment \<Rightarrow> IMAPCursor \<Rightarrow> IMAPMessage \<Rightarrow>
    (error option \<times> (uid \<rightharpoonup> time)) \<times> world \<Rightarrow> (error option \<times> (uid \<rightharpoonup> time)) \<times> world" where
  "deliverOne handle profile a cursor m st = (case st of ((handlerErr, handled), w) \<Rightarrow>
     if handlerErr \<noteq> None then ((handlerErr, handled), w)
     else (case ctxErr w of
       (Inl e, w1) \<Rightarrow> ((Some e, handled), w1)
     | (Inr cancelled, w1) \<Rightarrow>
         if cancelled then ((Some CtxErr, handled), w1)
         else (case handle (message_of profile a cursor m) w1 of
           (Inl e, w2) \<Rightarrow> ((Some e, handled), w2)
         | (Inr _, w2) \<Rightarrow> ((None, handled(im_UID m \<mapsto> im_InternalDate m)), w2))))"

function deliver :: "sync_config \<Rightarrow> imap_env \<Rightarrow> handler \<Rightarrow> EmailProfile \<Rightarrow> EmailProfileAssignment \<Rightarrow>
    IMAPCursor \<Rightarrow> bool \<Rightarrow> uid list \<Rightarrow> (uid \<rightharpoonup> time) \<Rightarrow> world \<Rightarrow>
    ((error option \<times> error option) \<times> (uid \<rightharpoonup> time) \<times> bool \<times> world) option" where
  "deliver cfg env handle profile a cursor seq uids handled w =
     (if uids = [] then Some ((None, None), handled, seq, w)
      else if sc_FetchBatchSize cfg \<le> 0 then None
      else
        let batch = take (nat (sc_FetchBatchSize cfg)) uids;
            rest = drop (nat (sc_FetchBatchSize cfg)) uids
        in case FetchRaw env (sc_MaxMessageSize cfg) seq batch (deliverOne handle profile a cursor)
                  ((None, handled), w) of
             (err, seq1, (handlerErr, handled1), w1) \<Rightarrow>
               if err \<noteq> None then Some ((err, handlerErr), handled1, seq1, w1)
               else if handlerErr \<noteq> None then Some ((None, handlerErr), handled1, seq1, w1)
               else deliver cfg env handle profile a cursor seq1 rest handled1 w1)"
  by pat_completeness auto
termination
  by (relation "measure (\<lambda>(cfg, env, handle, profile, a, cursor, seq, uids, handled, w). length uids)") auto

declare deliver.simps [simp del]

fun advanceConfirmed :: "IMAPCursor \<Rightarrow> uid list \<Rightarrow> (uid \<rightharpoonup> time) \<Rightarrow> IMAPCursor" where
  "advanceConfirmed cursor [] handled = cursor"
| "advanceConfirmed cursor (u # us) handled =
     (case handled u of
        None \<Rightarrow> cursor
      | Some date \<Rightarrow>
          advanceConfirmed (cursor\<lparr>cur_LastUID := u,
            cur_LastInternalDate := (if date > cur_LastInternalDate cursor then date
                                     else cur_LastInternalDate cursor)\<rparr>) us handled)"

section \<open>Recovery\<close>

definition recoveryCheckpoint :: "IMAPCursor \<Rightarrow> time" where
  "recoveryCheckpoint stored = (case cur_Recovery stored of
     Some r \<Rightarrow> rec_Checkpoint r | None \<Rightarrow> cur_LastInternalDate stored)"

text \<open>\<^verbatim>\<open>checkpoint.AddDate(0, 0, -1)\<close> is 24 hours earlier in a zone without a change of the clock.\<close>

definition startRecovery :: "IMAPMailbox \<Rightarrow> uid \<Rightarrow> time \<Rightarrow> IMAPCursor" where
  "startRecovery mailbox end checkpoint =
     (if IsZero checkpoint then
        \<lparr>cur_Mailbox = mb_Name mailbox, cur_UIDValidity = mb_UIDValidity mailbox, cur_LastUID = end,
         cur_LastInternalDate = zero_time, cur_Recovery = None\<rparr>
      else
        \<lparr>cur_Mailbox = mb_Name mailbox, cur_UIDValidity = mb_UIDValidity mailbox, cur_LastUID = 0,
         cur_LastInternalDate = checkpoint,
         cur_Recovery = Some \<lparr>rec_Since = checkpoint - 86400 * second, rec_Checkpoint = checkpoint,
           rec_ToUID = end\<rparr>\<rparr>)"

definition finishRecovery :: "IMAPCursor \<Rightarrow> IMAPRecovery \<Rightarrow> IMAPCursor" where
  "finishRecovery cursor r = cursor\<lparr>cur_LastUID := rec_ToUID r, cur_Recovery := None\<rparr>"

definition alreadyRead :: "IMAPRecovery \<Rightarrow> (uid \<rightharpoonup> time) \<Rightarrow> uid \<Rightarrow> bool" where
  "alreadyRead r dates u = (case dates u of
     Some date \<Rightarrow> \<not> IsZero date \<and> date < rec_Checkpoint r | None \<Rightarrow> False)"

definition recover :: "sync_config \<Rightarrow> imap_env \<Rightarrow> handler \<Rightarrow> EmailProfile \<Rightarrow> EmailProfileAssignment \<Rightarrow>
    bool \<Rightarrow> IMAPCursor \<Rightarrow> IMAPRecovery \<Rightarrow> world \<Rightarrow> (syncResult \<times> bool \<times> world) option" where
  "recover cfg env handle profile a seq cursor recovery w =
     (if cur_LastUID cursor \<ge> rec_ToUID recovery then Some (cursorOnly (finishRecovery cursor recovery), seq, w)
      else case searchUIDs env \<lparr>se_after = cur_LastUID cursor, se_to = rec_ToUID recovery,
                               se_since = rec_Since recovery, se_limit = sc_MaxMessagesPerPoll cfg\<rparr> w of
        (Inl e, w1) \<Rightarrow> Some (imapFailed (imapCursor cursor) e, seq, w1)
      | (Inr found, w1) \<Rightarrow>
          if found = [] then Some (cursorOnly (finishRecovery cursor recovery), seq, w1)
          else
            let limited = int (length found) > sc_MaxMessagesPerPoll cfg;
                uids = (if limited then take (nat (sc_MaxMessagesPerPoll cfg)) found else found)
            in (case FetchInternalDates env uids w1 of
                 (Inl e, w2) \<Rightarrow> Some (imapFailed (imapCursor cursor) e, seq, w2)
               | (Inr dates, w2) \<Rightarrow>
                   (let handled = (\<lambda>u. if u \<in> set uids \<and> alreadyRead recovery dates u then dates u else None);
                        fresh = filter (\<lambda>u. \<not> alreadyRead recovery dates u) uids
                    in case deliver cfg env handle profile a cursor seq fresh handled w2 of
                         None \<Rightarrow> None
                       | Some ((imapErr, handlerErr), handled', seq', w3) \<Rightarrow>
                           (let cursor' = advanceConfirmed cursor uids handled'
                            in Some
                              ((if imapErr \<noteq> None \<or> handlerErr \<noteq> None
                                then \<lparr>sr_cursor = imapCursor cursor', sr_more = False,
                                      sr_imapErr = imapErr, sr_handlerErr = handlerErr\<rparr>
                                else if \<not> limited then cursorOnly (finishRecovery cursor' recovery)
                                else \<lparr>sr_cursor = imapCursor cursor', sr_more = True,
                                      sr_imapErr = None, sr_handlerErr = None\<rparr>), seq', w3)))))"

section \<open>One sync\<close>

definition pollNew :: "sync_config \<Rightarrow> imap_env \<Rightarrow> handler \<Rightarrow> EmailProfile \<Rightarrow> EmailProfileAssignment \<Rightarrow>
    bool \<Rightarrow> IMAPMailbox \<Rightarrow> IMAPCursor \<Rightarrow> world \<Rightarrow> (syncResult \<times> bool \<times> world) option" where
  "pollNew cfg env handle profile a seq mailbox cursor w =
     (case searchUIDs env \<lparr>se_after = cur_LastUID cursor, se_to = lastSearchableUID mailbox,
                          se_since = zero_time, se_limit = sc_MaxMessagesPerPoll cfg\<rparr> w of
        (Inl e, w1) \<Rightarrow> Some (imapFailed (imapCursor cursor) e, seq, w1)
      | (Inr found, w1) \<Rightarrow>
          (let more = int (length found) > sc_MaxMessagesPerPoll cfg;
               uids = (if more then take (nat (sc_MaxMessagesPerPoll cfg)) found else found)
           in case deliver cfg env handle profile a cursor seq uids Map.empty w1 of
                None \<Rightarrow> None
              | Some ((imapErr, handlerErr), handled, seq', w2) \<Rightarrow>
                  Some (\<lparr>sr_cursor = imapCursor (advanceConfirmed cursor uids handled), sr_more = more,
                         sr_imapErr = imapErr, sr_handlerErr = handlerErr\<rparr>, seq', w2)))"

definition sync :: "sync_config \<Rightarrow> imap_env \<Rightarrow> handler \<Rightarrow> EmailProfile \<Rightarrow> EmailProfileAssignment \<Rightarrow>
    bool \<Rightarrow> ProviderCursor option \<Rightarrow> world \<Rightarrow> (syncResult \<times> bool \<times> world) option" where
  "sync cfg env handle profile a seq stored w =
     (case Examine env (ep_Mailbox profile) w of
        (Inl e, w1) \<Rightarrow> Some (imapFailed None e, seq, w1)
      | (Inr mailbox, w1) \<Rightarrow>
          (case (case stored of None \<Rightarrow> None | Some pc \<Rightarrow> pc_IMAP pc) of
             None \<Rightarrow>
               (case lastUID env mailbox w1 of
                  (Inl e, w2) \<Rightarrow> Some (imapFailed None e, seq, w2)
                | (Inr final, w2) \<Rightarrow> Some (cursorOnly
                    \<lparr>cur_Mailbox = mb_Name mailbox, cur_UIDValidity = mb_UIDValidity mailbox, cur_LastUID = final,
                     cur_LastInternalDate = zero_time, cur_Recovery = None\<rparr>, seq, w2))
           | Some cursor \<Rightarrow>
               if cur_Mailbox cursor \<noteq> mb_Name mailbox then
                 (case lastUID env mailbox w1 of
                    (Inl e, w2) \<Rightarrow> Some (imapFailed None e, seq, w2)
                  | (Inr final, w2) \<Rightarrow> Some (cursorOnly
                      \<lparr>cur_Mailbox = mb_Name mailbox, cur_UIDValidity = mb_UIDValidity mailbox, cur_LastUID = final,
                       cur_LastInternalDate = zero_time, cur_Recovery = None\<rparr>, seq, w2))
               else if cur_UIDValidity cursor \<noteq> mb_UIDValidity mailbox then
                 (case lastUID env mailbox w1 of
                    (Inl e, w2) \<Rightarrow> Some (imapFailed None e, seq, w2)
                  | (Inr final, w2) \<Rightarrow>
                      (case (if IsZero (recoveryCheckpoint cursor)
                             then exec (LastReceivedAt (ep_DomainID profile) (ep_ID profile)) w2
                             else (Inr (recoveryCheckpoint cursor), w2)) of
                         (Inl e, w3) \<Rightarrow> Some (\<lparr>sr_cursor = None, sr_more = False, sr_imapErr = None,
                                             sr_handlerErr = Some e\<rparr>, seq, w3)
                       | (Inr checkpoint, w3) \<Rightarrow>
                           (let cursor' = startRecovery mailbox final checkpoint
                            in case cur_Recovery cursor' of
                                 None \<Rightarrow> Some (cursorOnly cursor', seq, w3)
                               | Some r \<Rightarrow> recover cfg env handle profile a seq cursor' r w3)))
               else (case cur_Recovery cursor of
                       Some r \<Rightarrow> recover cfg env handle profile a seq cursor r w1
                     | None \<Rightarrow> pollNew cfg env handle profile a seq mailbox cursor w1)))"

section \<open>What the server promises about a search\<close>

text \<open>
  During one poll the mailbox holds the messages \<open>msgs\<close>, indexed by their UIDs. An
  answered search of a range reports exactly the messages of the range whose date, as the server
  writes it, is not before the date of \<open>since\<close>, as the client writes it (\<open>zn\<close>); it may report UIDs
  outside the range as well.
\<close>

definition matching :: "zones \<Rightarrow> (uid \<rightharpoonup> IMAPMessage) \<Rightarrow> time \<Rightarrow> uid set" where
  "matching zn msgs since = {u. \<exists>m. msgs u = Some m \<and> since_matches zn since u (im_InternalDate m)}"

definition search_contract :: "zones \<Rightarrow> imap_env \<Rightarrow> (uid \<rightharpoonup> IMAPMessage) \<Rightarrow> bool" where
  "search_contract zn env msgs \<longleftrightarrow> (\<forall>n from to since xs. ic_UidSearch (env n) from to since = Inr xs \<longrightarrow>
     (\<forall>u. from \<le> u \<and> (to = 0 \<or> u \<le> to) \<longrightarrow> (u \<in> set xs \<longleftrightarrow> u \<in> matching zn msgs since)))"

definition uids_ok :: "(uid \<rightharpoonup> IMAPMessage) \<Rightarrow> bool" where
  "uids_ok msgs \<longleftrightarrow> (\<forall>u m. msgs u = Some m \<longrightarrow> im_UID m = u)"

lemma SearchUIDsRange_contract:
  assumes "search_contract zn env msgs" and "SearchUIDsRange env from to since w = (Inr uids, w')"
  shows "uids = sorted_list_of_set {u \<in> matching zn msgs since. from \<le> u \<and> (to = 0 \<or> u \<le> to)}"
proof -
  from assms(2) obtain found where found: "ic_UidSearch (env (w_step w)) from to since = Inr found"
    "uids = remdups_adj (sort (filter (\<lambda>u. \<not> (u < from \<or> (to \<noteq> 0 \<and> u > to))) found))"
    by (auto simp: SearchUIDsRange_def split: sum.splits)
  have "set uids = {u \<in> matching zn msgs since. from \<le> u \<and> (to = 0 \<or> u \<le> to)}"
    using found assms(1) by (auto simp: search_contract_def not_less)
  moreover have "sorted uids" "distinct uids" by (simp_all add: found(2) distinct_remdups_adj_sorted)
  ultimately show ?thesis by (metis sorted_list_of_set.idem_if_sorted_distinct)
qed

lemma sorted_list_of_set_split:
  assumes "finite (A :: 'a::linorder set)" and "finite B" and "\<And>a b. a \<in> A \<Longrightarrow> b \<in> B \<Longrightarrow> a < b"
  shows "sorted_list_of_set (A \<union> B) = sorted_list_of_set A @ sorted_list_of_set B"
proof (rule sorted_distinct_set_eq)
  show "sorted (sorted_list_of_set A @ sorted_list_of_set B)"
    using assms by (auto simp: sorted_append less_imp_le)
  show "distinct (sorted_list_of_set A @ sorted_list_of_set B)"
    using assms by (auto simp: less_le)
qed (use assms in auto)

lemma uid_less_succ:
  assumes "(e :: uid) \<noteq> - 1"
  shows "e < u \<longleftrightarrow> e + 1 \<le> u"
proof -
  have "unat (e + 1) = Suc (unat e)" using assms by (metis add.commute add_eq_0_iff unatSuc)
  then show ?thesis by (simp add: word_less_nat_alt word_le_nat_alt Suc_le_eq)
qed

text \<open>
  The windows together find what one unbounded search would find, cut off one past the
  limit.
\<close>

lemma searchWindows_contract:
  assumes "search_contract zn env msgs"
    and "searchWindows env to since limit start all w = (Inr uids, w')" and "start \<noteq> 0"
    and "limit > 0 \<longrightarrow> int (length all) \<le> limit"
  shows "uids = (let found = all @ sorted_list_of_set {u \<in> matching zn msgs since. start \<le> u \<and> u \<le> to}
    in if limit > 0 then take (nat (limit + 1)) found else found)"
  using assms
proof (induction env to since limit start all w rule: searchWindows.induct)
  case (1 env to since limit start all w)
  let ?S = "\<lambda>a b. {u \<in> matching zn msgs since. a \<le> u \<and> u \<le> b}"
  show ?case
  proof (cases "start \<le> to")
    case False
    then have "?S start to = {}" by (auto dest: order_trans)
    moreover from False "1.prems"(2) have "uids = all" by (simp add: searchWindows.simps)
    moreover have "limit > 0 \<Longrightarrow> take (nat (limit + 1)) all = all" using "1.prems"(4) by simp
    ultimately show ?thesis by (simp only: Let_def) simp
  next
    case True
    let ?e = "windowEnd start to"
    note e = windowEnd_ge[OF True]
    obtain r w1 where sr: "SearchUIDsRange env start ?e since w = (r, w1)" by fastforce
    obtain found where r: "r = Inr found"
      using "1.prems"(2) True sr by (cases r) (auto simp: searchWindows.simps)
    have "?e \<noteq> 0" using e "1.prems"(3) by auto
    then have found: "found = sorted_list_of_set (?S start ?e)"
      using SearchUIDsRange_contract[OF "1.prems"(1), of start ?e since w found w1] sr r by simp
    have "?S start to = ?S start ?e \<union> {u \<in> ?S start to. \<not> u \<le> ?e}" using e by auto
    moreover have "sorted_list_of_set (?S start ?e \<union> {u \<in> ?S start to. \<not> u \<le> ?e})
        = found @ sorted_list_of_set {u \<in> ?S start to. \<not> u \<le> ?e}"
      unfolding found by (rule sorted_list_of_set_split) (auto simp: not_le intro: le_less_trans)
    ultimately have "sorted_list_of_set (?S start to) = found @ sorted_list_of_set {u \<in> ?S start to. \<not> u \<le> ?e}"
      by presburger
    moreover have rest: "{u \<in> ?S start to. \<not> u \<le> ?e} = (if ?e = - 1 then {} else ?S (?e + 1) to)"
    proof -
      have "\<not> u \<le> ?e \<and> start \<le> u \<longleftrightarrow> ?e + 1 \<le> u" if "?e \<noteq> - 1" for u
        using uid_less_succ[OF that, of u] e by (auto simp: not_le)
      moreover have "u \<le> (- 1 :: uid)" for u by simp
      ultimately show ?thesis by (cases "?e = - 1") auto
    qed
    ultimately have split: "all @ sorted_list_of_set (?S start to)
        = (all @ found) @ (if ?e = - 1 then [] else sorted_list_of_set (?S (?e + 1) to))"
      by (simp only: rest) simp
    show ?thesis
    proof (cases "limit > 0 \<and> int (length (all @ found)) > limit")
      case over: True
      with "1.prems"(2) True sr r have "uids = take (nat (limit + 1)) (all @ found)"
        by (auto simp: searchWindows.simps Let_def)
      moreover have "nat (limit + 1) \<le> length (all @ found)" using over by linarith
      ultimately show ?thesis using over unfolding split Let_def by (simp del: append_assoc)
    next
      case False
      show ?thesis
      proof (cases "?e = - 1")
        case last: True
        with "1.prems"(2) True sr r False have "uids = all @ found"
          by (auto simp: searchWindows.simps Let_def)
        with last False show ?thesis unfolding split Let_def by auto
      next
        case more: False
        obtain w2 where run: "searchWindows env to since limit (?e + 1) (all @ found) w2 = (Inr uids, w')"
          and step: "ctxErr w1 = (Inr False, w2)"
          using "1.prems"(2) True sr r False more
          by (auto simp: searchWindows.simps[of env to since limit start] Let_def split: prod.splits sum.splits if_splits)
        have "?e + 1 \<noteq> 0" using more by (metis add_eq_0_iff2 add.inverse_inverse)
        from "1.IH"[OF True refl sr[symmetric] r refl False more step[symmetric] refl _ "1.prems"(1) run this] False
        show ?thesis unfolding split using more by (auto simp: not_less)
      qed
    qed
  qed
qed

lemma searchUIDs_contract:
  assumes "search_contract zn env msgs" and "searchUIDs env r w = (Inr uids, w')"
  shows "uids = (let found = sorted_list_of_set
      {u \<in> matching zn msgs (se_since r). se_after r < u \<and> (se_to r = 0 \<or> u \<le> se_to r)}
    in if se_limit r > 0 \<and> se_to r \<noteq> 0 then take (nat (se_limit r + 1)) found else found)"
proof (cases "se_after r = - 1")
  case True
  then have "{u \<in> matching zn msgs (se_since r). se_after r < u \<and> (se_to r = 0 \<or> u \<le> se_to r)} = {}"
    by (auto simp: not_less[symmetric])
  with True assms(2) show ?thesis by (simp add: searchUIDs_def Let_def)
next
  case False
  have gt: "se_after r < u \<longleftrightarrow> se_after r + 1 \<le> u" for u using False by (rule uid_less_succ)
  have nz: "se_after r + 1 \<noteq> 0" using False by (metis add_eq_0_iff2 add.inverse_inverse)
  show ?thesis
  proof (cases "se_to r = 0")
    case True
    with False assms(2) have "SearchUIDsRange env (se_after r + 1) 0 (se_since r) w = (Inr uids, w')"
      by (simp add: searchUIDs_def Let_def)
    from SearchUIDsRange_contract[OF assms(1) this] True show ?thesis by (simp add: gt)
  next
    case to: False
    with False assms(2) have "searchWindows env (se_to r) (se_since r) (se_limit r) (se_after r + 1) [] w = (Inr uids, w')"
      by (simp add: searchUIDs_def Let_def)
    from searchWindows_contract[OF assms(1) this nz] to show ?thesis by (simp add: gt Let_def)
  qed
qed

lemma searchUIDs_empty:
  assumes "search_contract zn env msgs" and "searchUIDs env r w = (Inr [], w')"
  shows "{u \<in> matching zn msgs (se_since r). se_after r < u \<and> (se_to r = 0 \<or> u \<le> se_to r)} = {}" (is "?S = {}")
proof -
  have "[] = (if se_limit r > 0 \<and> se_to r \<noteq> 0 then take (nat (se_limit r + 1)) (sorted_list_of_set ?S)
      else sorted_list_of_set ?S)" using searchUIDs_contract[OF assms] by (simp only: Let_def)
  then have "sorted_list_of_set ?S = []" by (cases "se_limit r > 0 \<and> se_to r \<noteq> 0") auto
  then show ?thesis by simp
qed

section \<open>Moving the cursor\<close>

text \<open>The cursor moves over the longest confirmed prefix and nothing else of it changes.\<close>

lemma advanceConfirmed_fields [simp]:
  "cur_Mailbox (advanceConfirmed c us h) = cur_Mailbox c"
  "cur_UIDValidity (advanceConfirmed c us h) = cur_UIDValidity c"
  "cur_Recovery (advanceConfirmed c us h) = cur_Recovery c"
  by (induction c us h rule: advanceConfirmed.induct) (auto split: option.splits)

lemma advanceConfirmed_prefix:
  "\<exists>k\<le>length us. (\<forall>u\<in>set (take k us). h u \<noteq> None) \<and> (k < length us \<longrightarrow> h (us ! k) = None) \<and>
     cur_LastUID (advanceConfirmed c us h) = (if k = 0 then cur_LastUID c else us ! (k - 1))"
proof (induction us arbitrary: c)
  case (Cons u us)
  show ?case
  proof (cases "h u")
    case None
    then show ?thesis by (intro exI[of _ 0]) simp
  next
    case (Some t)
    define c1 where "c1 = c\<lparr>cur_LastUID := u, cur_LastInternalDate :=
      (if t > cur_LastInternalDate c then t else cur_LastInternalDate c)\<rparr>"
    have c1: "cur_LastUID c1 = u" by (simp add: c1_def)
    obtain k where k: "k \<le> length us" "\<forall>u\<in>set (take k us). h u \<noteq> None"
      "k < length us \<longrightarrow> h (us ! k) = None"
      "cur_LastUID (advanceConfirmed c1 us h) = (if k = 0 then u else us ! (k - 1))"
      using Cons.IH[of c1] unfolding c1 by blast
    have "advanceConfirmed c (u # us) h = advanceConfirmed c1 us h" using Some by (simp add: c1_def)
    with k Some show ?thesis by (intro exI[of _ "Suc k"]) (simp add: nth_Cons')
  qed
qed simp

lemma sorted_prefix_le:
  assumes "sorted xs" and "distinct xs" and "k \<le> length xs" and "0 < k" and "x \<in> set xs"
    and "x \<le> xs ! (k - 1)"
  shows "x \<in> set (take k (xs :: 'a::linorder list))"
proof -
  from assms(5) obtain i where i: "i < length xs" "x = xs ! i" by (auto simp: in_set_conv_nth)
  have "i < k"
  proof (rule ccontr)
    assume "\<not> i < k"
    then have "k - 1 < i" using assms(4) by simp
    with assms(1,2) i(1) have "xs ! (k - 1) < xs ! i"
      by (metis sorted_nth_mono nth_eq_iff_index_eq less_imp_le less_le_trans order_le_less less_irrefl)
    with assms(6) i(2) show False by simp
  qed
  with i assms(3) show ?thesis by (auto simp: in_set_conv_nth)
qed

text \<open>
  With the UIDs sorted, the new position covers every listed UID up to it, each of which is
  confirmed, and it is not before the old one.
\<close>

lemma advanceConfirmed_covers:
  assumes "sorted us" and "distinct us" and "\<forall>u\<in>set us. cur_LastUID c < u"
  shows "cur_LastUID c \<le> cur_LastUID (advanceConfirmed c us h)"
    and "u \<in> set us \<Longrightarrow> u \<le> cur_LastUID (advanceConfirmed c us h) \<Longrightarrow> h u \<noteq> None"
    and "\<forall>u\<in>set us. h u \<noteq> None \<Longrightarrow> us \<noteq> [] \<Longrightarrow> cur_LastUID (advanceConfirmed c us h) = last us"
    and "cur_LastUID (advanceConfirmed c us h) \<in> insert (cur_LastUID c) (set us)"
proof -
  obtain k where k: "k \<le> length us" "\<forall>u\<in>set (take k us). h u \<noteq> None" "k < length us \<longrightarrow> h (us ! k) = None"
    "cur_LastUID (advanceConfirmed c us h) = (if k = 0 then cur_LastUID c else us ! (k - 1))"
    using advanceConfirmed_prefix[of us h c] by blast
  then show "cur_LastUID c \<le> cur_LastUID (advanceConfirmed c us h)"
    using assms(3) by (auto simp: less_imp_le)
  show "h u \<noteq> None" if "u \<in> set us" "u \<le> cur_LastUID (advanceConfirmed c us h)"
  proof (cases "k = 0")
    case True
    with that k(4) assms(3) show ?thesis by auto
  next
    case False
    with that k sorted_prefix_le[OF assms(1,2) k(1)] show ?thesis by auto
  qed
  show "cur_LastUID (advanceConfirmed c us h) = last us" if "\<forall>u\<in>set us. h u \<noteq> None" "us \<noteq> []"
  proof -
    have "k = length us" using that(1) k(1,3) by (metis nth_mem order_le_less)
    with k(4) that(2) show ?thesis by (simp add: last_conv_nth)
  qed
  show "cur_LastUID (advanceConfirmed c us h) \<in> insert (cur_LastUID c) (set us)"
    using k(1,4) by auto
qed

section \<open>Handlers\<close>

text \<open>
  What the sync relies on: a handler that returns without an error has finished the email,
  and what it has finished stays finished while it handles other emails. What "finished"
  means is up to the handler.
\<close>

locale confirming_handler =
  fixes handle :: handler and done_at :: "Message \<Rightarrow> world \<Rightarrow> bool" and inv :: "world \<Rightarrow> bool"
  assumes confirms: "inv w \<Longrightarrow> handle m w = (Inr u, w') \<Longrightarrow> done_at m w'"
    and keeps_done: "inv w \<Longrightarrow> done_at m w \<Longrightarrow> done_at m (snd (handle m' w))"
    and done_tick: "done_at m w \<Longrightarrow> done_at m (tick w)"
    and keeps_inv: "inv w \<Longrightarrow> inv (snd (handle m w))"
    and inv_tick: "inv w \<Longrightarrow> inv (tick w)"
begin

lemma inv_ticks: "inv w \<Longrightarrow> inv ((tick ^^ n) w)"
  by (induction n) (simp_all add: inv_tick)

text \<open>Every confirmed UID is a finished message of the mailbox, or was confirmed at the start.\<close>

definition confirmed_ok :: "(uid \<rightharpoonup> IMAPMessage) \<Rightarrow> uid set \<Rightarrow> EmailProfile \<Rightarrow> EmailProfileAssignment \<Rightarrow>
    IMAPCursor \<Rightarrow> IMAPMessage set \<Rightarrow> (uid \<rightharpoonup> time) \<Rightarrow> world \<Rightarrow> bool" where
  "confirmed_ok msgs base p a c log h w \<longleftrightarrow> inv w \<and>
     (\<forall>u\<in>dom h. u \<in> base \<or> (\<exists>m\<in>ran msgs \<union> log. im_UID m = u \<and> done_at (message_of p a c m) w))"

lemma confirmed_ok_tick: "confirmed_ok msgs B p a c L h w \<Longrightarrow> confirmed_ok msgs B p a c L h (tick w)"
  unfolding confirmed_ok_def using done_tick inv_tick by blast

lemma deliverOne_ok:
  assumes "confirmed_ok msgs B p a c (set l) h w" and "dom h0 \<subseteq> dom h"
    and "err = None \<longrightarrow> im_UID ` set l \<subseteq> dom h"
    and "deliverOne handle p a c m ((err, h), w) = ((err', h'), w')"
  shows "confirmed_ok msgs B p a c (set (l @ [m])) h' w' \<and> dom h0 \<subseteq> dom h' \<and>
    (err' = None \<longrightarrow> im_UID ` set (l @ [m]) \<subseteq> dom h')"
proof (cases "err \<noteq> None \<or> w_cancel w (w_step w)")
  case True
  with assms(4) have "h' = h" "err' \<noteq> None" "w' = w \<or> w' = tick w"
    by (auto simp: deliverOne_def ctxErr_def split: if_splits)
  moreover have "confirmed_ok msgs B p a c (set (l @ [m])) h w" using assms(1) by (auto simp: confirmed_ok_def)
  ultimately show ?thesis using assms(2) confirmed_ok_tick by auto
next
  case False
  obtain r w2 where run: "handle (message_of p a c m) (tick w) = (r, w2)" by fastforce
  have old: "confirmed_ok msgs B p a c (set l) h w2"
    using confirmed_ok_tick[OF assms(1)] keeps_done[of "tick w" _ "message_of p a c m"]
      keeps_inv[of "tick w" "message_of p a c m"] run
    unfolding confirmed_ok_def by (metis snd_conv)
  show ?thesis
  proof (cases r)
    case (Inl e)
    with assms(4) False run have "h' = h" "err' = Some e" "w' = w2" by (auto simp: deliverOne_def ctxErr_def)
    with old assms(2) show ?thesis by (auto simp: confirmed_ok_def)
  next
    case (Inr u)
    with False run have "deliverOne handle p a c m ((err, h), w)
        = ((None, h(im_UID m \<mapsto> im_InternalDate m)), w2)"
      by (simp add: deliverOne_def ctxErr_def)
    with assms(4) have "h' = h(im_UID m \<mapsto> im_InternalDate m)" "err' = None" "w' = w2" by simp_all
    moreover have "done_at (message_of p a c m) w2"
      using confirms[of "tick w"] run Inr assms(1) inv_tick by (auto simp: confirmed_ok_def)
    ultimately show ?thesis using old assms(2,3) False by (auto simp: confirmed_ok_def)
  qed
qed

lemma deliver_ok:
  assumes "fetch_contract env (sc_MaxMessageSize cfg) msgs" and "uids_ok msgs"
    and "deliver cfg env handle p a c seq uids h w = Some ((imapErr, handlerErr), h', seq', w')"
    and "confirmed_ok msgs B p a c {} h w"
  shows "confirmed_ok msgs B p a c {} h' w' \<and> dom h \<subseteq> dom h' \<and>
    (imapErr = None \<and> handlerErr = None \<longrightarrow> (\<forall>u\<in>set uids. msgs u \<noteq> None \<longrightarrow> u \<in> dom h'))"
  using assms(3,4)
proof (induction "length uids" arbitrary: uids seq h w rule: less_induct)
  case less
  show ?case
  proof (cases "uids = []")
    case True
    with less.prems show ?thesis by (auto simp: deliver.simps)
  next
    case False
    let ?n = "nat (sc_FetchBatchSize cfg)"
    have pos: "sc_FetchBatchSize cfg > 0"
      using less.prems(1) False by (auto simp: deliver.simps split: if_splits)
    obtain err seq1 e1 h1 w1 where fr: "FetchRaw env (sc_MaxMessageSize cfg) seq (take ?n uids)
        (deliverOne handle p a c) ((None, h), w) = (err, seq1, (e1, h1), w1)"
      by (metis surj_pair)
    let ?Q = "\<lambda>l st. confirmed_ok msgs B p a c (set l) (snd (fst st)) (snd st) \<and>
      dom h \<subseteq> dom (snd (fst st)) \<and> (fst (fst st) = None \<longrightarrow> im_UID ` set l \<subseteq> dom (snd (fst st)))"
    have step: "?Q (l @ [m]) (deliverOne handle p a c m st)" if "?Q l st" for l m st
      using that deliverOne_ok[of msgs B p a c l _ _ h "fst (fst st)" m]
      by (cases st) (metis (no_types, lifting) fst_conv snd_conv surj_pair)
    have "\<exists>log. ?Q log ((e1, h1), w1) \<and>
        (\<exists>k. log = existing msgs (take k (remdups_adj (sort (take ?n uids))))) \<and>
        (err = None \<longrightarrow> log = existing msgs (remdups_adj (sort (take ?n uids))))"
      by (rule FetchRaw_trace[where Q = ?Q, OF assms(1) step _ fr])
         (use less.prems(2) confirmed_ok_tick in auto)
    then obtain log where log: "?Q log ((e1, h1), w1)"
      "\<exists>k. log = existing msgs (take k (remdups_adj (sort (take ?n uids))))"
      "err = None \<longrightarrow> log = existing msgs (remdups_adj (sort (take ?n uids)))"
      by (elim exE conjE) (rule that, simp_all, blast)
    have "set (existing msgs us) \<subseteq> ran msgs" for us by (auto simp: existing_def ran_def)
    with log(2) have "set log \<subseteq> ran msgs" by auto
    with log(1)
    have ok1: "confirmed_ok msgs B p a c {} h1 w1" "dom h \<subseteq> dom h1"
      by (auto simp: confirmed_ok_def sup.absorb1)
    have got: "u \<in> dom h1" if "err = None" "e1 = None" "u \<in> set (take ?n uids)" "msgs u = Some m" for u m
    proof -
      have "m \<in> set log" using that log(3) by (force simp: existing_def)
      with log(1) that(2,4) assms(2) show ?thesis by (auto simp: uids_ok_def)
    qed
    show ?thesis
    proof (cases "err = None \<and> e1 = None")
      case False
      with less.prems(1) \<open>uids \<noteq> []\<close> pos fr have "h' = h1" "w' = w1" "imapErr \<noteq> None \<or> handlerErr \<noteq> None"
        by (auto simp: deliver.simps split: if_splits)
      with ok1 show ?thesis by auto
    next
      case True
      with less.prems(1) \<open>uids \<noteq> []\<close> pos fr
      have rest: "deliver cfg env handle p a c seq1 (drop ?n uids) h1 w1 = Some ((imapErr, handlerErr), h', seq', w')"
        by (auto simp: deliver.simps)
      have "length (drop ?n uids) < length uids" using pos \<open>uids \<noteq> []\<close> by simp
      note IH = less.hyps[OF this rest ok1(1)]
      have "u \<in> dom h'" if "imapErr = None \<and> handlerErr = None" "u \<in> set uids" "msgs u \<noteq> None" for u
      proof (cases "u \<in> set (take ?n uids)")
        case in_batch: True
        with got True that(3) have "u \<in> dom h1" by blast
        with IH show ?thesis by blast
      next
        case False
        with that(2) have "u \<in> set (drop ?n uids)" by (metis Un_iff append_take_drop_id set_append)
        with IH that show ?thesis by blast
      qed
      with IH ok1(2) show ?thesis by blast
    qed
  qed
qed

end

lemma sorted_last_ge: "sorted xs \<Longrightarrow> x \<in> set xs \<Longrightarrow> x \<le> last (xs :: 'a::linorder list)"
  by (induction xs) auto

lemma sorted_take_closed:
  assumes "sorted xs" and "distinct xs" and "x \<in> set xs" and "y \<in> set (take k xs)" and "x \<le> (y :: 'a::linorder)"
  shows "x \<in> set (take k xs)"
proof -
  from assms(4) obtain i where i: "i < length xs" "i < k" "y = xs ! i" by (auto simp: in_set_conv_nth)
  then have "x \<in> set (take (Suc i) xs)"
    using assms(1-3,5) by (intro sorted_prefix_le) auto
  moreover have "set (take (Suc i) xs) \<subseteq> set (take k xs)" using i(2) by (intro set_take_subset_set_take) simp
  ultimately show ?thesis by blast
qed

text \<open>The UIDs a poll works on: a prefix of the sorted list of what matches.\<close>

lemma search_prefix:
  assumes "search_contract zn env msgs" and "searchUIDs env r w = (Inr found, w')"
    and "uids = (if int (length found) > n then take (nat n) found else found)" and "se_limit r = n"
  defines "S \<equiv> {u \<in> matching zn msgs (se_since r). se_after r < u \<and> (se_to r = 0 \<or> u \<le> se_to r)}"
  shows "\<exists>k. uids = take k (sorted_list_of_set S)"
    and "\<not> int (length found) > n \<Longrightarrow> uids = sorted_list_of_set S"
proof -
  have f: "found = (let found = sorted_list_of_set S in
      if se_limit r > 0 \<and> se_to r \<noteq> 0 then take (nat (se_limit r + 1)) found else found)"
    unfolding S_def using assms(1,2) by (rule searchUIDs_contract)
  have "\<exists>k. found = take k (sorted_list_of_set S)"
    unfolding f Let_def by (cases "se_limit r > 0 \<and> se_to r \<noteq> 0") (auto intro: exI[of _ "length (sorted_list_of_set S)"])
  then obtain k where "found = take k (sorted_list_of_set S)" by blast
  then show "\<exists>k. uids = take k (sorted_list_of_set S)" using assms(3) by (auto simp: take_take)
  show "uids = sorted_list_of_set S" if "\<not> int (length found) > n"
    using that f assms(3,4) by (auto simp: Let_def split: if_splits)
qed

text \<open>
  The core of both polls: after the confirmed prefix has been taken over, every message of
  the searched range up to the new position is confirmed.
\<close>

lemma advance_covers:
  assumes "uids = take k (sorted_list_of_set S)" and "\<forall>u\<in>S. cur_LastUID c < u"
    and "cur_LastUID c < u" and "u \<le> cur_LastUID (advanceConfirmed c uids h)" and "u \<in> S"
  shows "u \<in> dom h"
proof -
  have uids: "sorted uids" "distinct uids" "set uids \<subseteq> S"
    using assms(1) by (auto intro: sorted_wrt_take distinct_take dest: in_set_takeD)
  with assms(2) have gt: "\<forall>u\<in>set uids. cur_LastUID c < u" by blast
  note adv = advanceConfirmed_covers[OF uids(1,2) gt, where h = h]
  have "cur_LastUID (advanceConfirmed c uids h) \<in> set uids"
    using adv(4) assms(3,4) by auto
  then have "u \<in> set uids"
    using sorted_take_closed[of "sorted_list_of_set S" u] assms(1,4,5) by auto
  with adv(2) assms(4) show ?thesis by blast
qed

text \<open>How a poll for new messages ends: the search failed, or the found prefix was delivered.\<close>

lemma ticks_trans: "\<exists>n. w2 = (tick ^^ n) w1 \<Longrightarrow> \<exists>n. w1 = (tick ^^ n) w \<Longrightarrow> \<exists>n. w2 = (tick ^^ n) w"
  by (metis comp_apply funpow_add)

lemma ticks_once: "\<exists>n. tick w = (tick ^^ n) w" and ticks_none: "\<exists>n. w = (tick ^^ n) w"
  by (rule exI[of _ 1], simp) (rule exI[of _ 0], simp)

lemma searchWindows_ticks: "\<exists>n. snd (searchWindows env to since limit start all w) = (tick ^^ n) w"
proof (induction env to since limit start all w rule: searchWindows.induct)
  case (1 env to since limit start all w)
  obtain r where sr: "SearchUIDsRange env start (windowEnd start to) since w = (r, tick w)"
    by (cases "ic_UidSearch (env (w_step w)) start (windowEnd start to) since") (auto simp: SearchUIDsRange_def)
  have two: "\<exists>n. tick (tick w) = (tick ^^ n) w" using ticks_trans[OF ticks_once ticks_once] .
  show ?case
  proof (cases "start \<le> to \<and> (\<exists>found. r = Inr found \<and> \<not> (limit > 0 \<and> int (length (all @ found)) > limit)) \<and>
      windowEnd start to \<noteq> - 1 \<and> \<not> w_cancel w (Suc (w_step w))")
    case True
    then obtain found where go: "start \<le> to" "r = Inr found" "\<not> (limit > 0 \<and> int (length (all @ found)) > limit)"
      "windowEnd start to \<noteq> - 1" "\<not> w_cancel w (Suc (w_step w))" by blast
    have ctx: "ctxErr (tick w) = (Inr False, tick (tick w))" using go(5) by (simp add: ctxErr_def)
    note IH = "1.IH"[OF go(1) refl sr[symmetric] go(2) refl go(3,4) ctx[symmetric] refl]
    from go sr ctx have "searchWindows env to since limit start all w
        = searchWindows env to since limit (windowEnd start to + 1) (all @ found) (tick (tick w))"
      by (auto simp: searchWindows.simps[of env to since limit start] Let_def)
    with ticks_trans[OF IH two] show ?thesis by simp
  next
    case False
    with sr have "snd (searchWindows env to since limit start all w) \<in> {w, tick w, tick (tick w)}"
      by (auto simp: searchWindows.simps[of env to since limit start] Let_def ctxErr_def split: sum.splits)
    then show ?thesis using ticks_none[of w] ticks_once[of w] two by auto
  qed
qed

lemma searchUIDs_ticks: "searchUIDs env r w = (x, w') \<Longrightarrow> \<exists>n. w' = (tick ^^ n) w"
  using searchWindows_ticks[of env "se_to r" "se_since r" "se_limit r" "se_after r + 1" "[]" w]
  by (auto simp: searchUIDs_def SearchUIDsRange_def Let_def ticks_once ticks_none split: if_splits sum.splits)

lemma FetchInternalDates_ticks: "FetchInternalDates env uids w = (x, w') \<Longrightarrow> \<exists>n. w' = (tick ^^ n) w"
  by (auto simp: FetchInternalDates_def ticks_once ticks_none split: if_splits prod.splits option.splits)

lemma pollNew_cases:
  assumes "search_contract zn env msgs"
    and "pollNew cfg env handle p a seq mailbox c w = Some (res, seq', w')" and "sr_cursor res = imapCursor c'"
  defines "S \<equiv> {u \<in> matching zn msgs zero_time. cur_LastUID c < u \<and>
      (lastSearchableUID mailbox = 0 \<or> u \<le> lastSearchableUID mailbox)}"
  obtains (failed) "c' = c" "sr_imapErr res \<noteq> None"
    | (delivered) uids k h w1 where "uids = take k (sorted_list_of_set S)"
      "deliver cfg env handle p a c seq uids Map.empty w1
         = Some ((sr_imapErr res, sr_handlerErr res), h, seq', w')"
      "c' = advanceConfirmed c uids h" "\<not> sr_more res \<longrightarrow> uids = sorted_list_of_set S" "\<exists>n. w1 = (tick ^^ n) w"
proof -
  let ?r = "\<lparr>se_after = cur_LastUID c, se_to = lastSearchableUID mailbox, se_since = zero_time,
     se_limit = sc_MaxMessagesPerPoll cfg\<rparr>"
  obtain r1 w1 where sr: "searchUIDs env ?r w = (r1, w1)" by fastforce
  show thesis
  proof (cases r1)
    case (Inl e)
    with assms(2,3) sr have "c' = c" "sr_imapErr res \<noteq> None"
      by (auto simp: pollNew_def imapFailed_def imapCursor_def)
    then show thesis by (rule failed)
  next
    case (Inr found)
    define uids where "uids = (if int (length found) > sc_MaxMessagesPerPoll cfg
      then take (nat (sc_MaxMessagesPerPoll cfg)) found else found)"
    obtain imapErr handlerErr h where dl: "deliver cfg env handle p a c seq uids Map.empty w1
        = Some ((imapErr, handlerErr), h, seq', w')"
      and res: "res = \<lparr>sr_cursor = imapCursor (advanceConfirmed c uids h),
         sr_more = int (length found) > sc_MaxMessagesPerPoll cfg, sr_imapErr = imapErr, sr_handlerErr = handlerErr\<rparr>"
      using assms(2) sr Inr by (auto simp: pollNew_def uids_def Let_def split: option.splits)
    note pre = search_prefix[OF assms(1) sr[unfolded Inr] uids_def, simplified, folded S_def]
    obtain k where "uids = take k (sorted_list_of_set S)" using pre(1) by blast
    then show thesis
      using delivered[of uids k w1 h] dl res assms(3) pre(2) searchUIDs_ticks[OF sr] by (simp add: imapCursor_def)
  qed
qed

lemma prefix_uids:
  assumes "uids = take k (sorted_list_of_set (S :: uid set))" and "\<forall>u\<in>S. l < u"
  shows "sorted uids" and "distinct uids" and "\<forall>u\<in>set uids. l < u" and "set uids \<subseteq> S"
  using assms by (auto intro: sorted_wrt_take distinct_take dest: in_set_takeD)

context confirming_handler
begin

lemma confirmed_done:
  assumes "confirmed_ok msgs B p a c {} h w" and "uids_ok msgs" and "u \<in> dom h" and "u \<notin> B" and "msgs u = Some m"
  shows "done_at (message_of p a c m) w"
proof -
  from assms(1,3,4) obtain m' where m': "m' \<in> ran msgs" "im_UID m' = u" "done_at (message_of p a c m') w"
    by (auto simp: confirmed_ok_def)
  then obtain u' where "msgs u' = Some m'" by (auto simp: ran_def)
  with assms(2,5) m'(2) have "m' = m" by (auto simp: uids_ok_def)
  with m'(3) show ?thesis by simp
qed

lemma pollNew_monotone:
  assumes "search_contract zn env msgs"
    and "pollNew cfg env handle p a seq mailbox c w = Some (res, seq', w')" and "sr_cursor res = imapCursor c'"
  shows "cur_LastUID c \<le> cur_LastUID c'"
  using assms
proof (cases rule: pollNew_cases)
  case (delivered uids k h w1)
  have "\<forall>u\<in>set uids. cur_LastUID c < u" using delivered(1) by (auto dest: in_set_takeD)
  moreover have "sorted uids" "distinct uids" using delivered(1) by (simp_all add: sorted_wrt_take)
  ultimately show ?thesis unfolding delivered(3) by (intro advanceConfirmed_covers(1))
qed simp

text \<open>No message at or before the new position is left behind.\<close>

lemma pollNew_no_skip:
  assumes "search_contract zn env msgs" and "fetch_contract env (sc_MaxMessageSize cfg) msgs" and "uids_ok msgs"
    and "pollNew cfg env handle p a seq mailbox c w = Some (res, seq', w')" and "sr_cursor res = imapCursor c'"
    and u: "cur_LastUID c < u" "u \<le> cur_LastUID c'" "msgs u = Some m" and inv: "inv w"
  shows "done_at (message_of p a c m) w'"
  using assms(1,4,5)
proof (cases rule: pollNew_cases)
  case failed
  with u show ?thesis by simp
next
  case (delivered uids k h w1)
  let ?S = "{u \<in> matching zn msgs zero_time. cur_LastUID c < u \<and>
      (lastSearchableUID mailbox = 0 \<or> u \<le> lastSearchableUID mailbox)}"
  have gt: "\<forall>u\<in>?S. cur_LastUID c < u" by simp
  note up = prefix_uids[OF delivered(1) gt]
  have "cur_LastUID c' \<in> ?S"
    using advanceConfirmed_covers(4)[OF up(1-3), where h = h] up(4) u unfolding delivered(3) by auto
  then have "u \<in> ?S" using u by (auto simp: matching_def since_matches_def)
  then have "u \<in> dom h" using advance_covers[OF delivered(1) gt u(1)] u(2) unfolding delivered(3) by blast
  moreover have "confirmed_ok msgs {} p a c {} Map.empty w1" using inv delivered(5) inv_ticks by (auto simp: confirmed_ok_def)
  ultimately show ?thesis
    using deliver_ok[OF assms(2,3) delivered(2)] confirmed_done[OF _ assms(3)] u(3) by blast
qed

text \<open>A poll without errors and without a backlog reaches the end of the searched range.\<close>

lemma pollNew_complete:
  assumes "search_contract zn env msgs" and "fetch_contract env (sc_MaxMessageSize cfg) msgs" and "uids_ok msgs"
    and "pollNew cfg env handle p a seq mailbox c w = Some (res, seq', w')" and "sr_cursor res = imapCursor c'"
    and ok: "sr_imapErr res = None" "sr_handlerErr res = None" "\<not> sr_more res"
    and u: "cur_LastUID c < u" "lastSearchableUID mailbox = 0 \<or> u \<le> lastSearchableUID mailbox" "msgs u = Some m"
    and inv: "inv w"
  shows "u \<le> cur_LastUID c'"
  using assms(1,4,5)
proof (cases rule: pollNew_cases)
  case failed
  with ok show ?thesis by simp
next
  case (delivered uids k h w1)
  let ?S = "{u \<in> matching zn msgs zero_time. cur_LastUID c < u \<and>
      (lastSearchableUID mailbox = 0 \<or> u \<le> lastSearchableUID mailbox)}"
  have gt: "\<forall>u\<in>?S. cur_LastUID c < u" by simp
  note up = prefix_uids[OF delivered(1) gt]
  have "u \<in> ?S" using u by (auto simp: matching_def since_matches_def)
  then have mem: "u \<in> set uids" using delivered(4) ok(3) by simp
  have "confirmed_ok msgs {} p a c {} Map.empty w1" using inv delivered(5) inv_ticks by (auto simp: confirmed_ok_def)
  with deliver_ok[OF assms(2,3) delivered(2)] ok(1,2)
  have "\<forall>u\<in>set uids. msgs u \<noteq> None \<longrightarrow> u \<in> dom h" by blast
  then have "\<forall>u\<in>set uids. h u \<noteq> None" using up(4) by (force simp: matching_def)
  then have "cur_LastUID c' = last uids" unfolding delivered(3)
    using advanceConfirmed_covers(3)[OF up(1-3)] mem by force
  with mem up(1) show ?thesis by (simp add: sorted_last_ge)
qed

end

section \<open>Recovering\<close>

text \<open>The dates the server reports are the dates of its messages.\<close>

definition dates_contract :: "imap_env \<Rightarrow> (uid \<rightharpoonup> IMAPMessage) \<Rightarrow> bool" where
  "dates_contract env msgs \<longleftrightarrow> (\<forall>n us u t m. (u, t) \<in> set (fst (ic_UidFetchDates (env n) us)) \<longrightarrow>
     msgs u = Some m \<longrightarrow> t = im_InternalDate m)"

lemma foldl_map_upd:
  "foldl (\<lambda>m (u, t). m(u \<mapsto> t)) h xs u = Some t \<Longrightarrow> h u = Some t \<or> (u, t) \<in> set xs"
  by (induction xs arbitrary: h) (force split: if_splits)+

lemma FetchInternalDates_contract:
  assumes "dates_contract env msgs" and "FetchInternalDates env uids w = (Inr dates, w')"
    and "dates u = Some t" and "msgs u = Some m"
  shows "t = im_InternalDate m"
proof -
  have "(u, t) \<in> set (fst (ic_UidFetchDates (env (w_step w)) uids))"
    using assms(2,3) foldl_map_upd[of Map.empty _ u t]
    by (auto simp: FetchInternalDates_def split: if_splits prod.splits option.splits)
  with assms(1,4) show ?thesis unfolding dates_contract_def by blast
qed

text \<open>How one portion of a recovery ends.\<close>

lemma recover_cases:
  assumes "search_contract zn env msgs"
    and "recover cfg env handle p a seq c r w = Some (res, seq', w')" and "sr_cursor res = imapCursor c'"
  defines "S \<equiv> {u \<in> matching zn msgs (rec_Since r). cur_LastUID c < u \<and> u \<le> rec_ToUID r}"
  obtains (passed) "cur_LastUID c \<ge> rec_ToUID r" "c' = finishRecovery c r"
    | (failed) "c' = c" "sr_imapErr res \<noteq> None"
    | (empty) "S = {}" "c' = finishRecovery c r"
    | (delivered) uids k dates h w1 w2 where "uids = take k (sorted_list_of_set S)"
      "FetchInternalDates env uids w1 = (Inr dates, w2)"
      "deliver cfg env handle p a c seq (filter (\<lambda>u. \<not> alreadyRead r dates u) uids)
         (\<lambda>u. if u \<in> set uids \<and> alreadyRead r dates u then dates u else None) w2
         = Some ((sr_imapErr res, sr_handlerErr res), h, seq', w')"
      "c' = advanceConfirmed c uids h \<or> c' = finishRecovery (advanceConfirmed c uids h) r \<and>
         uids = sorted_list_of_set S \<and> sr_imapErr res = None \<and> sr_handlerErr res = None" "\<exists>n. w2 = (tick ^^ n) w"
proof (cases "cur_LastUID c \<ge> rec_ToUID r")
  case True
  then show thesis using assms(2,3) passed by (auto simp: recover_def cursorOnly_def imapCursor_def)
next
  case False
  then have to: "rec_ToUID r \<noteq> 0" by auto
  let ?r = "\<lparr>se_after = cur_LastUID c, se_to = rec_ToUID r, se_since = rec_Since r,
     se_limit = sc_MaxMessagesPerPoll cfg\<rparr>"
  obtain r1 w1 where sr: "searchUIDs env ?r w = (r1, w1)" by fastforce
  show thesis
  proof (cases r1)
    case (Inl e)
    then show thesis using assms(2,3) False sr failed by (auto simp: recover_def imapFailed_def imapCursor_def)
  next
    case (Inr found)
    define uids where "uids = (if int (length found) > sc_MaxMessagesPerPoll cfg
      then take (nat (sc_MaxMessagesPerPoll cfg)) found else found)"
    note pre = search_prefix[OF assms(1) sr[unfolded Inr] uids_def, simplified]
    obtain k where k: "uids = take k (sorted_list_of_set S)" using pre(1) to by (auto simp: S_def)
    show thesis
    proof (cases "found = []")
      case True
      then have "S = {}" using searchUIDs_empty[OF assms(1), of ?r w w1] sr Inr to by (simp add: S_def)
      with True show thesis using assms(2,3) False sr Inr empty
        by (auto simp: recover_def cursorOnly_def imapCursor_def)
    next
      case nonempty: False
      obtain r2 w2 where fd: "FetchInternalDates env uids w1 = (r2, w2)" by fastforce
      show thesis
      proof (cases r2)
        case (Inl e)
        then show thesis using assms(2,3) False sr Inr nonempty fd \<open>r1 = Inr found\<close> failed
          by (auto simp: recover_def imapFailed_def imapCursor_def uids_def Let_def)
      next
        case dates: (Inr dates)
        from assms(2) False sr \<open>r1 = Inr found\<close> nonempty fd dates
        obtain ie he h where dl: "deliver cfg env handle p a c seq (filter (\<lambda>u. \<not> alreadyRead r dates u) uids)
           (\<lambda>u. if u \<in> set uids \<and> alreadyRead r dates u then dates u else None) w2 = Some ((ie, he), h, seq', w')"
          and res: "res = (if ie \<noteq> None \<or> he \<noteq> None
             then \<lparr>sr_cursor = imapCursor (advanceConfirmed c uids h), sr_more = False,
                   sr_imapErr = ie, sr_handlerErr = he\<rparr>
             else if \<not> int (length found) > sc_MaxMessagesPerPoll cfg
             then cursorOnly (finishRecovery (advanceConfirmed c uids h) r)
             else \<lparr>sr_cursor = imapCursor (advanceConfirmed c uids h), sr_more = True,
                   sr_imapErr = None, sr_handlerErr = None\<rparr>)"
          by (auto simp: recover_def Let_def uids_def[symmetric] split: option.splits)
        have "sr_imapErr res = ie" "sr_handlerErr res = he"
          using res by (auto simp: cursorOnly_def split: if_splits)
        moreover have "c' = advanceConfirmed c uids h \<or> c' = finishRecovery (advanceConfirmed c uids h) r \<and>
            uids = sorted_list_of_set S \<and> ie = None \<and> he = None"
          using res assms(3) pre(2) to by (auto simp: imapCursor_def cursorOnly_def S_def split: if_splits)
        ultimately show thesis
          using delivered[OF k, of w1 dates w2 h] fd dates dl ticks_trans[OF FetchInternalDates_ticks[OF fd] searchUIDs_ticks[OF sr]]
          by simp
      qed
    qed
  qed
qed

context confirming_handler
begin

text \<open>
  A recovery passes no message that may be unread: whatever is not strictly older than the
  checkpoint is finished once the position is beyond it.
\<close>

lemma recover_no_skip:
  assumes "search_contract zn env msgs" and "fetch_contract env (sc_MaxMessageSize cfg) msgs" and "uids_ok msgs"
    and "dates_contract env msgs" and zones: "zones_within_a_day zn" "rec_Since r + 86400 * second \<le> rec_Checkpoint r"
    and "recover cfg env handle p a seq c r w = Some (res, seq', w')" and "sr_cursor res = imapCursor c'"
    and u: "cur_LastUID c < u" "u \<le> cur_LastUID c'" "u \<le> rec_ToUID r" "msgs u = Some m"
      "rec_Checkpoint r \<le> im_InternalDate m" and inv: "inv w"
  shows "done_at (message_of p a c m) w'"
proof -
  let ?S = "{u \<in> matching zn msgs (rec_Since r). cur_LastUID c < u \<and> u \<le> rec_ToUID r}"
  have "zn_since zn (rec_Since r) - zn_message zn u \<le> 86400 * second" using zones(1) by (simp add: zones_within_a_day_def)
  then have "rec_Since r + zn_since zn (rec_Since r) \<le> im_InternalDate m + zn_message zn u" using zones(2) u(5) by simp
  then have "day_of (rec_Since r + zn_since zn (rec_Since r)) \<le> day_of (im_InternalDate m + zn_message zn u)"
    by (simp add: day_of_def zdiv_mono1)
  then have S: "u \<in> ?S" using u by (auto simp: matching_def since_matches_def)
  from assms(1,7,8) show ?thesis
  proof (cases rule: recover_cases)
    case passed
    with u show ?thesis by auto
  next
    case failed
    with u show ?thesis by simp
  next
    case empty
    with S show ?thesis by auto
  next
    case (delivered uids k dates h w1 w2)
    let ?h0 = "\<lambda>u. if u \<in> set uids \<and> alreadyRead r dates u then dates u else None"
    let ?B = "{u \<in> set uids. alreadyRead r dates u}"
    have gt: "\<forall>u\<in>?S. cur_LastUID c < u" by simp
    have unread: "\<not> alreadyRead r dates u"
      using FetchInternalDates_contract[OF assms(4) delivered(2) _ u(4)] u(5)
      by (auto simp: alreadyRead_def split: option.splits)
    have "confirmed_ok msgs ?B p a c {} ?h0 w2"
      using inv delivered(5) inv_ticks by (auto simp: confirmed_ok_def split: if_splits)
    note ok = deliver_ok[OF assms(2,3) delivered(3) this]
    have "u \<in> dom h"
    proof (cases "c' = advanceConfirmed c uids h")
      case True
      then show ?thesis using advance_covers[OF delivered(1) gt u(1) _ S] u(2) by simp
    next
      case False
      with delivered(4) have "uids = sorted_list_of_set ?S" "sr_imapErr res = None" "sr_handlerErr res = None" by auto
      with ok S unread u(4) show ?thesis by auto
    qed
    with ok unread u(4) assms(3) show ?thesis by (intro confirmed_done[of msgs ?B _ _ _ h w' u m]) auto
  qed
qed

end

section \<open>Returning\<close>

lemma case_prod_total: "(\<And>x y. f x y \<noteq> None) \<Longrightarrow> (case p of (x, y) \<Rightarrow> f x y) \<noteq> None"
  by (cases p) simp

lemma case_sum_total: "(\<And>x. f x \<noteq> None) \<Longrightarrow> (\<And>y. g y \<noteq> None) \<Longrightarrow> (case s of Inl x \<Rightarrow> f x | Inr y \<Rightarrow> g y) \<noteq> None"
  by (cases s) simp_all

lemma case_option_total: "c \<noteq> None \<Longrightarrow> (\<And>y. g y \<noteq> None) \<Longrightarrow> (case s of None \<Rightarrow> c | Some y \<Rightarrow> g y) \<noteq> None"
  by (cases s) simp_all

lemma case_Some_total: "s \<noteq> None \<Longrightarrow> (\<And>y. g y \<noteq> None) \<Longrightarrow> (case s of None \<Rightarrow> None | Some y \<Rightarrow> g y) \<noteq> None"
  by (cases s) simp_all

lemma if_total: "x \<noteq> None \<Longrightarrow> y \<noteq> None \<Longrightarrow> (if b then x else y) \<noteq> None"
  by simp

lemma let_total: "(\<And>x. f x \<noteq> None) \<Longrightarrow> (let x = e in f x) \<noteq> None"
  by (simp add: Let_def)

lemma searchWindows_returns:
  assumes "\<And>n from to since. \<exists>xs. ic_UidSearch (env n) from to since = Inr xs" and "\<And>n. \<not> w_cancel w n"
  shows "\<exists>uids w'. searchWindows env to since limit start all w = (Inr uids, w')"
  using assms
proof (induction env to since limit start all w rule: searchWindows.induct)
  case (1 env to since limit start all w)
  obtain found where found: "SearchUIDsRange env start (windowEnd start to) since w = (Inr found, tick w)"
    using "1.prems"(1)[of "w_step w" start "windowEnd start to" since] by (auto simp: SearchUIDsRange_def)
  have ctx: "ctxErr (tick w) = (Inr False, tick (tick w))" using "1.prems"(2) by (simp add: ctxErr_def tick_def)
  show ?case
  proof (cases "start \<le> to \<and> \<not> (limit > 0 \<and> int (length (all @ found)) > limit) \<and> windowEnd start to \<noteq> - 1")
    case False
    with found show ?thesis by (auto simp: searchWindows.simps[of env to since limit start] Let_def)
  next
    case True
    then have go: "start \<le> to" "\<not> (limit > 0 \<and> int (length (all @ found)) > limit)" "windowEnd start to \<noteq> - 1" by auto
    have "\<exists>uids w'. searchWindows env to since limit (windowEnd start to + 1) (all @ found) (tick (tick w)) = (Inr uids, w')"
      using "1.prems" by (intro "1.IH"[OF go(1) refl found[symmetric] refl refl go(2,3) ctx[symmetric] refl])
        (auto simp: tick_def)
    with go found ctx show ?thesis by (auto simp: searchWindows.simps[of env to since limit start] Let_def)
  qed
qed

lemma searchUIDs_returns:
  assumes "\<And>n from to since. \<exists>xs. ic_UidSearch (env n) from to since = Inr xs" and "\<And>n. \<not> w_cancel w n"
  shows "\<exists>uids w'. searchUIDs env r w = (Inr uids, w')"
proof -
  obtain xs where "ic_UidSearch (env (w_step w)) (se_after r + 1) 0 (se_since r) = Inr xs" using assms(1) by blast
  then show ?thesis using searchWindows_returns[OF assms]
    by (auto simp: searchUIDs_def Let_def SearchUIDsRange_def)
qed

lemma deliver_returns:
  assumes "sc_FetchBatchSize cfg > 0"
  shows "\<exists>r. deliver cfg env handle p a c seq uids h w = Some r"
proof (induction "length uids" arbitrary: uids seq h w rule: less_induct)
  case less
  show ?case
  proof (cases "uids = []")
    case False
    let ?n = "nat (sc_FetchBatchSize cfg)"
    obtain err seq1 e1 h1 w1 where fr: "FetchRaw env (sc_MaxMessageSize cfg) seq (take ?n uids)
        (deliverOne handle p a c) ((None, h), w) = (err, seq1, (e1, h1), w1)"
      by (metis surj_pair)
    have "\<exists>r. deliver cfg env handle p a c seq1 (drop ?n uids) h1 w1 = Some r"
      using False assms by (intro less.hyps) simp
    with fr False assms show ?thesis by (auto simp: deliver.simps[of cfg env handle p a c seq uids])
  qed (simp add: deliver.simps)
qed

lemma recover_returns:
  assumes "sc_FetchBatchSize cfg > 0"
  shows "recover cfg env handle p a seq c r w \<noteq> None"
proof -
  have "deliver cfg env handle p a c seq uids h w \<noteq> None" for seq uids h w
    using deliver_returns[OF assms, of env handle p a c seq uids h w] by auto
  then show ?thesis unfolding recover_def
    by (intro case_prod_total case_sum_total case_Some_total if_total let_total option.distinct(2))
qed

lemma pollNew_returns:
  assumes "sc_FetchBatchSize cfg > 0"
  shows "pollNew cfg env handle p a seq mb c w \<noteq> None"
proof -
  have "deliver cfg env handle p a c seq uids h w \<noteq> None" for seq uids h w
    using deliver_returns[OF assms, of env handle p a c seq uids h w] by auto
  then show ?thesis unfolding pollNew_def
    by (intro case_prod_total case_sum_total case_Some_total if_total let_total option.distinct(2))
qed

section \<open>Properties\<close>

text \<open>
  C25: The windowed search of a bounded range finds exactly what a single search of the whole
  range would find: when the server answers and the poll is not cancelled, it returns the
  matching UIDs in ascending order, all of them or, past the limit, the first limit + 1.
  The window arithmetic on 32-bit UIDs never wraps around.
\<close>

theorem search_finds_every_match:
  assumes "search_contract zn env msgs"
    and "\<forall>n from to since. \<exists>xs. ic_UidSearch (env n) from to since = Inr xs" and "\<forall>n. \<not> w_cancel w n"
  shows "\<exists>w'. searchUIDs env r w = (Inr
    (let found = sorted_list_of_set
           {u \<in> matching zn msgs (se_since r). se_after r < u \<and> (se_to r = 0 \<or> u \<le> se_to r)}
     in if se_limit r > 0 \<and> se_to r \<noteq> 0 then take (nat (se_limit r + 1)) found else found), w')"
proof -
  obtain uids w' where run: "searchUIDs env r w = (Inr uids, w')"
    using searchUIDs_returns[of env w] assms(2,3) by blast
  with searchUIDs_contract[OF assms(1) run] show ?thesis by simp
qed

lemma box_search_contract:
  assumes "distinct (map fst box)"
  shows "search_contract zn (\<lambda>_. box_client zn v nx box) (box_messages maxSize box)"
  unfolding search_contract_def
proof (intro allI impI)
  fix n :: nat and "from" to since xs u
  assume s: "ic_UidSearch (box_client zn v nx box) from to since = Inr xs" and r: "from \<le> u \<and> (to = 0 \<or> u \<le> to)"
  have "u \<in> set xs \<longleftrightarrow> (\<exists>date raw. (u, date, raw) \<in> set box \<and> since_matches zn since u date)"
    using s r by (force simp: box_client_def)
  also have "\<dots> \<longleftrightarrow> u \<in> matching zn (box_messages maxSize box) since"
    using assms by (fastforce simp: matching_def box_messages_def split: option.splits dest: map_of_SomeD)
  finally show "u \<in> set xs \<longleftrightarrow> u \<in> matching zn (box_messages maxSize box) since" .
qed

theorem search_finds_every_match_witness:
  "\<exists>w'. searchUIDs (\<lambda>_. box_client sample_zones 1 10 sample_box) \<lparr>se_after = 5, se_to = 9, se_since = 0, se_limit = 1\<rparr>
     (sample_world empty_db) = (Inr [7, 9], w')"
proof -
  let ?S = "{u \<in> matching sample_zones (box_messages 100 sample_box) 0. 5 < u \<and> (9 = (0 :: uid) \<or> u \<le> 9)}"
  have "?S = {7, 9}"
    by (auto simp: matching_def box_messages_def sample_box_def since_matches_def split: option.splits if_splits)
  then have S: "sorted_list_of_set ?S = [7, 9]" by (simp only:) simp
  have "distinct (map fst sample_box)" by (simp add: sample_box_def)
  from box_search_contract[OF this, of sample_zones 1 10 100]
  have contract: "search_contract sample_zones (\<lambda>_. box_client sample_zones 1 10 sample_box) (box_messages 100 sample_box)" .
  have answers: "\<forall>(n :: nat) from to since. \<exists>xs. ic_UidSearch (box_client sample_zones 1 10 sample_box) from to since = Inr xs"
    by (simp add: box_client_def)
  have running: "\<forall>n. \<not> w_cancel (sample_world empty_db) n" by (simp add: sample_world_def)
  from search_finds_every_match[OF contract answers running,
      of "\<lparr>se_after = 5, se_to = 9, se_since = 0, se_limit = 1\<rparr>"]
  show ?thesis unfolding searchRange.simps Let_def S by simp
qed

lemma sync_ends:
  assumes "sc_FetchBatchSize cfg > 0"
  shows "sync cfg env handle profile a seq stored w \<noteq> None"
  unfolding sync_def
  by (intro case_prod_total case_sum_total case_option_total if_total let_total
    recover_returns pollNew_returns assms option.distinct(2))

text \<open>
  C26: Reading a mailbox always comes to an end when the configured batch size is positive,
  whatever the server, the handler and the context do.
\<close>

theorem sync_returns:
  assumes "sc_FetchBatchSize cfg > 0"
  shows "\<exists>res seq' w'. sync cfg env handle profile a seq stored w = Some (res, seq', w')"
  using sync_ends[OF assms, of env handle profile a seq stored w] by auto

theorem sync_returns_witness:
  "\<exists>res seq' w'. sync \<lparr>sc_MaxMessagesPerPoll = 10, sc_FetchBatchSize = 2, sc_MaxMessageSize = 100\<rparr>
     (\<lambda>_. box_client sample_zones 1 10 sample_box) (\<lambda>m. returnM ()) zero_EmailProfile
     \<lparr>as_ProfileID = 1, as_DomainID = 1, as_OwnerInstanceID = ''a'', as_Generation = 1\<rparr> False None
     (sample_world empty_db) = Some (res, seq', w')"
  by (rule sync_returns) simp

end
