(* ===== verification/Go_Strings.thy ===== *)
theory Go_Strings
  imports Email_Prelude
begin

text \<open>
  The parts of Go's string handling the service relies on, on strings of bytes: splitting
  into UTF-8 runes as \<^verbatim>\<open>range\<close> and \<^verbatim>\<open>utf8.DecodeRune\<close> do, \<^verbatim>\<open>strings.ToValidUTF8\<close>,
  \<^verbatim>\<open>utf8.RuneStart\<close>, \<^verbatim>\<open>strconv.FormatInt\<close>, and the strings of \<^verbatim>\<open>encoding/json\<close> with
  \<^verbatim>\<open>SetEscapeHTML(false)\<close>.
\<close>

section \<open>Runes\<close>

abbreviation byte :: "char \<Rightarrow> nat" where
  "byte c \<equiv> of_char c"

definition cont :: "char \<Rightarrow> bool" where
  "cont c \<longleftrightarrow> 128 \<le> byte c \<and> byte c \<le> 191"

text \<open>\<^verbatim>\<open>utf8.RuneStart\<close>.\<close>

definition RuneStart :: "char \<Rightarrow> bool" where
  "RuneStart c \<longleftrightarrow> \<not> cont c"

text \<open>The number of bytes a rune that starts with this byte has; zero when none does.\<close>

definition width :: "char \<Rightarrow> nat" where
  "width c = (let x = byte c in if x < 128 then 1 else if 194 \<le> x \<and> x \<le> 223 then 2
     else if 224 \<le> x \<and> x \<le> 239 then 3 else if 240 \<le> x \<and> x \<le> 244 then 4 else 0)"

text \<open>The bytes that may follow the first one of a longer rune: no overlong form, no surrogate.\<close>

definition second_ok :: "char \<Rightarrow> char \<Rightarrow> bool" where
  "second_ok a b \<longleftrightarrow> cont b \<and> (byte a = 224 \<longrightarrow> 160 \<le> byte b) \<and> (byte a = 237 \<longrightarrow> byte b \<le> 159) \<and>
     (byte a = 240 \<longrightarrow> 144 \<le> byte b) \<and> (byte a = 244 \<longrightarrow> byte b \<le> 143)"

fun is_rune :: "string \<Rightarrow> bool" where
  "is_rune [a] \<longleftrightarrow> width a = 1"
| "is_rune [a, b] \<longleftrightarrow> width a = 2 \<and> second_ok a b"
| "is_rune [a, b, c] \<longleftrightarrow> width a = 3 \<and> second_ok a b \<and> cont c"
| "is_rune [a, b, c, d] \<longleftrightarrow> width a = 4 \<and> second_ok a b \<and> cont c \<and> cont d"
| "is_rune _ \<longleftrightarrow> False"

lemma is_rune_width: "is_rune c \<Longrightarrow> c \<noteq> [] \<and> length c = width (hd c)"
  by (cases c rule: is_rune.cases) auto

lemma is_rune_start: "is_rune (a # cs) \<Longrightarrow> RuneStart a \<and> list_all cont cs"
proof (cases "a # cs" rule: is_rune.cases)
qed (auto simp: RuneStart_def cont_def second_ok_def width_def Let_def split: if_splits)

text \<open>
  The runes of a string. A byte that starts no valid rune is an element of its own, which is
  then not a rune: Go decodes it as \<^verbatim>\<open>utf8.RuneError\<close> of width one.
\<close>

definition runeLen :: "string \<Rightarrow> nat" where
  "runeLen s = (case s of [] \<Rightarrow> 0 | a # _ \<Rightarrow> if is_rune (take (width a) s) then width a else 1)"

lemma runeLen_pos: "s \<noteq> [] \<Longrightarrow> 0 < runeLen s"
  by (cases s) (auto simp: runeLen_def is_rune_width dest: is_rune_width)

function runes :: "string \<Rightarrow> string list" where
  "runes s = (if s = [] then [] else take (runeLen s) s # runes (drop (runeLen s) s))"
  by pat_completeness auto
termination
  by (relation "measure length") (use runeLen_pos in \<open>auto simp: diff_less\<close>)

declare runes.simps [simp del]

lemma runes_Nil [simp]: "runes [] = []"
  by (simp add: runes.simps)

lemma concat_runes [simp]: "concat (runes s) = s"
  by (induction s rule: runes.induct) (subst runes.simps, simp)

lemma runeLen_append:
  assumes "is_rune c"
  shows "runeLen (c @ s) = length c"
proof -
  obtain a as where c: "c = a # as" and w: "width a = length c" using is_rune_width[OF assms] by (cases c) auto
  have "take (width a) (c @ s) = c" by (simp add: w)
  with assms w c show ?thesis by (simp add: runeLen_def)
qed

lemma runes_append: "is_rune c \<Longrightarrow> runes (c @ s) = c # runes s"
  using is_rune_width[of c] by (subst runes.simps) (simp add: runeLen_append)

lemma runes_concat: "list_all is_rune cs \<Longrightarrow> runes (concat cs @ s) = cs @ runes s"
  by (induction cs) (simp_all add: runes_append)

definition ValidString :: "string \<Rightarrow> bool" where
  "ValidString s \<longleftrightarrow> list_all is_rune (runes s)"

lemma ValidString_concat: "list_all is_rune cs \<Longrightarrow> ValidString (concat cs)"
  using runes_concat[of cs "[]"] by (simp add: ValidString_def)

lemma ValidString_append: "ValidString a \<Longrightarrow> ValidString b \<Longrightarrow> ValidString (a @ b)"
  using runes_concat[of "runes a" b] by (simp add: ValidString_def)

lemma runes_ascii: "\<forall>c\<in>set s. byte c < 128 \<Longrightarrow> runes s = map (\<lambda>c. [c]) s"
proof (induction s)
  case (Cons a s)
  then have "is_rune [a]" by (simp add: width_def)
  from runes_append[OF this, of s] Cons show ?case by simp
qed simp

section \<open>Repairing and cutting\<close>

definition RuneError :: string where
  "RuneError = [CHR 0xEF, CHR 0xBF, CHR 0xBD]"

lemma is_rune_RuneError: "is_rune RuneError"
  by (simp add: RuneError_def width_def second_ok_def cont_def)

text \<open>\<^verbatim>\<open>strings.ToValidUTF8(s, \<dots>)\<close> with U+FFFD: a run of invalid bytes becomes one replacement.\<close>

fun toValid :: "bool \<Rightarrow> string list \<Rightarrow> string list" where
  "toValid bad [] = []"
| "toValid bad (c # cs) =
     (if is_rune c then c # toValid False cs
      else if bad then toValid True cs else RuneError # toValid True cs)"

definition ToValidUTF8 :: "string \<Rightarrow> string" where
  "ToValidUTF8 s = concat (toValid False (runes s))"

lemma toValid_runes: "list_all is_rune (toValid bad cs)"
  by (induction bad cs rule: toValid.induct) (simp_all add: is_rune_RuneError)

lemma toValid_id: "list_all is_rune cs \<Longrightarrow> toValid bad cs = cs"
  by (induction cs arbitrary: bad) simp_all

lemma ToValidUTF8_valid: "ValidString (ToValidUTF8 s)"
  unfolding ToValidUTF8_def by (rule ValidString_concat[OF toValid_runes])

lemma ToValidUTF8_id: "ValidString s \<Longrightarrow> ToValidUTF8 s = s"
  by (simp add: ToValidUTF8_def ValidString_def toValid_id)

text \<open>The cut of a string of more than \<open>n\<close> bytes at the last rune boundary up to \<open>n\<close>.\<close>

fun cutBack :: "string \<Rightarrow> nat \<Rightarrow> nat" where
  "cutBack s 0 = 0"
| "cutBack s (Suc n) = (if RuneStart (s ! Suc n) then Suc n else cutBack s n)"

lemma cutBack_le: "cutBack s n \<le> n"
  by (induction n) auto

lemma cutBack_inside: "\<forall>i\<in>{1..n}. \<not> RuneStart (s ! i) \<Longrightarrow> cutBack s n = 0"
  by (induction n) auto

lemma cutBack_shift: "RuneStart (s ! 0) \<Longrightarrow> cutBack (c @ s) (length c + n) = length c + cutBack s n"
proof (induction n)
  case 0
  then show ?case by (cases "length c") (auto simp: nth_append)
next
  case (Suc n)
  then show ?case by (simp add: nth_append)
qed

lemma cutBack_boundary:
  assumes "list_all is_rune cs" and "n < length (concat cs)"
  shows "\<exists>k. take (cutBack (concat cs) n) (concat cs) = concat (take k cs)"
  using assms
proof (induction cs arbitrary: n)
  case (Cons c cs)
  then obtain a as where c: "c = a # as" and rune: "RuneStart a" "list_all cont as"
    using is_rune_width[of c] is_rune_start by (cases c) auto
  show ?case
  proof (cases "n < length c")
    case True
    have "\<not> RuneStart (concat (c # cs) ! i)" if "i \<in> {1..n}" for i
    proof -
      have "concat (c # cs) ! i = as ! (i - 1)" "i - 1 < length as"
        using that True by (auto simp: c nth_append nth_Cons')
      then show ?thesis using rune(2) by (auto simp: RuneStart_def list_all_length)
    qed
    then have "cutBack (concat (c # cs)) n = 0" by (intro cutBack_inside) simp
    then show ?thesis by (intro exI[of _ 0]) simp
  next
    case False
    then obtain m where n: "n = length c + m" by (metis le_Suc_ex not_less)
    have m: "m < length (concat cs)" using Cons.prems(2) n by simp
    then obtain b bs where "cs = b # bs" by (cases cs) auto
    with Cons.prems(1) have "RuneStart (concat cs ! 0)"
      using is_rune_width[of b] is_rune_start by (cases b) auto
    from cutBack_shift[OF this, of c m] have cut: "cutBack (concat (c # cs)) n = length c + cutBack (concat cs) m" by (simp add: n)
    from Cons.IH[of m] Cons.prems(1) m obtain k where "take (cutBack (concat cs) m) (concat cs) = concat (take k cs)" by auto
    then show ?thesis unfolding cut by (intro exI[of _ "Suc k"]) simp
  qed
qed simp

lemma cut_valid:
  assumes "ValidString s" and "n < length s"
  shows "ValidString (take (cutBack s n) s)"
proof -
  from assms cutBack_boundary[of "runes s" n] obtain k where
    "take (cutBack s n) s = concat (take k (runes s))" by (auto simp: ValidString_def)
  moreover have "list_all is_rune (take k (runes s))"
    using assms(1) by (auto simp: ValidString_def list_all_iff dest: in_set_takeD)
  ultimately show ?thesis using ValidString_concat by metis
qed

section \<open>Numbers\<close>

definition digit :: "nat \<Rightarrow> char" where
  "digit n = char_of (if n < 10 then 48 + n else 87 + n)"

fun decimal :: "nat \<Rightarrow> string" where
  "decimal n = (if n < 10 then [digit n] else decimal (n div 10) @ [digit (n mod 10)])"

declare decimal.simps [simp del]

text \<open>\<^verbatim>\<open>strconv.FormatInt(i, 10)\<close>.\<close>

definition FormatInt :: "int \<Rightarrow> string" where
  "FormatInt i = (if i < 0 then CHR ''-'' # decimal (nat (- i)) else decimal (nat i))"

text \<open>The last \<open>k\<close> digits of a number in a base of at most sixteen.\<close>

fun padded :: "nat \<Rightarrow> nat \<Rightarrow> nat \<Rightarrow> string" where
  "padded base 0 n = []"
| "padded base (Suc k) n = padded base k (n div base) @ [digit (n mod base)]"

lemma length_padded [simp]: "length (padded base k n) = k"
  by (induction k arbitrary: n) simp_all

lemma length_decimal: "n < 10 ^ Suc k \<Longrightarrow> length (decimal n) \<le> Suc k"
proof (induction k arbitrary: n)
  case (Suc k)
  then have "n div 10 < 10 ^ Suc k" by simp
  from Suc.IH[OF this] show ?case by (simp add: decimal.simps[of n])
qed (simp add: decimal.simps)

lemma length_decimal_mono: "m \<le> n \<Longrightarrow> length (decimal m) \<le> length (decimal n)"
proof (induction n arbitrary: m rule: decimal.induct)
  case (1 n)
  show ?case
  proof (cases "n < 10 \<or> m < 10")
    case True
    with "1.prems" show ?thesis by (auto simp: decimal.simps[of m] decimal.simps[of n] Suc_le_eq)
  next
    case False
    with "1.IH"[of "m div 10"] "1.prems" show ?thesis
      by (simp add: decimal.simps[of m] decimal.simps[of n] div_le_mono)
  qed
qed

lemma digit_inj: "a < 10 \<Longrightarrow> b < 10 \<Longrightarrow> digit a = digit b \<Longrightarrow> a = b"
  by (auto simp: digit_def dest!: arg_cong[of "char_of _" _ "of_char :: char \<Rightarrow> nat"])

lemma decimal_not_Nil [simp]: "decimal n \<noteq> []" "[] \<noteq> decimal n"
  by (simp_all add: decimal.simps)

lemma decimal_inj: "decimal a = decimal b \<Longrightarrow> a = b"
proof (induction a arbitrary: b rule: decimal.induct)
  case (1 a)
  show ?case
  proof (cases "a < 10")
    case True
    with "1.prems" have "b < 10" by (auto simp: decimal.simps[of a] decimal.simps[of b] decimal_not_Nil split: if_splits)
    with True "1.prems" show ?thesis by (auto simp: decimal.simps[of a] decimal.simps[of b] intro: digit_inj)
  next
    case False
    with "1.prems" have b: "\<not> b < 10" by (auto simp: decimal.simps[of a] decimal.simps[of b] decimal_not_Nil split: if_splits)
    with False "1.prems" have "decimal (a div 10) = decimal (b div 10)" "digit (a mod 10) = digit (b mod 10)"
      by (auto simp: decimal.simps[of a] decimal.simps[of b])
    with "1.IH"[OF False, of "b div 10"] digit_inj[of "a mod 10" "b mod 10"]
    have "a div 10 = b div 10" "a mod 10 = b mod 10" by simp_all
    then show ?thesis by (metis div_mult_mod_eq)
  qed
qed

lemma decimal_digits: "\<forall>c\<in>set (decimal n). 48 \<le> byte c \<and> byte c \<le> 57"
  by (induction n rule: decimal.induct) (subst decimal.simps, auto simp: digit_def)

lemma FormatInt_inj:
  assumes "FormatInt a = FormatInt b"
  shows "a = b"
proof -
  have "hd (decimal n) \<noteq> CHR ''-''" for n
    using decimal_digits[of n] decimal_not_Nil[of n] by (cases "decimal n") auto
  then have "decimal n \<noteq> CHR ''-'' # x" for n x by (metis list.sel(1))
  with assms show ?thesis
    by (auto simp: FormatInt_def split: if_splits dest!: decimal_inj) (metis)+
qed

lemma FormatInt_chars: "c \<in> set (FormatInt i) \<Longrightarrow> c = CHR ''-'' \<or> (48 \<le> byte c \<and> byte c \<le> 57)"
  using decimal_digits by (auto simp: FormatInt_def split: if_splits)

section \<open>JSON strings\<close>

definition json_escape :: "string \<Rightarrow> string" where
  "json_escape r =
     (if \<not> is_rune r then [CHR 92] @ ''ufffd''
      else case r of
        [c] \<Rightarrow>
          (if c = CHR 34 \<or> c = CHR 92 then [CHR 92, c]
           else if c = CHR 8 then [CHR 92, CHR ''b''] else if c = CHR 12 then [CHR 92, CHR ''f'']
           else if c = CHR 10 then [CHR 92, CHR ''n''] else if c = CHR 13 then [CHR 92, CHR ''r'']
           else if c = CHR 9 then [CHR 92, CHR ''t'']
           else if byte c < 32 then [CHR 92] @ ''u'' @ padded 16 4 (byte c) else [c])
      | _ \<Rightarrow> if r = [CHR 0xE2, CHR 0x80, CHR 0xA8] then [CHR 92] @ ''u2028''
             else if r = [CHR 0xE2, CHR 0x80, CHR 0xA9] then [CHR 92] @ ''u2029'' else r)"

definition json_string :: "string \<Rightarrow> string" where
  "json_string s = [CHR 34] @ concat (map json_escape (runes s)) @ [CHR 34]"

text \<open>A string JSON writes in at most twice its bytes: no invalid byte, no control but tab and line breaks.\<close>

definition plain :: "string \<Rightarrow> bool" where
  "plain s \<longleftrightarrow> ValidString s \<and> (\<forall>c\<in>set s. 32 \<le> byte c \<or> c = CHR 9 \<or> c = CHR 10 \<or> c = CHR 13)"

lemma json_escape_le:
  assumes "is_rune r" and "\<forall>c\<in>set r. 32 \<le> byte c \<or> c = CHR 9 \<or> c = CHR 10 \<or> c = CHR 13"
  shows "length (json_escape r) \<le> 2 * length r"
  using assms by (cases r rule: is_rune.cases) (auto simp: json_escape_def)

lemma length_concat_map_le:
  assumes "\<forall>x\<in>set xs. length (f x) \<le> k * length (x :: 'a list)"
  shows "length (concat (map f xs)) \<le> k * length (concat xs)"
  using assms by (induction xs) (auto simp: algebra_simps add_mono)

lemma json_string_le:
  assumes "plain s"
  shows "length (json_string s) \<le> 2 * length s + 2"
proof -
  have "length (json_escape r) \<le> 2 * length r" if r: "r \<in> set (runes s)" for r
  proof (rule json_escape_le)
    show "is_rune r" using assms r by (auto simp: plain_def ValidString_def list_all_iff)
    have "set r \<subseteq> set s" using r concat_runes[of s] by (metis UN_upper set_concat)
    then show "\<forall>c\<in>set r. 32 \<le> byte c \<or> c = CHR 9 \<or> c = CHR 10 \<or> c = CHR 13"
      using assms by (auto simp: plain_def)
  qed
  with length_concat_map_le[of "runes s" json_escape 2] show ?thesis by (simp add: json_string_def)
qed

lemma json_string_quotes: "length (json_string (replicate n (CHR 34))) = 2 * n + 2"
proof -
  have "runes (replicate n (CHR 34)) = replicate n [CHR 34]"
    using runes_ascii[of "replicate n (CHR 34)"] by (auto simp: map_replicate)
  then show ?thesis by (simp add: json_string_def json_escape_def width_def map_replicate sum_list_replicate length_concat)
qed

end
