(* ===== verification/Inbound_Event.thy ===== *)
theory Inbound_Event
  imports Email_Model Go_Strings
begin

text \<open>
  The event that starts Flow for a new email: \<^verbatim>\<open>internal/event/inbound_message.go\<close> and
  \<^verbatim>\<open>internal/event/topology.go\<close>. The snapshot of a message is cleaned and cut to the configured
  limits, rendered as JSON and stored as an outbox row. \<^verbatim>\<open>encoding/json\<close>, \<^verbatim>\<open>time.Time\<close> and
  \<^verbatim>\<open>uuid.UUID\<close> are modelled as far as the wire format needs them; a time whose year JSON cannot
  carry makes the encoder fail, as in Go.
\<close>

section \<open>Contract\<close>

definition TypeInboundMessage :: string where "TypeInboundMessage = ''email.message.inbound''"
definition InboundMessageSchema :: int where "InboundMessageSchema = 1"
definition InboundMessageRoutingKey :: string where "InboundMessageRoutingKey = ''email.message.inbound.v1''"
definition maxAddressSize :: int where "maxAddressSize = 320"
definition maxDisplayNameSize :: int where "maxDisplayNameSize = 256"
definition maxMimeTypeSize :: int where "maxMimeTypeSize = 255"
definition attachmentChannel :: string where "attachmentChannel = ''mail''"
definition Exchange :: string where "Exchange = ''email.events''"

definition maxBodyTextSizeLimit :: int where "maxBodyTextSizeLimit = 8388608"
definition maxFieldSizeLimit :: int where "maxFieldSizeLimit = 65536"
definition maxListLimit :: int where "maxListLimit = 10000"
definition maxPayloadSizeLimit :: int where "maxPayloadSizeLimit = 16777216"

record Limits =
  li_MaxBodyTextSize :: int
  li_MaxAddressesPerType :: int
  li_MaxAttachments :: int
  li_MaxFieldSize :: int
  li_MaxPayloadSize :: int

record Address =
  ad_Address :: string
  ad_Name :: string

record Attachment =
  at_ID :: int
  at_Name :: string
  at_Size :: int
  at_Mime :: string
  at_ViewName :: "string option"
  at_Channel :: string

record InboundMessageSnapshot =
  sn_InternetMessageID :: string
  sn_InReplyTo :: string
  sn_Subject :: string
  sn_MessageKind :: EmailKind
  sn_ThreadKind :: EmailThreadKind
  sn_ContactID :: "int option"
  sn_ReceivedAt :: time
  sn_From :: "Address list"
  sn_Sender :: "Address list"
  sn_ReplyTo :: "Address list"
  sn_To :: "Address list"
  sn_Cc :: "Address list"
  sn_BodyText :: string
  sn_Attachments :: "Attachment list"
  sn_BodyTextTruncated :: bool
  sn_FromTruncated :: bool
  sn_SenderTruncated :: bool
  sn_ReplyToTruncated :: bool
  sn_ToTruncated :: bool
  sn_CcTruncated :: bool
  sn_AttachmentsTruncated :: bool

record InboundMessage =
  ib_EventID :: uuid
  ib_EventType :: string
  ib_SchemaVersion :: int
  ib_OccurredAt :: time
  ib_DomainID :: int
  ib_ProfileID :: int
  ib_FlowID :: "int option"
  ib_ThreadID :: int
  ib_MessageID :: int
  ib_Snapshot :: InboundMessageSnapshot

record InboundMessageSource =
  is_OccurredAt :: time
  is_FlowID :: "int option"
  is_Thread :: EmailThread
  is_Message :: EmailMessage
  is_Recipients :: "EmailRecipient list"
  is_Attachments :: "EmailMessageAttachment list"

section \<open>Cleaning\<close>

text \<open>What \<^verbatim>\<open>strings.Map\<close> makes of one rune.\<close>

definition cleanRune :: "bool \<Rightarrow> string \<Rightarrow> string" where
  "cleanRune singleLine r = (case r of
     [c] \<Rightarrow> if 32 \<le> byte c \<or> c = CHR 9 then r
            else if \<not> singleLine \<and> (c = CHR 10 \<or> c = CHR 13) then r
            else if singleLine then '' '' else []
   | _ \<Rightarrow> r)"

definition clean :: "string \<Rightarrow> int \<Rightarrow> bool \<Rightarrow> string \<times> bool" where
  "clean value maxSize singleLine =
     (let v = concat (map (cleanRune singleLine) (runes (ToValidUTF8 value)))
      in if int (length v) \<le> maxSize then (v, False)
         else (take (cutBack v (nat maxSize)) v, True))"

definition line :: "string \<Rightarrow> int \<Rightarrow> string \<times> bool" where
  "line value maxSize = clean value maxSize True"

definition field :: "string \<Rightarrow> int \<Rightarrow> string" where
  "field value maxSize = fst (line value maxSize)"

definition addresses :: "EmailRecipient list \<Rightarrow> EmailRecipientType \<Rightarrow> Limits \<Rightarrow> Address list \<times> bool" where
  "addresses recipients kind limits =
     (let sorted = sort_key er_Ordinal (filter (\<lambda>r. er_Type r = kind) recipients);
          over = int (length sorted) > li_MaxAddressesPerType limits;
          matched = (if over then take (nat (li_MaxAddressesPerType limits)) sorted else sorted)
      in (map (\<lambda>r. \<lparr>ad_Address = fst (line (er_Address r) maxAddressSize),
                    ad_Name = fst (line (er_DisplayName r) maxDisplayNameSize)\<rparr>) matched,
          over \<or> list_ex (\<lambda>r. snd (line (er_Address r) maxAddressSize) \<or>
                             snd (line (er_DisplayName r) maxDisplayNameSize)) matched))"

definition attachments :: "EmailMessageAttachment list \<Rightarrow> Limits \<Rightarrow> Attachment list \<times> bool" where
  "attachments parts limits =
     (let sorted = sort_key ma_Position (filter (\<lambda>p. ma_State p = EmailAttachmentStateStored \<and> ma_FileID p \<noteq> None
                     \<and> ma_Disposition p = EmailPartDispositionAttachment) parts);
          over = int (length sorted) > li_MaxAttachments limits;
          stored = (if over then take (nat (li_MaxAttachments limits)) sorted else sorted)
      in (map (\<lambda>p. \<lparr>at_ID = the (ma_FileID p), at_Name = fst (line (ma_FileName p) (li_MaxFieldSize limits)),
                    at_Size = ma_Size p, at_Mime = fst (line (ma_MimeType p) maxMimeTypeSize), at_ViewName = None,
                    at_Channel = attachmentChannel\<rparr>) stored,
          over \<or> list_ex (\<lambda>p. snd (line (ma_FileName p) (li_MaxFieldSize limits)) \<or>
                             snd (line (ma_MimeType p) maxMimeTypeSize)) stored))"

section \<open>Rendering\<close>

fun join :: "string \<Rightarrow> string list \<Rightarrow> string" where
  "join sep [] = []"
| "join sep [x] = x"
| "join sep (x # y # xs) = x @ sep @ join sep (y # xs)"

definition json_array :: "string list \<Rightarrow> string" where
  "json_array xs = ''['' @ join '','' xs @ '']''"

definition json_object :: "(string \<times> string) list \<Rightarrow> string" where
  "json_object fs = ''{'' @ join '','' (map (\<lambda>(k, v). [CHR 34] @ k @ [CHR 34, CHR '':''] @ v) fs) @ ''}''"

definition json_bool :: "bool \<Rightarrow> string" where
  "json_bool b = (if b then ''true'' else ''false'')"

definition json_id :: "int option \<Rightarrow> string" where
  "json_id i = (case i of None \<Rightarrow> ''null'' | Some v \<Rightarrow> FormatInt v)"

text \<open>The date of a day counted from 1 January of the year 1, in the Gregorian calendar.\<close>

definition civil :: "int \<Rightarrow> int \<times> int \<times> int" where
  "civil days =
     (let z = days + 306; era = z div 146097; doe = z mod 146097;
          yoe = (doe - doe div 1460 + doe div 36524 - doe div 146096) div 365;
          doy = doe - (365 * yoe + yoe div 4 - yoe div 100);
          mp = (5 * doy + 2) div 153; month = (if mp < 10 then mp + 3 else mp - 9)
      in (yoe + era * 400 + (if month \<le> 2 then 1 else 0), month, doy - (153 * mp + 2) div 5 + 1))"

text \<open>\<^verbatim>\<open>time.Time.MarshalJSON\<close> of a UTC time: RFC 3339 with trailing zeros of the fraction removed.\<close>

definition json_time :: "time \<Rightarrow> string option" where
  "json_time t =
     (let s = t div second; ns = t mod second; (y, m, d) = civil (s div 86400); sod = s mod 86400;
          fraction = rev (dropWhile (\<lambda>c. c = CHR ''0'') (rev (padded 10 9 (nat ns))))
      in if y < 0 \<or> 9999 < y then None
         else Some ([CHR 34] @ padded 10 4 (nat y) @ ''-'' @ padded 10 2 (nat m) @ ''-'' @ padded 10 2 (nat d) @ ''T'' @
           padded 10 2 (nat (sod div 3600)) @ '':'' @ padded 10 2 (nat (sod mod 3600 div 60)) @ '':'' @
           padded 10 2 (nat (sod mod 60)) @ (if fraction = [] then [] else ''.'' @ fraction) @ ''Z'' @ [CHR 34]))"

text \<open>\<^verbatim>\<open>uuid.UUID.String\<close>.\<close>

definition uuid_text :: "uuid \<Rightarrow> string" where
  "uuid_text u = (let h = padded 16 32 (unat u) in take 8 h @ ''-'' @ take 4 (drop 8 h) @ ''-'' @ take 4 (drop 12 h) @
     ''-'' @ take 4 (drop 16 h) @ ''-'' @ drop 20 h)"

definition kindText :: "EmailKind \<Rightarrow> string" where
  "kindText k = (case k of EmailKindRegular \<Rightarrow> ''regular'' | EmailKindAutoReply \<Rightarrow> ''auto_reply'' | EmailKindBounce \<Rightarrow> ''bounce'')"

definition threadKindText :: "EmailThreadKind \<Rightarrow> string" where
  "threadKindText k = (case k of EmailThreadKindRegular \<Rightarrow> ''regular'' | EmailThreadKindService \<Rightarrow> ''service'')"

definition encode_Address :: "Address \<Rightarrow> string" where
  "encode_Address a = json_object [(''address'', json_string (ad_Address a)), (''name'', json_string (ad_Name a))]"

definition encode_Attachment :: "Attachment \<Rightarrow> string" where
  "encode_Attachment a = json_object [(''id'', FormatInt (at_ID a)), (''name'', json_string (at_Name a)),
     (''size'', FormatInt (at_Size a)), (''mime'', json_string (at_Mime a)),
     (''view_name'', case at_ViewName a of None \<Rightarrow> ''null'' | Some v \<Rightarrow> json_string v),
     (''channel'', json_string (at_Channel a))]"

definition encode_Addresses :: "Address list \<Rightarrow> string" where
  "encode_Addresses as = json_array (map encode_Address as)"

definition encode_Snapshot :: "string \<Rightarrow> InboundMessageSnapshot \<Rightarrow> string" where
  "encode_Snapshot receivedAt s = json_object [
     (''internet_message_id'', json_string (sn_InternetMessageID s)), (''in_reply_to'', json_string (sn_InReplyTo s)),
     (''subject'', json_string (sn_Subject s)), (''message_kind'', json_string (kindText (sn_MessageKind s))),
     (''thread_kind'', json_string (threadKindText (sn_ThreadKind s))), (''contact_id'', json_id (sn_ContactID s)),
     (''received_at'', receivedAt), (''from'', encode_Addresses (sn_From s)), (''sender'', encode_Addresses (sn_Sender s)),
     (''reply_to'', encode_Addresses (sn_ReplyTo s)), (''to'', encode_Addresses (sn_To s)),
     (''cc'', encode_Addresses (sn_Cc s)), (''body_text'', json_string (sn_BodyText s)),
     (''attachments'', json_array (map encode_Attachment (sn_Attachments s))),
     (''body_text_truncated'', json_bool (sn_BodyTextTruncated s)), (''from_truncated'', json_bool (sn_FromTruncated s)),
     (''sender_truncated'', json_bool (sn_SenderTruncated s)), (''reply_to_truncated'', json_bool (sn_ReplyToTruncated s)),
     (''to_truncated'', json_bool (sn_ToTruncated s)), (''cc_truncated'', json_bool (sn_CcTruncated s)),
     (''attachments_truncated'', json_bool (sn_AttachmentsTruncated s))]"

definition encode_InboundMessage :: "InboundMessage \<Rightarrow> error + string" where
  "encode_InboundMessage e = (case (json_time (ib_OccurredAt e), json_time (sn_ReceivedAt (ib_Snapshot e))) of
     (Some occurred, Some received) \<Rightarrow> Inr (json_object [
       (''event_id'', json_string (uuid_text (ib_EventID e))), (''event_type'', json_string (ib_EventType e)),
       (''schema_version'', FormatInt (ib_SchemaVersion e)), (''occurred_at'', occurred),
       (''domain_id'', FormatInt (ib_DomainID e)), (''profile_id'', FormatInt (ib_ProfileID e)),
       (''flow_id'', json_id (ib_FlowID e)), (''thread_id'', FormatInt (ib_ThreadID e)),
       (''message_id'', FormatInt (ib_MessageID e)), (''snapshot'', encode_Snapshot received (ib_Snapshot e))])
   | _ \<Rightarrow> Inl (PlainError ''event: encode''))"

section \<open>Building an event\<close>

definition Eligible :: "EmailMessage \<Rightarrow> EmailThread \<Rightarrow> bool" where
  "Eligible message thread \<longleftrightarrow> em_Direction message = EmailMessageDirectionInbound \<and>
     em_Kind message = EmailKindRegular \<and> th_Kind thread = EmailThreadKindRegular"

definition InboundMessageDedupKey :: "int \<Rightarrow> int \<Rightarrow> string" where
  "InboundMessageDedupKey domainID messageID = FormatInt domainID @ '':'' @ FormatInt messageID"

definition InboundMessage_Validate :: "InboundMessage \<Rightarrow> error option" where
  "InboundMessage_Validate e =
     (let s = ib_Snapshot e
      in if ib_EventID e = 0 then Some (PlainError ''empty event_id'')
         else if ib_EventType e \<noteq> TypeInboundMessage \<or> ib_SchemaVersion e \<noteq> InboundMessageSchema
         then Some (PlainError ''type or schema'')
         else if IsZero (ib_OccurredAt e) \<or> IsZero (sn_ReceivedAt s)
         then Some (PlainError ''zero occurred_at or received_at'')
         else if ib_DomainID e \<le> 0 \<or> ib_ProfileID e \<le> 0 \<or> ib_ThreadID e \<le> 0 \<or> ib_MessageID e \<le> 0
         then Some (PlainError ''non-positive id'')
         else if (case ib_FlowID e of None \<Rightarrow> False | Some f \<Rightarrow> f \<le> 0) \<or>
                 (case sn_ContactID s of None \<Rightarrow> False | Some c \<Rightarrow> c \<le> 0)
         then Some (PlainError ''non-positive flow_id or contact_id'')
         else if sn_MessageKind s \<noteq> EmailKindRegular \<or> sn_ThreadKind s \<noteq> EmailThreadKindRegular
         then Some (PlainError ''message_kind or thread_kind'')
         else if sn_InternetMessageID s = '''' then Some (PlainError ''empty internet_message_id'')
         else None)"

definition NewInboundMessage :: "uuid \<Rightarrow> InboundMessageSource \<Rightarrow> Limits \<Rightarrow> error + InboundMessage" where
  "NewInboundMessage eventID src limits =
     (let message = is_Message src; thread = is_Thread src
      in if \<not> Eligible message thread
         then Inl (PlainError ''message is not a regular inbound one of a regular thread'')
         else if em_DomainID message \<noteq> th_DomainID thread \<or> em_ThreadID message \<noteq> th_ID thread
              \<or> em_ProfileID message \<noteq> th_ProfileID thread
         then Inl (PlainError ''message does not belong to thread'')
         else
           let addressesOf = (\<lambda>kind. addresses (is_Recipients src) kind limits);
               files = attachments (is_Attachments src) limits;
               body = clean (em_TextBody message) (li_MaxBodyTextSize limits) False;
               event = \<lparr>ib_EventID = eventID, ib_EventType = TypeInboundMessage,
                 ib_SchemaVersion = InboundMessageSchema, ib_OccurredAt = is_OccurredAt src,
                 ib_DomainID = em_DomainID message, ib_ProfileID = em_ProfileID message,
                 ib_FlowID = is_FlowID src, ib_ThreadID = th_ID thread, ib_MessageID = em_ID message,
                 ib_Snapshot = \<lparr>sn_InternetMessageID = field (em_MessageID message) (li_MaxFieldSize limits),
                   sn_InReplyTo = field (em_InReplyTo message) (li_MaxFieldSize limits),
                   sn_Subject = field (em_Subject message) (li_MaxFieldSize limits),
                   sn_MessageKind = em_Kind message, sn_ThreadKind = th_Kind thread,
                   sn_ContactID = th_ContactID thread, sn_ReceivedAt = em_ReceivedAt message,
                   sn_From = fst (addressesOf EmailRecipientTypeFrom),
                   sn_Sender = fst (addressesOf EmailRecipientTypeSender),
                   sn_ReplyTo = fst (addressesOf EmailRecipientTypeReplyTo),
                   sn_To = fst (addressesOf EmailRecipientTypeTo), sn_Cc = fst (addressesOf EmailRecipientTypeCc),
                   sn_BodyText = fst body, sn_Attachments = fst files, sn_BodyTextTruncated = snd body,
                   sn_FromTruncated = snd (addressesOf EmailRecipientTypeFrom),
                   sn_SenderTruncated = snd (addressesOf EmailRecipientTypeSender),
                   sn_ReplyToTruncated = snd (addressesOf EmailRecipientTypeReplyTo),
                   sn_ToTruncated = snd (addressesOf EmailRecipientTypeTo),
                   sn_CcTruncated = snd (addressesOf EmailRecipientTypeCc),
                   sn_AttachmentsTruncated = snd files\<rparr>\<rparr>
           in case InboundMessage_Validate event of Some e \<Rightarrow> Inl e | None \<Rightarrow> Inr event)"

definition Marshal :: "InboundMessage \<Rightarrow> int \<Rightarrow> error + string" where
  "Marshal e maxSize = (case InboundMessage_Validate e of
     Some err \<Rightarrow> Inl err
   | None \<Rightarrow>
       (case encode_InboundMessage e of
          Inl err \<Rightarrow> Inl err
        | Inr payload \<Rightarrow>
            if int (length payload) > maxSize then Inl (PlainError ''payload exceeds the limit'') else Inr payload))"

text \<open>The fields the outbox row does not set keep Go's zero values.\<close>

definition NewInboundMessageOutboxEvent :: "uuid \<Rightarrow> InboundMessageSource \<Rightarrow> Limits \<Rightarrow> error + OutboxEvent" where
  "NewInboundMessageOutboxEvent eventID src limits = (case NewInboundMessage eventID src limits of
     Inl err \<Rightarrow> Inl err
   | Inr event \<Rightarrow>
       (case Marshal event (li_MaxPayloadSize limits) of
          Inl err \<Rightarrow> Inl err
        | Inr payload \<Rightarrow> Inr \<lparr>oe_EventID = ib_EventID event, oe_DomainID = ib_DomainID event,
            oe_EventType = TypeInboundMessage, oe_SchemaVersion = InboundMessageSchema,
            oe_DedupKey = InboundMessageDedupKey (ib_DomainID event) (ib_MessageID event),
            oe_Exchange = Exchange, oe_RoutingKey = InboundMessageRoutingKey, oe_Payload = payload,
            oe_State = OutboxEventStatePending, oe_Attempts = 0, oe_NextAttemptAt = zero_time, oe_LockedBy = '''',
            oe_LockedUntil = None, oe_PublishedAt = None, oe_LastError = '''', oe_CreatedAt = zero_time,
            oe_UpdatedAt = zero_time\<rparr>))"

section \<open>Limits\<close>

definition maxID :: int where "maxID = 9223372036854775807"

text \<open>The last nanosecond of the year 9999.\<close>

definition latest :: time where
  "latest = 315537897599999999999"

definition worst_base :: "Limits \<Rightarrow> InboundMessage" where
  "worst_base l =
     (let fill = replicate (nat (li_MaxFieldSize l)) (CHR 34)
      in \<lparr>ib_EventID = - 1, ib_EventType = TypeInboundMessage, ib_SchemaVersion = InboundMessageSchema,
          ib_OccurredAt = latest, ib_DomainID = maxID, ib_ProfileID = maxID, ib_FlowID = Some maxID,
          ib_ThreadID = maxID, ib_MessageID = maxID,
          ib_Snapshot = \<lparr>sn_InternetMessageID = fill, sn_InReplyTo = fill, sn_Subject = fill,
            sn_MessageKind = EmailKindRegular, sn_ThreadKind = EmailThreadKindRegular, sn_ContactID = Some maxID,
            sn_ReceivedAt = latest, sn_From = [], sn_Sender = [], sn_ReplyTo = [], sn_To = [], sn_Cc = [],
            sn_BodyText = '''', sn_Attachments = [], sn_BodyTextTruncated = False, sn_FromTruncated = False,
            sn_SenderTruncated = False, sn_ReplyToTruncated = False, sn_ToTruncated = False, sn_CcTruncated = False,
            sn_AttachmentsTruncated = False\<rparr>\<rparr>)"

definition worst_address :: Address where
  "worst_address = \<lparr>ad_Address = replicate (nat maxAddressSize) (CHR 34),
     ad_Name = replicate (nat maxDisplayNameSize) (CHR 34)\<rparr>"

definition worst_attachment :: "Limits \<Rightarrow> Attachment" where
  "worst_attachment l = \<lparr>at_ID = maxID, at_Name = replicate (nat (li_MaxFieldSize l)) (CHR 34), at_Size = maxID,
     at_Mime = replicate (nat maxMimeTypeSize) (CHR 34), at_ViewName = None, at_Channel = attachmentChannel\<rparr>"

text \<open>The sums stay far below the range of \<^verbatim>\<open>int64\<close> for limits within their upper bounds.\<close>

definition WorstCaseSize :: "Limits \<Rightarrow> error + int" where
  "WorstCaseSize l =
     (let list = (\<lambda>items itemSize. items * itemSize + (items - 1))
      in case encode_InboundMessage (worst_base l) of
           Inl e \<Rightarrow> Inl e
         | Inr base \<Rightarrow> Inr (int (length base) + 2 * li_MaxBodyTextSize l
             + 5 * list (li_MaxAddressesPerType l) (int (length (encode_Address worst_address)))
             + list (li_MaxAttachments l) (int (length (encode_Attachment (worst_attachment l))))))"

definition Limits_Validate :: "Limits \<Rightarrow> error option" where
  "Limits_Validate l =
     (if li_MaxBodyTextSize l < 1 \<or> li_MaxBodyTextSize l > maxBodyTextSizeLimit
      then Some (PlainError ''max body text size'')
      else if li_MaxFieldSize l < 1 \<or> li_MaxFieldSize l > maxFieldSizeLimit
      then Some (PlainError ''max field size'')
      else if li_MaxAddressesPerType l < 1 \<or> li_MaxAddressesPerType l > maxListLimit
      then Some (PlainError ''max addresses per type'')
      else if li_MaxAttachments l < 1 \<or> li_MaxAttachments l > maxListLimit
      then Some (PlainError ''max attachments'')
      else if li_MaxPayloadSize l < 1 \<or> li_MaxPayloadSize l > maxPayloadSizeLimit
      then Some (PlainError ''max payload size'')
      else case WorstCaseSize l of
        Inl e \<Rightarrow> Some e
      | Inr worst \<Rightarrow> if worst > li_MaxPayloadSize l then Some (PlainError ''limits allow a payload above the limit'') else None)"

section \<open>Sizes\<close>

lemma clean_props:
  assumes "0 \<le> n"
  shows "plain (fst (clean v n single)) \<and> int (length (fst (clean v n single))) \<le> n"
proof -
  define cs where "cs = map (cleanRune single) (runes (ToValidUTF8 v))"
  let ?s = "concat cs"
  have rune: "cleanRune single r = [] \<or> is_rune (cleanRune single r)" if "is_rune r" for r
    using that by (cases r rule: is_rune.cases) (auto simp: cleanRune_def width_def)
  have chars: "\<forall>c\<in>set (cleanRune single r). 32 \<le> byte c \<or> c = CHR 9 \<or> c = CHR 10 \<or> c = CHR 13" if "is_rune r" for r
    using that
    by (cases r rule: is_rune.cases)
       (auto simp: cleanRune_def width_def second_ok_def cont_def Let_def split: if_splits)
  have src: "is_rune r" if "r \<in> set (runes (ToValidUTF8 v))" for r
    using ToValidUTF8_valid[of v] that by (auto simp: ValidString_def list_all_iff)
  have "concat (filter (\<lambda>c. c \<noteq> []) cs) = ?s" by (induction cs) auto
  moreover have "list_all is_rune (filter (\<lambda>c. c \<noteq> []) cs)"
    using rune src by (auto simp: cs_def list_all_iff)
  ultimately have valid: "ValidString ?s" using ValidString_concat by metis
  have "\<forall>c\<in>set ?s. 32 \<le> byte c \<or> c = CHR 9 \<or> c = CHR 10 \<or> c = CHR 13"
    using chars src by (auto simp: cs_def)
  then have all: "\<forall>c\<in>set (take k ?s). 32 \<le> byte c \<or> c = CHR 9 \<or> c = CHR 10 \<or> c = CHR 13" for k
    by (meson in_set_takeD)
  show ?thesis
  proof (cases "int (length ?s) \<le> n")
    case True
    then have "clean v n single = (?s, False)" by (simp add: clean_def Let_def cs_def)
    with True valid all[of "length ?s"] show ?thesis by (simp add: plain_def)
  next
    case False
    then have "clean v n single = (take (cutBack ?s (nat n)) ?s, True)" by (simp add: clean_def Let_def cs_def)
    moreover have "ValidString (take (cutBack ?s (nat n)) ?s)" using cut_valid[OF valid] False assms by simp
    moreover have "cutBack ?s (nat n) \<le> nat n" by (rule cutBack_le)
    ultimately show ?thesis using all assms by (simp add: plain_def)
  qed
qed

lemma length_join: "length (join [c] xs) = sum_list (map length xs) + (length xs - 1)"
  by (induction "[c]" xs rule: join.induct) auto

lemma length_json_object:
  "length (json_object fs) = 2 + sum_list (map (\<lambda>(k, v). length k + 3 + length v) fs) + (length fs - 1)"
  by (simp add: json_object_def length_join comp_def case_prod_unfold numeral_3_eq_3)

lemma length_json_array_le:
  assumes "\<forall>x\<in>set xs. int (length x) \<le> m" and "int (length xs) \<le> n" and "1 \<le> n" and "0 \<le> m"
  shows "int (length (json_array xs)) \<le> 2 + (n * m + (n - 1))"
proof -
  have "int (sum_list (map length xs)) \<le> int (length xs) * m"
    using assms(1) by (induction xs) (auto simp: algebra_simps)
  also have "\<dots> \<le> n * m" using assms(2,4) by (simp add: mult_right_mono)
  finally show ?thesis using assms(2,3) by (simp add: json_array_def length_join)
qed

text \<open>JSON writes the printable ASCII characters other than the quote and the backslash as they are.\<close>

lemma json_string_safe:
  assumes "\<forall>c\<in>set s. 32 \<le> byte c \<and> byte c < 128 \<and> c \<noteq> CHR 34 \<and> c \<noteq> CHR 92"
  shows "length (json_string s) = length s + 2"
proof -
  have "json_escape [c] = [c]" if c: "c \<in> set s" for c
  proof -
    have "32 \<le> byte c" "byte c < 128" "c \<noteq> CHR 34" "c \<noteq> CHR 92" using assms c by auto
    moreover from this have "c \<notin> {CHR 8, CHR 12, CHR 10, CHR 13, CHR 9}" by auto
    ultimately show ?thesis by (simp add: json_escape_def width_def)
  qed
  then have "map json_escape (map (\<lambda>c. [c]) s) = map (\<lambda>c. [c]) s" by simp
  moreover have "concat (map (\<lambda>c. [c]) s) = s" by (induction s) auto
  moreover have "runes s = map (\<lambda>c. [c]) s" using runes_ascii[of s] assms by simp
  ultimately show ?thesis unfolding json_string_def by (simp only:) simp
qed

lemma padded_digits: "base \<le> 16 \<Longrightarrow> 0 < base \<Longrightarrow> c \<in> set (padded base k n) \<Longrightarrow>
    (48 \<le> byte c \<and> byte c \<le> 57) \<or> (97 \<le> byte c \<and> byte c \<le> 102)"
proof (induction k arbitrary: n)
  case (Suc k)
  have "n mod base < 16" using Suc.prems(1,2) by (meson mod_less_divisor order_less_le_trans)
  then have "(48 \<le> byte (digit (n mod base)) \<and> byte (digit (n mod base)) \<le> 57) \<or>
      (97 \<le> byte (digit (n mod base)) \<and> byte (digit (n mod base)) \<le> 102)"
    by (cases "n mod base < 10") (auto simp: digit_def)
  moreover have "c \<in> set (padded base k (n div base)) \<or> c = digit (n mod base)" using Suc.prems(3) by auto
  ultimately show ?case using Suc.IH[OF Suc.prems(1,2)] by blast
qed simp

lemma length_uuid_text: "length (json_string (uuid_text u)) = 38"
proof -
  have hex: "32 \<le> byte c \<and> byte c < 128 \<and> c \<noteq> CHR 34 \<and> c \<noteq> CHR 92" if "c \<in> set (padded 16 32 (unat u))" for c
    using padded_digits[OF _ _ that] by auto
  have "\<forall>c\<in>set (uuid_text u). 32 \<le> byte c \<and> byte c < 128 \<and> c \<noteq> CHR 34 \<and> c \<noteq> CHR 92"
    unfolding uuid_text_def Let_def set_append
    by (intro ballI) (auto dest!: in_set_takeD in_set_dropD dest: hex simp del: padded.simps)
  from json_string_safe[OF this] show ?thesis by (simp add: uuid_text_def Let_def)
qed

lemma length_json_time: "json_time t = Some s \<Longrightarrow> length s \<le> 32"
proof -
  assume s: "json_time t = Some s"
  have "length (rev (dropWhile P (rev (padded 10 9 n)))) \<le> 9" for P n
    using length_dropWhile_le[of P "rev (padded 10 9 n)"] by simp
  then have "length (if f = [] then [] else ''.'' @ f) \<le> 10"
    if "f = rev (dropWhile P (rev (padded 10 9 n)))" for f P n using that by simp
  with s show ?thesis
    by (auto simp: json_time_def Let_def split: prod.splits if_splits) (use \<open>\<And>P n. length (rev (dropWhile P (rev (padded 10 9 n)))) \<le> 9\<close> in fastforce)
qed

lemma length_FormatInt_le: "0 \<le> i \<Longrightarrow> i \<le> maxID \<Longrightarrow> length (FormatInt i) \<le> length (FormatInt maxID)"
  using length_decimal_mono[of "nat i" "nat maxID"] by (simp add: FormatInt_def maxID_def)

lemma encode_Address_le:
  assumes "plain (ad_Address a)" "int (length (ad_Address a)) \<le> maxAddressSize"
    and "plain (ad_Name a)" "int (length (ad_Name a)) \<le> maxDisplayNameSize"
  shows "length (encode_Address a) \<le> length (encode_Address worst_address)"
  using json_string_le[OF assms(1)] json_string_le[OF assms(3)] assms(2,4)
  by (simp add: encode_Address_def worst_address_def length_json_object json_string_quotes maxAddressSize_def
        maxDisplayNameSize_def)

lemma encode_Attachment_le:
  assumes "plain (at_Name a)" "int (length (at_Name a)) \<le> li_MaxFieldSize l"
    and "plain (at_Mime a)" "int (length (at_Mime a)) \<le> maxMimeTypeSize"
    and "0 \<le> at_ID a" "at_ID a \<le> maxID" "0 \<le> at_Size a" "at_Size a \<le> maxID"
    and "at_ViewName a = None" "at_Channel a = attachmentChannel"
  shows "length (encode_Attachment a) \<le> length (encode_Attachment (worst_attachment l))"
proof -
  have "length (json_string (at_Name a)) \<le> length (json_string (replicate (nat (li_MaxFieldSize l)) (CHR 34)))"
    using json_string_le[OF assms(1)] assms(2) by (simp add: json_string_quotes)
  moreover have "length (json_string (at_Mime a)) \<le> length (json_string (replicate (nat maxMimeTypeSize) (CHR 34)))"
    using json_string_le[OF assms(3)] assms(4) by (simp add: json_string_quotes)
  ultimately show ?thesis
    using length_FormatInt_le[OF assms(5,6)] length_FormatInt_le[OF assms(7,8)] assms(9,10)
    by (simp add: encode_Attachment_def worst_attachment_def length_json_object)
qed

lemma addresses_fit:
  assumes "1 \<le> li_MaxAddressesPerType l"
  shows "int (length (encode_Addresses (fst (addresses rs kind l)))) \<le> 2 +
    (li_MaxAddressesPerType l * int (length (encode_Address worst_address)) + (li_MaxAddressesPerType l - 1))"
  unfolding encode_Addresses_def
proof (rule length_json_array_le)
  have size: "0 \<le> maxAddressSize" "0 \<le> maxDisplayNameSize" by (simp_all add: maxAddressSize_def maxDisplayNameSize_def)
  show "\<forall>x\<in>set (map encode_Address (fst (addresses rs kind l))). int (length x) \<le> int (length (encode_Address worst_address))"
    using clean_props[OF size(1)] clean_props[OF size(2)]
    by (auto simp: addresses_def Let_def line_def intro!: encode_Address_le)
  show "int (length (map encode_Address (fst (addresses rs kind l)))) \<le> li_MaxAddressesPerType l"
    using assms by (simp add: addresses_def Let_def)
qed (use assms in simp_all)

definition stored_sizes_ok :: "EmailMessageAttachment list \<Rightarrow> bool" where
  "stored_sizes_ok parts \<longleftrightarrow> list_all (\<lambda>p. 0 \<le> ma_Size p \<and> ma_Size p \<le> maxID \<and>
     (case ma_FileID p of None \<Rightarrow> True | Some f \<Rightarrow> 0 \<le> f \<and> f \<le> maxID)) parts"

lemma attachments_fit:
  assumes "1 \<le> li_MaxAttachments l" and "1 \<le> li_MaxFieldSize l" and "stored_sizes_ok parts"
  shows "int (length (json_array (map encode_Attachment (fst (attachments parts l))))) \<le> 2 +
    (li_MaxAttachments l * int (length (encode_Attachment (worst_attachment l))) + (li_MaxAttachments l - 1))"
proof (rule length_json_array_le)
  have size: "0 \<le> li_MaxFieldSize l" "0 \<le> maxMimeTypeSize" using assms(2) by (simp_all add: maxMimeTypeSize_def)
  have "length (encode_Attachment a) \<le> length (encode_Attachment (worst_attachment l))"
    if "a \<in> set (fst (attachments parts l))" for a
  proof -
    from that obtain p where p: "p \<in> set parts" "ma_FileID p \<noteq> None"
      and a: "a = \<lparr>at_ID = the (ma_FileID p), at_Name = fst (line (ma_FileName p) (li_MaxFieldSize l)),
        at_Size = ma_Size p, at_Mime = fst (line (ma_MimeType p) maxMimeTypeSize), at_ViewName = None,
        at_Channel = attachmentChannel\<rparr>"
      by (auto simp: attachments_def Let_def dest!: in_set_takeD split: if_splits)
    from assms(3) p have "0 \<le> ma_Size p" "ma_Size p \<le> maxID" "0 \<le> the (ma_FileID p)" "the (ma_FileID p) \<le> maxID"
      by (auto simp: stored_sizes_ok_def list_all_iff)
    with clean_props[OF size(1)] clean_props[OF size(2)] show ?thesis
      by (intro encode_Attachment_le) (simp_all add: a line_def)
  qed
  then show "\<forall>x\<in>set (map encode_Attachment (fst (attachments parts l))). int (length x) \<le> int (length (encode_Attachment (worst_attachment l)))"
    by simp
  show "int (length (map encode_Attachment (fst (attachments parts l)))) \<le> li_MaxAttachments l"
    using assms(1) by (simp add: attachments_def Let_def)
qed (use assms(1) in simp_all)

lemma field_fits:
  assumes "1 \<le> li_MaxFieldSize l"
  shows "length (json_string (field v (li_MaxFieldSize l))) \<le> length (json_string (replicate (nat (li_MaxFieldSize l)) (CHR 34)))"
proof -
  have "0 \<le> li_MaxFieldSize l" using assms by simp
  from clean_props[OF this, of v True] have "plain (field v (li_MaxFieldSize l))"
    "int (length (field v (li_MaxFieldSize l))) \<le> li_MaxFieldSize l" by (simp_all add: field_def line_def)
  with json_string_le[OF this(1)] show ?thesis by (simp add: json_string_quotes)
qed

lemma body_fits:
  assumes "1 \<le> n"
  shows "int (length (json_string (fst (clean v n single)))) \<le> 2 + 2 * n"
proof -
  have "0 \<le> n" using assms by simp
  from clean_props[OF this, of v single] json_string_le[of "fst (clean v n single)"] show ?thesis by simp
qed

lemma length_json_id_le:
  assumes "\<forall>v. i = Some v \<longrightarrow> 0 \<le> v \<and> v \<le> maxID"
  shows "length (json_id i) \<le> length (FormatInt maxID)"
proof (cases i)
  case None
  have "length (FormatInt maxID) = 19" by (simp add: FormatInt_def maxID_def decimal.simps)
  with None show ?thesis by (simp add: json_id_def)
next
  case (Some v)
  with assms length_FormatInt_le[of v] show ?thesis by (simp add: json_id_def)
qed

lemma length_json_bool_le: "length (json_bool b) \<le> 5"
  by (simp add: json_bool_def)

lemma length_array_Nil: "length (json_array []) = 2"
  by (simp add: json_array_def)

lemma length_string_Nil: "length (json_string []) = 2"
  by (simp add: json_string_def)

lemma json_time_latest: "\<exists>s. json_time latest = Some s \<and> length s = 32"
proof -
  have parts: "latest div second = 315537897599" "latest mod second = 999999999" unfolding latest_def by simp_all
  have day: "(315537897599 :: int) div 86400 = 3652058" "(315537897599 :: int) mod 86400 = 86399" by simp_all
  have date: "civil 3652058 = (9999, 12, 31)" by code_simp
  have "padded 10 9 (nat 999999999) = padded 10 8 99999999 @ [digit 9]"
    using padded.simps(2)[of 10 8 "nat 999999999"] by simp
  moreover have "digit 9 \<noteq> CHR ''0''" by code_simp
  ultimately have "rev (dropWhile (\<lambda>c. c = CHR ''0'') (rev (padded 10 9 (nat 999999999))))
      = padded 10 8 99999999 @ [digit 9]" by simp
  with date show ?thesis unfolding json_time_def Let_def parts day by simp
qed

text \<open>The ids a stored message brings into its event are positive 64-bit numbers.\<close>

definition event_ids_ok :: "InboundMessage \<Rightarrow> bool" where
  "event_ids_ok e \<longleftrightarrow> ib_DomainID e \<le> maxID \<and> ib_ProfileID e \<le> maxID \<and> ib_ThreadID e \<le> maxID \<and> ib_MessageID e \<le> maxID \<and>
     (case ib_FlowID e of None \<Rightarrow> True | Some f \<Rightarrow> f \<le> maxID) \<and>
     (case sn_ContactID (ib_Snapshot e) of None \<Rightarrow> True | Some c \<Rightarrow> c \<le> maxID)"

lemma InboundMessage_valid_ids:
  assumes "InboundMessage_Validate e = None"
  shows "0 < ib_DomainID e" "0 < ib_ProfileID e" "0 < ib_ThreadID e" "0 < ib_MessageID e"
    "\<forall>v. ib_FlowID e = Some v \<longrightarrow> 0 < v" "\<forall>v. sn_ContactID (ib_Snapshot e) = Some v \<longrightarrow> 0 < v"
    "sn_MessageKind (ib_Snapshot e) = EmailKindRegular" "sn_ThreadKind (ib_Snapshot e) = EmailThreadKindRegular"
    "ib_EventType e = TypeInboundMessage" "ib_SchemaVersion e = InboundMessageSchema" "ib_EventID e \<noteq> 0"
  using assms by (auto simp: InboundMessage_Validate_def Let_def not_le split: if_splits option.splits)

lemma envelope_le:
  assumes valid: "InboundMessage_Validate e = None" and ids: "event_ids_ok e"
    and enc: "encode_InboundMessage e = Inr p" and worst: "encode_InboundMessage (worst_base l) = Inr p0"
    and msgid: "length (json_string (sn_InternetMessageID s)) \<le> length (json_string (replicate (nat (li_MaxFieldSize l)) (CHR 34)))"
    and reply: "length (json_string (sn_InReplyTo s)) \<le> length (json_string (replicate (nat (li_MaxFieldSize l)) (CHR 34)))"
    and subject: "length (json_string (sn_Subject s)) \<le> length (json_string (replicate (nat (li_MaxFieldSize l)) (CHR 34)))"
    and s: "s = ib_Snapshot e"
  shows "length p + 14 \<le> length p0 + length (json_string (sn_BodyText s)) + length (encode_Addresses (sn_From s))
    + length (encode_Addresses (sn_Sender s)) + length (encode_Addresses (sn_ReplyTo s)) + length (encode_Addresses (sn_To s))
    + length (encode_Addresses (sn_Cc s)) + length (json_array (map encode_Attachment (sn_Attachments s)))"
proof -
  note v = InboundMessage_valid_ids[OF valid]
  from ids v(1-4) have "length (FormatInt (ib_DomainID e)) \<le> length (FormatInt maxID)"
    "length (FormatInt (ib_ProfileID e)) \<le> length (FormatInt maxID)"
    "length (FormatInt (ib_ThreadID e)) \<le> length (FormatInt maxID)"
    "length (FormatInt (ib_MessageID e)) \<le> length (FormatInt maxID)"
    by (auto simp: event_ids_ok_def intro!: length_FormatInt_le)
  moreover have "length (json_id (ib_FlowID e)) \<le> length (FormatInt maxID)"
    "length (json_id (sn_ContactID s)) \<le> length (FormatInt maxID)"
    using ids v(5,6) unfolding s by (force simp: event_ids_ok_def intro!: length_json_id_le)+
  moreover obtain occ rcv where times: "json_time (ib_OccurredAt e) = Some occ" "json_time (sn_ReceivedAt s) = Some rcv"
    using enc by (auto simp: encode_InboundMessage_def s split: option.splits)
  moreover obtain lt where lt: "json_time latest = Some lt" "length lt = 32" using json_time_latest by auto
  moreover note length_json_time[OF times(1)] length_json_time[OF times(2)] length_uuid_text[of "ib_EventID e"] length_uuid_text[of "- 1"]
    length_json_bool_le[of "sn_BodyTextTruncated s"] length_json_bool_le[of "sn_FromTruncated s"] length_json_bool_le[of "sn_SenderTruncated s"]
    length_json_bool_le[of "sn_ReplyToTruncated s"] length_json_bool_le[of "sn_ToTruncated s"] length_json_bool_le[of "sn_CcTruncated s"]
    length_json_bool_le[of "sn_AttachmentsTruncated s"]
  moreover have "p = json_object [
       (''event_id'', json_string (uuid_text (ib_EventID e))), (''event_type'', json_string TypeInboundMessage),
       (''schema_version'', FormatInt InboundMessageSchema), (''occurred_at'', occ),
       (''domain_id'', FormatInt (ib_DomainID e)), (''profile_id'', FormatInt (ib_ProfileID e)),
       (''flow_id'', json_id (ib_FlowID e)), (''thread_id'', FormatInt (ib_ThreadID e)),
       (''message_id'', FormatInt (ib_MessageID e)), (''snapshot'', encode_Snapshot rcv s)]"
    using enc times v(9,10) by (simp add: encode_InboundMessage_def s)
  moreover have "p0 = json_object [
       (''event_id'', json_string (uuid_text (- 1))), (''event_type'', json_string TypeInboundMessage),
       (''schema_version'', FormatInt InboundMessageSchema), (''occurred_at'', lt),
       (''domain_id'', FormatInt maxID), (''profile_id'', FormatInt maxID),
       (''flow_id'', FormatInt maxID), (''thread_id'', FormatInt maxID),
       (''message_id'', FormatInt maxID), (''snapshot'', encode_Snapshot lt (ib_Snapshot (worst_base l)))]"
    using worst lt(1) by (simp add: encode_InboundMessage_def worst_base_def Let_def json_id_def)
  ultimately show ?thesis
    using msgid reply subject v(7,8) unfolding s[symmetric]
    by (simp add: length_json_object encode_Snapshot_def worst_base_def Let_def json_id_def length_string_Nil
        encode_Addresses_def length_array_Nil json_bool_def[of False])
qed

lemma NewInboundMessage_parts:
  assumes "NewInboundMessage eventID src l = Inr e"
  shows "InboundMessage_Validate e = None" "ib_OccurredAt e = is_OccurredAt src" "ib_EventID e = eventID"
    "ib_DomainID e = em_DomainID (is_Message src)" "ib_MessageID e = em_ID (is_Message src)"
    "sn_ReceivedAt (ib_Snapshot e) = em_ReceivedAt (is_Message src)"
    "sn_InternetMessageID (ib_Snapshot e) = field (em_MessageID (is_Message src)) (li_MaxFieldSize l)"
    "sn_InReplyTo (ib_Snapshot e) = field (em_InReplyTo (is_Message src)) (li_MaxFieldSize l)"
    "sn_Subject (ib_Snapshot e) = field (em_Subject (is_Message src)) (li_MaxFieldSize l)"
    "sn_BodyText (ib_Snapshot e) = fst (clean (em_TextBody (is_Message src)) (li_MaxBodyTextSize l) False)"
    "sn_From (ib_Snapshot e) = fst (addresses (is_Recipients src) EmailRecipientTypeFrom l)"
    "sn_Sender (ib_Snapshot e) = fst (addresses (is_Recipients src) EmailRecipientTypeSender l)"
    "sn_ReplyTo (ib_Snapshot e) = fst (addresses (is_Recipients src) EmailRecipientTypeReplyTo l)"
    "sn_To (ib_Snapshot e) = fst (addresses (is_Recipients src) EmailRecipientTypeTo l)"
    "sn_Cc (ib_Snapshot e) = fst (addresses (is_Recipients src) EmailRecipientTypeCc l)"
    "sn_Attachments (ib_Snapshot e) = fst (attachments (is_Attachments src) l)"
  using assms by (auto simp: NewInboundMessage_def Let_def split: if_splits option.splits)

lemma Limits_valid:
  assumes "Limits_Validate l = None"
  shows "1 \<le> li_MaxBodyTextSize l" "1 \<le> li_MaxFieldSize l" "1 \<le> li_MaxAddressesPerType l" "1 \<le> li_MaxAttachments l"
    "\<exists>worst. WorstCaseSize l = Inr worst \<and> worst \<le> li_MaxPayloadSize l"
  using assms by (auto simp: Limits_Validate_def not_less split: if_splits sum.splits)

lemma payload_le_worst:
  assumes limits: "Limits_Validate l = None" and new: "NewInboundMessage eventID src l = Inr e"
    and ids: "event_ids_ok e" and sizes: "stored_sizes_ok (is_Attachments src)"
    and enc: "encode_InboundMessage e = Inr p"
  shows "int (length p) \<le> li_MaxPayloadSize l"
proof -
  note lim = Limits_valid[OF limits] and parts = NewInboundMessage_parts[OF new]
  from lim(5) obtain p0 where p0: "encode_InboundMessage (worst_base l) = Inr p0"
    and worst: "int (length p0) + 2 * li_MaxBodyTextSize l
      + 5 * (li_MaxAddressesPerType l * int (length (encode_Address worst_address)) + (li_MaxAddressesPerType l - 1))
      + (li_MaxAttachments l * int (length (encode_Attachment (worst_attachment l))) + (li_MaxAttachments l - 1)) \<le> li_MaxPayloadSize l"
    by (auto simp: WorstCaseSize_def Let_def split: sum.splits)
  have fields: "length (json_string (sn_InternetMessageID (ib_Snapshot e))) \<le> length (json_string (replicate (nat (li_MaxFieldSize l)) (CHR 34)))"
    "length (json_string (sn_InReplyTo (ib_Snapshot e))) \<le> length (json_string (replicate (nat (li_MaxFieldSize l)) (CHR 34)))"
    "length (json_string (sn_Subject (ib_Snapshot e))) \<le> length (json_string (replicate (nat (li_MaxFieldSize l)) (CHR 34)))"
    by (simp_all only: parts field_fits[OF lim(2)])
  have "int (length p) + 14 \<le> int (length p0) + int (length (json_string (sn_BodyText (ib_Snapshot e))))
    + int (length (encode_Addresses (sn_From (ib_Snapshot e)))) + int (length (encode_Addresses (sn_Sender (ib_Snapshot e))))
    + int (length (encode_Addresses (sn_ReplyTo (ib_Snapshot e)))) + int (length (encode_Addresses (sn_To (ib_Snapshot e))))
    + int (length (encode_Addresses (sn_Cc (ib_Snapshot e)))) + int (length (json_array (map encode_Attachment (sn_Attachments (ib_Snapshot e)))))"
    using envelope_le[OF parts(1) ids enc p0 fields refl] by linarith
  moreover note body_fits[OF lim(1), of "em_TextBody (is_Message src)" False]
    addresses_fit[OF lim(3), of "is_Recipients src" EmailRecipientTypeFrom]
    addresses_fit[OF lim(3), of "is_Recipients src" EmailRecipientTypeSender]
    addresses_fit[OF lim(3), of "is_Recipients src" EmailRecipientTypeReplyTo]
    addresses_fit[OF lim(3), of "is_Recipients src" EmailRecipientTypeTo]
    addresses_fit[OF lim(3), of "is_Recipients src" EmailRecipientTypeCc]
    attachments_fit[OF lim(4,2) sizes]
  moreover define X Y where "X = li_MaxAddressesPerType l * int (length (encode_Address worst_address)) + (li_MaxAddressesPerType l - 1)"
    and "Y = li_MaxAttachments l * int (length (encode_Attachment (worst_attachment l))) + (li_MaxAttachments l - 1)"
  ultimately show ?thesis using worst unfolding parts X_def[symmetric] Y_def[symmetric] by linarith
qed

lemma encode_not_Nil: "encode_InboundMessage e = Inr p \<Longrightarrow> p \<noteq> []"
  by (auto simp: encode_InboundMessage_def json_object_def split: option.splits)

text \<open>The parts of the worst case, with fixed bounds for what the limits do not touch.\<close>

lemma worst_sizes:
  assumes "0 \<le> li_MaxFieldSize l"
  shows "\<exists>p0. encode_InboundMessage (worst_base l) = Inr p0 \<and> int (length p0) \<le> 6 * li_MaxFieldSize l + 1700"
    and "length (encode_Address worst_address) \<le> 1200"
    and "int (length (encode_Attachment (worst_attachment l))) \<le> 2 * li_MaxFieldSize l + 700"
proof -
  obtain lt where lt: "json_time latest = Some lt" "length lt = 32" using json_time_latest by auto
  have id: "length (FormatInt maxID) = 19" by (simp add: FormatInt_def maxID_def decimal.simps)
  have small: "length (json_string TypeInboundMessage) \<le> 44" "length (FormatInt InboundMessageSchema) = 1"
    "length (json_string attachmentChannel) \<le> 10" "length (json_string ''regular'') \<le> 16"
    using json_string_le[of TypeInboundMessage] json_string_le[of attachmentChannel] json_string_le[of "''regular''"]
      runes_ascii[of TypeInboundMessage] runes_ascii[of attachmentChannel] runes_ascii[of "''regular''"]
    by (simp_all add: TypeInboundMessage_def attachmentChannel_def InboundMessageSchema_def FormatInt_def decimal.simps
        plain_def ValidString_def list_all_iff width_def)
  show "\<exists>p0. encode_InboundMessage (worst_base l) = Inr p0 \<and> int (length p0) \<le> 6 * li_MaxFieldSize l + 1700"
    using lt id small length_uuid_text[of "- 1"] assms
    by (simp add: encode_InboundMessage_def worst_base_def Let_def json_id_def length_json_object encode_Snapshot_def
        length_string_Nil encode_Addresses_def length_array_Nil json_bool_def json_string_quotes
        kindText_def threadKindText_def)
  show "length (encode_Address worst_address) \<le> 1200"
    by (simp add: encode_Address_def worst_address_def length_json_object json_string_quotes maxAddressSize_def
        maxDisplayNameSize_def)
  show "int (length (encode_Attachment (worst_attachment l))) \<le> 2 * li_MaxFieldSize l + 700"
    using id small(3) assms
    by (simp add: encode_Attachment_def worst_attachment_def length_json_object json_string_quotes maxMimeTypeSize_def)
qed

section \<open>Properties\<close>

text \<open>
  C28: Every accepted message fits. Under limits the configuration accepts, an event that can
  be built from stored state also gets its outbox row: the payload never exceeds the payload
  limit, whatever the email contains, and the row passes its own validation. The ids and
  sizes are non-negative 64-bit numbers, and the two times have a year JSON can carry.
\<close>

theorem payload_always_fits:
  assumes "Limits_Validate l = None" and "NewInboundMessage eventID src l = Inr e" and "event_ids_ok e"
    and "stored_sizes_ok (is_Attachments src)" and "json_time (is_OccurredAt src) \<noteq> None"
    and "json_time (em_ReceivedAt (is_Message src)) \<noteq> None"
  shows "\<exists>row. NewInboundMessageOutboxEvent eventID src l = Inr row \<and> int (length (oe_Payload row)) \<le> li_MaxPayloadSize l \<and>
    OutboxEvent_Validate (Some row) = None \<and>
    oe_DedupKey row = InboundMessageDedupKey (em_DomainID (is_Message src)) (em_ID (is_Message src))"
proof -
  note parts = NewInboundMessage_parts[OF assms(2)]
  obtain p where p: "encode_InboundMessage e = Inr p"
    using assms(5,6) parts(2,6) by (auto simp: encode_InboundMessage_def split: option.splits)
  note fits = payload_le_worst[OF assms(1-4) p]
  with p parts(1) have "Marshal e (li_MaxPayloadSize l) = Inr p" by (simp add: Marshal_def)
  with assms(2) parts fits InboundMessage_valid_ids[OF parts(1)] encode_not_Nil[OF p] show ?thesis
    by (simp add: NewInboundMessageOutboxEvent_def OutboxEvent_Validate_None InboundMessageSchema_def
        TypeInboundMessage_def Exchange_def InboundMessageRoutingKey_def)
qed

definition sample_limits :: Limits where
  "sample_limits = \<lparr>li_MaxBodyTextSize = 100, li_MaxAddressesPerType = 2, li_MaxAttachments = 2, li_MaxFieldSize = 50,
     li_MaxPayloadSize = 20000\<rparr>"

lemma sample_limits_valid: "Limits_Validate sample_limits = None"
  using worst_sizes[of sample_limits]
  by (auto simp: Limits_Validate_def WorstCaseSize_def Let_def sample_limits_def maxBodyTextSizeLimit_def
      maxFieldSizeLimit_def maxListLimit_def maxPayloadSizeLimit_def)

definition sample_message :: EmailMessage where
  "sample_message = \<lparr>em_ID = 5, em_DomainID = 1, em_ThreadID = 3, em_ProfileID = 1, em_Direction = EmailMessageDirectionInbound,
     em_Kind = EmailKindRegular, em_State = EmailMessageStateReady, em_AttachmentAttempts = 0, em_MessageID = ''m@x'',
     em_MessageIDGenerated = False, em_RawSHA256 = '''', em_IMAP = None, em_InReplyTo = '''', em_References = [],
     em_Subject = ''s'', em_TextBody = ''hi'', em_HTMLBody = '''', em_Bounce = None, em_SentAt = None, em_ReceivedAt = second,
     em_CreatedAt = 1, em_UpdatedAt = 1\<rparr>"

definition sample_thread :: EmailThread where
  "sample_thread = \<lparr>th_ID = 3, th_DomainID = 1, th_ProfileID = 1, th_ContactID = None,
     th_ContactResolutionState = EmailContactResolutionPending, th_Kind = EmailThreadKindRegular, th_Subject = ''s'',
     th_Status = EmailThreadStatusNew, th_LastMessageAt = None, th_CompletedAt = None, th_CreatedAt = 1, th_UpdatedAt = 1\<rparr>"

definition sample_source :: InboundMessageSource where
  "sample_source = \<lparr>is_OccurredAt = second, is_FlowID = Some 9, is_Thread = sample_thread, is_Message = sample_message,
     is_Recipients = [], is_Attachments = []\<rparr>"

theorem payload_always_fits_witness:
  "\<exists>row. NewInboundMessageOutboxEvent 7 sample_source sample_limits = Inr row \<and> int (length (oe_Payload row)) \<le> 20000 \<and>
    OutboxEvent_Validate (Some row) = None \<and> oe_DedupKey row = ''1:5''"
proof -
  have msgid: "clean ''m@x'' 50 True = (''m@x'', False)" by code_simp
  have "Eligible sample_message sample_thread" by (simp add: Eligible_def sample_message_def sample_thread_def)
  then obtain e where e: "NewInboundMessage 7 sample_source sample_limits = Inr e" "event_ids_ok e"
    using msgid by (simp add: NewInboundMessage_def sample_source_def sample_message_def sample_thread_def Let_def
        InboundMessage_Validate_def field_def line_def sample_limits_def event_ids_ok_def maxID_def)
  have times: "json_time (is_OccurredAt sample_source) \<noteq> None" "json_time (em_ReceivedAt (is_Message sample_source)) \<noteq> None"
    by code_simp+
  have "stored_sizes_ok (is_Attachments sample_source)" by (simp add: stored_sizes_ok_def sample_source_def)
  note row = payload_always_fits[OF sample_limits_valid e(1,2) this times]
  have "InboundMessageDedupKey (em_DomainID (is_Message sample_source)) (em_ID (is_Message sample_source)) = ''1:5''"
    by code_simp
  moreover have "li_MaxPayloadSize sample_limits = 20000" by (simp add: sample_limits_def)
  ultimately show ?thesis using row by (simp only:)
qed

text \<open>
  Cleaning a text makes it safe to send: the result is valid UTF-8 within the size limit
  and without control characters other than tabs and line breaks, and a text that already
  was within the limit, valid and without controls is kept as it is and not flagged.
\<close>

theorem clean_is_safe:
  assumes "0 \<le> n"
  shows "ValidString (fst (clean v n single)) \<and> int (length (fst (clean v n single))) \<le> n \<and>
    (\<forall>c\<in>set (fst (clean v n single)). 32 \<le> byte c \<or> c = CHR 9 \<or> c = CHR 10 \<or> c = CHR 13) \<and>
    (ValidString v \<and> (\<forall>c\<in>set v. 32 \<le> byte c) \<and> int (length v) \<le> n \<longrightarrow> clean v n single = (v, False))"
proof -
  have "clean v n single = (v, False)" if v: "ValidString v" "\<forall>c\<in>set v. 32 \<le> byte c" "int (length v) \<le> n"
  proof -
    have "cleanRune single r = r" if r: "r \<in> set (runes v)" for r
    proof -
      have "set r \<subseteq> set v" using r concat_runes[of v] by (metis UN_upper set_concat)
      with v(2) show ?thesis by (auto simp: cleanRune_def split: list.splits)
    qed
    then have "map (cleanRune single) (runes v) = runes v" by (simp add: map_idI)
    with v show ?thesis by (simp add: clean_def ToValidUTF8_id)
  qed
  with clean_props[OF assms, of v single] show ?thesis by (auto simp: plain_def)
qed

theorem clean_is_safe_witness:
  "clean ''abc'' 5 True = (''abc'', False) \<and> int (length (fst (clean ''abcdef'' 5 True))) \<le> 5"
proof -
  have "ValidString ''abc''" by code_simp
  moreover have "\<forall>c\<in>set ''abc''. 32 \<le> byte c" by simp
  ultimately show ?thesis using clean_is_safe[of 5 "''abc''" True] clean_is_safe[of 5 "''abcdef''" True] by simp
qed

text \<open>
  One dedup key per message: two messages share a key exactly when they are the same
  message of the same domain.
\<close>

theorem dedup_key_identifies:
  "InboundMessageDedupKey d m = InboundMessageDedupKey d' m' \<longleftrightarrow> d = d' \<and> m = m'"
proof
  assume eq: "InboundMessageDedupKey d m = InboundMessageDedupKey d' m'"
  have colon: "CHR '':'' \<notin> set (FormatInt i)" for i using FormatInt_chars[of "CHR '':''" i] by auto
  have take: "takeWhile (\<lambda>c. c \<noteq> CHR '':'') (InboundMessageDedupKey a b) = FormatInt a" for a b
  proof -
    have "\<forall>c\<in>set (FormatInt a). c \<noteq> CHR '':''" using colon by auto
    then show ?thesis by (simp add: InboundMessageDedupKey_def)
  qed
  then have "FormatInt d = FormatInt d'" using eq by metis
  moreover from this eq have "FormatInt m = FormatInt m'" by (simp add: InboundMessageDedupKey_def)
  ultimately show "d = d' \<and> m = m'" by (blast dest: FormatInt_inj)
qed simp

end
