(* ===== verification/Inbound_Pipeline.thy ===== *)
theory Inbound_Pipeline
  imports Mailbox_Sync Runtime_Store Outbox_Store Inbound_Event
begin

text \<open>
  The inbound pipeline of \<^verbatim>\<open>internal/inbound\<close>: an email is quarantined or parsed
  (\<^verbatim>\<open>quarantine.go\<close>, \<^verbatim>\<open>mime_handler.go\<close>), stored in one transaction (\<^verbatim>\<open>persistence.go\<close>), completed
  outside of it (\<^verbatim>\<open>completion.go\<close>, \<^verbatim>\<open>contacts.go\<close>) and announced through the outbox
  (\<^verbatim>\<open>outbox.go\<close>). The file storage, the contacts service, the identifier source and the MIME parser
  are arguments; every call of one of them is one observation of the world, so a service may
  answer differently each time. Logging is left out.
\<close>

section \<open>What the pipeline calls\<close>

record UploadRequest =
  ur_DomainID :: int
  ur_Name :: string
  ur_MimeType :: string
  ur_ReferenceID :: string
  ur_Content :: string

datatype Outcome = OutcomeNotFound | OutcomeResolved int | OutcomeAmbiguous

record services =
  sv_Parse :: "Message \<Rightarrow> error + ParsedEmail"
  sv_headerHints :: "string \<Rightarrow> string \<times> string \<times> string"
  sv_UploadFile :: "nat \<Rightarrow> UploadRequest \<Rightarrow> error + int"
  sv_ResolveByEmail :: "nat \<Rightarrow> int \<Rightarrow> string \<Rightarrow> error + Outcome"
  sv_newID :: "nat \<Rightarrow> error + uuid"
  sv_limits :: Limits
  sv_maxAttempts :: int

text \<open>The advisory lock orders transactions of one profile and changes no row.\<close>

definition LockEmailProfile :: "int \<Rightarrow> unit io" where
  "LockEmailProfile profileID = exec (\<lambda>now d. Inr ((), d))"

section \<open>Recording the event\<close>

definition EventWriter_Write :: "services \<Rightarrow> int \<Rightarrow> int \<Rightarrow> unit io" where
  "EventWriter_Write sv domainID messageID =
     bindM (exec (Message_Get domainID messageID)) (\<lambda>message.
     bindM (exec (Thread_Get domainID (em_ThreadID message))) (\<lambda>thread.
     if \<not> Eligible message thread then returnM ()
     else if em_State message \<noteq> EmailMessageStateReady then throwM (PlainError ''inbound event: not ready'')
     else
     bindM (exec (Recipient_List domainID (em_ID message))) (\<lambda>recipients.
     bindM (exec (Attachment_List domainID (em_ID message))) (\<lambda>parts.
     bindM (exec (FlowID domainID (em_ProfileID message))) (\<lambda>flowID.
     bindM (call (sv_newID sv)) (\<lambda>eventID.
     bindM timeNow (\<lambda>now.
     case NewInboundMessageOutboxEvent eventID \<lparr>is_OccurredAt = now, is_FlowID = flowID, is_Thread = thread,
            is_Message = message, is_Recipients = recipients, is_Attachments = parts\<rparr> (sv_limits sv) of
       Inl e \<Rightarrow> throwM e
     | Inr row \<Rightarrow> bindM (Append row) (\<lambda>inserted. returnM ()))))))))"

section \<open>Persisting\<close>

record storedMessage =
  sm_ID :: int
  sm_ThreadID :: int
  sm_ThreadKind :: EmailThreadKind
  sm_ContactResolution :: EmailContactResolutionState

definition needsContactResolution :: "storedMessage \<Rightarrow> bool" where
  "needsContactResolution m =
     (if sm_ThreadKind m \<noteq> EmailThreadKindRegular then False
      else sm_ContactResolution m = EmailContactResolutionPending \<or>
           sm_ContactResolution m = EmailContactResolutionUnavailable)"

text \<open>\<^verbatim>\<open>keepLastOccurrence\<close>: the last index of each value decides which copy is kept.\<close>

definition keepLastOccurrence :: "string list \<Rightarrow> string list" where
  "keepLastOccurrence values =
     (let strongest = fold (\<lambda>(i, v) m. m(v \<mapsto> i)) (List.enumerate 0 values) Map.empty
      in map snd (filter (\<lambda>(i, v). strongest v = Some i) (List.enumerate 0 values)))"

definition ancestorMessageIDs :: "ParsedEmail \<Rightarrow> string list" where
  "ancestorMessageIDs parsed = keepLastOccurrence
     (pe_References parsed @ (if pe_InReplyTo parsed \<noteq> '''' then [pe_InReplyTo parsed] else []) @
      (case pe_Bounce parsed of None \<Rightarrow> []
       | Some b \<Rightarrow> if bi_OriginalMessageID b \<noteq> '''' then [bi_OriginalMessageID b] else []))"

definition createThread :: "ParsedEmail \<Rightarrow> EmailThread io" where
  "createThread parsed =
     (let regular = pe_Kind parsed = EmailKindRegular
      in exec (Thread_Create \<lparr>th_ID = 0, th_DomainID = pe_DomainID parsed, th_ProfileID = pe_ProfileID parsed,
           th_ContactID = None,
           th_ContactResolutionState = (if regular then EmailContactResolutionPending else EmailContactResolutionNotApplicable),
           th_Kind = (if regular then EmailThreadKindRegular else EmailThreadKindService),
           th_Subject = pe_Subject parsed,
           th_Status = (if regular then EmailThreadStatusNew else EmailThreadStatusProcessed),
           th_LastMessageAt = None, th_CompletedAt = (if regular then None else Some (pe_ReceivedAt parsed)),
           th_CreatedAt = zero_time, th_UpdatedAt = zero_time\<rparr>))"

text \<open>One rule of the lookup order: its match decides, otherwise the next rule is tried.\<close>

definition orElse :: "EmailThread option io \<Rightarrow> EmailThread io \<Rightarrow> EmailThread io" where
  "orElse rule next = bindM rule (\<lambda>found. case found of Some t \<Rightarrow> returnM t | None \<Rightarrow> next)"

definition resolveThread :: "ParsedEmail \<Rightarrow> EmailThread io" where
  "resolveThread parsed =
     (let lookup = \<lparr>tl_DomainID = pe_DomainID parsed, tl_ProfileID = pe_ProfileID parsed,
                    tl_OnlyRegular = (pe_Kind parsed = EmailKindRegular)\<rparr>;
          ancestors = ancestorMessageIDs parsed
      in orElse (if ancestors \<noteq> [] then exec (LocateByMessageIDs lookup ancestors) else returnM None)
        (orElse (if pe_InReplyTo parsed \<noteq> '''' then exec (LocateByInReplyTo lookup (pe_InReplyTo parsed)) else returnM None)
        (orElse (if \<not> pe_MessageIDGenerated parsed then exec (LocateByInReplyTo lookup (pe_MessageID parsed)) else returnM None)
          (createThread parsed))))"

definition parsedIdentity :: "ParsedEmail \<Rightarrow> EmailIMAPIdentity" where
  "parsedIdentity parsed = \<lparr>ii_Mailbox = pe_Mailbox parsed, ii_UIDValidity = pe_UIDValidity parsed, ii_UID = pe_UID parsed\<rparr>"

definition locateStored :: "ParsedEmail \<Rightarrow> EmailMessageIdentity option io" where
  "locateStored parsed =
     bindM (exec (LocateByMessageID (pe_DomainID parsed) (pe_ProfileID parsed) (pe_MessageID parsed))) (\<lambda>byID.
     case byID of Some s \<Rightarrow> returnM (Some s) | None \<Rightarrow>
     bindM (if pe_Mailbox parsed \<noteq> '''' then exec (LocateByIMAPIdentity (pe_DomainID parsed) (pe_ProfileID parsed) (parsedIdentity parsed))
            else returnM None) (\<lambda>byPlace.
     case byPlace of Some s \<Rightarrow> returnM (Some s) | None \<Rightarrow>
     if \<not> pe_MessageIDGenerated parsed then returnM None
     else exec (LocateByRawChecksum (pe_DomainID parsed) (pe_ProfileID parsed) (pe_RawSHA256 parsed))))"

definition buildMessage :: "ParsedEmail \<Rightarrow> int \<Rightarrow> EmailMessageState \<Rightarrow> EmailMessage" where
  "buildMessage parsed threadID state =
     \<lparr>em_ID = 0, em_DomainID = pe_DomainID parsed, em_ThreadID = threadID, em_ProfileID = pe_ProfileID parsed,
      em_Direction = EmailMessageDirectionInbound, em_Kind = pe_Kind parsed, em_State = state,
      em_AttachmentAttempts = 0, em_MessageID = pe_MessageID parsed,
      em_MessageIDGenerated = pe_MessageIDGenerated parsed, em_RawSHA256 = pe_RawSHA256 parsed,
      em_IMAP = (if pe_Mailbox parsed \<noteq> '''' then Some (parsedIdentity parsed) else None),
      em_InReplyTo = pe_InReplyTo parsed, em_References = pe_References parsed, em_Subject = pe_Subject parsed,
      em_TextBody = pe_TextBody parsed, em_HTMLBody = pe_HTMLBody parsed, em_Bounce = pe_Bounce parsed,
      em_SentAt = pe_SentAt parsed, em_ReceivedAt = pe_ReceivedAt parsed, em_CreatedAt = zero_time,
      em_UpdatedAt = zero_time\<rparr>"

definition buildAttachments :: "ParsedEmail \<Rightarrow> EmailMessageAttachment list" where
  "buildAttachments parsed = map (\<lambda>(i, part).
     \<lparr>ma_ID = 0, ma_DomainID = pe_DomainID parsed, ma_MessageID = 0, ma_FileID = None,
      ma_ContentID = pa_ContentID part, ma_Disposition = pa_Disposition part, ma_FileName = pa_Name part,
      ma_MimeType = pa_ContentType part, ma_Size = pa_Size part, ma_Position = int i,
      ma_State = (if pa_SkippedReason part \<noteq> None then EmailAttachmentStateSkipped else EmailAttachmentStatePending),
      ma_SkippedReason = pa_SkippedReason part, ma_CreatedAt = zero_time, ma_UpdatedAt = zero_time\<rparr>)
     (List.enumerate 0 (pe_Parts parsed))"

definition hasPendingAttachments :: "EmailMessageAttachment list \<Rightarrow> bool" where
  "hasPendingAttachments as = list_ex (\<lambda>a. ma_State a = EmailAttachmentStatePending) as"

definition buildRecipients :: "ParsedEmail \<Rightarrow> EmailRecipient list" where
  "buildRecipients parsed =
     (let groups = [(EmailRecipientTypeFrom, pe_From parsed),
            (EmailRecipientTypeSender, case pe_Sender parsed of None \<Rightarrow> [] | Some s \<Rightarrow> [s]),
            (EmailRecipientTypeReplyTo, pe_ReplyTo parsed), (EmailRecipientTypeTo, pe_To parsed),
            (EmailRecipientTypeCc, pe_Cc parsed), (EmailRecipientTypeBcc, pe_Bcc parsed)]
      in concat (map (\<lambda>(kind, as). map (\<lambda>(i, a).
           \<lparr>er_ID = 0, er_DomainID = pe_DomainID parsed, er_MessageID = 0, er_Type = kind, er_Address = ea_Address a,
            er_NormalizedAddress = ea_NormalizedAddress a, er_DisplayName = ea_Name a, er_Ordinal = int i\<rparr>)
           (filter (\<lambda>(i, a). ea_Address a \<noteq> '''') (List.enumerate 0 as))) groups))"

text \<open>The state of a new message, and what \<^verbatim>\<open>persist\<close> writes after its row.\<close>

definition initialState :: "EmailMessageAttachment list \<Rightarrow> storedMessage \<Rightarrow> EmailMessageState" where
  "initialState parts unfinished =
     (if hasPendingAttachments parts \<or> needsContactResolution unfinished
      then EmailMessageStateProcessing else EmailMessageStateReady)"

definition persistParts ::
  "services \<Rightarrow> ParsedEmail \<Rightarrow> storedMessage \<Rightarrow> EmailMessage \<Rightarrow> storedMessage option io" where
  "persistParts sv parsed unfinished message =
     bindM (exec (Recipient_CreateBulk (pe_DomainID parsed) (em_ID message) (buildRecipients parsed))) (\<lambda>_.
     bindM (exec (Attachment_CreateBulk (pe_DomainID parsed) (em_ID message) (buildAttachments parsed))) (\<lambda>_.
     if initialState (buildAttachments parsed) unfinished = EmailMessageStateProcessing
     then returnM (Some (unfinished\<lparr>sm_ID := em_ID message\<rparr>))
     else
     bindM (exec (AdvanceLastMessage (pe_DomainID parsed) (pe_ProfileID parsed) (sm_ThreadID unfinished) (em_ReceivedAt message))) (\<lambda>_.
     bindM (EventWriter_Write sv (pe_DomainID parsed) (em_ID message)) (\<lambda>_. returnM None))))"

definition persist :: "services \<Rightarrow> ParsedEmail \<Rightarrow> storedMessage option io" where
  "persist sv parsed =
     bindM (resolveThread parsed) (\<lambda>thread.
     let unfinished = \<lparr>sm_ID = 0, sm_ThreadID = th_ID thread, sm_ThreadKind = th_Kind thread,
                       sm_ContactResolution = th_ContactResolutionState thread\<rparr>
     in
     bindM (exec (Message_Create (buildMessage parsed (th_ID thread) (initialState (buildAttachments parsed) unfinished))))
       (persistParts sv parsed unfinished))"

text \<open>The transaction of \<^verbatim>\<open>PersistenceHandler.Handle\<close>: the message it leaves unfinished, if any.\<close>

definition storeEmail :: "services \<Rightarrow> ParsedEmail \<Rightarrow> storedMessage option io" where
  "storeEmail sv parsed =
     bindM (LockEmailProfile (pe_ProfileID parsed)) (\<lambda>_.
     bindM (exec (EnsureEmailProfileAssignment (pe_Assignment parsed))) (\<lambda>_.
     bindM (locateStored parsed) (\<lambda>stored.
     case stored of
       Some s \<Rightarrow>
         if mi_State s = EmailMessageStateProcessing
         then returnM (Some \<lparr>sm_ID = mi_ID s, sm_ThreadID = mi_ThreadID s, sm_ThreadKind = mi_ThreadKind s,
                            sm_ContactResolution = mi_ContactResolution s\<rparr>)
         else returnM None
     | None \<Rightarrow> persist sv parsed)))"

section \<open>Completing\<close>

definition partContent :: "ParsedEmail \<Rightarrow> int \<Rightarrow> string option" where
  "partContent parsed position =
     (if position < 0 \<or> position \<ge> int (length (pe_Parts parsed)) then None
      else let part = pe_Parts parsed ! nat position
           in if pa_SkippedReason part \<noteq> None then None else pa_Content part)"

definition referenceID :: "int \<Rightarrow> int \<Rightarrow> string" where
  "referenceID messageID position = ''email-'' @ FormatInt messageID @ ''-'' @ FormatInt position"

definition firstAddress :: "EmailAddress list \<Rightarrow> string" where
  "firstAddress as = (case as of [] \<Rightarrow> '''' | a # _ \<Rightarrow> ea_Address a)"

definition quarantineMessage :: "ParsedEmail \<Rightarrow> storedMessage \<Rightarrow> string \<Rightarrow> unit io" where
  "quarantineMessage parsed message reason =
     bindM (exec (MarkFailed (pe_DomainID parsed) (sm_ID message))) (\<lambda>failed.
     if \<not> failed then returnM ()
     else exec (Record \<lparr>if_ID = 0, if_DomainID = pe_DomainID parsed, if_ProfileID = pe_ProfileID parsed,
            if_Mailbox = pe_Mailbox parsed, if_UIDValidity = pe_UIDValidity parsed, if_UID = pe_UID parsed,
            if_Category = InboundFailureAttachmentUpload, if_Reason = reason, if_Size = 0,
            if_MessageID = pe_MessageID parsed, if_Sender = firstAddress (pe_From parsed),
            if_Subject = pe_Subject parsed\<rparr>))"

definition failMessage :: "ParsedEmail \<Rightarrow> storedMessage \<Rightarrow> string \<Rightarrow> unit io" where
  "failMessage parsed message reason = WithinTransaction
     (bindM (exec (EnsureEmailProfileAssignment (pe_Assignment parsed))) (\<lambda>_.
      quarantineMessage parsed message reason))"

text \<open>The transaction of \<^verbatim>\<open>uploadFailed\<close> tells whether the attempts are exhausted.\<close>

definition countAttempt :: "services \<Rightarrow> ParsedEmail \<Rightarrow> storedMessage \<Rightarrow> bool io" where
  "countAttempt sv parsed message = WithinTransaction
     (bindM (exec (EnsureEmailProfileAssignment (pe_Assignment parsed))) (\<lambda>_.
      bindM (exec (IncrementAttachmentAttempts (pe_DomainID parsed) (sm_ID message))) (\<lambda>attempts.
      if attempts < sv_maxAttempts sv then returnM False
      else bindM (quarantineMessage parsed message ''attachment upload did not succeed within the allowed attempts'')
             (\<lambda>_. returnM True))))"

definition uploadFailed :: "services \<Rightarrow> ParsedEmail \<Rightarrow> storedMessage \<Rightarrow> error \<Rightarrow> unit io" where
  "uploadFailed sv parsed message uploadErr =
     bindM ctxErr (\<lambda>cancelled.
     if cancelled then throwM uploadErr
     else if uploadErr = ErrFileRejected
     then failMessage parsed message ''storage refused an attachment of this email''
     else bindM (countAttempt sv parsed message) (\<lambda>exhausted.
       if exhausted then returnM () else throwM uploadErr))"

definition markStored :: "ParsedEmail \<Rightarrow> storedMessage \<Rightarrow> int \<Rightarrow> int \<Rightarrow> unit io" where
  "markStored parsed message position fileID = WithinTransaction
     (bindM (exec (EnsureEmailProfileAssignment (pe_Assignment parsed))) (\<lambda>_.
      bindM (exec (MarkStored (pe_DomainID parsed) (sm_ID message) position fileID)) (\<lambda>stored.
      returnM ())))"

text \<open>
  The loop of \<^verbatim>\<open>Complete\<close> over the manifest: \<open>True\<close> when every pending part is stored,
  \<open>False\<close> when the message was given up on.
\<close>

fun storeParts :: "services \<Rightarrow> ParsedEmail \<Rightarrow> storedMessage \<Rightarrow> EmailMessageAttachment list \<Rightarrow> bool io" where
  "storeParts sv parsed message [] = returnM True"
| "storeParts sv parsed message (a # as) =
     (if ma_State a \<noteq> EmailAttachmentStatePending then storeParts sv parsed message as
      else
      bindM (exec (EnsureEmailProfileAssignment (pe_Assignment parsed))) (\<lambda>_.
      case partContent parsed (ma_Position a) of
        None \<Rightarrow> bindM (failMessage parsed message ''attachment part is no longer available in the email'')
                  (\<lambda>_. returnM False)
      | Some body \<Rightarrow>
          catchM (call (\<lambda>n. sv_UploadFile sv n \<lparr>ur_DomainID = pe_DomainID parsed, ur_Name = ma_FileName a,
                   ur_MimeType = ma_MimeType a, ur_ReferenceID = referenceID (sm_ID message) (ma_Position a),
                   ur_Content = body\<rparr>))
            (\<lambda>e. bindM (uploadFailed sv parsed message e) (\<lambda>_. returnM False))
            (\<lambda>fileID. bindM (markStored parsed message (ma_Position a) fileID) (\<lambda>_. storeParts sv parsed message as))))"

record contactResolution =
  cr_State :: EmailContactResolutionState
  cr_ContactID :: "int option"

definition resolveContact :: "services \<Rightarrow> ParsedEmail \<Rightarrow> storedMessage \<Rightarrow> contactResolution option io" where
  "resolveContact sv parsed message =
     (if \<not> needsContactResolution message then returnM None
      else
      bindM (exec (FirstSenderAddress (pe_DomainID parsed) (sm_ThreadID message))) (\<lambda>address.
      if address = '''' then returnM (Some \<lparr>cr_State = EmailContactResolutionNotFound, cr_ContactID = None\<rparr>)
      else catchM (call (\<lambda>n. sv_ResolveByEmail sv n (pe_DomainID parsed) address))
        (\<lambda>e. bindM ctxErr (\<lambda>cancelled. if cancelled then throwM e
           else returnM (Some \<lparr>cr_State = EmailContactResolutionUnavailable, cr_ContactID = None\<rparr>)))
        (\<lambda>outcome. returnM (Some (case outcome of
             OutcomeResolved contactID \<Rightarrow> \<lparr>cr_State = EmailContactResolutionResolved, cr_ContactID = Some contactID\<rparr>
           | OutcomeAmbiguous \<Rightarrow> \<lparr>cr_State = EmailContactResolutionAmbiguous, cr_ContactID = None\<rparr>
           | OutcomeNotFound \<Rightarrow> \<lparr>cr_State = EmailContactResolutionNotFound, cr_ContactID = None\<rparr>)))))"

definition storeResolution :: "ParsedEmail \<Rightarrow> storedMessage \<Rightarrow> contactResolution option \<Rightarrow> unit io" where
  "storeResolution parsed message resolution = (case resolution of
     None \<Rightarrow> returnM ()
   | Some r \<Rightarrow> bindM (exec (ResolveContact (pe_DomainID parsed) (sm_ThreadID message) (cr_State r) (cr_ContactID r)))
                 (\<lambda>applied. returnM ()))"

definition markReady :: "services \<Rightarrow> ParsedEmail \<Rightarrow> storedMessage \<Rightarrow> contactResolution option \<Rightarrow> unit io" where
  "markReady sv parsed message resolution = WithinTransaction
     (bindM (exec (EnsureEmailProfileAssignment (pe_Assignment parsed))) (\<lambda>_.
      bindM (storeResolution parsed message resolution) (\<lambda>_.
      bindM (exec (MarkReady (pe_DomainID parsed) (sm_ID message))) (\<lambda>state.
      if state = Some EmailMessageStateProcessing
      then throwM (PlainError ''email message still has pending attachments'')
      else if state \<noteq> Some EmailMessageStateReady then returnM ()
      else
      bindM (exec (AdvanceLastMessage (pe_DomainID parsed) (pe_ProfileID parsed) (sm_ThreadID message) (pe_ReceivedAt parsed))) (\<lambda>_.
      EventWriter_Write sv (pe_DomainID parsed) (sm_ID message))))))"

definition Complete :: "services \<Rightarrow> ParsedEmail \<Rightarrow> storedMessage \<Rightarrow> unit io" where
  "Complete sv parsed message =
     bindM (exec (Attachment_List (pe_DomainID parsed) (sm_ID message))) (\<lambda>parts.
     bindM (storeParts sv parsed message parts) (\<lambda>stored.
     if \<not> stored then returnM ()
     else bindM (resolveContact sv parsed message) (\<lambda>resolution. markReady sv parsed message resolution)))"

section \<open>The handlers\<close>

definition PersistenceHandler_Handle :: "services \<Rightarrow> ParsedEmail \<Rightarrow> unit io" where
  "PersistenceHandler_Handle sv parsed =
     bindM (WithinTransaction (storeEmail sv parsed)) (\<lambda>unfinished.
     case unfinished of None \<Rightarrow> returnM () | Some message \<Rightarrow> Complete sv parsed message)"

definition MIMEHandler_Handle :: "services \<Rightarrow> Message \<Rightarrow> unit io" where
  "MIMEHandler_Handle sv message = (case sv_Parse sv message of
     Inl e \<Rightarrow> throwM e | Inr parsed \<Rightarrow> PersistenceHandler_Handle sv parsed)"

definition categoryReason :: "InboundFailureCategory \<Rightarrow> string" where
  "categoryReason c = (case c of InboundFailureMIMEParse \<Rightarrow> ''failed to parse MIME message''
     | InboundFailureAttachmentUpload \<Rightarrow> ''failed to store attachments''
     | InboundFailureMessageTooLarge \<Rightarrow> ''message_too_large'')"

definition quarantineEmail :: "services \<Rightarrow> Message \<Rightarrow> InboundFailureCategory \<Rightarrow> string \<Rightarrow> unit io" where
  "quarantineEmail sv message category reason =
     (case sv_headerHints sv (msg_Raw message) of (messageID, sender, subject) \<Rightarrow>
       exec (Record \<lparr>if_ID = 0, if_DomainID = msg_DomainID message, if_ProfileID = msg_ProfileID message,
         if_Mailbox = msg_Mailbox message, if_UIDValidity = msg_UIDValidity message, if_UID = msg_UID message,
         if_Category = category, if_Reason = reason, if_Size = msg_Size message, if_MessageID = messageID,
         if_Sender = sender, if_Subject = subject\<rparr>))"

definition QuarantineHandler_Handle :: "services \<Rightarrow> handler" where
  "QuarantineHandler_Handle sv message =
     (if msg_TooLarge message
      then quarantineEmail sv message InboundFailureMessageTooLarge
             (''message size '' @ FormatInt (msg_Size message) @ '' exceeds the configured limit'')
      else catchM (MIMEHandler_Handle sv message)
        (\<lambda>e. case e of
             PermanentError category _ \<Rightarrow>
               bindM ctxErr (\<lambda>cancelled. if cancelled then throwM e
                 else quarantineEmail sv message category (categoryReason category))
           | _ \<Rightarrow> throwM e)
        returnM)"

end
