(* ===== verification/Inbox_Evolution.thy ===== *)
theory Inbox_Evolution
  imports Inbox_Store Outbox_Store Runtime_Store
begin

text \<open>
  How the inbox may change. Every statement the inbound pipeline runs, and so every program
  built from them, only moves the tables forward: a message keeps what identifies it and a
  finished one does not change at all, a quarantine record stays, a thread keeps its kind
  and a decided contact, and no outbox event disappears. The relation is reflexive and
  transitive and survives a rollback, so it holds for whole programs under any schedule of
  failures.
\<close>

section \<open>The relation\<close>

text \<open>What identifies a message, and what its state machine never touches.\<close>

definition core :: "EmailMessage \<Rightarrow> EmailMessage" where
  "core m = m\<lparr>em_State := EmailMessageStateProcessing, em_AttachmentAttempts := 0, em_UpdatedAt := 0\<rparr>"

definition finished :: "EmailMessage \<Rightarrow> bool" where
  "finished m \<longleftrightarrow> em_State m \<noteq> EmailMessageStateProcessing"

definition message_evolves :: "EmailMessage \<Rightarrow> EmailMessage \<Rightarrow> bool" where
  "message_evolves m m' \<longleftrightarrow> core m' = core m \<and> (finished m \<longrightarrow> m' = m) \<and> em_AttachmentAttempts m \<le> em_AttachmentAttempts m'"

definition thread_evolves :: "EmailThread \<Rightarrow> EmailThread \<Rightarrow> bool" where
  "thread_evolves t t' \<longleftrightarrow> th_ID t' = th_ID t \<and> th_DomainID t' = th_DomainID t \<and> th_ProfileID t' = th_ProfileID t \<and>
     th_Kind t' = th_Kind t \<and>
     (\<not> resolvable (th_ContactResolutionState t) \<longrightarrow>
        th_ContactResolutionState t' = th_ContactResolutionState t \<and> th_ContactID t' = th_ContactID t) \<and>
     (th_ContactResolutionState t \<noteq> EmailContactResolutionPending \<longrightarrow>
        th_ContactResolutionState t' \<noteq> EmailContactResolutionPending)"

text \<open>
  What the keys, the foreign keys and the checks of the tables promise together: an email is
  stored once, in a thread that exists and is valid.
\<close>

definition inbox_wf :: "db \<Rightarrow> bool" where
  "inbox_wf d \<longleftrightarrow> distinct (map em_ID (db_messages d)) \<and> distinct (map th_ID (db_threads d)) \<and>
     (\<forall>t\<in>set (db_threads d). thread_valid t) \<and>
     (\<forall>m\<in>set (db_messages d). \<exists>t\<in>set (db_threads d). same_thread m t) \<and>
     sorted_wrt (\<lambda>a b. \<not> same_identity b a) (db_messages d)"

definition inbox_evolves :: "db \<Rightarrow> db \<Rightarrow> bool" where
  "inbox_evolves d d' \<longleftrightarrow>
     (\<forall>m\<in>set (db_messages d). \<exists>m'\<in>set (db_messages d'). message_evolves m m') \<and>
     (\<forall>t\<in>set (db_threads d). \<exists>t'\<in>set (db_threads d'). thread_evolves t t') \<and>
     failure_key ` set (db_failures d) \<subseteq> failure_key ` set (db_failures d') \<and>
     set (db_outbox d) \<subseteq> set (db_outbox d') \<and>
     db_runtime d' = db_runtime d \<and> db_profiles d' = db_profiles d \<and> (inbox_wf d \<longrightarrow> inbox_wf d')"

lemma inbox_wf_other:
  "db_messages d' = db_messages d \<Longrightarrow> db_threads d' = db_threads d \<Longrightarrow> inbox_wf d' = inbox_wf d"
  by (simp add: inbox_wf_def)

lemma message_evolves_refl [simp]: "message_evolves m m"
  by (simp add: message_evolves_def)

lemma message_evolves_trans: "message_evolves a b \<Longrightarrow> message_evolves b c \<Longrightarrow> message_evolves a c"
  by (auto simp: message_evolves_def)

lemma thread_evolves_refl [simp]: "thread_evolves t t"
  by (simp add: thread_evolves_def)

lemma thread_evolves_trans: "thread_evolves a b \<Longrightarrow> thread_evolves b c \<Longrightarrow> thread_evolves a c"
  by (auto simp: thread_evolves_def)

lemma inbox_evolves_refl [simp]: "inbox_evolves d d"
  using message_evolves_refl thread_evolves_refl unfolding inbox_evolves_def by blast

lemma evolves_message: "inbox_evolves d d' \<Longrightarrow> m \<in> set (db_messages d) \<Longrightarrow> \<exists>m'\<in>set (db_messages d'). message_evolves m m'"
  and evolves_thread: "inbox_evolves d d' \<Longrightarrow> t \<in> set (db_threads d) \<Longrightarrow> \<exists>t'\<in>set (db_threads d'). thread_evolves t t'"
  and evolves_failures: "inbox_evolves d d' \<Longrightarrow> failure_key ` set (db_failures d) \<subseteq> failure_key ` set (db_failures d')"
  and evolves_outbox: "inbox_evolves d d' \<Longrightarrow> set (db_outbox d) \<subseteq> set (db_outbox d')"
  and evolves_runtime: "inbox_evolves d d' \<Longrightarrow> db_runtime d' = db_runtime d"
  and evolves_wf: "inbox_evolves d d' \<Longrightarrow> inbox_wf d \<Longrightarrow> inbox_wf d'"
  by (simp_all add: inbox_evolves_def)

lemma inbox_evolves_trans:
  assumes "inbox_evolves a b" and "inbox_evolves b c"
  shows "inbox_evolves a c"
proof -
  have "\<exists>m''\<in>set (db_messages c). message_evolves m m''" if "m \<in> set (db_messages a)" for m
    using evolves_message[OF assms(1) that] evolves_message[OF assms(2)] message_evolves_trans by blast
  moreover have "\<exists>t''\<in>set (db_threads c). thread_evolves t t''" if "t \<in> set (db_threads a)" for t
    using evolves_thread[OF assms(1) that] evolves_thread[OF assms(2)] thread_evolves_trans by blast
  moreover note subset_trans[OF evolves_failures[OF assms(1)] evolves_failures[OF assms(2)]]
    subset_trans[OF evolves_outbox[OF assms(1)] evolves_outbox[OF assms(2)]]
  ultimately show ?thesis using assms unfolding inbox_evolves_def by simp
qed

lemma inbox_evolves_rollback [simp]: "inbox_evolves d (rollback_to d d')"
  using inbox_evolves_refl[of d] inbox_wf_other[of "rollback_to d d'" d] unfolding inbox_evolves_def rollback_to_def by simp

lemma update_evolves:
  assumes "\<And>r. r \<in> set rs \<Longrightarrow> P r \<Longrightarrow> E r (f r)" and "\<And>r. E r r"
  shows "\<forall>r\<in>set rs. \<exists>r'\<in>set (update_where P f rs). E r r'"
  using assms by (induction rs) auto

lemma find_only: "r \<in> set xs \<Longrightarrow> P r \<Longrightarrow> (\<And>x. x \<in> set xs \<Longrightarrow> P x \<Longrightarrow> x = r) \<Longrightarrow> find P xs = Some r"
proof (induction xs)
  case (Cons a as)
  show ?case
  proof (cases "P a")
    case True
    then have "a = r" using Cons.prems(3) list.set_intros(1) by metis
    with True show ?thesis by simp
  next
    case False
    then have "r \<in> set as" using Cons.prems(1,2) by auto
    then have "find P as = Some r" using Cons.IH Cons.prems(2,3) list.set_intros(2) by metis
    with False show ?thesis by simp
  qed
qed simp

section \<open>Programs\<close>

definition evolves_io :: "'a io \<Rightarrow> bool" where
  "evolves_io m \<longleftrightarrow> (\<forall>w. inbox_evolves (w_db w) (w_db (snd (m w))))"

named_theorems evolve_intros \<open>programs that only move the inbox forward\<close>

lemma evolves_ioD: "evolves_io m \<Longrightarrow> m w = (r, w') \<Longrightarrow> inbox_evolves (w_db w) (w_db w')"
  unfolding evolves_io_def by (metis snd_conv)

lemma evolves_return [evolve_intros]: "evolves_io (returnM x)"
  by (simp add: evolves_io_def returnM_def)

lemma evolves_throw [evolve_intros]: "evolves_io (throwM e)"
  by (simp add: evolves_io_def throwM_def)

lemma evolves_ctxErr [evolve_intros]: "evolves_io ctxErr"
  by (simp add: evolves_io_def ctxErr_def)

lemma evolves_timeNow [evolve_intros]: "evolves_io timeNow"
  by (simp add: evolves_io_def timeNow_def)

lemma evolves_bind_value:
  assumes "evolves_io m" and "\<And>x w w'. m w = (Inr x, w') \<Longrightarrow> evolves_io (f x)"
  shows "evolves_io (bindM m f)"
  unfolding evolves_io_def
proof
  fix w
  obtain r w1 where m: "m w = (r, w1)" by fastforce
  note first = evolves_ioD[OF assms(1) m]
  show "inbox_evolves (w_db w) (w_db (snd (bindM m f w)))"
  proof (cases r)
    case (Inl e)
    with m first show ?thesis by (simp add: bindM_def)
  next
    case (Inr x)
    obtain r2 w2 where f: "f x w1 = (r2, w2)" by fastforce
    from evolves_ioD[OF assms(2)[OF m[unfolded Inr]] f] first m Inr f show ?thesis
      by (auto simp: bindM_def intro: inbox_evolves_trans)
  qed
qed

lemma evolves_bind [evolve_intros]: "evolves_io m \<Longrightarrow> (\<And>x. evolves_io (f x)) \<Longrightarrow> evolves_io (bindM m f)"
  by (rule evolves_bind_value)

lemma evolves_if [evolve_intros]: "evolves_io a \<Longrightarrow> evolves_io b \<Longrightarrow> evolves_io (if c then a else b)"
  by simp

lemma evolves_option [evolve_intros]:
  "evolves_io a \<Longrightarrow> (\<And>x. evolves_io (b x)) \<Longrightarrow> evolves_io (case m of None \<Rightarrow> a | Some x \<Rightarrow> b x)"
  by (cases m) auto

lemma evolves_sum [evolve_intros]:
  "(\<And>x. evolves_io (a x)) \<Longrightarrow> (\<And>x. evolves_io (b x)) \<Longrightarrow> evolves_io (case m of Inl x \<Rightarrow> a x | Inr x \<Rightarrow> b x)"
  by (cases m) auto

lemma evolves_exec:
  assumes "\<And>now d x d'. s now d = Inr (x, d') \<Longrightarrow> inbox_evolves d d'"
  shows "evolves_io (exec s)"
  unfolding evolves_io_def using exec_db[of s] assms by (metis inbox_evolves_refl)

lemma evolves_tx [evolve_intros]:
  assumes "evolves_io body"
  shows "evolves_io (WithinTransaction body)"
  unfolding evolves_io_def
proof
  fix w
  have body: "inbox_evolves (w_db v) (w_db (snd (body v)))" for v using assms by (simp add: evolves_io_def)
  show "inbox_evolves (w_db w) (w_db (snd (WithinTransaction body w)))"
    using body[of w] body[of "(tick w)\<lparr>w_tx := Some (w_clock w (w_step w))\<rparr>"]
    by (auto simp: WithinTransaction_def Let_def split: option.splits prod.splits sum.splits)
qed

section \<open>Statements\<close>

text \<open>A statement that only reads.\<close>

lemma evolves_read:
  assumes "\<And>now d x d'. s now d = Inr (x, d') \<Longrightarrow> d' = d"
  shows "evolves_io (exec s)"
  using assms by (intro evolves_exec) fastforce

lemma reads [evolve_intros]:
  "evolves_io (exec (Message_Get did i))" "evolves_io (exec (Thread_Get did i))"
  "evolves_io (exec (Recipient_List did i))" "evolves_io (exec (Attachment_List did i))"
  "evolves_io (exec (FlowID did i))" "evolves_io (exec (EnsureEmailProfileAssignment a))"
  "evolves_io (exec (LocateByMessageIDs lk ids))" "evolves_io (exec (LocateByInReplyTo lk r))"
  "evolves_io (exec (LocateByMessageID did p mid))" "evolves_io (exec (LocateByIMAPIdentity did p ident))"
  "evolves_io (exec (LocateByRawChecksum did p sha))" "evolves_io (exec (FirstSenderAddress did i))"
  by (rule evolves_read, simp add: Message_Get_def Thread_Get_def Recipient_List_def Attachment_List_def FlowID_def
      EnsureEmailProfileAssignment_def LocateByMessageIDs_def LocateByInReplyTo_def LocateByMessageID_def
      LocateByIMAPIdentity_def LocateByRawChecksum_def locateIdentity_def FirstSenderAddress_def
      split: option.splits if_splits list.splits)+

lemma inbox_evolves_messages:
  assumes "\<forall>m\<in>set (db_messages d). \<exists>m'\<in>set ms. message_evolves m m'" and "inbox_wf d \<Longrightarrow> inbox_wf (d\<lparr>db_messages := ms\<rparr>)"
  shows "inbox_evolves d (d\<lparr>db_messages := ms\<rparr>)"
  using assms unfolding inbox_evolves_def by (auto intro: bexI[of "thread_evolves _", OF thread_evolves_refl])

lemma inbox_evolves_threads:
  assumes "\<forall>t\<in>set (db_threads d). \<exists>t'\<in>set ts. thread_evolves t t'" and "inbox_wf d \<Longrightarrow> inbox_wf (d\<lparr>db_threads := ts\<rparr>)"
  shows "inbox_evolves d (d\<lparr>db_threads := ts\<rparr>)"
  using assms unfolding inbox_evolves_def by (auto intro: bexI[of "message_evolves _", OF message_evolves_refl])

lemma core_simps [simp]:
  "em_ID (core m) = em_ID m" "em_DomainID (core m) = em_DomainID m" "em_ProfileID (core m) = em_ProfileID m"
  "same_thread (core m) t = same_thread m t" "same_identity (core a) (core b) = same_identity a b"
  by (simp_all add: core_def same_thread_def same_identity_def)

lemma wf_messages:
  assumes "map core ms = map core (db_messages d)" and "inbox_wf d"
  shows "inbox_wf (d\<lparr>db_messages := ms\<rparr>)"
proof -
  have ids: "map em_ID ms = map em_ID (db_messages d)"
    using arg_cong[OF assms(1), of "map em_ID"] by (simp add: comp_def)
  have "\<exists>t\<in>set (db_threads d). same_thread m t" if "m \<in> set ms" for m
  proof -
    from that have "core m \<in> set (map core (db_messages d))" unfolding assms(1)[symmetric] by simp
    then obtain m0 where "m0 \<in> set (db_messages d)" "core m = core m0" by auto
    then show ?thesis using assms(2) unfolding inbox_wf_def by (metis core_simps(4))
  qed
  moreover have "sorted_wrt (\<lambda>a b. \<not> same_identity b a) (map core ms)"
    unfolding assms(1) using assms(2) by (simp add: inbox_wf_def sorted_wrt_map)
  ultimately show ?thesis using assms(2) ids by (simp add: inbox_wf_def sorted_wrt_map)
qed

lemma wf_threads:
  assumes "map (\<lambda>t. (th_ID t, th_DomainID t, th_ProfileID t)) ts = map (\<lambda>t. (th_ID t, th_DomainID t, th_ProfileID t)) (db_threads d)"
    and "\<forall>t\<in>set ts. thread_valid t" and "inbox_wf d"
  shows "inbox_wf (d\<lparr>db_threads := ts\<rparr>)"
proof -
  let ?key = "\<lambda>t. (th_ID t, th_DomainID t, th_ProfileID t)"
  have ids: "map th_ID ts = map th_ID (db_threads d)"
    using arg_cong[OF assms(1), of "map fst"] by (simp add: comp_def)
  have "\<exists>t\<in>set ts. same_thread m t" if "m \<in> set (db_messages d)" for m
  proof -
    from that assms(3) obtain t where t: "t \<in> set (db_threads d)" "same_thread m t" by (auto simp: inbox_wf_def)
    from t(1) have "?key t \<in> set (map ?key ts)" unfolding assms(1) by auto
    then obtain t' where "t' \<in> set ts" "?key t = ?key t'" by auto
    with t(2) show ?thesis by (auto simp: same_thread_def)
  qed
  with assms ids show ?thesis by (simp add: inbox_wf_def)
qed

lemma inbox_evolves_seq: "inbox_evolves d d' \<Longrightarrow> inbox_evolves d (d'\<lparr>db_seq := s\<rparr>)"
  by (simp add: inbox_evolves_def inbox_wf_def)

lemma evolves_Thread_Create [evolve_intros]: "evolves_io (exec (Thread_Create t))"
proof (rule evolves_exec)
  fix now d x d'
  assume "Thread_Create t now d = Inr (x, d')"
  then have "d' = d\<lparr>db_threads := db_threads d @ [x]\<rparr>\<lparr>db_seq := db_seq d'\<rparr>"
    and x: "thread_valid x" "th_ID x \<notin> th_ID ` set (db_threads d)"
    by (auto simp: Thread_Create_def Let_def split: if_splits)
  moreover have "inbox_wf d \<Longrightarrow> inbox_wf (d\<lparr>db_threads := db_threads d @ [x]\<rparr>)"
    using x by (auto simp: inbox_wf_def)
  then have "inbox_evolves d (d\<lparr>db_threads := db_threads d @ [x]\<rparr>)"
    by (intro inbox_evolves_threads) (auto intro: bexI[rotated])
  ultimately show "inbox_evolves d d'" using inbox_evolves_seq by metis
qed

lemma evolves_Message_Create [evolve_intros]: "evolves_io (exec (Message_Create m))"
proof (rule evolves_exec)
  fix now d x d'
  assume "Message_Create m now d = Inr (x, d')"
  then have "d' = d\<lparr>db_messages := db_messages d @ [x]\<rparr>\<lparr>db_seq := db_seq d'\<rparr>"
    and x: "em_ID x \<notin> em_ID ` set (db_messages d)" "\<forall>m\<in>set (db_messages d). \<not> same_identity x m"
      "\<exists>t\<in>set (db_threads d). same_thread x t"
    by (auto simp: Message_Create_def Let_def split: if_splits)
  moreover have "inbox_wf d \<Longrightarrow> inbox_wf (d\<lparr>db_messages := db_messages d @ [x]\<rparr>)"
    using x by (auto simp: inbox_wf_def sorted_wrt_append)
  then have "inbox_evolves d (d\<lparr>db_messages := db_messages d @ [x]\<rparr>)"
    by (intro inbox_evolves_messages) (auto intro: bexI[rotated])
  ultimately show "inbox_evolves d d'" using inbox_evolves_seq by metis
qed

lemma update_threads_evolves:
  assumes "update_threads P f d = Inr (n, d')" and "\<And>t. P t \<Longrightarrow> thread_evolves t (f t)"
  shows "inbox_evolves d d'"
proof -
  from assms(1) have d': "d' = d\<lparr>db_threads := update_where P f (db_threads d)\<rparr>"
    by (auto simp: update_threads_def split: if_splits)
  from assms(1) have valid: "\<forall>t\<in>set (db_threads d). P t \<longrightarrow> thread_valid (f t)"
    by (auto simp: update_threads_def split: if_splits)
  have wf: "inbox_wf d \<Longrightarrow> inbox_wf (d\<lparr>db_threads := update_where P f (db_threads d)\<rparr>)"
    using valid assms(2) by (intro wf_threads map_update_where)
      (auto simp: thread_evolves_def inbox_wf_def set_update_where)
  show ?thesis unfolding d'
    by (intro inbox_evolves_threads update_evolves wf) (simp_all add: assms(2))
qed

lemma evolves_AdvanceLastMessage [evolve_intros]: "evolves_io (exec (AdvanceLastMessage did p i at))"
  by (rule evolves_exec)
     (auto simp: AdvanceLastMessage_def thread_evolves_def split: sum.splits intro!: update_threads_evolves)

lemma evolves_ResolveContact:
  assumes "s \<noteq> EmailContactResolutionPending"
  shows "evolves_io (exec (ResolveContact did i s c))"
  using assms by (intro evolves_exec)
    (auto simp: ResolveContact_def thread_evolves_def split: sum.splits intro!: update_threads_evolves)

lemma SetContactManually_keeps_kind:
  assumes "SetContactManually did i c now d = Inr (b, d')"
  shows "map (\<lambda>t. (th_ID t, th_Kind t)) (db_threads d') = map (\<lambda>t. (th_ID t, th_Kind t)) (db_threads d)"
  using assms by (auto simp: SetContactManually_def update_threads_def update_where_def split: sum.splits if_splits)

lemma update_messages_evolves:
  assumes "\<And>m. P m \<Longrightarrow> em_State m = EmailMessageStateProcessing" and "\<And>m. P m \<Longrightarrow> core (f m) = core m"
    and "\<And>m. P m \<Longrightarrow> em_AttachmentAttempts m \<le> em_AttachmentAttempts (f m)"
  shows "inbox_evolves d (d\<lparr>db_messages := update_where P f (db_messages d)\<rparr>)"
  using assms by (intro inbox_evolves_messages update_evolves wf_messages map_update_where)
    (simp_all add: message_evolves_def finished_def)

lemma evolves_MarkReady [evolve_intros]: "evolves_io (exec (MarkReady did i))"
  by (rule evolves_exec)
     (auto simp: MarkReady_def Let_def core_def split: if_splits intro!: update_messages_evolves)

lemma evolves_MarkFailed [evolve_intros]: "evolves_io (exec (MarkFailed did i))"
  by (rule evolves_exec)
     (auto simp: MarkFailed_def processingMessage_def core_def intro!: update_messages_evolves)

lemma evolves_IncrementAttachmentAttempts [evolve_intros]: "evolves_io (exec (IncrementAttachmentAttempts did i))"
  by (rule evolves_exec)
     (auto simp: IncrementAttachmentAttempts_def processingMessage_def core_def split: option.splits
       intro!: update_messages_evolves)

text \<open>Recipients and attachments are not part of the relation.\<close>

lemma inbox_evolves_other:
  assumes "db_messages d' = db_messages d" "db_threads d' = db_threads d" "db_failures d' = db_failures d"
    "db_outbox d' = db_outbox d" "db_runtime d' = db_runtime d" "db_profiles d' = db_profiles d"
  shows "inbox_evolves d d'"
  using inbox_evolves_refl[of d] inbox_wf_other[of d' d] unfolding inbox_evolves_def by (simp add: assms)

lemma evolves_Recipient_CreateBulk [evolve_intros]: "evolves_io (exec (Recipient_CreateBulk did i rs))"
  by (rule evolves_exec) (auto simp: Recipient_CreateBulk_def Let_def split: if_splits intro!: inbox_evolves_other)

lemma evolves_Attachment_CreateBulk [evolve_intros]: "evolves_io (exec (Attachment_CreateBulk did i as))"
  by (rule evolves_exec) (auto simp: Attachment_CreateBulk_def Let_def split: if_splits intro!: inbox_evolves_other)

lemma evolves_MarkStored [evolve_intros]: "evolves_io (exec (MarkStored did i pos f))"
  by (rule evolves_exec) (auto simp: MarkStored_def intro!: inbox_evolves_other)

lemma Record_failures:
  assumes "Record f now d = Inr (u, d')"
  shows "failure_key f \<in> failure_key ` set (db_failures d')"
    and "failure_key ` set (db_failures d) \<subseteq> failure_key ` set (db_failures d')"
    and "d' = d\<lparr>db_failures := db_failures d', db_seq := db_seq d'\<rparr>"
proof -
  let ?upd = "\<lambda>g. g\<lparr>if_Category := if_Category f, if_Reason := if_Reason f,
     if_Size := (if if_Size f > 0 then if_Size f else 0), if_MessageID := if_MessageID f, if_Sender := if_Sender f, if_Subject := if_Subject f\<rparr>"
  have key: "failure_key (f\<lparr>if_Size := s\<rparr>) = failure_key f" "failure_key (f\<lparr>if_Size := s, if_ID := i\<rparr>) = failure_key f"
    "failure_key (?upd g) = failure_key g" for s i g
    by (simp_all add: failure_key_def)
  have keys: "map failure_key (update_where P ?upd gs) = map failure_key gs" for P gs
    by (rule map_update_where) (simp add: key)
  have same: "failure_key ` set (update_where P ?upd gs) = failure_key ` set gs" for P gs
    using keys[of P gs] by (metis set_map)
  define size where "size = (if if_Size f > 0 then if_Size f else 0)"
  have run: "Record f now d =
    (if sql_trim (if_Mailbox f) = '''' \<or> if_UIDValidity f = 0 \<or> if_UID f = 0 then Inl (constraintError ''inbound_failure_check'')
     else if \<exists>g\<in>set (db_failures d). failure_key g = failure_key f
     then Inr ((), d\<lparr>db_failures := update_where (\<lambda>g. failure_key g = failure_key f) ?upd (db_failures d)\<rparr>)
     else if \<not> profile_exists d (if_DomainID f) (if_ProfileID f) then Inl (constraintError ''inbound_failure_profile_fk'')
     else Inr ((), d\<lparr>db_failures := db_failures d @ [f\<lparr>if_Size := size, if_ID := sq_failure (db_seq d)\<rparr>],
            db_seq := (db_seq d)\<lparr>sq_failure := sq_failure (db_seq d) + 1\<rparr>\<rparr>))"
    unfolding size_def Record_def Let_def by (simp add: key)
  consider (update) "failure_key f \<in> failure_key ` set (db_failures d)"
      "d' = d\<lparr>db_failures := update_where (\<lambda>g. failure_key g = failure_key f) ?upd (db_failures d)\<rparr>"
    | (insert) i q where "d' = d\<lparr>db_failures := db_failures d @ [f\<lparr>if_Size := size, if_ID := i\<rparr>], db_seq := q\<rparr>"
  proof (cases "\<exists>g\<in>set (db_failures d). failure_key g = failure_key f")
    case True
    then have "failure_key f \<in> failure_key ` set (db_failures d)" by (metis image_eqI)
    moreover from assms True have
      "d' = d\<lparr>db_failures := update_where (\<lambda>g. failure_key g = failure_key f) ?upd (db_failures d)\<rparr>"
      unfolding run by (auto split: if_splits)
    ultimately show ?thesis by (rule update)
  next
    case False
    with assms have "d' = d\<lparr>db_failures := db_failures d @ [f\<lparr>if_Size := size, if_ID := sq_failure (db_seq d)\<rparr>],
        db_seq := (db_seq d)\<lparr>sq_failure := sq_failure (db_seq d) + 1\<rparr>\<rparr>"
      unfolding run by (auto split: if_splits)
    then show ?thesis by (rule insert)
  qed
  note records = this
  show "failure_key f \<in> failure_key ` set (db_failures d')"
    by (cases rule: records) (simp_all add: same key)
  show "failure_key ` set (db_failures d) \<subseteq> failure_key ` set (db_failures d')"
    by (cases rule: records) (auto simp: same)
  show "d' = d\<lparr>db_failures := db_failures d', db_seq := db_seq d'\<rparr>"
    by (cases rule: records) simp_all
qed

lemma evolves_Record [evolve_intros]: "evolves_io (exec (Record f))"
proof (rule evolves_exec)
  fix now d x d'
  assume r: "Record f now d = Inr (x, d')"
  note R = Record_failures[OF r]
  have "inbox_evolves d (d\<lparr>db_failures := db_failures d', db_seq := db_seq d'\<rparr>)"
    using inbox_evolves_refl[of d] R(2) unfolding inbox_evolves_def by (simp add: inbox_wf_def)
  then show "inbox_evolves d d'" using R(3) by simp
qed

lemma evolves_Append [evolve_intros]: "evolves_io (Append ev)"
proof -
  have "evolves_io (exec (insertOutbox ev))"
  proof (rule evolves_exec)
    fix now d x d'
    assume "insertOutbox ev now d = Inr (x, d')"
    then have "d' = d \<or> d' = d\<lparr>db_outbox := db_outbox d @ [pending_row ev now]\<rparr>"
      by (auto simp: insertOutbox_def split: if_splits)
    then show "inbox_evolves d d'" using inbox_evolves_refl[of d] unfolding inbox_evolves_def by (auto simp: inbox_wf_def)
  qed
  then show ?thesis unfolding evolves_io_def Append_def by (auto split: option.splits)
qed

end
