(* ===== verification/Sync_Delivery.thy ===== *)
theory Sync_Delivery
  imports Mailbox_Sync
begin

text \<open>
  One sync as a whole. It continues where the stored cursor stands: it polls new messages,
  resumes a recovery, or starts one when UIDVALIDITY has changed. For every handler that
  keeps the contract \<open>confirming_handler\<close>, whichever of the three it was, no message
  the new cursor has passed is left unhandled.
\<close>

section \<open>What a portion of a recovery returns\<close>

lemma finishRecovery_fields [simp]:
  "cur_Mailbox (finishRecovery c r) = cur_Mailbox c" "cur_UIDValidity (finishRecovery c r) = cur_UIDValidity c"
  "cur_LastUID (finishRecovery c r) = rec_ToUID r" "cur_Recovery (finishRecovery c r) = None"
  by (simp_all add: finishRecovery_def)

lemma recover_result:
  assumes "search_contract zn env msgs"
    and "recover cfg env handle p a seq c r w = Some (res, seq', w')" and "sr_cursor res = imapCursor c'"
  shows "cur_Mailbox c' = cur_Mailbox c \<and> cur_UIDValidity c' = cur_UIDValidity c \<and>
    (cur_LastUID c < cur_LastUID c' \<longrightarrow> cur_LastUID c' \<le> rec_ToUID r)"
  using assms
proof (cases rule: recover_cases)
  case (delivered uids k dates h w1 w2)
  let ?S = "{u \<in> matching zn msgs (rec_Since r). cur_LastUID c < u \<and> u \<le> rec_ToUID r}"
  have uids: "set uids \<subseteq> ?S" using delivered(1) by (auto dest: in_set_takeD)
  have "cur_LastUID (advanceConfirmed c uids h) \<in> insert (cur_LastUID c) (set uids)"
    using uids delivered(1) by (intro advanceConfirmed_covers(4)) (auto simp: sorted_wrt_take)
  with uids delivered(4) show ?thesis by auto
qed simp_all

section \<open>Which way a sync goes\<close>

lemma LastReceivedAt_tick:
  assumes "exec (LastReceivedAt dm p) w = (Inr t, w')"
  shows "w' = tick w"
  using exec_Inr[OF assms] by (auto simp: LastReceivedAt_def Let_def)

lemma lastUID_ticks: "lastUID env mailbox w = (x, w') \<Longrightarrow> \<exists>n. w' = (tick ^^ n) w"
  by (auto simp: lastUID_def SearchUIDsRange_def split: if_splits sum.splits
      intro: exI[of _ "0 :: nat"] exI[of _ "Suc 0"])

lemma Examine_tick: "Examine env name w = (x, w') \<Longrightarrow> w' = tick w"
  by (auto simp: Examine_def split: sum.splits)

lemma Examine_name: "Examine env name w = (Inr mailbox, w') \<Longrightarrow> mb_Name mailbox = name"
  by (auto simp: Examine_def split: sum.splits)

text \<open>The tail of a sync that found another UIDVALIDITY.\<close>

definition restart_from :: "sync_config \<Rightarrow> imap_env \<Rightarrow> handler \<Rightarrow> EmailProfile \<Rightarrow> EmailProfileAssignment \<Rightarrow>
    bool \<Rightarrow> IMAPCursor \<Rightarrow> world \<Rightarrow> (syncResult \<times> bool \<times> world) option" where
  "restart_from cfg env handle p a seq c0 w = (case cur_Recovery c0 of
     None \<Rightarrow> Some (cursorOnly c0, seq, w) | Some r \<Rightarrow> recover cfg env handle p a seq c0 r w)"

lemma sync_restarts:
  assumes "sync cfg env handle p a seq (Some pc) w = Some (res, seq', w')" and "pc_IMAP pc = Some c"
    and "sr_cursor res \<noteq> None" and "Examine env (ep_Mailbox p) w = (Inr mailbox, w1)"
    and "cur_Mailbox c = mb_Name mailbox" and "cur_UIDValidity c \<noteq> mb_UIDValidity mailbox"
  shows "\<exists>final n checkpoint. restart_from cfg env handle p a seq (startRecovery mailbox final checkpoint) ((tick ^^ n) w)
      = Some (res, seq', w') \<and> (\<not> IsZero (recoveryCheckpoint c) \<longrightarrow> checkpoint = recoveryCheckpoint c)"
proof -
  obtain x w2 where last: "lastUID env mailbox w1 = (x, w2)" by fastforce
  let ?check = "if IsZero (recoveryCheckpoint c) then exec (LastReceivedAt (ep_DomainID p) (ep_ID p)) w2
    else (Inr (recoveryCheckpoint c), w2)"
  obtain y w3 where check: "?check = (y, w3)" by fastforce
  from assms last check have run: "(case x of
      Inl e \<Rightarrow> Some (imapFailed None e, seq, w2)
    | Inr final \<Rightarrow> (case y of
        Inl e \<Rightarrow> Some (\<lparr>sr_cursor = None, sr_more = False, sr_imapErr = None, sr_handlerErr = Some e\<rparr>, seq, w3)
      | Inr checkpoint \<Rightarrow> restart_from cfg env handle p a seq (startRecovery mailbox final checkpoint) w3)) = Some (res, seq', w')"
    by (simp add: sync_def restart_from_def Let_def split: sum.splits)
  with assms(3) obtain final checkpoint where xy: "x = Inr final" "y = Inr checkpoint"
    and restart: "restart_from cfg env handle p a seq (startRecovery mailbox final checkpoint) w3 = Some (res, seq', w')"
    by (auto simp: imapFailed_def split: sum.splits)
  have "w3 = w2 \<or> w3 = tick w2" using check xy(2) LastReceivedAt_tick by (auto split: if_splits)
  moreover obtain n where "w2 = (tick ^^ n) (tick w)" using lastUID_ticks[OF last] Examine_tick[OF assms(4)] by blast
  then have "w2 = (tick ^^ Suc n) w" "tick w2 = (tick ^^ Suc (Suc n)) w" by (simp_all add: funpow_swap1)
  ultimately have "\<exists>k. w3 = (tick ^^ k) w" by metis
  moreover have "\<not> IsZero (recoveryCheckpoint c) \<longrightarrow> checkpoint = recoveryCheckpoint c"
    using check xy(2) by auto
  ultimately show ?thesis using restart by blast
qed

lemma sync_continues:
  assumes "sync cfg env handle p a seq (Some pc) w = Some (res, seq', w')" and "pc_IMAP pc = Some c"
    and "Examine env (ep_Mailbox p) w = (Inr mailbox, w1)"
    and "cur_Mailbox c = mb_Name mailbox" and "cur_UIDValidity c = mb_UIDValidity mailbox"
  shows "(case cur_Recovery c of Some r \<Rightarrow> recover cfg env handle p a seq c r (tick w)
      | None \<Rightarrow> pollNew cfg env handle p a seq mailbox c (tick w)) = Some (res, seq', w')"
  using assms Examine_tick[OF assms(3)] by (simp add: sync_def split: option.splits)

text \<open>The cursor a sync returns tells which way it went.\<close>

lemma startRecovery_fields [simp]:
  "cur_Mailbox (startRecovery mailbox final t) = mb_Name mailbox"
  "cur_UIDValidity (startRecovery mailbox final t) = mb_UIDValidity mailbox"
  by (simp_all add: startRecovery_def)

lemma restart_from_fields:
  assumes "search_contract zn env msgs" and "restart_from cfg env handle p a seq c0 w = Some (res, seq', w')"
    and "sr_cursor res = imapCursor c'"
  shows "cur_Mailbox c' = cur_Mailbox c0 \<and> cur_UIDValidity c' = cur_UIDValidity c0"
proof (cases "cur_Recovery c0")
  case None
  with assms(2,3) show ?thesis by (auto simp: restart_from_def cursorOnly_def imapCursor_def)
next
  case (Some r)
  with assms(2) have "recover cfg env handle p a seq c0 r w = Some (res, seq', w')" by (simp add: restart_from_def)
  from recover_result[OF assms(1) this assms(3)] show ?thesis by simp
qed

lemma pollNew_fields:
  assumes "search_contract zn env msgs" and "pollNew cfg env handle p a seq mailbox c w = Some (res, seq', w')"
    and "sr_cursor res = imapCursor c'"
  shows "cur_UIDValidity c' = cur_UIDValidity c"
  using assms by (cases rule: pollNew_cases) simp_all

lemma sync_examined:
  assumes "search_contract zn env msgs"
    and "sync cfg env handle p a seq (Some pc) w = Some (res, seq', w')" and "pc_IMAP pc = Some c"
    and "sr_cursor res = imapCursor c'" and "cur_Mailbox c' = cur_Mailbox c"
  shows "\<exists>mailbox w1. Examine env (ep_Mailbox p) w = (Inr mailbox, w1) \<and> cur_Mailbox c = mb_Name mailbox \<and>
    (cur_UIDValidity c = mb_UIDValidity mailbox \<longleftrightarrow> cur_UIDValidity c' = cur_UIDValidity c)"
proof -
  obtain x w1 where ex: "Examine env (ep_Mailbox p) w = (x, w1)" by fastforce
  show ?thesis
  proof (cases x)
    case (Inl e)
    with assms(2-4) ex show ?thesis by (auto simp: sync_def imapFailed_def imapCursor_def)
  next
    case (Inr mailbox)
    have name: "cur_Mailbox c = mb_Name mailbox"
    proof (rule ccontr)
      assume "cur_Mailbox c \<noteq> mb_Name mailbox"
      with assms(2-5) ex Inr show False
        by (auto simp: sync_def imapFailed_def cursorOnly_def imapCursor_def split: prod.splits sum.splits)
    qed
    have "cur_UIDValidity c' = cur_UIDValidity c" if v: "cur_UIDValidity c = mb_UIDValidity mailbox"
      using sync_continues[OF assms(2,3) ex[unfolded Inr] name v] pollNew_fields[OF assms(1) _ assms(4)]
        recover_result[OF assms(1) _ assms(4)] by (cases "cur_Recovery c") simp_all
    moreover have "cur_UIDValidity c' = mb_UIDValidity mailbox" if v: "cur_UIDValidity c \<noteq> mb_UIDValidity mailbox"
    proof -
      have "sr_cursor res \<noteq> None" using assms(4) by (simp add: imapCursor_def)
      from sync_restarts[OF assms(2,3) this ex[unfolded Inr] name v] restart_from_fields[OF assms(1) _ assms(4)]
      show ?thesis by (metis startRecovery_fields(2))
    qed
    ultimately have "cur_UIDValidity c = mb_UIDValidity mailbox \<longleftrightarrow> cur_UIDValidity c' = cur_UIDValidity c" by metis
    with ex Inr name show ?thesis by blast
  qed
qed

section \<open>Nothing is left behind\<close>

context confirming_handler
begin

lemma sync_no_skip:
  assumes "search_contract zn env msgs" and "fetch_contract env (sc_MaxMessageSize cfg) msgs" and "uids_ok msgs" and "inv w"
    and "sync cfg env handle p a seq (Some pc) w = Some (res, seq', w')" and "pc_IMAP pc = Some c"
    and "sr_cursor res = imapCursor c'" and "cur_Mailbox c' = cur_Mailbox c" "cur_UIDValidity c' = cur_UIDValidity c"
    and "cur_Recovery c = None" and "cur_LastUID c < u" "u \<le> cur_LastUID c'" "msgs u = Some m"
  shows "done_at (message_of p a c' m) w'"
proof -
  from sync_examined[OF assms(1,5-8)] assms(9) obtain mailbox w1 where
    "Examine env (ep_Mailbox p) w = (Inr mailbox, w1)" "cur_Mailbox c = mb_Name mailbox" "cur_UIDValidity c = mb_UIDValidity mailbox"
    by auto
  from sync_continues[OF assms(5,6) this] assms(10)
  have "pollNew cfg env handle p a seq mailbox c (tick w) = Some (res, seq', w')" by simp
  from pollNew_no_skip[OF assms(1-3) this assms(7,11-13) inv_tick[OF assms(4)]] assms(8,9)
  show ?thesis by (simp add: message_of_def)
qed

lemma sync_complete:
  assumes "search_contract zn env msgs" and "fetch_contract env (sc_MaxMessageSize cfg) msgs" and "uids_ok msgs" and "inv w"
    and "sync cfg env handle p a seq (Some pc) w = Some (res, seq', w')" and "pc_IMAP pc = Some c"
    and "sr_cursor res = imapCursor c'" and "cur_Mailbox c' = cur_Mailbox c" "cur_UIDValidity c' = cur_UIDValidity c"
    and "cur_Recovery c = None" and "Examine env (ep_Mailbox p) w = (Inr mailbox, w1)"
    and ok: "sr_imapErr res = None" "sr_handlerErr res = None" "\<not> sr_more res"
    and "cur_LastUID c < u" "lastSearchableUID mailbox = 0 \<or> u \<le> lastSearchableUID mailbox" "msgs u = Some m"
  shows "done_at (message_of p a c' m) w'"
proof -
  from sync_examined[OF assms(1,5-8)] assms(9,11) have
    "cur_Mailbox c = mb_Name mailbox" "cur_UIDValidity c = mb_UIDValidity mailbox" by auto
  from sync_continues[OF assms(5,6,11) this] assms(10)
  have "pollNew cfg env handle p a seq mailbox c (tick w) = Some (res, seq', w')" by simp
  from pollNew_complete[OF assms(1-3) this assms(7) ok assms(15-17) inv_tick[OF assms(4)]]
  show ?thesis using assms by (intro sync_no_skip[of zn env msgs cfg w p a seq pc res seq' w' c c' u m])
qed

lemma recovery_no_skip:
  assumes "search_contract zn env msgs" and "fetch_contract env (sc_MaxMessageSize cfg) msgs" and "uids_ok msgs"
    and "dates_contract env msgs" and "inv w"
    and "sync cfg env handle p a seq (Some pc) w = Some (res, seq', w')" and "pc_IMAP pc = Some c"
    and "sr_cursor res = imapCursor c'" and "cur_Mailbox c' = cur_Mailbox c" "cur_UIDValidity c' = cur_UIDValidity c"
    and "cur_Recovery c = Some r" and "zones_within_a_day zn" and "rec_Since r + 86400 * second \<le> rec_Checkpoint r"
    and "cur_LastUID c < u" "u \<le> cur_LastUID c'" "msgs u = Some m" and "rec_Checkpoint r \<le> im_InternalDate m"
  shows "done_at (message_of p a c' m) w'"
proof -
  from sync_examined[OF assms(1,6-9)] assms(10) obtain mailbox w1 where
    "Examine env (ep_Mailbox p) w = (Inr mailbox, w1)" "cur_Mailbox c = mb_Name mailbox" "cur_UIDValidity c = mb_UIDValidity mailbox"
    by auto
  from sync_continues[OF assms(6,7) this] assms(11)
  have run: "recover cfg env handle p a seq c r (tick w) = Some (res, seq', w')" by simp
  from recover_result[OF assms(1) this assms(8)] assms(14,15) have "u \<le> rec_ToUID r" by force
  from recover_no_skip[OF assms(1-4,12,13) run assms(8,14,15) this assms(16,17) inv_tick[OF assms(5)]] assms(9,10)
  show ?thesis by (simp add: message_of_def)
qed

lemma restart_no_skip:
  assumes "search_contract zn env msgs" and "fetch_contract env (sc_MaxMessageSize cfg) msgs" and "uids_ok msgs"
    and "dates_contract env msgs" and "inv w"
    and "sync cfg env handle p a seq (Some pc) w = Some (res, seq', w')" and "pc_IMAP pc = Some c"
    and "sr_cursor res = imapCursor c'" and "cur_Mailbox c' = cur_Mailbox c" "cur_UIDValidity c' \<noteq> cur_UIDValidity c"
    and "\<not> IsZero (recoveryCheckpoint c)" and "zones_within_a_day zn"
    and "0 < u" "u \<le> cur_LastUID c'" "msgs u = Some m" and "recoveryCheckpoint c \<le> im_InternalDate m"
  shows "done_at (message_of p a c' m) w'"
proof -
  from sync_examined[OF assms(1,6-9)] assms(10) obtain mailbox w1 where
    ex: "Examine env (ep_Mailbox p) w = (Inr mailbox, w1)" "cur_Mailbox c = mb_Name mailbox" "cur_UIDValidity c \<noteq> mb_UIDValidity mailbox"
    by auto
  have "sr_cursor res \<noteq> None" using assms(8) by (simp add: imapCursor_def)
  from sync_restarts[OF assms(6,7) this ex] assms(11) obtain final n where
    restart: "restart_from cfg env handle p a seq (startRecovery mailbox final (recoveryCheckpoint c)) ((tick ^^ n) w) = Some (res, seq', w')"
    by auto
  let ?t = "recoveryCheckpoint c" let ?c = "startRecovery mailbox final ?t"
  let ?r = "the (cur_Recovery ?c)"
  have c0: "cur_Recovery ?c = Some ?r" "cur_LastUID ?c = 0" "rec_Checkpoint ?r = ?t" using assms(11) by (simp_all add: startRecovery_def)
  have since: "rec_Since ?r + 86400 * second \<le> rec_Checkpoint ?r" using assms(11) by (simp add: startRecovery_def)
  from restart c0(1) have run: "recover cfg env handle p a seq ?c ?r ((tick ^^ n) w) = Some (res, seq', w')"
    by (cases "cur_Recovery ?c") (simp_all add: restart_from_def)
  note fields = recover_result[OF assms(1) run assms(8)]
  have "u \<le> rec_ToUID ?r" using fields assms(13,14) c0(2) by force
  from recover_no_skip[OF assms(1-4,12) since run assms(8) _ assms(14) this assms(15) _ inv_ticks[OF assms(5)]] assms(13,16) c0(2,3) fields
  show ?thesis by (simp add: message_of_def)
qed

end

end
