(* ===== verification/Inbound_Correct.thy ===== *)
theory Inbound_Correct
  imports Inbound_Pipeline Inbox_Evolution Sync_Delivery
begin

text \<open>
  What the inbound pipeline guarantees. Every program of the pipeline only moves the inbox
  forward, whatever fails on the way; when the handler confirms an email, the email is
  finished or in quarantine, and it stays so. Together with the cursor rules of the mailbox
  sync this gives that no email is left behind.
\<close>

section \<open>The pipeline moves the inbox forward\<close>

lemma evolves_call [evolve_intros]: "evolves_io (call f)"
  by (simp add: evolves_io_def call_def)

lemma evolves_catch_value:
  assumes "evolves_io m" and "\<And>e. evolves_io (a e)" and "\<And>x w w'. m w = (Inr x, w') \<Longrightarrow> evolves_io (b x)"
  shows "evolves_io (catchM m a b)"
  unfolding evolves_io_def
proof
  fix w
  obtain r w1 where m: "m w = (r, w1)" by fastforce
  note first = evolves_ioD[OF assms(1) m]
  show "inbox_evolves (w_db w) (w_db (snd (catchM m a b w)))"
  proof (cases r)
    case (Inl e)
    obtain r2 w2 where a: "a e w1 = (r2, w2)" by fastforce
    from inbox_evolves_trans[OF first evolves_ioD[OF assms(2) a]] m Inl a show ?thesis by (simp add: catchM_def)
  next
    case (Inr x)
    obtain r2 w2 where b: "b x w1 = (r2, w2)" by fastforce
    from inbox_evolves_trans[OF first evolves_ioD[OF assms(3)[OF m[unfolded Inr]] b]] m Inr b show ?thesis
      by (simp add: catchM_def)
  qed
qed

lemma evolves_catch [evolve_intros]:
  "evolves_io m \<Longrightarrow> (\<And>e. evolves_io (a e)) \<Longrightarrow> (\<And>x. evolves_io (b x)) \<Longrightarrow> evolves_io (catchM m a b)"
  by (rule evolves_catch_value)

lemma evolves_error [evolve_intros]:
  "(\<And>c x. evolves_io (p c x)) \<Longrightarrow> evolves_io q \<Longrightarrow> evolves_io (case e of PermanentError c x \<Rightarrow> p c x | _ \<Rightarrow> q)"
  by (cases e) auto

lemma catchM_Inr [io_success]:
  "catchM m a b w = (Inr y, w') \<longleftrightarrow>
     (\<exists>e w1. m w = (Inl e, w1) \<and> a e w1 = (Inr y, w')) \<or> (\<exists>x w1. m w = (Inr x, w1) \<and> b x w1 = (Inr y, w'))"
  by (auto simp: catchM_def split: prod.splits sum.splits)

lemma permanent_Inr [io_success]:
  "(case e of PermanentError c x \<Rightarrow> p c x | _ \<Rightarrow> throwM e') w = (Inr y, w') \<longleftrightarrow>
     (\<exists>c x. e = PermanentError c x \<and> p c x w = (Inr y, w'))"
  by (cases e) (simp_all add: throwM_def)

lemma evolves_LockEmailProfile [evolve_intros]: "evolves_io (LockEmailProfile p)"
  unfolding LockEmailProfile_def by (rule evolves_read) simp

lemma evolves_EventWriter [evolve_intros]: "evolves_io (EventWriter_Write sv did mid)"
  unfolding EventWriter_Write_def by (intro evolve_intros)

lemma evolves_resolveThread [evolve_intros]: "evolves_io (resolveThread parsed)"
  unfolding resolveThread_def orElse_def createThread_def Let_def by (intro evolve_intros)

lemma evolves_locateStored [evolve_intros]: "evolves_io (locateStored parsed)"
  unfolding locateStored_def by (intro evolve_intros)

lemma evolves_persistParts [evolve_intros]: "evolves_io (persistParts sv parsed u m)"
  unfolding persistParts_def by (intro evolve_intros)

lemma evolves_persist [evolve_intros]: "evolves_io (persist sv parsed)"
  unfolding persist_def Let_def by (intro evolve_intros)

lemma evolves_storeEmail [evolve_intros]: "evolves_io (storeEmail sv parsed)"
  unfolding storeEmail_def by (intro evolve_intros)

lemma evolves_quarantineMessage [evolve_intros]: "evolves_io (quarantineMessage parsed m reason)"
  unfolding quarantineMessage_def by (intro evolve_intros)

lemma evolves_failMessage [evolve_intros]: "evolves_io (failMessage parsed m reason)"
  unfolding failMessage_def by (intro evolve_intros)

lemma evolves_countAttempt [evolve_intros]: "evolves_io (countAttempt sv parsed m)"
  unfolding countAttempt_def by (intro evolve_intros)

lemma evolves_uploadFailed [evolve_intros]: "evolves_io (uploadFailed sv parsed m e)"
  unfolding uploadFailed_def by (intro evolve_intros)

lemma evolves_markStored [evolve_intros]: "evolves_io (markStored parsed m pos f)"
  unfolding markStored_def by (intro evolve_intros)

lemma evolves_storeParts [evolve_intros]: "evolves_io (storeParts sv parsed m as)"
  by (induction as) (simp_all add: evolve_intros)

lemma evolves_resolveContact [evolve_intros]: "evolves_io (resolveContact sv parsed m)"
  unfolding resolveContact_def by (intro evolve_intros)

text \<open>The contact is never left undecided by an answer.\<close>

lemma resolveContact_decides:
  assumes "resolveContact sv parsed m w = (Inr (Some r), w')"
  shows "cr_State r \<noteq> EmailContactResolutionPending"
proof -
  have "cr_State (case outcome of OutcomeNotFound \<Rightarrow> \<lparr>cr_State = EmailContactResolutionNotFound, cr_ContactID = None\<rparr>
    | OutcomeResolved c \<Rightarrow> \<lparr>cr_State = EmailContactResolutionResolved, cr_ContactID = Some c\<rparr>
    | OutcomeAmbiguous \<Rightarrow> \<lparr>cr_State = EmailContactResolutionAmbiguous, cr_ContactID = None\<rparr>)
    \<noteq> EmailContactResolutionPending" for outcome by (cases outcome) simp_all
  with assms show ?thesis unfolding resolveContact_def by (auto simp: io_success split: if_splits)
qed

lemma evolves_storeResolution:
  assumes "\<And>r. resolution = Some r \<Longrightarrow> cr_State r \<noteq> EmailContactResolutionPending"
  shows "evolves_io (storeResolution parsed m resolution)"
  using assms unfolding storeResolution_def
  by (cases resolution) (auto intro!: evolve_intros evolves_ResolveContact)

lemma evolves_markReady:
  assumes "\<And>r. resolution = Some r \<Longrightarrow> cr_State r \<noteq> EmailContactResolutionPending"
  shows "evolves_io (markReady sv parsed m resolution)"
  unfolding markReady_def by (intro evolve_intros evolves_storeResolution assms)

lemma evolves_Complete [evolve_intros]: "evolves_io (Complete sv parsed m)"
  unfolding Complete_def
  by (intro evolve_intros evolves_bind_value[of "resolveContact sv parsed m"] evolves_markReady)
     (blast dest: resolveContact_decides)

lemma evolves_PersistenceHandler [evolve_intros]: "evolves_io (PersistenceHandler_Handle sv parsed)"
  unfolding PersistenceHandler_Handle_def by (intro evolve_intros)

lemma evolves_MIMEHandler [evolve_intros]: "evolves_io (MIMEHandler_Handle sv m)"
  unfolding MIMEHandler_Handle_def by (intro evolve_intros)

lemma evolves_quarantineEmail [evolve_intros]: "evolves_io (quarantineEmail sv m c reason)"
  unfolding quarantineEmail_def by (simp add: evolve_intros split: prod.split)

lemma evolves_QuarantineHandler [evolve_intros]: "evolves_io (QuarantineHandler_Handle sv m)"
  unfolding QuarantineHandler_Handle_def by (intro evolve_intros)

section \<open>A confirmed message is finished\<close>

text \<open>
  A message is present when the tables hold a row with its core, settled when such a row is
  finished. A program settles a message when each of its results that satisfies \<open>Q\<close>
  leaves the message settled.
\<close>

definition present :: "EmailMessage \<Rightarrow> db \<Rightarrow> bool" where
  "present m d \<longleftrightarrow> inbox_wf d \<and> (\<exists>m'\<in>set (db_messages d). core m' = core m)"

definition settled :: "EmailMessage \<Rightarrow> db \<Rightarrow> bool" where
  "settled m d \<longleftrightarrow> (\<exists>m'\<in>set (db_messages d). core m' = core m \<and> finished m')"

definition settles :: "EmailMessage \<Rightarrow> 'a io \<Rightarrow> ('a \<Rightarrow> bool) \<Rightarrow> bool" where
  "settles m prog Q \<longleftrightarrow>
     (\<forall>w x w'. present m (w_db w) \<longrightarrow> prog w = (Inr x, w') \<longrightarrow> Q x \<longrightarrow> settled m (w_db w'))"

named_theorems settle_intros \<open>programs that settle a message\<close>

lemma present_evolves: "present m d \<Longrightarrow> inbox_evolves d d' \<Longrightarrow> present m d'"
  using evolves_message evolves_wf unfolding present_def message_evolves_def by metis

lemma settled_evolves: "settled m d \<Longrightarrow> inbox_evolves d d' \<Longrightarrow> settled m d'"
  using evolves_message unfolding settled_def message_evolves_def by metis

lemma settlesD: "settles m prog Q \<Longrightarrow> present m (w_db w) \<Longrightarrow> prog w = (Inr x, w') \<Longrightarrow> Q x \<Longrightarrow> settled m (w_db w')"
  by (auto simp: settles_def)

lemma settles_throw [settle_intros]: "settles m (throwM e) Q"
  by (simp add: settles_def throwM_def)

lemma settles_return [settle_intros]: "\<not> Q x \<Longrightarrow> settles m (returnM x) Q"
  by (simp add: settles_def returnM_def)

lemma settles_if [settle_intros]: "(c \<Longrightarrow> settles m a Q) \<Longrightarrow> (\<not> c \<Longrightarrow> settles m b Q) \<Longrightarrow> settles m (if c then a else b) Q"
  by simp

lemma settles_option [settle_intros]:
  "settles m a Q \<Longrightarrow> (\<And>x. settles m (b x) Q) \<Longrightarrow> settles m (case v of None \<Rightarrow> a | Some x \<Rightarrow> b x) Q"
  by (cases v) auto

lemma settles_after:
  assumes "evolves_io a" and "\<And>x. settles m (f x) Q"
  shows "settles m (bindM a f) Q"
  using assms present_evolves evolves_ioD settlesD unfolding settles_def bindM_Inr by metis

lemma settles_before:
  assumes "settles m a R" and "\<And>x. R x \<Longrightarrow> evolves_io (f x)" and "\<And>x. \<not> R x \<Longrightarrow> settles m (f x) Q" and "evolves_io a"
  shows "settles m (bindM a f) Q"
  unfolding settles_def
proof (intro allI impI)
  fix w y w'
  assume w: "present m (w_db w)" "bindM a f w = (Inr y, w')" "Q y"
  then obtain x w1 where a: "a w = (Inr x, w1)" and f: "f x w1 = (Inr y, w')" by (auto simp: bindM_Inr)
  show "settled m (w_db w')"
  proof (cases "R x")
    case True
    then show ?thesis
      using settled_evolves[OF settlesD[OF assms(1) w(1) a] evolves_ioD[OF assms(2) f]] by simp
  next
    case False
    then show ?thesis
      using settlesD[OF assms(3) present_evolves[OF w(1) evolves_ioD[OF assms(4) a]] f w(3)] by simp
  qed
qed

lemma settles_catch:
  assumes "evolves_io a" and "\<And>e. settles m (f e) Q" and "\<And>x. settles m (g x) Q"
  shows "settles m (catchM a f g) Q"
  using assms present_evolves evolves_ioD settlesD unfolding settles_def catchM_Inr by metis

lemma settles_tx [settle_intros]:
  assumes "settles m body Q"
  shows "settles m (WithinTransaction body) Q"
  using assms WithinTransaction_Inr unfolding settles_def by metis

text \<open>With unique identifiers the row a statement hits is the message it is about.\<close>

lemma only_row:
  assumes "inbox_wf d" and "m \<in> set (db_messages d)" "n \<in> set (db_messages d)" and "em_ID n = em_ID m"
  shows "n = m"
  using assms by (metis (mono_tags) distinct_map inbox_wf_def inj_on_contraD)

lemma present_row:
  assumes "present m d"
  obtains m' where "m' \<in> set (db_messages d)" "core m' = core m" "em_ID m' = em_ID m" "em_DomainID m' = em_DomainID m"
    "\<And>n. n \<in> set (db_messages d) \<Longrightarrow> em_ID n = em_ID m \<Longrightarrow> n = m'"
  using assms only_row[of d] unfolding present_def by (metis core_simps(1,2))

lemma settles_MarkReady [settle_intros]:
  "settles m (exec (MarkReady (em_DomainID m) (em_ID m))) (\<lambda>state. state \<noteq> Some EmailMessageStateProcessing)"
  unfolding settles_def
proof (intro allI impI)
  fix w state w'
  assume p: "present m (w_db w)" and run: "exec (MarkReady (em_DomainID m) (em_ID m)) w = (Inr state, w')"
    and st: "state \<noteq> Some EmailMessageStateProcessing"
  from exec_Inr[OF run] obtain now d where
    s: "MarkReady (em_DomainID m) (em_ID m) now (w_db w) = Inr (state, d)" and d: "w_db w' = d" by auto
  from present_row[OF p] obtain r where r: "r \<in> set (db_messages (w_db w))" "core r = core m" "em_ID r = em_ID m"
    "em_DomainID r = em_DomainID m" and only: "\<And>n. n \<in> set (db_messages (w_db w)) \<Longrightarrow> em_ID n = em_ID m \<Longrightarrow> n = r" by blast
  show "settled m (w_db w')"
  proof (cases "finished r")
    case True
    moreover have "inbox_evolves (w_db w) (w_db w')" using evolves_ioD[OF evolves_MarkReady run] .
    ultimately show ?thesis using r settled_evolves unfolding settled_def by blast
  next
    case False
    then have proc: "em_State r = EmailMessageStateProcessing" by (simp add: finished_def)
    let ?hit = "\<lambda>m'. em_DomainID m' = em_DomainID m \<and> em_ID m' = em_ID m \<and> em_State m' = EmailMessageStateProcessing
      \<and> \<not> pendingPart (w_db w) m'"
    have hit: "?hit r"
    proof (rule ccontr)
      assume "\<not> ?hit r"
      then have "rows_affected ?hit (db_messages (w_db w)) = 0" using only by (auto simp: rows_affected_def filter_empty_conv)
      then have "state = map_option em_State (find (\<lambda>m'. em_DomainID m' = em_DomainID m \<and> em_ID m' = em_ID m) (db_messages (w_db w)))"
        using s by (auto simp: MarkReady_def Let_def)
      moreover have "find (\<lambda>m'. em_DomainID m' = em_DomainID m \<and> em_ID m' = em_ID m) (db_messages (w_db w)) = Some r"
        using r only by (intro find_only) blast+
      ultimately show False using st proc by simp
    qed
    then have "rows_affected ?hit (db_messages (w_db w)) > 0" using r(1) by (auto simp: rows_affected_def filter_empty_conv)
    with s have "d = (w_db w)\<lparr>db_messages := update_where ?hit
        (\<lambda>m. m\<lparr>em_State := EmailMessageStateReady, em_UpdatedAt := now\<rparr>) (db_messages (w_db w))\<rparr>"
      by (simp add: MarkReady_def Let_def)
    then have "r\<lparr>em_State := EmailMessageStateReady, em_UpdatedAt := now\<rparr> \<in> set (db_messages (w_db w'))"
      using r(1) hit unfolding d by (simp add: set_update_where)
    then show ?thesis using r(2) unfolding settled_def by (intro bexI) (auto simp: core_def finished_def)
  qed
qed

lemma settles_MarkFailed:
  "settles m (exec (MarkFailed (em_DomainID m) (em_ID m))) (\<lambda>_. True)"
  unfolding settles_def
proof (intro allI impI)
  fix w b w'
  assume p: "present m (w_db w)" and run: "exec (MarkFailed (em_DomainID m) (em_ID m)) w = (Inr b, w')"
  from present_row[OF p] obtain r where r: "r \<in> set (db_messages (w_db w))" "core r = core m" "em_ID r = em_ID m"
    "em_DomainID r = em_DomainID m" by blast
  from exec_Inr[OF run] obtain now where
    "db_messages (w_db w') = update_where (processingMessage (em_DomainID m) (em_ID m))
      (\<lambda>m. m\<lparr>em_State := EmailMessageStateFailed, em_UpdatedAt := now\<rparr>) (db_messages (w_db w))"
    by (auto simp: MarkFailed_def)
  then have "(if finished r then r else r\<lparr>em_State := EmailMessageStateFailed, em_UpdatedAt := now\<rparr>) \<in> set (db_messages (w_db w'))"
    using r by (auto simp: set_update_where processingMessage_def finished_def)
  then show "settled m (w_db w')" using r(2) unfolding settled_def
    by (intro bexI) (auto simp: core_def finished_def)
qed

text \<open>From here on the message is the one \<open>Complete\<close> was given.\<close>

definition about :: "ParsedEmail \<Rightarrow> storedMessage \<Rightarrow> EmailMessage \<Rightarrow> bool" where
  "about parsed s m \<longleftrightarrow> em_DomainID m = pe_DomainID parsed \<and> em_ID m = sm_ID s"

lemma settles_quarantineMessage [settle_intros]:
  assumes "about parsed s m"
  shows "settles m (quarantineMessage parsed s reason) (\<lambda>_. True)"
  using settles_MarkFailed[of m] assms unfolding quarantineMessage_def about_def
  by (intro settles_before[where R = "\<lambda>_. True"] evolve_intros) simp_all

lemma settles_failMessage [settle_intros]:
  assumes "about parsed s m"
  shows "settles m (failMessage parsed s reason) (\<lambda>_. True)"
  unfolding failMessage_def by (intro settle_intros settles_after evolve_intros assms)

lemma settles_countAttempt [settle_intros]:
  assumes "about parsed s m"
  shows "settles m (countAttempt sv parsed s) (\<lambda>exhausted. exhausted)"
  unfolding countAttempt_def
  by (intro settle_intros settles_after settles_before[OF settles_quarantineMessage] evolve_intros assms) simp_all

lemma settles_uploadFailed [settle_intros]:
  assumes "about parsed s m"
  shows "settles m (uploadFailed sv parsed s e) (\<lambda>_. True)"
  unfolding uploadFailed_def
  by (intro settle_intros settles_after[of ctxErr] settles_before[OF settles_countAttempt] evolve_intros assms) simp_all

lemma settles_storeParts:
  assumes "about parsed s m"
  shows "settles m (storeParts sv parsed s as) (\<lambda>stored. \<not> stored)"
proof (induction as)
  case (Cons a as)
  note give_up = settles_before[OF settles_failMessage[OF assms]] settles_before[OF settles_uploadFailed[OF assms]]
  from Cons show ?case unfolding storeParts.simps
    by (intro settle_intros settles_after[of "exec _"] settles_after[of "markStored _ _ _ _"] give_up settles_catch evolve_intros)
       simp_all
qed (simp add: settle_intros)

lemma settles_markReady:
  assumes "about parsed s m" and "\<And>r. resolution = Some r \<Longrightarrow> cr_State r \<noteq> EmailContactResolutionPending"
  shows "settles m (markReady sv parsed s resolution) (\<lambda>_. True)"
proof -
  from assms(1) have ids: "pe_DomainID parsed = em_DomainID m" "sm_ID s = em_ID m" by (simp_all add: about_def)
  show ?thesis unfolding markReady_def ids
    by (intro settle_intros settles_after[of "exec (EnsureEmailProfileAssignment _)"] settles_after[OF evolves_storeResolution]
         settles_before[OF settles_MarkReady[of m]] evolve_intros assms(2)) simp_all
qed

lemma settles_Complete:
  assumes "about parsed s m"
  shows "settles m (Complete sv parsed s) (\<lambda>_. True)"
  unfolding settles_def
proof (intro allI impI)
  fix w u w'
  assume p: "present m (w_db w)" and run: "Complete sv parsed s w = (Inr u, w')"
  from run obtain parts w1 stored w2 where list: "exec (Attachment_List (pe_DomainID parsed) (sm_ID s)) w = (Inr parts, w1)"
    and parts: "storeParts sv parsed s parts w1 = (Inr stored, w2)"
    and rest: "\<not> stored \<and> w' = w2 \<or> stored \<and> (\<exists>resolution w3. resolveContact sv parsed s w2 = (Inr resolution, w3) \<and>
        markReady sv parsed s resolution w3 = (Inr u, w'))"
    unfolding Complete_def by (auto simp: io_success split: if_splits)
  have p1: "present m (w_db w1)" using present_evolves[OF p evolves_ioD[OF reads(4) list]] .
  then have p2: "present m (w_db w2)" using present_evolves[OF _ evolves_ioD[OF evolves_storeParts parts]] by blast
  from rest show "settled m (w_db w')"
  proof (elim disjE conjE exE)
    assume "\<not> stored" "w' = w2"
    then show ?thesis using settlesD[OF settles_storeParts[OF assms] p1 parts] by simp
  next
    fix resolution w3
    assume r: "resolveContact sv parsed s w2 = (Inr resolution, w3)" and ready: "markReady sv parsed s resolution w3 = (Inr u, w')"
    have p3: "present m (w_db w3)" using present_evolves[OF p2 evolves_ioD[OF evolves_resolveContact r]] .
    have "settles m (markReady sv parsed s resolution) (\<lambda>_. True)"
      using r resolveContact_decides by (intro settles_markReady[OF assms]) blast
    from settlesD[OF this p3 ready] show ?thesis by simp
  qed
qed

section \<open>A confirmed email is done\<close>

text \<open>A stored row is the parsed email when one of the three identities says so.\<close>

definition identifies :: "ParsedEmail \<Rightarrow> EmailMessage \<Rightarrow> bool" where
  "identifies parsed m \<longleftrightarrow> em_DomainID m = pe_DomainID parsed \<and> em_ProfileID m = pe_ProfileID parsed \<and>
     (em_MessageID m = pe_MessageID parsed \<or>
      (pe_Mailbox parsed \<noteq> '''' \<and> em_IMAP m = Some (parsedIdentity parsed)) \<or>
      (em_MessageIDGenerated m \<and> pe_MessageIDGenerated parsed \<and> em_RawSHA256 m = pe_RawSHA256 parsed \<and>
       pe_RawSHA256 parsed \<noteq> ''''))"

lemma identifies_core [simp]: "identifies parsed (core m) = identifies parsed m"
  by (simp add: identifies_def core_def)

lemma find_product:
  assumes "find (\<lambda>(m, t). P m \<and> R m t) (List.product ms ts) = Some (m, t)"
  shows "m \<in> set ms \<and> P m \<and> t \<in> set ts \<and> R m t"
proof -
  from assms have "(m, t) \<in> set (List.product ms ts)" "P m" "R m t"
    by (auto simp: find_Some_iff simp del: length_product dest!: nth_mem)
  then show ?thesis by simp
qed

lemma locateIdentity_found:
  assumes "exec (locateIdentity P) w = (Inr (Some s), w')"
  shows "\<exists>m\<in>set (db_messages (w_db w')). P m \<and> mi_ID s = em_ID m \<and> mi_State s = em_State m"
  using exec_Inr[OF assms] by (auto simp: locateIdentity_def split: option.splits dest!: find_product)

lemma locateStored_found:
  assumes "locateStored parsed w = (Inr (Some s), w')"
  shows "\<exists>m\<in>set (db_messages (w_db w')). identifies parsed m \<and> mi_ID s = em_ID m \<and> mi_State s = em_State m"
  using assms unfolding locateStored_def LocateByMessageID_def LocateByIMAPIdentity_def LocateByRawChecksum_def
  by (auto simp: io_success identifies_def split: option.splits if_splits dest!: locateIdentity_found)

lemma created_message:
  assumes "exec (Message_Create m) w = (Inr x, w')"
  shows "x \<in> set (db_messages (w_db w'))" "em_State x = em_State m" "em_DomainID x = em_DomainID m"
    "em_ProfileID x = em_ProfileID m" "em_MessageID x = em_MessageID m"
  using exec_Inr[OF assms] by (auto simp: Message_Create_def Let_def split: if_splits)

text \<open>The email is stored and finished, or stored and handed on to be completed.\<close>

definition stored_as :: "ParsedEmail \<Rightarrow> storedMessage option \<Rightarrow> db \<Rightarrow> bool" where
  "stored_as parsed r d \<longleftrightarrow> (\<exists>m\<in>set (db_messages d). identifies parsed m \<and>
     (case r of None \<Rightarrow> finished m | Some s \<Rightarrow> em_ID m = sm_ID s))"

lemma stored_as_evolves:
  assumes "stored_as parsed r d" and "inbox_evolves d d'"
  shows "stored_as parsed r d'"
proof -
  from assms(1) obtain m where m: "m \<in> set (db_messages d)" "identifies parsed m"
    "case r of None \<Rightarrow> finished m | Some s \<Rightarrow> em_ID m = sm_ID s" by (auto simp: stored_as_def)
  from evolves_message[OF assms(2) m(1)] obtain m' where m': "m' \<in> set (db_messages d')" and
    core: "core m' = core m" and same: "finished m \<longrightarrow> m' = m" by (auto simp: message_evolves_def)
  from core m(2) have "identifies parsed m'" "em_ID m' = em_ID m" by (metis identifies_core, metis core_simps(1))
  with m m' same show ?thesis unfolding stored_as_def by (intro bexI[of _ m']) (auto split: option.splits)
qed

lemma persist_stores:
  assumes "persist sv parsed w = (Inr r, w')"
  shows "stored_as parsed r (w_db w')"
proof -
  from assms obtain threadID u message w1 w2 where
    create: "exec (Message_Create (buildMessage parsed threadID (initialState (buildAttachments parsed) u))) w1 = (Inr message, w2)"
    and rest: "persistParts sv parsed u message w2 = (Inr r, w')"
    unfolding persist_def Let_def by (auto simp: io_success)
  have state: "r = None \<Longrightarrow> initialState (buildAttachments parsed) u \<noteq> EmailMessageStateProcessing"
    and ids: "r = Some s \<Longrightarrow> sm_ID s = em_ID message" for s
    using rest unfolding persistParts_def by (auto simp: io_success split: if_splits)
  from created_message[OF create] state ids have "stored_as parsed r (w_db w2)"
    by (cases r) (auto simp: stored_as_def identifies_def finished_def buildMessage_def)
  then show ?thesis using evolves_ioD[OF evolves_persistParts rest] by (rule stored_as_evolves)
qed

lemma storeEmail_stores:
  assumes "storeEmail sv parsed w = (Inr r, w')"
  shows "stored_as parsed r (w_db w')"
proof -
  from assms obtain stored w1 w2 where located: "locateStored parsed w1 = (Inr stored, w2)"
    and rest: "(case stored of
       Some s \<Rightarrow> if mi_State s = EmailMessageStateProcessing
         then returnM (Some \<lparr>sm_ID = mi_ID s, sm_ThreadID = mi_ThreadID s, sm_ThreadKind = mi_ThreadKind s,
                            sm_ContactResolution = mi_ContactResolution s\<rparr>)
         else returnM None
     | None \<Rightarrow> persist sv parsed) w2 = (Inr r, w')"
    unfolding storeEmail_def bindM_Inr by blast
  show ?thesis
  proof (cases stored)
    case None
    with rest show ?thesis using persist_stores by simp
  next
    case (Some s)
    from locateStored_found[OF located[unfolded Some]] rest Some show ?thesis
      by (auto simp: stored_as_def finished_def io_success split: if_splits)
  qed
qed

text \<open>The email at a position of the mailbox is dealt with.\<close>

definition failure_position :: "Message \<Rightarrow> int \<times> int \<times> string \<times> uid \<times> uid" where
  "failure_position m = (msg_DomainID m, msg_ProfileID m, msg_Mailbox m, msg_UIDValidity m, msg_UID m)"

definition email_done :: "services \<Rightarrow> Message \<Rightarrow> db \<Rightarrow> bool" where
  "email_done sv m d \<longleftrightarrow> failure_position m \<in> failure_key ` set (db_failures d) \<or>
     (case sv_Parse sv m of Inl e \<Rightarrow> False | Inr parsed \<Rightarrow> stored_as parsed None d)"

lemma email_done_evolves: "email_done sv m d \<Longrightarrow> inbox_evolves d d' \<Longrightarrow> email_done sv m d'"
  using evolves_failures stored_as_evolves unfolding email_done_def by (cases "sv_Parse sv m") (simp_all, blast+)

lemma PersistenceHandler_finishes:
  assumes "inbox_wf (w_db w)" and "PersistenceHandler_Handle sv parsed w = (Inr u, w')"
  shows "stored_as parsed None (w_db w')"
proof -
  from assms(2) obtain r w1 where tx: "WithinTransaction (storeEmail sv parsed) w = (Inr r, w1)"
    and rest: "(case r of None \<Rightarrow> returnM () | Some s \<Rightarrow> Complete sv parsed s) w1 = (Inr u, w')"
    unfolding PersistenceHandler_Handle_def by (auto simp: io_success)
  from WithinTransaction_Inr[OF tx] obtain v v' where "storeEmail sv parsed v = (Inr r, v')" "w_db w1 = w_db v'" by blast
  then have stored: "stored_as parsed r (w_db w1)" using storeEmail_stores by metis
  show ?thesis
  proof (cases r)
    case None
    with rest stored show ?thesis by (simp add: io_success)
  next
    case (Some s)
    with stored obtain m where m: "m \<in> set (db_messages (w_db w1))" "identifies parsed m" "em_ID m = sm_ID s"
      by (auto simp: stored_as_def)
    have "inbox_wf (w_db w1)" using evolves_wf[OF evolves_ioD[OF evolves_tx[OF evolves_storeEmail] tx] assms(1)] .
    with m have "present m (w_db w1)" "about parsed s m" by (auto simp: present_def about_def identifies_def)
    from settlesD[OF settles_Complete[OF this(2)] this(1)] rest Some have "settled m (w_db w')" by simp
    with m(2) show ?thesis unfolding settled_def stored_as_def by (metis identifies_core option.case(1))
  qed
qed

lemma quarantineEmail_done:
  assumes "quarantineEmail sv m c reason w = (Inr u, w')"
  shows "email_done sv m (w_db w')"
proof -
  from assms obtain f where run: "exec (Record f) w = (Inr u, w')" and f: "failure_key f = failure_position m"
    unfolding quarantineEmail_def by (auto simp: failure_key_def failure_position_def split: prod.splits)
  from exec_Inr[OF run] obtain now where "Record f now (w_db w) = Inr (u, w_db w')" by auto
  from Record_failures(1)[OF this] f show ?thesis by (simp add: email_done_def)
qed

lemma handler_confirms:
  assumes "inbox_wf (w_db w)" and "QuarantineHandler_Handle sv m w = (Inr u, w')"
  shows "email_done sv m (w_db w')"
proof -
  from assms(2) consider (quarantined) c reason v where "quarantineEmail sv m c reason v = (Inr u, w')"
    | (handled) "MIMEHandler_Handle sv m w = (Inr u, w')"
    unfolding QuarantineHandler_Handle_def by (auto simp: io_success split: if_splits)
  then show ?thesis
  proof cases
    case quarantined
    then show ?thesis by (rule quarantineEmail_done)
  next
    case handled
    then show ?thesis using PersistenceHandler_finishes[OF assms(1)]
      by (auto simp: MIMEHandler_Handle_def email_done_def io_success split: sum.splits)
  qed
qed

text \<open>The pipeline keeps the contract the mailbox sync relies on.\<close>

interpretation pipeline: confirming_handler "QuarantineHandler_Handle sv" "\<lambda>m w. email_done sv m (w_db w)" "\<lambda>w. inbox_wf (w_db w)"
  for sv
proof
  fix w m m' u w'
  have forward: "inbox_evolves (w_db w) (w_db (snd (QuarantineHandler_Handle sv m' w)))" for m'
    using evolves_QuarantineHandler unfolding evolves_io_def by blast
  show "inbox_wf (w_db w) \<Longrightarrow> QuarantineHandler_Handle sv m w = (Inr u, w') \<Longrightarrow> email_done sv m (w_db w')"
    by (rule handler_confirms)
  show "inbox_wf (w_db w) \<Longrightarrow> email_done sv m (w_db w) \<Longrightarrow> email_done sv m (w_db (snd (QuarantineHandler_Handle sv m' w)))"
    using email_done_evolves forward by blast
  show "inbox_wf (w_db w) \<Longrightarrow> inbox_wf (w_db (snd (QuarantineHandler_Handle sv m w)))"
    using evolves_wf forward by blast
qed simp_all

section \<open>Writing nothing\<close>

text \<open>A program that leaves the database as it is, whatever it returns.\<close>

definition silent :: "'a io \<Rightarrow> bool" where
  "silent m \<longleftrightarrow> (\<forall>w. w_db (snd (m w)) = w_db w)"

lemma silent_exec:
  assumes "\<And>now d x d'. s now d = Inr (x, d') \<Longrightarrow> d' = d"
  shows "silent (exec s)"
  unfolding silent_def using exec_read[of s] assms by blast

lemma rollback_same [simp]: "rollback_to d d = d"
  by (simp add: rollback_to_def)

lemma tx_silent:
  assumes "\<And>v. w_db v = w_db w \<Longrightarrow> w_db (snd (body v)) = w_db w"
  shows "w_db (snd (WithinTransaction body w)) = w_db w"
  using assms[of w] assms[of "(tick w)\<lparr>w_tx := Some (w_clock w (w_step w))\<rparr>"]
  by (auto simp: WithinTransaction_def Let_def split: option.splits prod.splits sum.splits)

lemma bind_same_db:
  assumes "silent m" and "\<And>x w1. m w = (Inr x, w1) \<Longrightarrow> w_db w1 = d \<Longrightarrow> w_db (snd (f x w1)) = d" and "w_db w = d"
  shows "w_db (snd (bindM m f w)) = d"
proof -
  obtain r w1 where m: "m w = (r, w1)" by fastforce
  then have "w_db w1 = w_db w" using assms(1) unfolding silent_def by (metis snd_conv)
  with m assms(2,3) show ?thesis by (cases r) (auto simp: bindM_def)
qed

lemma silent_reads:
  "silent (exec (EnsureEmailProfileAssignment a))" "silent (LockEmailProfile p)"
  "silent (exec (locateIdentity P))"
  by (auto simp: LockEmailProfile_def EnsureEmailProfileAssignment_def locateIdentity_def intro!: silent_exec split: if_splits)

lemma silent_bind: "silent m \<Longrightarrow> (\<And>x. silent (f x)) \<Longrightarrow> silent (bindM m f)"
  unfolding silent_def using bind_same_db[unfolded silent_def] by metis

lemma silent_return: "silent (returnM x)"
  by (simp add: silent_def returnM_def)

lemma silent_locateStored: "silent (locateStored parsed)"
  unfolding locateStored_def LocateByMessageID_def LocateByIMAPIdentity_def LocateByRawChecksum_def
  by (intro silent_bind silent_reads silent_return) (auto intro!: silent_bind silent_reads silent_return split: option.split)

text \<open>An email one of whose identities is stored is found, in a row that it identifies.\<close>

lemma find_product_None:
  "find (\<lambda>(m, t). P m \<and> R m t) (List.product ms ts) = None \<longleftrightarrow> (\<forall>m\<in>set ms. \<forall>t\<in>set ts. \<not> (P m \<and> R m t))"
  by (auto simp: find_None_iff)

lemma locateIdentity_missed:
  assumes "exec (locateIdentity P) w = (Inr None, w')" and "inbox_wf (w_db w)" and "m \<in> set (db_messages (w_db w))"
  shows "\<not> P m"
proof
  assume "P m"
  moreover from assms(2,3) obtain t where "t \<in> set (db_threads (w_db w))" "same_thread m t" by (auto simp: inbox_wf_def)
  moreover from exec_Inr[OF assms(1)] have
    "find (\<lambda>(m, t). P m \<and> same_thread m t) (List.product (db_messages (w_db w)) (db_threads (w_db w))) = None"
    by (auto simp: locateIdentity_def split: option.splits)
  ultimately show False using assms(3) unfolding find_product_None by blast
qed

lemma locateStored_finds:
  assumes "inbox_wf (w_db w)" and "m \<in> set (db_messages (w_db w))" and "identifies parsed m"
  shows "locateStored parsed w \<noteq> (Inr None, w')"
proof
  assume run: "locateStored parsed w = (Inr None, w')"
  from run obtain w1 where id: "exec (LocateByMessageID (pe_DomainID parsed) (pe_ProfileID parsed) (pe_MessageID parsed)) w = (Inr None, w1)"
    and rest: "bindM (if pe_Mailbox parsed \<noteq> '''' then exec (LocateByIMAPIdentity (pe_DomainID parsed) (pe_ProfileID parsed) (parsedIdentity parsed))
            else returnM None) (\<lambda>byPlace. case byPlace of Some s \<Rightarrow> returnM (Some s) | None \<Rightarrow>
        if \<not> pe_MessageIDGenerated parsed then returnM None
        else exec (LocateByRawChecksum (pe_DomainID parsed) (pe_ProfileID parsed) (pe_RawSHA256 parsed))) w1 = (Inr None, w')"
    unfolding locateStored_def by (auto simp: io_success split: option.splits)
  have db1: "w_db w1 = w_db w" using silent_reads(3) id unfolding LocateByMessageID_def silent_def by (metis snd_conv)
  from rest obtain w2 where place: "(if pe_Mailbox parsed \<noteq> '''' then exec (LocateByIMAPIdentity (pe_DomainID parsed) (pe_ProfileID parsed) (parsedIdentity parsed))
            else returnM None) w1 = (Inr None, w2)"
    and sum: "(if \<not> pe_MessageIDGenerated parsed then returnM None
        else exec (LocateByRawChecksum (pe_DomainID parsed) (pe_ProfileID parsed) (pe_RawSHA256 parsed))) w2 = (Inr None, w')"
    by (auto simp: io_success split: option.splits)
  have "silent (if pe_Mailbox parsed \<noteq> '''' then exec (LocateByIMAPIdentity (pe_DomainID parsed) (pe_ProfileID parsed) (parsedIdentity parsed))
            else returnM None)" by (simp add: LocateByIMAPIdentity_def silent_reads silent_return)
  then have db2: "w_db w2 = w_db w" using place db1 unfolding silent_def by (metis snd_conv)
  have "em_MessageID m \<noteq> pe_MessageID parsed"
    using locateIdentity_missed[OF id[unfolded LocateByMessageID_def] assms(1,2)] assms(3) by (simp add: identifies_def)
  moreover have "em_IMAP m \<noteq> Some (parsedIdentity parsed)" if "pe_Mailbox parsed \<noteq> ''''"
    using locateIdentity_missed[of _ w1 w2 m] place that assms db1 by (force simp: LocateByIMAPIdentity_def identifies_def)
  moreover have "\<not> (em_MessageIDGenerated m \<and> em_RawSHA256 m = pe_RawSHA256 parsed \<and> pe_RawSHA256 parsed \<noteq> '''')"
    if "pe_MessageIDGenerated parsed"
    using locateIdentity_missed[of _ w2 w' m] sum that assms db2 by (force simp: LocateByRawChecksum_def identifies_def)
  ultimately show False using assms(3) by (auto simp: identifies_def)
qed

lemma storeEmail_duplicate:
  assumes "inbox_wf (w_db w)" and "m \<in> set (db_messages (w_db w))" and "identifies parsed m"
    and every: "\<forall>n\<in>set (db_messages (w_db w)). identifies parsed n \<longrightarrow> finished n"
  shows "w_db (snd (storeEmail sv parsed w)) = w_db w" and "storeEmail sv parsed w = (Inr r, w') \<Longrightarrow> r = None"
proof -
  have found: "\<exists>s. stored = Some s \<and> mi_State s \<noteq> EmailMessageStateProcessing"
    if l: "locateStored parsed v = (Inr stored, v')" and v: "w_db v = w_db w" for v v' stored
  proof -
    from locateStored_finds[of v m parsed v'] assms(1-3) v l obtain s where s: "stored = Some s" by (cases stored) auto
    have "w_db v' = w_db w" using silent_locateStored l v unfolding silent_def by (metis snd_conv)
    with locateStored_found[OF l[unfolded s]] every s show ?thesis by (auto simp: finished_def)
  qed
  have fence: "w_db w2 = w_db v" if "exec (EnsureEmailProfileAssignment a) v = (Inr u, w2)" for a v u w2
    using silent_reads(1) that unfolding silent_def by (metis snd_conv)
  have lock: "w_db w2 = w_db v" if "LockEmailProfile a v = (Inr u, w2)" for a v u w2
    using silent_reads(2) that unfolding silent_def by (metis snd_conv)
  show "w_db (snd (storeEmail sv parsed w)) = w_db w"
    unfolding storeEmail_def by (intro bind_same_db silent_reads silent_locateStored refl)
      (auto simp: returnM_def dest!: found)
  show "r = None" if "storeEmail sv parsed w = (Inr r, w')"
    using that unfolding storeEmail_def
    by (auto simp: io_success dest!: fence lock found split: option.splits if_splits)
qed

section \<open>An email to evaluate\<close>

text \<open>
  The services of the samples: every email parses as an automatic reply named after its
  content, storage and contacts always answer.
\<close>

definition sample_parsed :: "Message \<Rightarrow> ParsedEmail" where
  "sample_parsed m = \<lparr>pe_DomainID = msg_DomainID m, pe_ProfileID = msg_ProfileID m, pe_Assignment = msg_Assignment m,
     pe_Mailbox = msg_Mailbox m, pe_UIDValidity = msg_UIDValidity m, pe_UID = msg_UID m, pe_MessageID = msg_Raw m,
     pe_MessageIDGenerated = False, pe_RawSHA256 = '''', pe_InReplyTo = '''', pe_References = [], pe_Subject = ''Hello'',
     pe_SentAt = None, pe_ReceivedAt = msg_InternalDate m,
     pe_From = [\<lparr>ea_Name = '''', ea_Address = ''a@b.c'', ea_NormalizedAddress = ''a@b.c''\<rparr>],
     pe_Sender = None, pe_ReplyTo = [], pe_To = [], pe_Cc = [], pe_Bcc = [], pe_TextBody = ''text'', pe_HTMLBody = '''',
     pe_Parts = [], pe_Kind = EmailKindAutoReply, pe_Bounce = None\<rparr>"

definition sample_services :: services where
  "sample_services = \<lparr>sv_Parse = (\<lambda>m. Inr (sample_parsed m)), sv_headerHints = (\<lambda>raw. ('''', '''', '''')),
     sv_UploadFile = (\<lambda>_ _. Inr 77), sv_ResolveByEmail = (\<lambda>_ _ _. Inr (OutcomeResolved 5)),
     sv_newID = (\<lambda>_. Inr 9), sv_limits = sample_limits, sv_maxAttempts = 2\<rparr>"

definition sample_mail :: Message where
  "sample_mail = \<lparr>msg_DomainID = 7, msg_ProfileID = 1, msg_Assignment = sample_token, msg_Mailbox = ''INBOX'',
     msg_UIDValidity = 1, msg_UID = 5, msg_InternalDate = 1000, msg_Size = 4, msg_Raw = ''five'', msg_TooLarge = False\<rparr>"

text \<open>The database once the email is stored.\<close>

definition sample_stored :: db where
  "sample_stored = w_db (snd (QuarantineHandler_Handle sample_services sample_mail (sample_world sample_owned)))"

section \<open>Properties\<close>

text \<open>
  C12: A redelivered email changes nothing. When the email is already stored under one of its
  identities and every such row is finished, handling it again leaves the whole database as
  it was, whether it succeeds or fails.
\<close>

theorem redelivery_changes_nothing:
  assumes "inbox_wf (w_db w)" and "m \<in> set (db_messages (w_db w))" and "identifies parsed m"
    and "\<forall>n\<in>set (db_messages (w_db w)). identifies parsed n \<longrightarrow> finished n"
  shows "w_db (snd (PersistenceHandler_Handle sv parsed w)) = w_db w"
proof -
  note same = storeEmail_duplicate[where sv = sv and parsed = parsed]
  have tx: "w_db (snd (WithinTransaction (storeEmail sv parsed) w)) = w_db w"
    using assms same(1) by (intro tx_silent) metis
  have none: "r = None" if "WithinTransaction (storeEmail sv parsed) w = (Inr r, w')" for r w'
    using WithinTransaction_Inr[OF that] same(2)[of _ m r] assms by metis
  show ?thesis
  proof (cases "WithinTransaction (storeEmail sv parsed) w")
    case (Pair r w')
    with tx none show ?thesis unfolding PersistenceHandler_Handle_def bindM_def
      by (cases r) (auto simp: returnM_def)
  qed
qed

theorem redelivery_changes_nothing_witness:
  "w_db (snd (PersistenceHandler_Handle sample_services (sample_parsed sample_mail) (sample_world sample_stored)))
     = w_db (sample_world sample_stored)"
proof -
  have "inbox_wf (w_db (sample_world sample_owned))" by (simp add: inbox_wf_def sample_world_def sample_defs)
  then have wf: "inbox_wf (w_db (sample_world sample_stored))"
    using evolves_wf[OF evolves_QuarantineHandler[unfolded evolves_io_def, rule_format]]
    unfolding sample_stored_def by (simp add: sample_world_def)
  have rows: "filter (\<lambda>m. \<not> finished m) (db_messages (w_db (sample_world sample_stored))) = []"
    "filter (identifies (sample_parsed sample_mail)) (db_messages (w_db (sample_world sample_stored))) \<noteq> []"
    by code_simp+
  then obtain m where "m \<in> set (db_messages (w_db (sample_world sample_stored)))" "identifies (sample_parsed sample_mail) m"
    by (auto simp: filter_empty_conv)
  with wf rows(1) show ?thesis by (intro redelivery_changes_nothing) (auto simp: filter_empty_conv)
qed

text \<open>
  C13: A poll that has lost its profile stores nothing: when the token the email was read
  under is no longer current, storing the email fails and the database stays as it was.
\<close>

theorem superseded_poll_stores_nothing:
  assumes "\<not> current_token (w_db w) (pe_Assignment parsed)"
  shows "\<exists>e w'. PersistenceHandler_Handle sv parsed w = (Inl e, w') \<and> w_db w' = w_db w"
proof -
  have fence: "\<exists>e v'. exec (EnsureEmailProfileAssignment (pe_Assignment parsed)) v = (Inl e, v') \<and> w_db v' = w_db v"
    if "w_db v = w_db w" for v
    using assms that by (auto simp: exec_def Let_def EnsureEmailProfileAssignment_def current_token_def split: option.splits)
  have body: "\<exists>e v'. storeEmail sv parsed v = (Inl e, v') \<and> w_db v' = w_db w" if v: "w_db v = w_db w" for v
  proof -
    obtain r v1 where lock: "LockEmailProfile (pe_ProfileID parsed) v = (r, v1)" by fastforce
    then have "w_db v1 = w_db w" using silent_reads(2) v unfolding silent_def by (metis snd_conv)
    moreover from fence[OF this] obtain e v2 where "exec (EnsureEmailProfileAssignment (pe_Assignment parsed)) v1 = (Inl e, v2)"
      "w_db v2 = w_db v1" by blast
    ultimately show ?thesis using lock by (cases r) (simp_all add: storeEmail_def bindM_def)
  qed
  have "\<exists>e w'. WithinTransaction (storeEmail sv parsed) w = (Inl e, w') \<and> w_db w' = w_db w"
    using body[of w] body[of "(tick w)\<lparr>w_tx := Some (w_clock w (w_step w))\<rparr>"]
    by (auto simp: WithinTransaction_def Let_def split: option.splits)
  then show ?thesis by (auto simp: PersistenceHandler_Handle_def bindM_def)
qed

theorem superseded_poll_stores_nothing_witness:
  "\<exists>e w'. PersistenceHandler_Handle sample_services (sample_parsed sample_mail) (sample_world sample_moved) = (Inl e, w') \<and>
     w_db w' = w_db (sample_world sample_moved)"
  by (rule superseded_poll_stores_nothing)
     (simp add: current_token_def token_matches_def sample_world_def sample_parsed_def sample_mail_def sample_defs)

text \<open>
  C14: A decision about a contact is final for the pipeline. Whatever email arrives and whatever
  fails, every thread stays and keeps its kind, and a thread whose contact an operator or an
  earlier answer has decided keeps that state and that contact.
\<close>

theorem decided_contact_is_kept:
  assumes "t \<in> set (db_threads (w_db w))"
  shows "\<exists>t'\<in>set (db_threads (w_db (snd (QuarantineHandler_Handle sv message w)))).
    th_ID t' = th_ID t \<and> th_Kind t' = th_Kind t \<and>
    (\<not> resolvable (th_ContactResolutionState t) \<longrightarrow>
       th_ContactID t' = th_ContactID t \<and> th_ContactResolutionState t' = th_ContactResolutionState t)"
proof -
  have "inbox_evolves (w_db w) (w_db (snd (QuarantineHandler_Handle sv message w)))"
    using evolves_QuarantineHandler unfolding evolves_io_def by blast
  from evolves_thread[OF this assms] show ?thesis unfolding thread_evolves_def by blast
qed

definition sample_unlinked :: db where
  "sample_unlinked = sample_owned\<lparr>db_threads := [sample_thread\<lparr>th_ContactID := None,
     th_ContactResolutionState := EmailContactResolutionUnlinked\<rparr>]\<rparr>"

theorem decided_contact_is_kept_witness:
  "\<exists>t'\<in>set (db_threads (w_db (snd (QuarantineHandler_Handle sample_services sample_mail (sample_world sample_unlinked))))).
     th_ID t' = th_ID sample_thread \<and> th_Kind t' = th_Kind sample_thread \<and> th_ContactID t' = None \<and>
     th_ContactResolutionState t' = EmailContactResolutionUnlinked"
  using decided_contact_is_kept[of "sample_thread\<lparr>th_ContactID := None, th_ContactResolutionState := EmailContactResolutionUnlinked\<rparr>"
      "sample_world sample_unlinked" sample_services sample_mail]
  by (simp add: sample_world_def sample_unlinked_def resolvable_def)

lemma last_index_other: "x \<notin> set xs \<Longrightarrow> fold (\<lambda>(i, v) m. m(v \<mapsto> i)) (List.enumerate k xs) m x = m x"
  by (induction xs arbitrary: k m) auto

lemma last_index_later:
  "x \<in> set xs \<Longrightarrow> \<exists>i\<ge>k. fold (\<lambda>(i, v) m. m(v \<mapsto> i)) (List.enumerate k xs) m x = Some i"
proof (induction xs arbitrary: k m)
  case (Cons y ys)
  show ?case
  proof (cases "x \<in> set ys")
    case True
    from Cons.IH[OF this, of "Suc k" "m(y \<mapsto> k)"] show ?thesis by (auto intro: Suc_leD)
  next
    case False
    with Cons.prems have "x = y" by simp
    with last_index_other[OF False, of "Suc k" "m(y \<mapsto> k)"] show ?thesis
      unfolding enumerate_simps fold.simps comp_def by (intro exI[of _ k]) simp
  qed
qed simp

lemma keep_last:
  "map snd (filter (\<lambda>(i, v). fold (\<lambda>(i, v) m. m(v \<mapsto> i)) (List.enumerate k xs) m v = Some i) (List.enumerate k xs)) = remdups xs"
proof (induction xs arbitrary: k m)
  case (Cons x xs)
  let ?S = "fold (\<lambda>(i, v) m. m(v \<mapsto> i)) (List.enumerate (Suc k) xs) (m(x \<mapsto> k))"
  have "?S x = Some k \<longleftrightarrow> x \<notin> set xs"
    using last_index_later[of x xs "Suc k" "m(x \<mapsto> k)"] last_index_other[of x xs "Suc k" "m(x \<mapsto> k)"] by force
  with Cons.IH[of "Suc k" "m(x \<mapsto> k)"] show ?case
    unfolding enumerate_simps fold.simps comp_def prod.case filter.simps remdups.simps by (simp only: list.map snd_conv split: if_split) blast
qed simp

text \<open>
  \<^verbatim>\<open>keepLastOccurrence\<close>, which finds the last position of each value with a map, keeps
  exactly the last copy of every value in the original order.
\<close>

theorem keepLastOccurrence_is_remdups: "keepLastOccurrence values = remdups values"
  unfolding keepLastOccurrence_def Let_def by (rule keep_last)

end
