(* ===== verification/Inbox_Invariant.thy ===== *)
theory Inbox_Invariant
  imports Inbound_Correct
begin

text \<open>
  What a visible message stands for. In every state the pipeline commits, a message that is
  ready has no part left to store and no contact left to look up, an ordinary email is never
  in a service thread, and a message that has become ready has its event in the outbox. The
  invariant is broken and restored inside a transaction, so the proofs use triples with a
  condition for success and one for failure: inside a transaction the latter is trivial, and
  the rule for transactions asks for it only at the points where a commit can happen.
\<close>

section \<open>Triples\<close>

definition triple :: "bool \<Rightarrow> (db \<Rightarrow> bool) \<Rightarrow> 'a io \<Rightarrow> ('a \<Rightarrow> db \<Rightarrow> bool) \<Rightarrow> (db \<Rightarrow> bool) \<Rightarrow> bool" where
  "triple out P m Q E \<longleftrightarrow> (\<forall>w r w'. (w_tx w = None) = out \<longrightarrow> P (w_db w) \<longrightarrow> m w = (r, w') \<longrightarrow>
     (w_tx w' = None) = out \<and> (case r of Inl e \<Rightarrow> E (w_db w') | Inr x \<Rightarrow> Q x (w_db w')))"

lemma tripleI:
  assumes "\<And>w r w'. (w_tx w = None) = out \<Longrightarrow> P (w_db w) \<Longrightarrow> m w = (r, w') \<Longrightarrow>
     (w_tx w' = None) = out \<and> (case r of Inl e \<Rightarrow> E (w_db w') | Inr x \<Rightarrow> Q x (w_db w'))"
  shows "triple out P m Q E"
  using assms by (simp add: triple_def)

lemma tripleD:
  assumes "triple out P m Q E" and "(w_tx w = None) = out" and "P (w_db w)" and "m w = (r, w')"
  shows "(w_tx w' = None) = out" and "case r of Inl e \<Rightarrow> E (w_db w') | Inr x \<Rightarrow> Q x (w_db w')"
  using assms unfolding triple_def by blast+

lemma triple_conseq:
  assumes "triple out P m Q E" and "\<And>d. P' d \<Longrightarrow> P d" and "\<And>x d. Q x d \<Longrightarrow> Q' x d" and "\<And>d. E d \<Longrightarrow> E' d"
  shows "triple out P' m Q' E'"
proof (rule tripleI)
  fix w r w'
  assume "(w_tx w = None) = out" "P' (w_db w)" "m w = (r, w')"
  with tripleD[OF assms(1)] assms(2) have "(w_tx w' = None) = out" "case r of Inl e \<Rightarrow> E (w_db w') | Inr x \<Rightarrow> Q x (w_db w')"
    by blast+
  with assms(3,4) show "(w_tx w' = None) = out \<and> (case r of Inl e \<Rightarrow> E' (w_db w') | Inr x \<Rightarrow> Q' x (w_db w'))"
    by (cases r) auto
qed

named_theorems triple_intros \<open>rules that follow the shape of a program\<close>

lemma triple_return [triple_intros]: "(\<And>d. P d \<Longrightarrow> Q x d) \<Longrightarrow> triple out P (returnM x) Q E"
  by (auto simp: triple_def returnM_def)

lemma triple_throw [triple_intros]: "(\<And>d. P d \<Longrightarrow> E d) \<Longrightarrow> triple out P (throwM e) Q E"
  by (auto simp: triple_def throwM_def)

lemma triple_exec:
  assumes "\<And>now d x d'. P d \<Longrightarrow> s now d = Inr (x, d') \<Longrightarrow> Q x d'" and "\<And>d. P d \<Longrightarrow> E d" and "\<And>x d. Q x d \<Longrightarrow> E d"
  shows "triple out P (exec s) Q E"
  using assms by (fastforce simp: triple_def exec_def Let_def split: option.splits sum.splits)

lemma triple_bind:
  assumes "triple out P m R E" and "\<And>x. triple out (R x) (f x) Q E"
  shows "triple out P (bindM m f) Q E"
proof (rule tripleI)
  fix w r w'
  assume w: "(w_tx w = None) = out" "P (w_db w)" "bindM m f w = (r, w')"
  obtain r1 w1 where m: "m w = (r1, w1)" by fastforce
  note first = tripleD[OF assms(1) w(1,2) m]
  show "(w_tx w' = None) = out \<and> (case r of Inl e \<Rightarrow> E (w_db w') | Inr x \<Rightarrow> Q x (w_db w'))"
  proof (cases r1)
    case (Inl e)
    with first m w(3) show ?thesis by (auto simp: bindM_def)
  next
    case (Inr x)
    with first have "R x (w_db w1)" by simp
    moreover have "f x w1 = (r, w')" using w(3) m Inr by (simp add: bindM_def)
    ultimately show ?thesis using tripleD[OF assms(2) first(1)] by blast
  qed
qed

lemma triple_catch:
  assumes "triple out P m R P" and "\<And>e. triple out P (f e) Q E" and "\<And>x. triple out (R x) (g x) Q E"
  shows "triple out P (catchM m f g) Q E"
proof (rule tripleI)
  fix w r w'
  assume w: "(w_tx w = None) = out" "P (w_db w)" "catchM m f g w = (r, w')"
  obtain r1 w1 where m: "m w = (r1, w1)" by fastforce
  note first = tripleD[OF assms(1) w(1,2) m]
  show "(w_tx w' = None) = out \<and> (case r of Inl e \<Rightarrow> E (w_db w') | Inr x \<Rightarrow> Q x (w_db w'))"
  proof (cases r1)
    case (Inl e)
    with first m w(3) have "P (w_db w1)" "f e w1 = (r, w')" by (auto simp: catchM_def)
    then show ?thesis using tripleD[OF assms(2) first(1)] by blast
  next
    case (Inr x)
    with first m w(3) have "R x (w_db w1)" "g x w1 = (r, w')" by (auto simp: catchM_def)
    then show ?thesis using tripleD[OF assms(3) first(1)] by blast
  qed
qed

lemma triple_if [triple_intros]:
  "(c \<Longrightarrow> triple out P a Q E) \<Longrightarrow> (\<not> c \<Longrightarrow> triple out P b Q E) \<Longrightarrow> triple out P (if c then a else b) Q E"
  by simp

lemma triple_option [triple_intros]:
  "(v = None \<Longrightarrow> triple out P a Q E) \<Longrightarrow> (\<And>x. v = Some x \<Longrightarrow> triple out P (b x) Q E) \<Longrightarrow>
   triple out P (case v of None \<Rightarrow> a | Some x \<Rightarrow> b x) Q E"
  by (cases v) auto

lemma triple_call [triple_intros]: "(\<And>x d. P d \<Longrightarrow> Q x d) \<Longrightarrow> (\<And>d. P d \<Longrightarrow> E d) \<Longrightarrow> triple out P (call f) Q E"
  by (auto simp: triple_def call_def split: sum.splits)

lemma triple_ctxErr [triple_intros]: "(\<And>x d. P d \<Longrightarrow> Q x d) \<Longrightarrow> triple out P ctxErr Q E"
  by (auto simp: triple_def ctxErr_def)

text \<open>
  A transaction: what its body breaks on the way to an error is rolled back, and what it has
  established when it succeeds may be committed even when the caller sees an error.
\<close>

lemma triple_tx:
  assumes "triple False P body Q (\<lambda>_. True)" and "\<And>d d'. P d \<Longrightarrow> E (rollback_to d d')" and "\<And>x d. Q x d \<Longrightarrow> E d"
  shows "triple True P (WithinTransaction body) Q E"
proof (rule tripleI)
  fix w r w'
  assume w: "(w_tx w = None) = True" "P (w_db w)" "WithinTransaction body w = (r, w')"
  let ?w0 = "(tick w)\<lparr>w_tx := Some (w_clock w (w_step w))\<rparr>"
  have E: "E (w_db w)" using assms(2)[OF w(2), of "w_db w"] by (simp add: rollback_to_def)
  obtain r1 w1 where b: "body ?w0 = (r1, w1)" by fastforce
  note after = tripleD[OF assms(1) _ _ b, simplified]
  show "(w_tx w' = None) = True \<and> (case r of Inl e \<Rightarrow> E (w_db w') | Inr x \<Rightarrow> Q x (w_db w'))"
  proof (cases "w_faults w (w_step w)")
    case (Some e)
    with w E show ?thesis by (auto simp: WithinTransaction_def)
  next
    case None
    with w b after(2) assms(2,3) show ?thesis
      by (auto simp: WithinTransaction_def Let_def split: sum.splits option.splits if_splits)
  qed
qed

section \<open>The invariant\<close>

definition parts_known :: "db \<Rightarrow> bool" where
  "parts_known d \<longleftrightarrow> (\<forall>a\<in>set (db_attachments d). message_exists d (ma_DomainID a) (ma_MessageID a))"

definition kinds_ok :: "db \<Rightarrow> bool" where
  "kinds_ok d \<longleftrightarrow> (\<forall>m\<in>set (db_messages d). \<forall>t\<in>set (db_threads d).
     same_thread m t \<and> em_Kind m = EmailKindRegular \<longrightarrow> th_Kind t = EmailThreadKindRegular)"

definition undecided :: "EmailThread \<Rightarrow> bool" where
  "undecided t \<longleftrightarrow> th_ContactResolutionState t = EmailContactResolutionPending"

text \<open>A message still owes something: a part to store, or the contact of its thread.\<close>

definition owes :: "db \<Rightarrow> EmailMessage \<Rightarrow> bool" where
  "owes d m \<longleftrightarrow> pendingPart d m \<or> (\<exists>t\<in>set (db_threads d). same_thread m t \<and> undecided t)"

definition announced :: "db \<Rightarrow> EmailMessage \<Rightarrow> bool" where
  "announced d m \<longleftrightarrow> (\<forall>t\<in>set (db_threads d). same_thread m t \<and> Eligible m t \<longrightarrow>
     (\<exists>ev\<in>set (db_outbox d). oe_EventType ev = TypeInboundMessage \<and>
        oe_DedupKey ev = InboundMessageDedupKey (em_DomainID m) (em_ID m)))"

definition ready :: "EmailMessage \<Rightarrow> bool" where
  "ready m \<longleftrightarrow> em_State m = EmailMessageStateReady"

text \<open>
  The invariant relative to an earlier state \<open>d0\<close>, with the exception of the message
  \<open>X\<close> a transaction is working on.
\<close>

definition visible_ok :: "int set \<Rightarrow> db \<Rightarrow> db \<Rightarrow> bool" where
  "visible_ok X d0 d \<longleftrightarrow> inbox_wf d \<and> parts_known d \<and> kinds_ok d \<and>
     (\<forall>m\<in>set (db_messages d). ready m \<and> em_ID m \<notin> X \<longrightarrow>
        \<not> owes d m \<and> (m \<in> set (db_messages d0) \<or> announced d m))"

lemma visible_okD:
  assumes "visible_ok X d0 d"
  shows "inbox_wf d" "parts_known d" "kinds_ok d"
    "m \<in> set (db_messages d) \<Longrightarrow> ready m \<Longrightarrow> em_ID m \<notin> X \<Longrightarrow> \<not> owes d m"
    "m \<in> set (db_messages d) \<Longrightarrow> ready m \<Longrightarrow> em_ID m \<notin> X \<Longrightarrow> m \<in> set (db_messages d0) \<or> announced d m"
  using assms by (auto simp: visible_ok_def)

lemma visible_ok_rollback [simp]: "visible_ok X d0 (rollback_to d d') = visible_ok X d0 d"
  by (simp add: visible_ok_def rollback_to_def inbox_wf_def parts_known_def kinds_ok_def owes_def announced_def
      pendingPart_def message_exists_def)

lemma core_kind [simp]: "em_Kind (core m) = em_Kind m"
  by (simp add: core_def)

text \<open>A step that invents no message and no debt.\<close>

lemma visible_ok_step:
  assumes ok: "visible_ok X d0 d" and evolves: "inbox_evolves d d'"
    and rows: "\<And>m. m \<in> set (db_messages d') \<Longrightarrow> \<exists>m0\<in>set (db_messages d). core m = core m0"
    and fresh: "\<And>m. m \<in> set (db_messages d') \<Longrightarrow> ready m \<Longrightarrow> em_ID m \<notin> Y \<Longrightarrow> m \<in> set (db_messages d) \<and> em_ID m \<notin> X"
    and parts: "\<And>a. a \<in> set (db_attachments d') \<Longrightarrow>
      (\<exists>b\<in>set (db_attachments d). ma_DomainID a = ma_DomainID b \<and> ma_MessageID a = ma_MessageID b \<and>
         (ma_State a = EmailAttachmentStatePending \<longrightarrow> ma_State b = EmailAttachmentStatePending)) \<or>
      ma_MessageID a \<in> Y \<and> message_exists d (ma_DomainID a) (ma_MessageID a)"
    and threads: "\<And>t. t \<in> set (db_threads d') \<Longrightarrow> (\<exists>t0\<in>set (db_threads d). th_ID t = th_ID t0 \<and> th_DomainID t = th_DomainID t0 \<and>
         th_ProfileID t = th_ProfileID t0 \<and> th_Kind t = th_Kind t0 \<and> (undecided t \<longrightarrow> undecided t0)) \<or>
       th_ID t \<notin> th_ID ` set (db_threads d)"
  shows "visible_ok Y d0 d'"
proof -
  have wf: "inbox_wf d'" using evolves_wf[OF evolves visible_okD(1)[OF ok]] .
  have exist: "message_exists d' i j" if ex: "message_exists d i j" for i j
  proof -
    from ex obtain m where m: "m \<in> set (db_messages d)" "em_DomainID m = i" "em_ID m = j" by (auto simp: message_exists_def)
    from evolves_message[OF evolves m(1)] obtain m' where "m' \<in> set (db_messages d')" "core m' = core m"
      by (auto simp: message_evolves_def)
    with m show ?thesis unfolding message_exists_def by (metis core_simps(1,2))
  qed
  have "parts_known d'" unfolding parts_known_def
    using parts exist visible_okD(2)[OF ok] unfolding parts_known_def by metis
  moreover have thread: "\<exists>t0\<in>set (db_threads d). same_thread m t0 \<and> th_Kind t = th_Kind t0 \<and> (undecided t \<longrightarrow> undecided t0)"
    if m: "m \<in> set (db_messages d')" and t: "t \<in> set (db_threads d')" "same_thread m t" for m t
  proof -
    from rows[OF m] obtain m0 where "m0 \<in> set (db_messages d)" "core m = core m0" by blast
    with visible_okD(1)[OF ok] obtain t1 where "t1 \<in> set (db_threads d)" "same_thread m t1"
      unfolding inbox_wf_def by (metis core_simps(4))
    then have "th_ID t \<in> th_ID ` set (db_threads d)" using t(2) unfolding same_thread_def by (metis image_eqI)
    with threads[OF t(1)] t(2) show ?thesis by (auto simp: same_thread_def)
  qed
  then have "kinds_ok d'" unfolding kinds_ok_def
    using rows visible_okD(3)[OF ok] unfolding kinds_ok_def by (metis core_kind core_simps(4))
  moreover have "\<not> owes d' m \<and> (m \<in> set (db_messages d0) \<or> announced d' m)"
    if m: "m \<in> set (db_messages d')" "ready m" "em_ID m \<notin> Y" for m
  proof -
    from fresh[OF m] have old: "m \<in> set (db_messages d)" "em_ID m \<notin> X" by auto
    note before = visible_okD(4,5)[OF ok old(1) m(2) old(2)]
    have "\<not> pendingPart d' m" using before(1) parts m(3) unfolding owes_def pendingPart_def by metis
    then have "\<not> owes d' m" using thread[OF m(1)] before(1) unfolding owes_def by metis
    moreover have "announced d' m" if "announced d m"
      using that thread[OF m(1)] evolves_outbox[OF evolves] unfolding announced_def Eligible_def by (metis subsetD)
    ultimately show ?thesis using before(2) by blast
  qed
  ultimately show ?thesis using wf by (simp add: visible_ok_def)
qed

section \<open>Statements\<close>

lemma evolves_stmt:
  assumes "evolves_io (exec s)" and "s now d = Inr (x, d')"
  shows "inbox_evolves d d'"
  using evolves_ioD[OF assms(1), of "(sample_world d)\<lparr>w_tx := Some now\<rparr>"] assms(2)
  by (simp add: exec_def sample_world_def)

text \<open>What a statement that leaves the messages, threads and parts alone holds.\<close>

lemma visible_ok_same:
  assumes "visible_ok X d0 d" and "db_messages d' = db_messages d" "db_threads d' = db_threads d"
    "db_attachments d' = db_attachments d" "set (db_outbox d) \<subseteq> set (db_outbox d')"
  shows "visible_ok X d0 d'"
  using assms unfolding visible_ok_def inbox_wf_def parts_known_def kinds_ok_def owes_def announced_def pendingPart_def message_exists_def
  by (simp only:) blast

lemma read_same:
  "Message_Get did i now d = Inr (m, d') \<Longrightarrow> d' = d" "Thread_Get did i now d = Inr (t, d') \<Longrightarrow> d' = d"
  "Recipient_List did i now d = Inr (rs, d') \<Longrightarrow> d' = d" "Attachment_List did i now d = Inr (as, d') \<Longrightarrow> d' = d"
  "FlowID did i now d = Inr (f, d') \<Longrightarrow> d' = d" "EnsureEmailProfileAssignment a now d = Inr (u, d') \<Longrightarrow> d' = d"
  "LocateByMessageIDs lk ids now d = Inr (th, d') \<Longrightarrow> d' = d" "LocateByInReplyTo lk r now d = Inr (th, d') \<Longrightarrow> d' = d"
  "locateIdentity P now d = Inr (mi, d') \<Longrightarrow> d' = d" "FirstSenderAddress did i now d = Inr (adr, d') \<Longrightarrow> d' = d"
  by (auto simp: Message_Get_def Thread_Get_def Recipient_List_def Attachment_List_def FlowID_def
      EnsureEmailProfileAssignment_def LocateByMessageIDs_def LocateByInReplyTo_def locateIdentity_def
      FirstSenderAddress_def split: option.splits if_splits list.splits)

lemma triple_fence: "(\<And>d. P d \<Longrightarrow> E d) \<Longrightarrow> triple out P (exec (EnsureEmailProfileAssignment a)) (\<lambda>_. P) E"
  by (rule triple_exec) (auto dest: read_same(6))

lemma triple_lock: "(\<And>d. P d \<Longrightarrow> E d) \<Longrightarrow> triple out P (LockEmailProfile p) (\<lambda>_. P) E"
  unfolding LockEmailProfile_def by (rule triple_exec) auto

lemma visible_Recipient_CreateBulk:
  "Recipient_CreateBulk did i rs now d = Inr (u, d') \<Longrightarrow>
   db_messages d' = db_messages d \<and> db_threads d' = db_threads d \<and> db_attachments d' = db_attachments d \<and> db_outbox d' = db_outbox d"
  by (auto simp: Recipient_CreateBulk_def Let_def split: if_splits)

lemma visible_Record:
  assumes "Record f now d = Inr (u, d')" and "visible_ok X d0 d"
  shows "visible_ok X d0 d'"
proof -
  from Record_failures(3)[OF assms(1)] have "db_messages d' = db_messages d" "db_threads d' = db_threads d"
    "db_attachments d' = db_attachments d" "db_outbox d' = db_outbox d" by (metis db.select_convs db.surjective db.update_convs)+
  with assms(2) show ?thesis by (intro visible_ok_same[OF assms(2)]) auto
qed

lemma update_threads_rows:
  assumes "update_threads P f d = Inr (n, d')" and "t \<in> set (db_threads d')"
  shows "\<exists>t0\<in>set (db_threads d). t = (if P t0 then f t0 else t0)"
proof -
  from assms(1) have "db_threads d' = update_where P f (db_threads d)" by (auto simp: update_threads_def split: if_splits)
  with assms(2) show ?thesis unfolding update_where_def by auto
qed

text \<open>Updates of the thread table keep identities and kinds and leave no thread less decided.\<close>

lemma visible_update_threads:
  assumes "update_threads P f d = Inr (n, d')" and "visible_ok X d0 d" and "\<And>t. P t \<Longrightarrow> thread_evolves t (f t)"
    and "\<And>t. P t \<Longrightarrow> undecided (f t) \<Longrightarrow> undecided t"
  shows "visible_ok X d0 d'"
proof -
  from assms(1) have d': "d' = d\<lparr>db_threads := update_where P f (db_threads d)\<rparr>"
    by (auto simp: update_threads_def split: if_splits)
  have "inbox_evolves d d'" using update_threads_evolves[OF assms(1)] assms(3) by simp
  then show ?thesis
  proof (rule visible_ok_step[OF assms(2)])
    fix t assume "t \<in> set (db_threads d')"
    from update_threads_rows[OF assms(1) this]
    obtain t0 where t0: "t0 \<in> set (db_threads d)" "t = (if P t0 then f t0 else t0)" by blast
    with assms(3)[of t0] assms(4)[of t0] show "(\<exists>t0\<in>set (db_threads d). th_ID t = th_ID t0 \<and> th_DomainID t = th_DomainID t0 \<and>
         th_ProfileID t = th_ProfileID t0 \<and> th_Kind t = th_Kind t0 \<and> (undecided t \<longrightarrow> undecided t0)) \<or>
       th_ID t \<notin> th_ID ` set (db_threads d)"
      by (intro disjI1 bexI[of _ t0]) (auto simp: thread_evolves_def)
  qed (auto simp: d')
qed

lemma visible_AdvanceLastMessage:
  assumes "AdvanceLastMessage did p i at now d = Inr (u, d')" and "visible_ok X d0 d"
  shows "visible_ok X d0 d'"
proof -
  from assms(1) obtain n where "update_threads
        (\<lambda>t. th_DomainID t = did \<and> th_ProfileID t = p \<and> th_ID t = i
             \<and> (case th_LastMessageAt t of None \<Rightarrow> True | Some l \<Rightarrow> l < at))
        (\<lambda>t. t\<lparr>th_LastMessageAt := Some at, th_UpdatedAt := now\<rparr>) d = Inr (n, d')"
    by (auto simp: AdvanceLastMessage_def split: sum.splits)
  from visible_update_threads[OF this assms(2)] show ?thesis by (simp add: thread_evolves_def undecided_def)
qed

lemma ResolveContact_updates:
  assumes "ResolveContact did i s c now d = Inr (b, d')"
  shows "\<exists>n. update_threads
        (\<lambda>t. th_DomainID t = did \<and> th_ID t = i \<and> th_Kind t = EmailThreadKindRegular \<and> resolvable (th_ContactResolutionState t))
        (\<lambda>t. t\<lparr>th_ContactID := c, th_ContactResolutionState := s, th_UpdatedAt := now\<rparr>) d = Inr (n, d')"
  using assms by (auto simp: ResolveContact_def split: sum.splits)

lemma visible_ResolveContact:
  assumes "ResolveContact did i s c now d = Inr (b, d')" and "visible_ok X d0 d" and "s \<noteq> EmailContactResolutionPending"
  shows "visible_ok X d0 d'"
proof -
  from ResolveContact_updates[OF assms(1)] obtain n where "update_threads
        (\<lambda>t. th_DomainID t = did \<and> th_ID t = i \<and> th_Kind t = EmailThreadKindRegular \<and> resolvable (th_ContactResolutionState t))
        (\<lambda>t. t\<lparr>th_ContactID := c, th_ContactResolutionState := s, th_UpdatedAt := now\<rparr>) d = Inr (n, d')" ..
  from visible_update_threads[OF this assms(2)] assms(3) show ?thesis by (simp add: thread_evolves_def undecided_def)
qed

text \<open>After a resolution the thread is decided.\<close>

lemma ResolveContact_decides:
  assumes "ResolveContact did i s c now d = Inr (b, d')" and "s \<noteq> EmailContactResolutionPending"
    and "inbox_wf d'" and "t \<in> set (db_threads d')" and "th_DomainID t = did" "th_ID t = i"
  shows "\<not> undecided t"
proof
  assume u: "undecided t"
  have valid: "thread_valid t" using assms(3,4) by (auto simp: inbox_wf_def)
  with u have "th_Kind t = EmailThreadKindRegular" by (cases "th_Kind t") (auto simp: thread_valid_def undecided_def)
  moreover from ResolveContact_updates[OF assms(1)] update_threads_rows assms(4) obtain t0 where
    "t = (if th_DomainID t0 = did \<and> th_ID t0 = i \<and> th_Kind t0 = EmailThreadKindRegular \<and> resolvable (th_ContactResolutionState t0)
      then t0\<lparr>th_ContactID := c, th_ContactResolutionState := s, th_UpdatedAt := now\<rparr> else t0)"
    by blast
  ultimately show False using u assms(2,5,6) by (auto simp: undecided_def resolvable_def split: if_splits)
qed

lemma visible_update_messages:
  assumes ok: "visible_ok X d0 d" and d': "d' = d\<lparr>db_messages := update_where P f (db_messages d)\<rparr>"
    and evolves: "inbox_evolves d d'" and core: "\<And>m. P m \<Longrightarrow> core (f m) = core m"
    and exposed: "\<And>m. P m \<Longrightarrow> ready (f m) \<Longrightarrow> em_ID m \<in> Y" and "X \<subseteq> Y"
  shows "visible_ok Y d0 d'"
  using ok evolves
proof (rule visible_ok_step)
  fix m assume m: "m \<in> set (db_messages d')"
  then obtain m0 where m0: "m0 \<in> set (db_messages d)" "m = (if P m0 then f m0 else m0)" by (auto simp: d' update_where_def)
  with core show "\<exists>m0\<in>set (db_messages d). core m = core m0" by (intro bexI[of _ m0]) auto
  assume r: "ready m" "em_ID m \<notin> Y"
  have "\<not> P m0"
  proof
    assume "P m0"
    with m0(2) core[of m0] exposed[of m0] r show False by (metis core_simps(1))
  qed
  with m0 r assms(6) show "m \<in> set (db_messages d) \<and> em_ID m \<notin> X" by auto
qed (auto simp: d')

lemma visible_MarkFailed:
  assumes "MarkFailed did i now d = Inr (b, d')" and "visible_ok X d0 d"
  shows "visible_ok X d0 d'"
  using assms(2)
  by (rule visible_update_messages[OF _ _ evolves_stmt[OF evolves_MarkFailed assms(1)],
        where P = "processingMessage did i" and f = "\<lambda>m. m\<lparr>em_State := EmailMessageStateFailed, em_UpdatedAt := now\<rparr>"])
     (use assms(1) in \<open>auto simp: MarkFailed_def core_def ready_def\<close>)

lemma visible_IncrementAttachmentAttempts:
  assumes "IncrementAttachmentAttempts did i now d = Inr (n, d')" and "visible_ok X d0 d"
  shows "visible_ok X d0 d'"
  using assms(2)
  by (rule visible_update_messages[OF _ _ evolves_stmt[OF evolves_IncrementAttachmentAttempts assms(1)],
        where P = "processingMessage did i" and f = "\<lambda>m. m\<lparr>em_AttachmentAttempts := em_AttachmentAttempts m + 1, em_UpdatedAt := now\<rparr>"])
     (use assms(1) in \<open>auto simp: IncrementAttachmentAttempts_def processingMessage_def core_def ready_def split: option.splits\<close>)

lemma visible_MarkStored:
  assumes "MarkStored did i pos f now d = Inr (b, d')" and "visible_ok X d0 d"
  shows "visible_ok X d0 d'"
proof -
  from assms(1) have d': "d' = d\<lparr>db_attachments := update_where (pendingAt did i pos)
      (\<lambda>a. a\<lparr>ma_FileID := Some f, ma_State := EmailAttachmentStateStored, ma_UpdatedAt := now\<rparr>) (db_attachments d)\<rparr>"
    by (auto simp: MarkStored_def)
  show ?thesis using assms(2) evolves_stmt[OF evolves_MarkStored assms(1)]
  proof (rule visible_ok_step)
    fix a assume "a \<in> set (db_attachments d')"
    then obtain b where "b \<in> set (db_attachments d)" "a = (if pendingAt did i pos b
        then b\<lparr>ma_FileID := Some f, ma_State := EmailAttachmentStateStored, ma_UpdatedAt := now\<rparr> else b)"
      by (auto simp: d' update_where_def)
    then show "(\<exists>b\<in>set (db_attachments d). ma_DomainID a = ma_DomainID b \<and> ma_MessageID a = ma_MessageID b \<and>
         (ma_State a = EmailAttachmentStatePending \<longrightarrow> ma_State b = EmailAttachmentStatePending)) \<or>
      ma_MessageID a \<in> X \<and> message_exists d (ma_DomainID a) (ma_MessageID a)"
      by (intro disjI1 bexI[of _ b]) auto
  qed (auto simp: d')
qed

text \<open>Making a message ready exposes it, and only it.\<close>

lemma visible_MarkReady:
  assumes "MarkReady did i now d = Inr (st, d')" and "visible_ok {} d0 d"
  shows "visible_ok {i} d0 d'" and "st \<noteq> Some EmailMessageStateReady \<Longrightarrow> d' = d"
proof -
  let ?hit = "\<lambda>m. em_DomainID m = did \<and> em_ID m = i \<and> em_State m = EmailMessageStateProcessing \<and> \<not> pendingPart d m"
  from assms(1) have "d' = d \<or> d' = d\<lparr>db_messages := update_where ?hit
      (\<lambda>m. m\<lparr>em_State := EmailMessageStateReady, em_UpdatedAt := now\<rparr>) (db_messages d)\<rparr>"
    unfolding MarkReady_def Let_def by (auto split: if_splits)
  then show "visible_ok {i} d0 d'"
  proof
    assume "d' = d"
    with assms(2) show ?thesis by (auto simp: visible_ok_def)
  next
    assume d': "d' = d\<lparr>db_messages := update_where ?hit
      (\<lambda>m. m\<lparr>em_State := EmailMessageStateReady, em_UpdatedAt := now\<rparr>) (db_messages d)\<rparr>"
    show ?thesis by (rule visible_update_messages[OF assms(2) d' evolves_stmt[OF evolves_MarkReady assms(1)]]) (auto simp: core_def)
  qed
  show "st \<noteq> Some EmailMessageStateReady \<Longrightarrow> d' = d"
    using assms(1) by (auto simp: MarkReady_def Let_def split: if_splits)
qed

lemma MarkReady_no_parts:
  assumes "MarkReady did i now d = Inr (Some EmailMessageStateReady, d')" and "visible_ok {} d0 d"
    and "m \<in> set (db_messages d')" and "em_ID m = i" "em_DomainID m = did"
  shows "ready m \<and> \<not> pendingPart d' m"
proof -
  let ?hit = "\<lambda>m. em_DomainID m = did \<and> em_ID m = i \<and> em_State m = EmailMessageStateProcessing \<and> \<not> pendingPart d m"
  let ?made = "\<lambda>m. m\<lparr>em_State := EmailMessageStateReady, em_UpdatedAt := now\<rparr>"
  have wf: "inbox_wf d" using visible_okD(1)[OF assms(2)] .
  show ?thesis
  proof (cases "\<exists>r\<in>set (db_messages d). ?hit r")
    case True
    then obtain r where r: "r \<in> set (db_messages d)" "?hit r" by blast
    from True have "rows_affected ?hit (db_messages d) > 0" by (simp add: rows_affected_pos)
    with assms(1) have d': "d' = d\<lparr>db_messages := update_where ?hit ?made (db_messages d)\<rparr>"
      unfolding MarkReady_def Let_def by simp
    with assms(3) obtain m0 where m0: "m0 \<in> set (db_messages d)" "m = (if ?hit m0 then ?made m0 else m0)"
      by (auto simp: update_where_def)
    then have "em_ID m0 = em_ID r" using assms(4) r(2) by (auto split: if_splits)
    then have "m0 = r" using only_row[OF wf r(1) m0(1)] by simp
    with m0 r(2) show ?thesis by (simp add: ready_def d' pendingPart_def)
  next
    case False
    then have none: "rows_affected ?hit (db_messages d) = 0" by (simp add: rows_affected_0)
    have "MarkReady did i now d = Inr (map_option em_State (find (\<lambda>m. em_DomainID m = did \<and> em_ID m = i) (db_messages d)), d)"
      unfolding MarkReady_def Let_def none by simp
    from this[symmetric, unfolded assms(1)] have same: "d' = d" and
      st: "Some EmailMessageStateReady = map_option em_State (find (\<lambda>m. em_DomainID m = did \<and> em_ID m = i) (db_messages d))"
      by auto
    from st[symmetric] obtain r where find: "find (\<lambda>m. em_DomainID m = did \<and> em_ID m = i) (db_messages d) = Some r" and
      st: "em_State r = EmailMessageStateReady" by (auto simp: map_option_eq_Some)
    from find have r: "r \<in> set (db_messages d)" "em_ID r = i" by (auto simp: find_Some_iff dest: nth_mem)
    have "m = r" using only_row[OF wf r(1)] assms(3,4) r(2) same by simp
    with st visible_okD(4)[OF assms(2) r(1)] same show ?thesis by (simp add: ready_def owes_def)
  qed
qed

section \<open>The event of a message\<close>

lemma event_identity:
  assumes "NewInboundMessageOutboxEvent eid src limits = Inr row"
  shows "oe_EventType row = TypeInboundMessage"
    "oe_DedupKey row = InboundMessageDedupKey (em_DomainID (is_Message src)) (em_ID (is_Message src))"
  using assms unfolding NewInboundMessageOutboxEvent_def NewInboundMessage_def Let_def
  by (auto split: if_splits option.splits sum.splits)

lemma Append_records:
  assumes "Append ev w = (Inr b, w')"
  shows "\<exists>e\<in>set (db_outbox (w_db w')). oe_EventType e = oe_EventType ev \<and> oe_DedupKey e = oe_DedupKey ev"
    and "\<exists>ob. w_db w' = (w_db w)\<lparr>db_outbox := ob\<rparr> \<and> set (db_outbox (w_db w)) \<subseteq> set ob"
proof -
  from assms have "exec (insertOutbox ev) w = (Inr b, w')" by (auto simp: Append_def split: if_splits option.splits)
  from exec_Inr[OF this] obtain now where ins: "insertOutbox ev now (w_db w) = Inr (b, w_db w')" by auto
  have new: "oe_EventType (pending_row ev now) = oe_EventType ev" "oe_DedupKey (pending_row ev now) = oe_DedupKey ev"
    by (simp_all add: pending_row_def)
  show "\<exists>e\<in>set (db_outbox (w_db w')). oe_EventType e = oe_EventType ev \<and> oe_DedupKey e = oe_DedupKey ev"
  proof (cases "\<exists>e\<in>set (db_outbox (w_db w)). same_event ev e")
    case True
    with ins show ?thesis by (auto simp: insertOutbox_def same_event_def)
  next
    case False
    with ins have "w_db w' = (w_db w)\<lparr>db_outbox := db_outbox (w_db w) @ [pending_row ev now]\<rparr>"
      by (auto simp: insertOutbox_def split: if_splits)
    with new show ?thesis by simp
  qed
  from ins show "\<exists>ob. w_db w' = (w_db w)\<lparr>db_outbox := ob\<rparr> \<and> set (db_outbox (w_db w)) \<subseteq> set ob"
    unfolding insertOutbox_def by (auto split: if_splits intro: exI[of _ "db_outbox (w_db w)"] exI[of _ "db_outbox (w_db w) @ [pending_row ev now]"])
qed

lemma exec_same:
  assumes "exec s w = (Inr x, w')" and "\<And>now d'. s now (w_db w) = Inr (x, d') \<Longrightarrow> d' = w_db w"
  shows "w_db w' = w_db w" and "\<exists>now. s now (w_db w) = Inr (x, w_db w)"
  using exec_Inr[OF assms(1)] assms(2) by auto

lemma find_row: "find P xs = Some x \<Longrightarrow> x \<in> set xs \<and> P x"
  by (auto simp: find_Some_iff dest: nth_mem)

lemma only_thread:
  assumes "inbox_wf d" and "t \<in> set (db_threads d)" "t' \<in> set (db_threads d)" and "th_ID t' = th_ID t"
  shows "t' = t"
  using assms by (metis (mono_tags) distinct_map inbox_wf_def inj_on_contraD)

lemma sum_Inr: "(case v of Inl e \<Rightarrow> throwM e | Inr x \<Rightarrow> f x) w = (Inr y, w') \<longleftrightarrow> (\<exists>x. v = Inr x \<and> f x w = (Inr y, w'))"
  by (cases v) (simp_all add: throwM_def)

lemma EventWriter_reads:
  assumes "EventWriter_Write sv did i w = (Inr u, w')"
  obtains message thread where "message \<in> set (db_messages (w_db w))" "em_ID message = i" "em_DomainID message = did"
    "thread \<in> set (db_threads (w_db w))" "th_ID thread = em_ThreadID message"
    "\<not> Eligible message thread \<and> w_db w' = w_db w \<or>
     (\<exists>src eid row v b. is_Message src = message \<and> NewInboundMessageOutboxEvent eid src (sv_limits sv) = Inr row \<and>
        w_db v = w_db w \<and> Append row v = (Inr b, w'))"
proof -
  from assms obtain message w1 where m: "exec (Message_Get did i) w = (Inr message, w1)" and
    rest: "bindM (exec (Thread_Get did (em_ThreadID message))) (\<lambda>thread.
     if \<not> Eligible message thread then returnM ()
     else if em_State message \<noteq> EmailMessageStateReady then throwM (PlainError ''inbound event: not ready'')
     else
     bindM (exec (Recipient_List did (em_ID message))) (\<lambda>recipients.
     bindM (exec (Attachment_List did (em_ID message))) (\<lambda>parts.
     bindM (exec (FlowID did (em_ProfileID message))) (\<lambda>flowID.
     bindM (call (sv_newID sv)) (\<lambda>eventID.
     bindM timeNow (\<lambda>now.
     case NewInboundMessageOutboxEvent eventID \<lparr>is_OccurredAt = now, is_FlowID = flowID, is_Thread = thread,
            is_Message = message, is_Recipients = recipients, is_Attachments = parts\<rparr> (sv_limits sv) of
       Inl e \<Rightarrow> throwM e
     | Inr row \<Rightarrow> bindM (Append row) (\<lambda>inserted. returnM ()))))))) w1 = (Inr u, w')"
    unfolding EventWriter_Write_def bindM_Inr by blast
  have M: "w_db w1 = w_db w" "\<exists>now. Message_Get did i now (w_db w) = Inr (message, w_db w)"
    using exec_same[OF m] read_same(1) by blast+
  from rest obtain thread w2 where t: "exec (Thread_Get did (em_ThreadID message)) w1 = (Inr thread, w2)" and
    rest: "\<not> Eligible message thread \<and> w' = w2 \<or>
      (\<exists>rs w3 ps w4 fl w5 eid w6 now w7 row b. exec (Recipient_List did (em_ID message)) w2 = (Inr rs, w3) \<and>
         exec (Attachment_List did (em_ID message)) w3 = (Inr ps, w4) \<and> exec (FlowID did (em_ProfileID message)) w4 = (Inr fl, w5) \<and>
         call (sv_newID sv) w5 = (Inr eid, w6) \<and> timeNow w6 = (Inr now, w7) \<and>
         NewInboundMessageOutboxEvent eid \<lparr>is_OccurredAt = now, is_FlowID = fl, is_Thread = thread,
            is_Message = message, is_Recipients = rs, is_Attachments = ps\<rparr> (sv_limits sv) = Inr row \<and> Append row w7 = (Inr b, w'))"
    by (auto simp: returnM_Inr throwM_Inr bindM_Inr sum_Inr split: if_splits)
  have T: "w_db w2 = w_db w1" "\<exists>now. Thread_Get did (em_ThreadID message) now (w_db w1) = Inr (thread, w_db w1)"
    using exec_same[OF t] read_same(2) by blast+
  from M(2) have message: "message \<in> set (db_messages (w_db w))" "em_ID message = i" "em_DomainID message = did"
    by (auto simp: Message_Get_def split: option.splits dest!: find_row)
  from T(2) M(1) have thread: "thread \<in> set (db_threads (w_db w))" "th_ID thread = em_ThreadID message"
    by (auto simp: Thread_Get_def split: option.splits dest!: find_row)
  show thesis
  proof (rule that[OF message thread])
    from rest show "\<not> Eligible message thread \<and> w_db w' = w_db w \<or>
     (\<exists>src eid row v b. is_Message src = message \<and> NewInboundMessageOutboxEvent eid src (sv_limits sv) = Inr row \<and>
        w_db v = w_db w \<and> Append row v = (Inr b, w'))"
    proof (elim disjE exE conjE)
      assume "\<not> Eligible message thread" "w' = w2"
      with T(1) M(1) show ?thesis by simp
    next
      fix rs w3 ps w4 fl w5 eid w6 now w7 row b
      assume r: "exec (Recipient_List did (em_ID message)) w2 = (Inr rs, w3)" "exec (Attachment_List did (em_ID message)) w3 = (Inr ps, w4)"
        "exec (FlowID did (em_ProfileID message)) w4 = (Inr fl, w5)" "call (sv_newID sv) w5 = (Inr eid, w6)" "timeNow w6 = (Inr now, w7)"
        and new: "NewInboundMessageOutboxEvent eid \<lparr>is_OccurredAt = now, is_FlowID = fl, is_Thread = thread,
            is_Message = message, is_Recipients = rs, is_Attachments = ps\<rparr> (sv_limits sv) = Inr row" "Append row w7 = (Inr b, w')"
      have "w_db w7 = w_db w"
      proof -
        have "w_db w3 = w_db w2" "w_db w4 = w_db w3" "w_db w5 = w_db w4"
          using exec_same(1)[OF r(1)] exec_same(1)[OF r(2)] exec_same(1)[OF r(3)] read_same(3,4,5) by blast+
        with r(4,5) T(1) M(1) show ?thesis by (auto simp: call_def timeNow_Inr)
      qed
      with new show ?thesis by (intro disjI2) (metis InboundMessageSource.select_convs(4))
    qed
  qed
qed

lemma EventWriter_announces:
  assumes "EventWriter_Write sv (em_DomainID m) (em_ID m) w = (Inr u, w')" and "inbox_wf (w_db w)" and "m \<in> set (db_messages (w_db w))"
  shows "announced (w_db w') m" and "\<exists>ob. w_db w' = (w_db w)\<lparr>db_outbox := ob\<rparr> \<and> set (db_outbox (w_db w)) \<subseteq> set ob"
proof -
  from assms(1) obtain message thread where message: "message \<in> set (db_messages (w_db w))" "em_ID message = em_ID m"
    and thread: "thread \<in> set (db_threads (w_db w))" "th_ID thread = em_ThreadID message"
    and outcome: "\<not> Eligible message thread \<and> w_db w' = w_db w \<or>
     (\<exists>src eid row v b. is_Message src = message \<and> NewInboundMessageOutboxEvent eid src (sv_limits sv) = Inr row \<and>
        w_db v = w_db w \<and> Append row v = (Inr b, w'))" by (rule EventWriter_reads)
  have m: "message = m" using only_row[OF assms(2,3) message(1)] message(2) by simp
  have only: "t = thread" if "t \<in> set (db_threads (w_db w))" "same_thread m t" for t
    using only_thread[OF assms(2) thread(1) that(1)] that(2) thread(2) m by (simp add: same_thread_def)
  show frame: "\<exists>ob. w_db w' = (w_db w)\<lparr>db_outbox := ob\<rparr> \<and> set (db_outbox (w_db w)) \<subseteq> set ob"
    using outcome Append_records(2) by (elim disjE) (force intro: exI[of _ "db_outbox (w_db w)"], metis)
  then have threads: "db_threads (w_db w') = db_threads (w_db w)" by auto
  from outcome show "announced (w_db w') m"
  proof (elim disjE exE conjE)
    assume "\<not> Eligible message thread"
    then show ?thesis using only threads m by (auto simp: announced_def)
  next
    fix src eid row v b
    assume "is_Message src = message" "NewInboundMessageOutboxEvent eid src (sv_limits sv) = Inr row" "Append row v = (Inr b, w')"
    with event_identity Append_records(1) m show ?thesis unfolding announced_def by metis
  qed
qed

section \<open>Storing an email\<close>

text \<open>A thread an email may join, and the state between the row of a message and its event.\<close>

definition joins :: "ParsedEmail \<Rightarrow> EmailThread \<Rightarrow> db \<Rightarrow> bool" where
  "joins parsed t d \<longleftrightarrow> t \<in> set (db_threads d) \<and> th_DomainID t = pe_DomainID parsed \<and> th_ProfileID t = pe_ProfileID parsed \<and>
     (pe_Kind parsed = EmailKindRegular \<longrightarrow> th_Kind t = EmailThreadKindRegular)"

lemma visible_Thread_Create:
  assumes "Thread_Create t now d = Inr (x, d')" and "visible_ok {} d0 d"
  shows "visible_ok {} d0 d'"
proof -
  from assms(1) have d': "db_threads d' = db_threads d @ [x]" "db_messages d' = db_messages d" "db_attachments d' = db_attachments d"
    and x: "th_ID x \<notin> th_ID ` set (db_threads d)"
    by (auto simp: Thread_Create_def Let_def split: if_splits)
  have "(\<exists>t0\<in>set (db_threads d). th_ID u = th_ID t0 \<and> th_DomainID u = th_DomainID t0 \<and>
         th_ProfileID u = th_ProfileID t0 \<and> th_Kind u = th_Kind t0 \<and> (undecided u \<longrightarrow> undecided t0)) \<or>
       th_ID u \<notin> th_ID ` set (db_threads d)" if "u \<in> set (db_threads d')" for u
    using that x unfolding d' by (cases "u = x") auto
  note threads = this
  show ?thesis using assms(2) evolves_stmt[OF evolves_Thread_Create assms(1)]
    by (rule visible_ok_step) (use threads in \<open>auto simp: d'\<close>)
qed

lemma created_thread:
  assumes "Thread_Create t now d = Inr (x, d')"
  shows "x \<in> set (db_threads d')" "th_DomainID x = th_DomainID t" "th_ProfileID x = th_ProfileID t" "th_Kind x = th_Kind t"
  using assms by (auto simp: Thread_Create_def Let_def split: if_splits)

lemma triple_createThread:
  "triple False (visible_ok {} d0) (createThread parsed) (\<lambda>t d. visible_ok {} d0 d \<and> joins parsed t d) (\<lambda>_. True)"
  unfolding createThread_def Let_def
  by (rule triple_exec) (auto simp: joins_def dest: visible_Thread_Create created_thread)

lemma threadsByMessage_joins:
  assumes "firstThread rows = Some t" and "set rows \<subseteq> set (threadsByMessage \<lparr>tl_DomainID = pe_DomainID parsed, tl_ProfileID = pe_ProfileID parsed,
      tl_OnlyRegular = (pe_Kind parsed = EmailKindRegular)\<rparr> P d)"
  shows "joins parsed t d"
  using assms by (auto simp: firstThread_def threadsByMessage_def joins_def split: list.splits)

lemma triple_locate:
  "triple False (visible_ok {} d0) (exec (LocateByMessageIDs \<lparr>tl_DomainID = pe_DomainID parsed, tl_ProfileID = pe_ProfileID parsed,
      tl_OnlyRegular = (pe_Kind parsed = EmailKindRegular)\<rparr> ids))
     (\<lambda>r d. visible_ok {} d0 d \<and> (\<forall>t. r = Some t \<longrightarrow> joins parsed t d)) (\<lambda>_. True)"
  "triple False (visible_ok {} d0) (exec (LocateByInReplyTo \<lparr>tl_DomainID = pe_DomainID parsed, tl_ProfileID = pe_ProfileID parsed,
      tl_OnlyRegular = (pe_Kind parsed = EmailKindRegular)\<rparr> ref))
     (\<lambda>r d. visible_ok {} d0 d \<and> (\<forall>t. r = Some t \<longrightarrow> joins parsed t d)) (\<lambda>_. True)"
  by (rule triple_exec; auto simp: LocateByMessageIDs_def LocateByInReplyTo_def split: if_splits intro: threadsByMessage_joins)+

lemma triple_orElse:
  assumes "triple False (visible_ok {} d0) rule (\<lambda>r d. visible_ok {} d0 d \<and> (\<forall>t. r = Some t \<longrightarrow> joins parsed t d)) (\<lambda>_. True)"
    and "triple False (visible_ok {} d0) other (\<lambda>t d. visible_ok {} d0 d \<and> joins parsed t d) (\<lambda>_. True)"
  shows "triple False (visible_ok {} d0) (orElse rule other) (\<lambda>t d. visible_ok {} d0 d \<and> joins parsed t d) (\<lambda>_. True)"
  unfolding orElse_def
  by (rule triple_bind[OF assms(1)], rule triple_option, rule triple_conseq[OF assms(2)]) (auto intro: triple_intros)

lemma triple_resolveThread:
  "triple False (visible_ok {} d0) (resolveThread parsed) (\<lambda>t d. visible_ok {} d0 d \<and> joins parsed t d) (\<lambda>_. True)"
  unfolding resolveThread_def Let_def
  by (intro triple_orElse triple_if triple_locate triple_createThread triple_return) auto

text \<open>A new message: nothing else is about it yet.\<close>

definition drafting :: "db \<Rightarrow> EmailThread \<Rightarrow> EmailMessage \<Rightarrow> db \<Rightarrow> bool" where
  "drafting d0 t m d \<longleftrightarrow> visible_ok {em_ID m} d0 d \<and> m \<in> set (db_messages d) \<and> t \<in> set (db_threads d) \<and> same_thread m t"

lemma visible_Message_Create:
  assumes "Message_Create (buildMessage parsed (th_ID t) st) now d = Inr (x, d')" and "visible_ok {} d0 d" and "joins parsed t d"
  shows "drafting d0 t x d'" and "\<not> pendingPart d' x" and "em_State x = st" and "em_DomainID x = pe_DomainID parsed"
    and "em_ReceivedAt x = pe_ReceivedAt parsed"
proof -
  from assms(1) have d': "db_messages d' = db_messages d @ [x]" "db_threads d' = db_threads d" "db_attachments d' = db_attachments d"
      "db_outbox d' = db_outbox d"
    and x: "em_ID x \<notin> em_ID ` set (db_messages d)" "em_ThreadID x = th_ID t" "em_ProfileID x = pe_ProfileID parsed" "em_Kind x = pe_Kind parsed"
    and fields: "em_State x = st" "em_DomainID x = pe_DomainID parsed" "em_ReceivedAt x = pe_ReceivedAt parsed"
    by (auto simp: Message_Create_def Let_def buildMessage_def split: if_splits)
  have wf: "inbox_wf d'" using evolves_wf[OF evolves_stmt[OF evolves_Message_Create assms(1)] visible_okD(1)[OF assms(2)]] .
  have same: "same_thread x t" using assms(3) x fields by (simp add: same_thread_def joins_def)
  have fresh: "\<not> message_exists d i (em_ID x)" for i using x(1) by (auto simp: message_exists_def image_iff)
  have "\<not> pendingPart d' x" using visible_okD(2)[OF assms(2)] fresh unfolding pendingPart_def parts_known_def d' by metis
  moreover have "kinds_ok d'" unfolding kinds_ok_def d'
  proof (intro ballI impI)
    fix m u assume m: "m \<in> set (db_messages d @ [x])" and u: "u \<in> set (db_threads d)" "same_thread m u \<and> em_Kind m = EmailKindRegular"
    show "th_Kind u = EmailThreadKindRegular"
    proof (cases "m = x")
      case True
      then have "u = t" using only_thread[OF visible_okD(1)[OF assms(2)], of t u] assms(3) u x(2) by (simp add: joins_def same_thread_def)
      with assms(3) True u(2) x(4) show ?thesis by (simp add: joins_def)
    next
      case False
      with m u visible_okD(3)[OF assms(2)] show ?thesis by (auto simp: kinds_ok_def)
    qed
  qed
  moreover have "parts_known d'" using visible_okD(2)[OF assms(2)] by (auto simp: parts_known_def d' message_exists_def)
  moreover have "\<not> owes d' m \<and> (m \<in> set (db_messages d0) \<or> announced d' m)"
    if "m \<in> set (db_messages d')" "ready m" "em_ID m \<notin> {em_ID x}" for m
  proof -
    from that have "m \<in> set (db_messages d)" by (auto simp: d')
    with visible_okD(4,5)[OF assms(2) this that(2)] show ?thesis by (auto simp: owes_def pendingPart_def announced_def d')
  qed
  ultimately show "drafting d0 t x d'" "\<not> pendingPart d' x" using wf same assms(3) by (auto simp: drafting_def visible_ok_def d' joins_def)
  show "em_State x = st" "em_DomainID x = pe_DomainID parsed" "em_ReceivedAt x = pe_ReceivedAt parsed" using fields by auto
qed

lemma thread_decided:
  assumes "thread_valid t" and "\<not> needsContactResolution u" and "sm_ThreadKind u = th_Kind t" "sm_ContactResolution u = th_ContactResolutionState t"
  shows "\<not> undecided t"
  using assms by (cases "th_Kind t") (auto simp: needsContactResolution_def undecided_def thread_valid_def)

text \<open>What the completion is told about a message, and what it may rely on.\<close>

definition tracked :: "ParsedEmail \<Rightarrow> storedMessage \<Rightarrow> db \<Rightarrow> bool" where
  "tracked parsed s d \<longleftrightarrow> (\<exists>m\<in>set (db_messages d). em_ID m = sm_ID s \<and> em_DomainID m = pe_DomainID parsed \<and>
     em_ThreadID m = sm_ThreadID s \<and>
     (\<not> needsContactResolution s \<longrightarrow> (\<forall>t\<in>set (db_threads d). same_thread m t \<longrightarrow> \<not> undecided t)))"

lemma success_triple:
  assumes "triple out P m (\<lambda>_ _. True) (\<lambda>_. True)"
    and "\<And>w x w'. P (w_db w) \<Longrightarrow> m w = (Inr x, w') \<Longrightarrow> Q x (w_db w')"
  shows "triple out P m Q (\<lambda>_. True)"
  using assms unfolding triple_def by (auto split: sum.splits)

lemma triple_Append: "triple out (\<lambda>_. True) (Append ev) (\<lambda>_ _. True) (\<lambda>_. True)"
  using triple_exec[of "\<lambda>_. True" "insertOutbox ev" "\<lambda>_ _. True" "\<lambda>_. True" out]
  unfolding triple_def Append_def by (auto split: if_splits option.splits) blast

lemma triple_timeNow: "triple out (\<lambda>_. True) timeNow (\<lambda>_ _. True) (\<lambda>_. True)"
  by (auto simp: triple_def timeNow_def)

lemma triple_sum:
  "(\<And>x. triple out P (a x) Q E) \<Longrightarrow> (\<And>x. triple out P (b x) Q E) \<Longrightarrow> triple out P (case v of Inl x \<Rightarrow> a x | Inr x \<Rightarrow> b x) Q E"
  by (cases v) auto

lemma EventWriter_in_tx: "triple out (\<lambda>_. True) (EventWriter_Write sv did i) (\<lambda>_ _. True) (\<lambda>_. True)"
proof -
  have read: "triple out (\<lambda>_. True) (exec s) (\<lambda>_ _. True) (\<lambda>_. True)" for s :: "'x stmt" by (rule triple_exec) auto
  show ?thesis unfolding EventWriter_Write_def
    by (intro triple_bind[where R = "\<lambda>_ _. True"] triple_intros triple_Append triple_timeNow triple_sum read) auto
qed

lemma visible_announce:
  assumes "visible_ok {em_ID m} d0 d" and "m \<in> set (db_messages d)" and "\<not> owes d m"
    and "d' = d\<lparr>db_outbox := ob\<rparr>" "set (db_outbox d) \<subseteq> set ob" and "announced d' m"
  shows "visible_ok {} d0 d'"
proof -
  have ok: "visible_ok {em_ID m} d0 d'" using assms(1) by (rule visible_ok_same) (simp_all add: assms(4,5))
  have "\<not> owes d' n \<and> (n \<in> set (db_messages d0) \<or> announced d' n)" if "n \<in> set (db_messages d')" "ready n" for n
  proof (cases "em_ID n = em_ID m")
    case True
    then have "n = m" using only_row[OF visible_okD(1)[OF assms(1)] assms(2)] that(1) assms(4) by simp
    with assms(3,4,6) show ?thesis by (simp add: owes_def pendingPart_def)
  next
    case False
    with visible_okD(4,5)[OF ok that] show ?thesis by simp
  qed
  with ok show ?thesis by (simp add: visible_ok_def)
qed

text \<open>The last two statements that make a message visible.\<close>

definition exposed :: "db \<Rightarrow> EmailMessage \<Rightarrow> db \<Rightarrow> bool" where
  "exposed d0 m d \<longleftrightarrow> visible_ok {em_ID m} d0 d \<and> m \<in> set (db_messages d) \<and> \<not> owes d m"

lemma exposed_AdvanceLastMessage:
  assumes "AdvanceLastMessage did p i at now d = Inr (u, d')" and "exposed d0 m d"
  shows "exposed d0 m d'"
proof -
  from assms(1) obtain n where upd: "update_threads
        (\<lambda>t. th_DomainID t = did \<and> th_ProfileID t = p \<and> th_ID t = i
             \<and> (case th_LastMessageAt t of None \<Rightarrow> True | Some l \<Rightarrow> l < at))
        (\<lambda>t. t\<lparr>th_LastMessageAt := Some at, th_UpdatedAt := now\<rparr>) d = Inr (n, d')"
    by (auto simp: AdvanceLastMessage_def split: sum.splits)
  then have same: "db_messages d' = db_messages d" "db_attachments d' = db_attachments d"
    by (auto simp: update_threads_def split: if_splits)
  have "\<not> (same_thread m t \<and> undecided t)" if "t \<in> set (db_threads d')" for t
    using update_threads_rows[OF upd that] assms(2) by (auto simp: exposed_def owes_def same_thread_def undecided_def split: if_splits)
  then have "\<not> owes d' m" using assms(2) by (auto simp: exposed_def owes_def pendingPart_def same)
  with visible_AdvanceLastMessage[OF assms(1)] assms(2) show ?thesis by (simp add: exposed_def same)
qed

lemma triple_advance:
  "triple False (exposed d0 m) (exec (AdvanceLastMessage did p i at)) (\<lambda>_. exposed d0 m) (\<lambda>_. True)"
  by (rule triple_exec) (auto dest: exposed_AdvanceLastMessage)

lemma triple_event:
  "triple False (exposed d0 m) (EventWriter_Write sv (em_DomainID m) (em_ID m)) (\<lambda>_. visible_ok {} d0) (\<lambda>_. True)"
proof (rule success_triple)
  show "triple False (exposed d0 m) (EventWriter_Write sv (em_DomainID m) (em_ID m)) (\<lambda>_ _. True) (\<lambda>_. True)"
    by (rule triple_conseq[OF EventWriter_in_tx]) auto
  fix w u w'
  assume "exposed d0 m (w_db w)" and run: "EventWriter_Write sv (em_DomainID m) (em_ID m) w = (Inr u, w')"
  then have d: "visible_ok {em_ID m} d0 (w_db w)" "m \<in> set (db_messages (w_db w))" "\<not> owes (w_db w) m" by (simp_all add: exposed_def)
  from EventWriter_announces[OF run visible_okD(1)[OF d(1)] d(2)] visible_announce[OF d]
  show "visible_ok {} d0 (w_db w')" by metis
qed

lemma drafting_same:
  assumes "drafting d0 t m d" and "db_messages d' = db_messages d" "db_threads d' = db_threads d"
    "db_attachments d' = db_attachments d" "db_outbox d' = db_outbox d"
  shows "drafting d0 t m d'"
  using assms visible_ok_same[of "{em_ID m}" d0 d d'] by (simp add: drafting_def)

lemma drafting_Attachment_CreateBulk:
  assumes "Attachment_CreateBulk (em_DomainID m) (em_ID m) as now d = Inr (u, d')" and "drafting d0 t m d" and "\<not> pendingPart d m"
  shows "drafting d0 t m d'" and "\<not> hasPendingAttachments as \<Longrightarrow> \<not> pendingPart d' m"
proof -
  from assms(1) have d': "db_messages d' = db_messages d" "db_threads d' = db_threads d" "db_outbox d' = db_outbox d"
    by (auto simp: Attachment_CreateBulk_def Let_def split: if_splits)
  have parts: "a \<in> set (db_attachments d) \<or> ma_DomainID a = em_DomainID m \<and> ma_MessageID a = em_ID m \<and> (\<exists>b\<in>set as. ma_State a = ma_State b)"
    if "a \<in> set (db_attachments d')" for a
    using assms(1) that unfolding Attachment_CreateBulk_def Let_def
    by (auto simp: numbered_def split: if_splits) (metis set_zip_rightD)
  have exists: "message_exists d (em_DomainID m) (em_ID m)" using assms(2) by (auto simp: drafting_def message_exists_def)
  have "visible_ok {em_ID m} d0 d'"
    using assms(2) unfolding drafting_def
  proof (elim conjE)
    assume "visible_ok {em_ID m} d0 d"
    then show ?thesis using evolves_stmt[OF evolves_Attachment_CreateBulk assms(1)]
      by (rule visible_ok_step) (use parts exists in \<open>fastforce simp: d'\<close>)+
  qed
  with assms(2) show "drafting d0 t m d'" by (simp add: drafting_def d')
  show "\<not> pendingPart d' m" if "\<not> hasPendingAttachments as"
    using that parts assms(3) unfolding pendingPart_def hasPendingAttachments_def list_ex_iff by metis
qed

text \<open>The assertion \<open>persistParts\<close> starts from.\<close>

definition written :: "db \<Rightarrow> ParsedEmail \<Rightarrow> storedMessage \<Rightarrow> EmailThread \<Rightarrow> EmailMessage \<Rightarrow> db \<Rightarrow> bool" where
  "written d0 parsed u t m d \<longleftrightarrow> drafting d0 t m d \<and> em_State m = initialState (buildAttachments parsed) u \<and>
     em_DomainID m = pe_DomainID parsed \<and> sm_ThreadID u = th_ID t \<and> sm_ThreadKind u = th_Kind t \<and>
     sm_ContactResolution u = th_ContactResolutionState t \<and> (\<not> hasPendingAttachments (buildAttachments parsed) \<longrightarrow> \<not> pendingPart d m)"

lemma written_decided:
  assumes "written d0 parsed u t m d" and "\<not> needsContactResolution u" and "t' \<in> set (db_threads d)" "same_thread m t'"
  shows "\<not> undecided t'"
proof -
  from assms(1) have t: "t \<in> set (db_threads d)" "same_thread m t" "sm_ThreadKind u = th_Kind t"
    "sm_ContactResolution u = th_ContactResolutionState t" and ok: "visible_ok {em_ID m} d0 d"
    by (simp_all only: written_def drafting_def)
  note wf = visible_okD(1)[OF ok]
  have "t' = t" by (rule only_thread[OF wf t(1) assms(3)]) (use t(2) assms(4) in \<open>simp add: same_thread_def\<close>)
  moreover have "thread_valid t" using wf t(1) by (simp add: inbox_wf_def)
  ultimately show ?thesis using thread_decided[OF _ assms(2) t(3,4)] by simp
qed

lemma written_unfinished:
  assumes "written d0 parsed u t m d" and "initialState (buildAttachments parsed) u = EmailMessageStateProcessing"
  shows "visible_ok {} d0 d \<and> tracked parsed (u\<lparr>sm_ID := em_ID m\<rparr>) d"
proof -
  from assms have d: "visible_ok {em_ID m} d0 d" "m \<in> set (db_messages d)" "\<not> ready m" "same_thread m t"
    by (auto simp: written_def drafting_def ready_def)
  have "em_ID n \<noteq> em_ID m" if "n \<in> set (db_messages d)" "ready n" for n
    using only_row[OF visible_okD(1)[OF d(1)] d(2) that(1)] that(2) d(3) by metis
  then have "visible_ok {} d0 d" using d(1) by (auto simp: visible_ok_def)
  moreover have "needsContactResolution (u\<lparr>sm_ID := em_ID m\<rparr>) = needsContactResolution u" by (simp add: needsContactResolution_def)
  moreover have "em_ThreadID m = sm_ThreadID u" "em_DomainID m = pe_DomainID parsed" using assms(1) d(4) by (simp_all add: written_def same_thread_def)
  ultimately show ?thesis using d(2) written_decided[OF assms(1)] unfolding tracked_def by (intro conjI bexI[of _ m]) auto
qed

lemma written_exposed:
  assumes "written d0 parsed u t m d" and "initialState (buildAttachments parsed) u \<noteq> EmailMessageStateProcessing"
  shows "exposed d0 m d"
proof -
  from assms(2) have none: "\<not> hasPendingAttachments (buildAttachments parsed)" "\<not> needsContactResolution u"
    by (auto simp: initialState_def split: if_splits)
  with written_decided[OF assms(1) none(2)] assms(1) show ?thesis
    by (auto simp: exposed_def written_def drafting_def owes_def)
qed

lemma triple_persistParts:
  "triple False (\<lambda>d. written d0 parsed u t m d \<and> \<not> pendingPart d m) (persistParts sv parsed u m)
     (\<lambda>r d. visible_ok {} d0 d \<and> (\<forall>s. r = Some s \<longrightarrow> tracked parsed s d)) (\<lambda>_. True)"
proof -
  have recipients: "triple False (\<lambda>d. written d0 parsed u t m d \<and> \<not> pendingPart d m)
      (exec (Recipient_CreateBulk (pe_DomainID parsed) (em_ID m) rs)) (\<lambda>_ d. written d0 parsed u t m d \<and> \<not> pendingPart d m) (\<lambda>_. True)" for rs
  proof (rule triple_exec)
    fix now d x d'
    assume "written d0 parsed u t m d \<and> \<not> pendingPart d m" "Recipient_CreateBulk (pe_DomainID parsed) (em_ID m) rs now d = Inr (x, d')"
    with visible_Recipient_CreateBulk drafting_same[of d0 t m d d'] show "written d0 parsed u t m d' \<and> \<not> pendingPart d' m"
      by (metis pendingPart_def written_def)
  qed simp_all
  have parts: "triple False (\<lambda>d. written d0 parsed u t m d \<and> \<not> pendingPart d m)
      (exec (Attachment_CreateBulk (pe_DomainID parsed) (em_ID m) (buildAttachments parsed))) (\<lambda>_. written d0 parsed u t m) (\<lambda>_. True)"
  proof (rule triple_exec)
    fix now d x d'
    assume w: "written d0 parsed u t m d \<and> \<not> pendingPart d m"
      and run: "Attachment_CreateBulk (pe_DomainID parsed) (em_ID m) (buildAttachments parsed) now d = Inr (x, d')"
    from w have dm: "pe_DomainID parsed = em_DomainID m" by (simp add: written_def)
    from w drafting_Attachment_CreateBulk[OF run[unfolded dm]] show "written d0 parsed u t m d'" by (auto simp: written_def)
  qed simp_all
  have event: "triple False (\<lambda>d. exposed d0 m d \<and> em_DomainID m = pe_DomainID parsed) (EventWriter_Write sv (pe_DomainID parsed) (em_ID m))
      (\<lambda>_. visible_ok {} d0) (\<lambda>_. True)"
    using triple_event[of d0 m sv] unfolding triple_def by auto
  have advance: "triple False (\<lambda>d. exposed d0 m d \<and> em_DomainID m = pe_DomainID parsed) (exec (AdvanceLastMessage did p i at))
      (\<lambda>_ d. exposed d0 m d \<and> em_DomainID m = pe_DomainID parsed) (\<lambda>_. True)" for did p i at
    by (rule triple_exec) (auto dest: exposed_AdvanceLastMessage)
  show ?thesis unfolding persistParts_def
  proof (rule triple_bind[OF recipients], rule triple_bind[OF parts], rule triple_if)
    assume "initialState (buildAttachments parsed) u = EmailMessageStateProcessing"
    then show "triple False (written d0 parsed u t m) (returnM (Some (u\<lparr>sm_ID := em_ID m\<rparr>)))
      (\<lambda>r d. visible_ok {} d0 d \<and> (\<forall>s. r = Some s \<longrightarrow> tracked parsed s d)) (\<lambda>_. True)"
      by (intro triple_return) (auto dest: written_unfinished)
  next
    assume "initialState (buildAttachments parsed) u \<noteq> EmailMessageStateProcessing"
    then have "exposed d0 m d \<and> em_DomainID m = pe_DomainID parsed" if "written d0 parsed u t m d" for d
      using that written_exposed[OF that] unfolding written_def by blast
    then show "triple False (written d0 parsed u t m)
      (bindM (exec (AdvanceLastMessage (pe_DomainID parsed) (pe_ProfileID parsed) (sm_ThreadID u) (em_ReceivedAt m))) (\<lambda>_.
        bindM (EventWriter_Write sv (pe_DomainID parsed) (em_ID m)) (\<lambda>_. returnM None)))
      (\<lambda>r d. visible_ok {} d0 d \<and> (\<forall>s. r = Some s \<longrightarrow> tracked parsed s d)) (\<lambda>_. True)"
      by (intro triple_bind[OF triple_conseq[OF advance, where Q' = "\<lambda>_ d. exposed d0 m d \<and> em_DomainID m = pe_DomainID parsed"]]
          triple_bind[OF event] triple_return) auto
  qed
qed

lemma triple_persist:
  "triple False (visible_ok {} d0) (persist sv parsed)
     (\<lambda>r d. visible_ok {} d0 d \<and> (\<forall>s. r = Some s \<longrightarrow> tracked parsed s d)) (\<lambda>_. True)"
  unfolding persist_def Let_def
proof (rule triple_bind[OF triple_resolveThread])
  fix t :: EmailThread
  let ?u = "\<lparr>sm_ID = 0, sm_ThreadID = th_ID t, sm_ThreadKind = th_Kind t, sm_ContactResolution = th_ContactResolutionState t\<rparr>"
  let ?create = "exec (Message_Create (buildMessage parsed (th_ID t) (initialState (buildAttachments parsed) ?u)))"
  have "triple False (\<lambda>d. visible_ok {} d0 d \<and> joins parsed t d) ?create
      (\<lambda>m d. written d0 parsed ?u t m d \<and> \<not> pendingPart d m) (\<lambda>_. True)"
    using visible_Message_Create by (intro triple_exec) (auto simp: written_def)
  then show "triple False (\<lambda>d. visible_ok {} d0 d \<and> joins parsed t d) (bindM ?create (persistParts sv parsed ?u))
     (\<lambda>r d. visible_ok {} d0 d \<and> (\<forall>s. r = Some s \<longrightarrow> tracked parsed s d)) (\<lambda>_. True)"
    by (rule triple_bind[OF _ triple_persistParts])
qed

lemma located_row:
  assumes "locateIdentity P now d = Inr (Some s, d')"
  shows "\<exists>m\<in>set (db_messages d). \<exists>t\<in>set (db_threads d). P m \<and> same_thread m t \<and> s = \<lparr>mi_ID = em_ID m, mi_ThreadID = em_ThreadID m,
     mi_State = em_State m, mi_ThreadKind = th_Kind t, mi_ContactResolution = th_ContactResolutionState t\<rparr>"
  using assms by (auto simp: locateIdentity_def split: option.splits dest!: find_product)

text \<open>An email that is already stored: what the lookup says about it.\<close>

definition located :: "ParsedEmail \<Rightarrow> EmailMessageIdentity \<Rightarrow> db \<Rightarrow> bool" where
  "located parsed s d \<longleftrightarrow> (\<exists>m\<in>set (db_messages d). \<exists>t\<in>set (db_threads d). same_thread m t \<and> em_DomainID m = pe_DomainID parsed \<and>
     em_ID m = mi_ID s \<and> em_ThreadID m = mi_ThreadID s \<and> th_Kind t = mi_ThreadKind s \<and>
     th_ContactResolutionState t = mi_ContactResolution s)"

lemma triple_lookup:
  assumes "\<And>m. P m \<Longrightarrow> em_DomainID m = pe_DomainID parsed"
  shows "triple False (visible_ok {} d0) (exec (locateIdentity P))
     (\<lambda>r d. visible_ok {} d0 d \<and> (\<forall>s. r = Some s \<longrightarrow> located parsed s d)) (\<lambda>_. True)"
proof (rule triple_exec)
  fix now d r d'
  assume ok: "visible_ok {} d0 d" and run: "locateIdentity P now d = Inr (r, d')"
  from read_same(9)[OF run] have d': "d' = d" .
  have "located parsed s d" if "r = Some s" for s
    using located_row[OF run[unfolded that]] assms by (fastforce simp: located_def)
  with ok d' show "visible_ok {} d0 d' \<and> (\<forall>s. r = Some s \<longrightarrow> located parsed s d')" by simp
qed simp_all

lemma triple_locateStored:
  "triple False (visible_ok {} d0) (locateStored parsed)
     (\<lambda>r d. visible_ok {} d0 d \<and> (\<forall>s. r = Some s \<longrightarrow> located parsed s d)) (\<lambda>_. True)"
proof -
  let ?Q = "\<lambda>r d. visible_ok {} d0 d \<and> (\<forall>s. r = Some s \<longrightarrow> located parsed s d)"
  have found: "triple False (?Q r) (case r of Some s \<Rightarrow> returnM (Some s) | None \<Rightarrow> other) ?Q (\<lambda>_. True)"
    if "triple False (visible_ok {} d0) other ?Q (\<lambda>_. True)" for r other
    by (rule triple_option) (auto intro: triple_return triple_conseq[OF that])
  show ?thesis unfolding locateStored_def LocateByMessageID_def LocateByIMAPIdentity_def LocateByRawChecksum_def
    by (rule triple_bind[OF triple_lookup found], simp, rule triple_bind[OF triple_if found])
       (auto intro!: triple_lookup triple_intros)
qed

lemma located_tracked:
  assumes "located parsed s d" and "inbox_wf d"
  shows "tracked parsed \<lparr>sm_ID = mi_ID s, sm_ThreadID = mi_ThreadID s, sm_ThreadKind = mi_ThreadKind s,
     sm_ContactResolution = mi_ContactResolution s\<rparr> d" (is "tracked parsed ?u d")
proof -
  from assms(1) obtain m t where m: "m \<in> set (db_messages d)" "t \<in> set (db_threads d)" "same_thread m t"
      "em_DomainID m = pe_DomainID parsed" "em_ID m = mi_ID s" "em_ThreadID m = mi_ThreadID s"
    and t: "th_Kind t = mi_ThreadKind s" "th_ContactResolutionState t = mi_ContactResolution s" by (auto simp: located_def)
  have "\<not> undecided t'" if "\<not> needsContactResolution ?u" "t' \<in> set (db_threads d)" "same_thread m t'" for t'
  proof -
    have "t' = t" by (rule only_thread[OF assms(2) m(2) that(2)]) (use m(3) that(3) in \<open>simp add: same_thread_def\<close>)
    moreover have "\<not> undecided t"
      by (rule thread_decided[OF _ that(1)]) (use assms(2) m(2) t in \<open>simp_all add: inbox_wf_def\<close>)
    ultimately show ?thesis by simp
  qed
  with m show ?thesis by (auto simp: tracked_def)
qed

lemma triple_storeEmail:
  "triple False (visible_ok {} d0) (storeEmail sv parsed)
     (\<lambda>r d. visible_ok {} d0 d \<and> (\<forall>s. r = Some s \<longrightarrow> tracked parsed s d)) (\<lambda>_. True)"
proof -
  let ?Q = "\<lambda>r d. visible_ok {} d0 d \<and> (\<forall>s. r = Some s \<longrightarrow> tracked parsed s d)"
  have stored: "triple False (\<lambda>d. visible_ok {} d0 d \<and> located parsed s d)
      (if mi_State s = EmailMessageStateProcessing
       then returnM (Some \<lparr>sm_ID = mi_ID s, sm_ThreadID = mi_ThreadID s, sm_ThreadKind = mi_ThreadKind s,
                           sm_ContactResolution = mi_ContactResolution s\<rparr>)
       else returnM None) ?Q (\<lambda>_. True)" for s
    by (intro triple_intros) (auto dest: located_tracked visible_okD(1))
  show ?thesis unfolding storeEmail_def
    by (rule triple_bind[OF triple_lock], simp, rule triple_bind[OF triple_fence], simp, rule triple_bind[OF triple_locateStored],
        rule triple_option) (rule triple_conseq[OF triple_persist] triple_conseq[OF stored]; simp)+
qed

section \<open>Completing a message\<close>

text \<open>Steps that may stop at any point without harm.\<close>

definition holds :: "bool \<Rightarrow> db \<Rightarrow> 'a io \<Rightarrow> bool" where
  "holds out d0 m \<longleftrightarrow> triple out (visible_ok {} d0) m (\<lambda>_. visible_ok {} d0) (visible_ok {} d0)"

named_theorems hold_intros \<open>programs that keep the invariant at every point\<close>

lemma holds_return [hold_intros]: "holds out d0 (returnM x)" and holds_throw [hold_intros]: "holds out d0 (throwM e)"
  and holds_call [hold_intros]: "holds out d0 (call f)" and holds_ctxErr [hold_intros]: "holds out d0 ctxErr"
  unfolding holds_def by (auto intro!: triple_intros)

lemma holds_bind [hold_intros]: "holds out d0 m \<Longrightarrow> (\<And>x. holds out d0 (f x)) \<Longrightarrow> holds out d0 (bindM m f)"
  unfolding holds_def by (rule triple_bind)

lemma holds_catch [hold_intros]:
  "holds out d0 m \<Longrightarrow> (\<And>e. holds out d0 (f e)) \<Longrightarrow> (\<And>x. holds out d0 (g x)) \<Longrightarrow> holds out d0 (catchM m f g)"
  unfolding holds_def by (rule triple_catch)

lemma holds_if [hold_intros]: "holds out d0 a \<Longrightarrow> holds out d0 b \<Longrightarrow> holds out d0 (if c then a else b)"
  by simp

lemma holds_option [hold_intros]:
  "holds out d0 a \<Longrightarrow> (\<And>x. holds out d0 (b x)) \<Longrightarrow> holds out d0 (case v of None \<Rightarrow> a | Some x \<Rightarrow> b x)"
  by (cases v) auto

lemma holds_exec:
  assumes "\<And>now d x d'. s now d = Inr (x, d') \<Longrightarrow> visible_ok {} d0 d \<Longrightarrow> visible_ok {} d0 d'"
  shows "holds out d0 (exec s)"
  unfolding holds_def by (rule triple_exec) (auto intro: assms)

lemma holds_tx [hold_intros]: "holds False d0 body \<Longrightarrow> holds True d0 (WithinTransaction body)"
  unfolding holds_def by (rule triple_tx) (auto elim: triple_conseq)

lemma holds_statements [hold_intros]:
  "holds out d0 (exec (MarkFailed did i))" "holds out d0 (exec (IncrementAttachmentAttempts did i))"
  "holds out d0 (exec (MarkStored did i pos f))" "holds out d0 (exec (Record fl))"
  by (rule holds_exec, blast intro: visible_MarkFailed visible_IncrementAttachmentAttempts visible_MarkStored visible_Record)+

lemma holds_reads [hold_intros]:
  "holds out d0 (exec (EnsureEmailProfileAssignment a))" "holds out d0 (exec (Attachment_List did i))"
  "holds out d0 (exec (FirstSenderAddress did i))"
  by (rule holds_exec, use read_same in metis)+

lemma holds_quarantineMessage [hold_intros]: "holds out d0 (quarantineMessage parsed s reason)"
  unfolding quarantineMessage_def by (intro hold_intros)

lemma holds_uploadFailed [hold_intros]: "holds True d0 (uploadFailed sv parsed s e)"
  unfolding uploadFailed_def failMessage_def countAttempt_def by (intro hold_intros)

lemma holds_storeParts [hold_intros]: "holds True d0 (storeParts sv parsed s as)"
  by (induction as) (simp_all only: storeParts.simps markStored_def failMessage_def if_split hold_intros, auto intro!: hold_intros)

lemma holds_resolveContact [hold_intros]: "holds True d0 (resolveContact sv parsed s)"
  unfolding resolveContact_def by (intro hold_intros)

lemma holds_quarantineEmail [hold_intros]: "holds True d0 (quarantineEmail sv m c reason)"
  unfolding quarantineEmail_def by (cases "sv_headerHints sv (msg_Raw m)") (auto intro: hold_intros)

lemma tracked_evolves:
  assumes "tracked parsed s d" and "inbox_evolves d d'" and "inbox_wf d"
  shows "tracked parsed s d'"
proof -
  from assms(1) obtain m where m: "m \<in> set (db_messages d)" "em_ID m = sm_ID s" "em_DomainID m = pe_DomainID parsed" "em_ThreadID m = sm_ThreadID s"
    and decided: "\<not> needsContactResolution s \<Longrightarrow> t \<in> set (db_threads d) \<Longrightarrow> same_thread m t \<Longrightarrow> \<not> undecided t" for t
    by (auto simp: tracked_def)
  from evolves_message[OF assms(2) m(1)] obtain m' where m': "m' \<in> set (db_messages d')" "core m' = core m"
    by (auto simp: message_evolves_def)
  have same: "same_thread m' t = same_thread m t" for t using m'(2) by (metis core_simps(4))
  have "\<not> undecided t'" if "\<not> needsContactResolution s" "t' \<in> set (db_threads d')" "same_thread m' t'" for t'
  proof -
    from assms(3) m(1) obtain t where t: "t \<in> set (db_threads d)" "same_thread m t" by (auto simp: inbox_wf_def)
    with assms(2) obtain t1 where t1: "t1 \<in> set (db_threads d')" "thread_evolves t t1" by (auto simp: inbox_evolves_def)
    have "t' = t1" by (rule only_thread[OF evolves_wf[OF assms(2,3)] t1(1) that(2)])
        (use t(2) t1(2) that(3)[unfolded same] in \<open>simp add: same_thread_def thread_evolves_def\<close>)
    with t1(2) decided[OF that(1) t] show ?thesis by (auto simp: thread_evolves_def undecided_def)
  qed
  moreover have "em_ID m' = em_ID m" "em_DomainID m' = em_DomainID m" "em_ThreadID m' = em_ThreadID m"
    using arg_cong[OF m'(2), of em_ID] arg_cong[OF m'(2), of em_DomainID] arg_cong[OF m'(2), of em_ThreadID] by (simp_all add: core_def)
  ultimately show ?thesis using m m'(1) by (auto simp: tracked_def)
qed

lemma triple_tracked:
  assumes "holds out d0 m" and "evolves_io m"
  shows "triple out (\<lambda>d. visible_ok {} d0 d \<and> tracked parsed s d) m (\<lambda>_ d. visible_ok {} d0 d \<and> tracked parsed s d) (visible_ok {} d0)"
proof (rule tripleI)
  fix w r w'
  assume w: "(w_tx w = None) = out" "visible_ok {} d0 (w_db w) \<and> tracked parsed s (w_db w)" "m w = (r, w')"
  then have "tracked parsed s (w_db w')"
    using tracked_evolves[OF _ evolves_ioD[OF assms(2) w(3)]] visible_okD(1) by blast
  with tripleD[OF assms(1)[unfolded holds_def] w(1) _ w(3)] w(2)
  show "(w_tx w' = None) = out \<and> (case r of Inl e \<Rightarrow> visible_ok {} d0 (w_db w')
     | Inr x \<Rightarrow> visible_ok {} d0 (w_db w') \<and> tracked parsed s (w_db w'))" by (cases r) auto
qed

text \<open>The thread of the message is decided.\<close>

definition cleared :: "ParsedEmail \<Rightarrow> storedMessage \<Rightarrow> db \<Rightarrow> bool" where
  "cleared parsed s d \<longleftrightarrow> (\<exists>m\<in>set (db_messages d). em_ID m = sm_ID s \<and> em_DomainID m = pe_DomainID parsed \<and>
     (\<forall>t\<in>set (db_threads d). same_thread m t \<longrightarrow> \<not> undecided t))"

lemma ResolveContact_clears:
  assumes "ResolveContact (pe_DomainID parsed) (sm_ThreadID s) st c now d = Inr (b, d')" and "st \<noteq> EmailContactResolutionPending"
    and "visible_ok {} d0 d" and "tracked parsed s d"
  shows "visible_ok {} d0 d' \<and> cleared parsed s d'"
proof -
  have ok: "visible_ok {} d0 d'" using visible_ResolveContact[OF assms(1,3,2)] .
  from assms(1) have same: "db_messages d' = db_messages d"
    by (auto simp: ResolveContact_def update_threads_def split: sum.splits if_splits)
  have "\<not> undecided t" if "t \<in> set (db_threads d')" "th_DomainID t = pe_DomainID parsed" "th_ID t = sm_ThreadID s" for t
    using ResolveContact_decides[OF assms(1,2) visible_okD(1)[OF ok] that] .
  with assms(4) ok show ?thesis by (auto simp: tracked_def cleared_def same same_thread_def)
qed

definition decides :: "storedMessage \<Rightarrow> contactResolution option \<Rightarrow> bool" where
  "decides s r \<longleftrightarrow> (case r of None \<Rightarrow> \<not> needsContactResolution s | Some x \<Rightarrow> cr_State x \<noteq> EmailContactResolutionPending)"

lemma triple_storeResolution:
  assumes "decides s r"
  shows "triple False (\<lambda>d. visible_ok {} d0 d \<and> tracked parsed s d) (storeResolution parsed s r)
     (\<lambda>_ d. visible_ok {} d0 d \<and> cleared parsed s d) (\<lambda>_. True)"
proof (cases r)
  case None
  with assms show ?thesis by (auto simp: storeResolution_def decides_def tracked_def cleared_def intro!: triple_return)
next
  case (Some x)
  with assms have "triple False (\<lambda>d. visible_ok {} d0 d \<and> tracked parsed s d)
      (exec (ResolveContact (pe_DomainID parsed) (sm_ThreadID s) (cr_State x) (cr_ContactID x)))
      (\<lambda>_ d. visible_ok {} d0 d \<and> cleared parsed s d) (\<lambda>_. True)"
    using ResolveContact_clears by (intro triple_exec) (auto simp: decides_def)
  with Some show ?thesis by (auto simp: storeResolution_def intro!: triple_bind triple_return)
qed

lemma MarkReady_exposes:
  assumes "MarkReady (pe_DomainID parsed) (sm_ID s) now d = Inr (st, d')" and ok: "visible_ok {} d0 d" and "cleared parsed s d"
  shows "if st = Some EmailMessageStateReady
    then \<exists>m. exposed d0 m d' \<and> em_ID m = sm_ID s \<and> em_DomainID m = pe_DomainID parsed
    else visible_ok {} d0 d'"
proof (cases "st = Some EmailMessageStateReady")
  case True
  note run = assms(1)[unfolded True]
  from assms(3) obtain m where m: "m \<in> set (db_messages d)" "em_ID m = sm_ID s" "em_DomainID m = pe_DomainID parsed"
    and decided: "\<And>t. t \<in> set (db_threads d) \<Longrightarrow> same_thread m t \<Longrightarrow> \<not> undecided t" by (auto simp: cleared_def)
  from evolves_message[OF evolves_stmt[OF evolves_MarkReady run] m(1)] obtain m' where m': "m' \<in> set (db_messages d')" "core m' = core m"
    by (auto simp: message_evolves_def)
  then have ids: "em_ID m' = sm_ID s" "em_DomainID m' = pe_DomainID parsed" "\<And>t. same_thread m' t = same_thread m t"
    using m by (metis core_simps)+
  have "db_threads d' = db_threads d" using run by (auto simp: MarkReady_def Let_def split: if_splits)
  with MarkReady_no_parts[OF run ok m'(1) ids(1,2)] ids(3) decided have "\<not> owes d' m'" by (auto simp: owes_def)
  with visible_MarkReady(1)[OF run ok] m'(1) ids(1) have "exposed d0 m' d'" by (simp add: exposed_def)
  with ids(1,2) True show ?thesis by auto
next
  case False
  with visible_MarkReady(2)[OF assms(1) ok] ok show ?thesis by simp
qed

lemma triple_ex: "(\<And>x. triple out (P x) m Q E) \<Longrightarrow> triple out (\<lambda>d. \<exists>x. P x d) m Q E"
  unfolding triple_def by blast

lemma triple_markReady:
  assumes "decides s r"
  shows "triple True (\<lambda>d. visible_ok {} d0 d \<and> tracked parsed s d) (markReady sv parsed s r) (\<lambda>_. visible_ok {} d0) (visible_ok {} d0)"
  unfolding markReady_def
proof (rule triple_tx)
  let ?shown = "\<lambda>d. \<exists>m. exposed d0 m d \<and> em_ID m = sm_ID s \<and> em_DomainID m = pe_DomainID parsed"
  have mark: "triple False (\<lambda>d. visible_ok {} d0 d \<and> cleared parsed s d) (exec (MarkReady (pe_DomainID parsed) (sm_ID s)))
      (\<lambda>st d. if st = Some EmailMessageStateReady then ?shown d else visible_ok {} d0 d) (\<lambda>_. True)"
    by (rule triple_exec) (auto dest: MarkReady_exposes simp del: split_paired_Ex)
  have "triple False (\<lambda>d. exposed d0 m d \<and> em_ID m = sm_ID s \<and> em_DomainID m = pe_DomainID parsed)
      (bindM (exec (AdvanceLastMessage did p i at)) (\<lambda>_. EventWriter_Write sv (pe_DomainID parsed) (sm_ID s))) (\<lambda>_. visible_ok {} d0) (\<lambda>_. True)" for m did p i at
  proof (cases "em_ID m = sm_ID s \<and> em_DomainID m = pe_DomainID parsed")
    case True
    with triple_bind[OF triple_advance triple_event, of d0 m] show ?thesis by simp
  next
    case False
    then show ?thesis by (auto simp: triple_def)
  qed
  note announce = triple_ex[OF this]
  show "triple False (\<lambda>d. visible_ok {} d0 d \<and> tracked parsed s d)
     (bindM (exec (EnsureEmailProfileAssignment (pe_Assignment parsed))) (\<lambda>_.
      bindM (storeResolution parsed s r) (\<lambda>_.
      bindM (exec (MarkReady (pe_DomainID parsed) (sm_ID s))) (\<lambda>state.
      if state = Some EmailMessageStateProcessing then throwM (PlainError ''email message still has pending attachments'')
      else if state \<noteq> Some EmailMessageStateReady then returnM ()
      else bindM (exec (AdvanceLastMessage (pe_DomainID parsed) (pe_ProfileID parsed) (sm_ThreadID s) (pe_ReceivedAt parsed))) (\<lambda>_.
      EventWriter_Write sv (pe_DomainID parsed) (sm_ID s)))))) (\<lambda>_. visible_ok {} d0) (\<lambda>_. True)"
    by (rule triple_bind[OF triple_fence], simp, rule triple_bind[OF triple_storeResolution[OF assms]], rule triple_bind[OF mark],
        intro triple_if triple_throw triple_return) (simp_all add: announce)
qed simp_all

lemma resolveContact_outcome:
  assumes "resolveContact sv parsed s w = (Inr r, w')"
  shows "decides s r"
proof (cases r)
  case None
  with assms show ?thesis unfolding resolveContact_def by (auto simp: decides_def io_success split: if_splits)
next
  case (Some x)
  with assms resolveContact_decides show ?thesis by (auto simp: decides_def)
qed

lemma triple_value:
  assumes "triple out P m Q E" and "\<And>w x w'. m w = (Inr x, w') \<Longrightarrow> R x"
  shows "triple out P m (\<lambda>x d. Q x d \<and> R x) E"
proof (rule tripleI)
  fix w r w'
  assume w: "(w_tx w = None) = out" "P (w_db w)" "m w = (r, w')"
  from tripleD[OF assms(1) w] assms(2)[of w _ w'] w(3)
  show "(w_tx w' = None) = out \<and> (case r of Inl e \<Rightarrow> E (w_db w') | Inr x \<Rightarrow> Q x (w_db w') \<and> R x)" by (cases r) simp_all
qed

lemma triple_Complete:
  "triple True (\<lambda>d. visible_ok {} d0 d \<and> tracked parsed s d) (Complete sv parsed s) (\<lambda>_. visible_ok {} d0) (visible_ok {} d0)"
proof -
  have resolve: "triple True (\<lambda>d. visible_ok {} d0 d \<and> tracked parsed s d) (resolveContact sv parsed s)
      (\<lambda>r d. (visible_ok {} d0 d \<and> tracked parsed s d) \<and> decides s r) (visible_ok {} d0)"
    by (rule triple_value[OF triple_tracked[OF holds_resolveContact evolves_resolveContact]]) (rule resolveContact_outcome)
  have mark: "triple True (\<lambda>d. (visible_ok {} d0 d \<and> tracked parsed s d) \<and> decides s r) (markReady sv parsed s r) (\<lambda>_. visible_ok {} d0) (visible_ok {} d0)" for r
    by (cases "decides s r") (simp_all add: triple_markReady, simp add: triple_def)
  show ?thesis unfolding Complete_def
    by (rule triple_bind[OF triple_tracked], intro hold_intros, intro evolve_intros,
        rule triple_bind[OF triple_tracked], intro hold_intros, intro evolve_intros,
        intro triple_if triple_return triple_bind[OF resolve mark]) simp
qed

lemma triple_PersistenceHandler:
  "holds True d0 (PersistenceHandler_Handle sv parsed)"
proof -
  have "triple True (\<lambda>d. visible_ok {} d0 d \<and> (\<forall>s. r = Some s \<longrightarrow> tracked parsed s d))
      (case r of None \<Rightarrow> returnM () | Some message \<Rightarrow> Complete sv parsed message) (\<lambda>_. visible_ok {} d0) (visible_ok {} d0)" for r
    by (rule triple_option) (auto intro: triple_return triple_conseq[OF triple_Complete])
  then show ?thesis unfolding holds_def PersistenceHandler_Handle_def
    by (intro triple_bind[OF triple_tx[OF triple_storeEmail]]) simp_all
qed

lemma holds_QuarantineHandler: "holds True d0 (QuarantineHandler_Handle sv m)"
proof -
  have mime: "holds True d0 (MIMEHandler_Handle sv m)"
    unfolding MIMEHandler_Handle_def by (cases "sv_Parse sv m") (simp_all add: hold_intros triple_PersistenceHandler)
  have "holds True d0 (case e of PermanentError c x \<Rightarrow> bindM ctxErr (\<lambda>cancelled. if cancelled then throwM e
      else quarantineEmail sv m c (categoryReason c)) | _ \<Rightarrow> throwM e)" for e
    by (cases e) (auto intro!: hold_intros)
  with mime show ?thesis unfolding QuarantineHandler_Handle_def by (intro hold_intros)
qed

section \<open>What a visible message stands for\<close>

definition inbox_ok :: "db \<Rightarrow> bool" where
  "inbox_ok d \<longleftrightarrow> inbox_wf d \<and> parts_known d \<and> kinds_ok d \<and> (\<forall>m\<in>set (db_messages d). ready m \<longrightarrow> \<not> owes d m)"

text \<open>
  C11: Whatever fails on the way, the pipeline holds the inbox in order (keys and foreign keys
  hold, an ordinary email is in an ordinary thread, and a message that is ready has no part
  left to store and no contact left to look up), and every message that has become ready has
  its event in the outbox when it is one that has to be announced.
\<close>
theorem ready_messages_are_complete_and_announced:
  assumes "w_tx w = None" and "inbox_ok (w_db w)" and "QuarantineHandler_Handle sv m w = (r, w')"
  shows "inbox_ok (w_db w') \<and>
    (\<forall>e\<in>set (db_messages (w_db w')). ready e \<and> e \<notin> set (db_messages (w_db w)) \<longrightarrow> announced (w_db w') e)"
proof -
  have "visible_ok {} (w_db w) (w_db w)" using assms(2) by (auto simp: visible_ok_def inbox_ok_def)
  with tripleD(2)[OF holds_QuarantineHandler[unfolded holds_def] _ _ assms(3)] assms(1)
  have "visible_ok {} (w_db w) (w_db w')" by (cases r) auto
  then show ?thesis unfolding visible_ok_def inbox_ok_def by blast
qed

text \<open>An ordinary email with one part: it passes through every stage before it is ready.\<close>

definition sample_letter :: "Message \<Rightarrow> ParsedEmail" where
  "sample_letter m = (sample_parsed m)\<lparr>pe_Kind := EmailKindRegular, pe_Parts := [\<lparr>pa_Name = ''a.txt'', pa_ContentType = ''text/plain'',
     pa_ContentID = '''', pa_Disposition = EmailPartDispositionAttachment, pa_Size = 2, pa_Content = Some ''hi'', pa_SkippedReason = None\<rparr>]\<rparr>"

definition sample_letters :: services where
  "sample_letters = sample_services\<lparr>sv_Parse := \<lambda>m. Inr (sample_letter m)\<rparr>"

theorem ready_messages_are_complete_and_announced_witness:
  "inbox_ok (w_db (snd (QuarantineHandler_Handle sample_letters sample_mail (sample_world sample_owned)))) \<and>
   filter (\<lambda>e. ready e \<and> \<not> announced (w_db (snd (QuarantineHandler_Handle sample_letters sample_mail (sample_world sample_owned)))) e)
     (db_messages (w_db (snd (QuarantineHandler_Handle sample_letters sample_mail (sample_world sample_owned))))) = [] \<and>
   filter ready (db_messages sample_stored) \<noteq> []"
proof -
  have start: "inbox_ok (w_db (sample_world sample_owned))" "w_tx (sample_world sample_owned) = None"
    "db_messages (w_db (sample_world sample_owned)) = []"
    by (simp_all add: inbox_ok_def inbox_wf_def parts_known_def kinds_ok_def sample_world_def sample_defs)
  define run where "run = QuarantineHandler_Handle sample_letters sample_mail (sample_world sample_owned)"
  have "inbox_ok (w_db (snd run)) \<and> filter (\<lambda>e. ready e \<and> \<not> announced (w_db (snd run)) e) (db_messages (w_db (snd run))) = []"
    using ready_messages_are_complete_and_announced[OF start(2,1), of sample_letters sample_mail "fst run" "snd run"] start(3)
    by (auto simp: run_def filter_empty_conv)
  moreover have "filter ready (db_messages sample_stored) \<noteq> []" by code_simp
  ultimately show ?thesis by (simp add: run_def)
qed

end
