(* ===== verification/Go_Text.thy ===== *)
theory Go_Text
  imports Go_Strings
begin

text \<open>
  The functions of Go's \<^verbatim>\<open>strings\<close> package the services use beside those of
  \<open>Go_Strings\<close>: \<^verbatim>\<open>TrimSpace\<close> with Unicode white space, \<^verbatim>\<open>Split\<close> at one byte,
  \<^verbatim>\<open>Join\<close> and \<^verbatim>\<open>HasPrefix\<close>; and the unpadded URL alphabet of \<^verbatim>\<open>encoding/base64\<close>.
\<close>

section \<open>Trimming\<close>

text \<open>\<^verbatim>\<open>unicode.IsSpace\<close>, on the bytes of one rune.\<close>

definition is_space :: "string \<Rightarrow> bool" where
  "is_space r \<longleftrightarrow> (case map byte r of
       [a] \<Rightarrow> a = 32 \<or> 9 \<le> a \<and> a \<le> 13
     | [a, b] \<Rightarrow> a = 194 \<and> (b = 133 \<or> b = 160)
     | [a, b, c] \<Rightarrow> a = 225 \<and> b = 154 \<and> c = 128 \<or>
         a = 226 \<and> (b = 128 \<and> (c \<le> 138 \<or> c = 168 \<or> c = 169 \<or> c = 175) \<or> b = 129 \<and> c = 159) \<or>
         a = 227 \<and> b = 128 \<and> c = 128
     | _ \<Rightarrow> False)"

definition TrimSpace :: "string \<Rightarrow> string" where
  "TrimSpace s = concat (rev (dropWhile is_space (rev (dropWhile is_space (runes s)))))"

lemma TrimSpace_Nil [simp]: "TrimSpace [] = []"
  by (simp add: TrimSpace_def)

lemma concat_rev_dropWhile_Nil:
  assumes "\<forall>r\<in>set rs. r \<noteq> []"
  shows "concat (rev (dropWhile P (rev (dropWhile P rs)))) = [] \<longleftrightarrow> (\<forall>r\<in>set rs. P r)"
proof -
  have "set (rev (dropWhile P (rev (dropWhile P rs)))) \<subseteq> set rs" by (auto dest!: set_dropWhileD)
  with assms have "\<forall>r\<in>set (dropWhile P (rev (dropWhile P rs))). r \<noteq> []" by auto
  then have "concat (rev (dropWhile P (rev (dropWhile P rs)))) = [] \<longleftrightarrow> dropWhile P (rev (dropWhile P rs)) = []"
    unfolding concat_eq_Nil_conv by (cases "dropWhile P (rev (dropWhile P rs))") (simp_all del: dropWhile_eq_Nil_conv)
  also have "\<dots> \<longleftrightarrow> (\<forall>r\<in>set (dropWhile P rs). P r)" by (simp add: dropWhile_eq_Nil_conv)
  also have "\<dots> \<longleftrightarrow> (\<forall>r\<in>set rs. P r)" by (induction rs) auto
  finally show ?thesis .
qed

lemma runes_nonempty: "r \<in> set (runes s) \<Longrightarrow> r \<noteq> []"
proof (induction s rule: runes.induct)
  case (1 s)
  show ?case
  proof (cases "s = []")
    case False
    with 1 runeLen_pos[OF False] show ?thesis by (subst (asm) (2) runes.simps) auto
  qed (use 1 in simp)
qed

text \<open>Only spaces are trimmed away, so what PostgreSQL would trim to nothing is empty for Go too.\<close>

lemma TrimSpace_empty: "TrimSpace s = [] \<longleftrightarrow> (\<forall>r\<in>set (runes s). is_space r)"
  unfolding TrimSpace_def by (rule concat_rev_dropWhile_Nil) (use runes_nonempty in blast)

lemma sql_trim_empty: "sql_trim s = [] \<longleftrightarrow> (\<forall>c\<in>set s. c = CHR '' '')"
proof -
  have "sql_trim s = [] \<longleftrightarrow> (\<forall>c\<in>set (dropWhile (\<lambda>c. c = CHR '' '') s). c = CHR '' '')"
    by (simp add: sql_trim_def dropWhile_eq_Nil_conv)
  also have "\<dots> \<longleftrightarrow> (\<forall>c\<in>set s. c = CHR '' '')" by (induction s) auto
  finally show ?thesis .
qed

lemma TrimSpace_sql_trim: "sql_trim s = [] \<Longrightarrow> TrimSpace s = []"
proof -
  assume "sql_trim s = []"
  then have sp: "\<forall>c\<in>set s. c = CHR '' ''" by (simp add: sql_trim_empty)
  then have "byte c < 128" if "c \<in> set s" for c using bspec[OF sp that] by simp
  then have "runes s = map (\<lambda>c. [c]) s" by (intro runes_ascii) blast
  moreover have "is_space [c]" if "c \<in> set s" for c using bspec[OF sp that] by (simp add: is_space_def)
  ultimately show ?thesis by (simp add: TrimSpace_empty)
qed

section \<open>Splitting and joining\<close>

text \<open>\<^verbatim>\<open>strings.Split(s, sep)\<close> for a separator of one byte.\<close>

fun Split :: "char \<Rightarrow> string \<Rightarrow> string list" where
  "Split sep [] = [[]]"
| "Split sep (c # cs) = (if c = sep then [] # Split sep cs
     else case Split sep cs of [] \<Rightarrow> [[c]] | f # fs \<Rightarrow> (c # f) # fs)"

fun Join :: "string list \<Rightarrow> string \<Rightarrow> string" where
  "Join [] sep = []"
| "Join [x] sep = x"
| "Join (x # y # ys) sep = x @ sep @ Join (y # ys) sep"

definition HasPrefix :: "string \<Rightarrow> string \<Rightarrow> bool" where
  "HasPrefix s p \<longleftrightarrow> take (length p) s = p"

section \<open>Base64\<close>

text \<open>
  \<^verbatim>\<open>base64.RawURLEncoding\<close>: the URL alphabet without padding. Three bytes become four
  characters, a rest of one or two bytes becomes two or three. The decoder skips line breaks,
  rejects every other character outside the alphabet and a rest of one character, and does
  not look at the unused bits of the last character.
\<close>

definition alphabet :: string where
  "alphabet = ''ABCDEFGHIJKLMNOPQRSTUVWXYZabcdefghijklmnopqrstuvwxyz0123456789-_''"

definition b64char :: "nat \<Rightarrow> char" where
  "b64char n = alphabet ! n"

definition b64value :: "char \<Rightarrow> nat option" where
  "b64value c = (let i = length (takeWhile (\<lambda>x. x \<noteq> c) alphabet) in if i < 64 then Some i else None)"

fun RawURLEncode :: "string \<Rightarrow> string" where
  "RawURLEncode [] = []"
| "RawURLEncode [a] = [b64char (byte a div 4), b64char (byte a mod 4 * 16)]"
| "RawURLEncode [a, b] = [b64char (byte a div 4), b64char (byte a mod 4 * 16 + byte b div 16), b64char (byte b mod 16 * 4)]"
| "RawURLEncode (a # b # c # s) = [b64char (byte a div 4), b64char (byte a mod 4 * 16 + byte b div 16),
     b64char (byte b mod 16 * 4 + byte c div 64), b64char (byte c mod 64)] @ RawURLEncode s"

fun b64bytes :: "nat list \<Rightarrow> string option" where
  "b64bytes [] = Some []"
| "b64bytes [p] = None"
| "b64bytes [p, q] = Some [char_of (p * 4 + q div 16)]"
| "b64bytes [p, q, r] = Some [char_of (p * 4 + q div 16), char_of (q mod 16 * 16 + r div 4)]"
| "b64bytes (p # q # r # t # s) = map_option (\<lambda>bs. char_of (p * 4 + q div 16) # char_of (q mod 16 * 16 + r div 4) #
     char_of (r mod 4 * 64 + t) # bs) (b64bytes s)"

definition RawURLDecode :: "string \<Rightarrow> string option" where
  "RawURLDecode s = Option.bind (those (map b64value (filter (\<lambda>c. c \<noteq> CHR 10 \<and> c \<noteq> CHR 13) s))) b64bytes"

lemma alphabet_facts: "length alphabet = 64" "distinct alphabet" "CHR 10 \<notin> set alphabet" "CHR 13 \<notin> set alphabet"
  by (simp_all add: alphabet_def)

lemma b64value_char: "n < 64 \<Longrightarrow> b64value (b64char n) = Some n"
proof -
  assume n: "n < 64"
  have "takeWhile (\<lambda>x. x \<noteq> alphabet ! n) alphabet = take n alphabet"
  proof (rule takeWhile_eq_take_P_nth)
    show "alphabet ! i \<noteq> alphabet ! n" if "i < n" "i < length alphabet" for i
      using that n alphabet_facts(1,2) by (simp add: nth_eq_iff_index_eq)
  qed simp
  with n show ?thesis by (simp add: b64value_def b64char_def alphabet_facts(1))
qed

lemma b64char_breaks: "n < 64 \<Longrightarrow> b64char n \<noteq> CHR 10 \<and> b64char n \<noteq> CHR 13"
  using alphabet_facts nth_mem[of n alphabet] unfolding b64char_def by metis

lemma byte_bound: "byte c < 256"
  by (metis of_char_mod_256 mod_less_divisor zero_less_numeral)

lemma b64_digits:
  "byte a div 4 < 64" "byte a mod 4 < 4" "byte b div 16 < 16" "byte b mod 16 < 16" "byte c div 64 < 4" "byte c mod 64 < 64"
  using byte_bound[of a] byte_bound[of b] byte_bound[of c] by (simp_all add: less_mult_imp_div_less)

lemma two_digits:
  fixes x y :: nat
  shows "y < 16 \<Longrightarrow> (x * 16 + y) div 16 = x" "y < 16 \<Longrightarrow> (x * 16 + y) mod 16 = y"
    "y < 4 \<Longrightarrow> (x * 4 + y) div 4 = x" "y < 4 \<Longrightarrow> (x * 4 + y) mod 4 = y"
  by simp_all

lemma digits_bound:
  fixes x y :: nat
  shows "y < 16 \<Longrightarrow> x mod 4 * 16 + y < 64" "y < 4 \<Longrightarrow> x mod 16 * 4 + y < 64"
  using mod_less_divisor[of 4 x] mod_less_divisor[of 16 x] by linarith+

lemma decode_chars:
  assumes "\<forall>n\<in>set ns. n < 64"
  shows "RawURLDecode (map b64char ns) = b64bytes ns"
proof -
  have "filter (\<lambda>c. c \<noteq> CHR 10 \<and> c \<noteq> CHR 13) (map b64char ns) = map b64char ns"
    using assms b64char_breaks by (induction ns) auto
  moreover have "those (map b64value (map b64char ns)) = Some ns"
    using assms by (induction ns) (simp_all add: b64value_char)
  ultimately show ?thesis by (simp add: RawURLDecode_def)
qed

lemma encode_chars: "\<exists>ns. RawURLEncode s = map b64char ns \<and> (\<forall>n\<in>set ns. n < 64) \<and> b64bytes ns = Some s"
proof (induction s rule: RawURLEncode.induct)
  case (2 a)
  show ?case using b64_digits(1,2)[of a] by (intro exI[of _ "[byte a div 4, byte a mod 4 * 16]"]) simp
next
  case (3 a b)
  let ?ns = "[byte a div 4, byte a mod 4 * 16 + byte b div 16, byte b mod 16 * 4]"
  have "b64bytes ?ns = Some [a, b]" using b64_digits(1,2)[of a] b64_digits(3,4)[of b] by (simp add: two_digits)
  moreover have "\<forall>n\<in>set ?ns. n < 64" using b64_digits(1,2)[of a] b64_digits(3,4)[of b] by (simp add: digits_bound)
  moreover have "RawURLEncode [a, b] = map b64char ?ns" by (simp only: RawURLEncode.simps list.map)
  ultimately show ?case by blast
next
  case (4 a b c s)
  then obtain ns where ns: "RawURLEncode s = map b64char ns" "\<forall>n\<in>set ns. n < 64" "b64bytes ns = Some s" by blast
  let ?ns = "[byte a div 4, byte a mod 4 * 16 + byte b div 16, byte b mod 16 * 4 + byte c div 64, byte c mod 64] @ ns"
  have "b64bytes ?ns = Some (a # b # c # s)" using b64_digits(1,2)[of a] b64_digits(3,4)[of b] b64_digits(5,6)[of c] ns(3) by (simp add: two_digits)
  moreover have "\<forall>n\<in>set ?ns. n < 64" using b64_digits(1,2)[of a] b64_digits(3,4)[of b] b64_digits(5,6)[of c] ns(2) by (simp add: digits_bound)
  moreover have "RawURLEncode (a # b # c # s) = map b64char ?ns" by (simp only: RawURLEncode.simps ns(1) map_append list.map)
  ultimately show ?case by blast
qed simp

lemma base64_round_trip: "RawURLDecode (RawURLEncode s) = Some s"
  using encode_chars[of s] decode_chars by metis

end
