(* ===== verification/Profile_Store.thy ===== *)
theory Profile_Store
  imports Inbox_Evolution Go_Text "HOL-Library.Multiset"
begin

text \<open>
  The profile store, \<^verbatim>\<open>email_profile_store.go\<close> and \<^verbatim>\<open>search.go\<close>: reading, listing, writing
  and deleting profiles, with the columns a reader may ask for, the order and the paging of a
  list, and the rules that decide which stored secret survives an update. A nullable text
  column is stored as a string that is empty for NULL, which is what \<^verbatim>\<open>nullIfEmpty\<close> and the
  table checks make of it. The names of users come from a table of another service, so the
  statements take it as the argument \<open>users\<close>; the collation and the case folding of the
  database are arguments of the list query, and so is the place of each row in the table when
  the query runs, because ORDER BY leaves rows that compare equal in whatever order they are
  found.
\<close>

section \<open>Reading a row\<close>

record emailProfileRecord =
  rd_ID :: int
  rd_DomainID :: int
  rd_Name :: string
  rd_Description :: string
  rd_Enabled :: bool
  rd_EmailAddress :: string
  rd_SenderName :: string
  rd_ReplyTo :: string
  rd_Signature :: string
  rd_IMAPHost :: string
  rd_IMAPPort :: int
  rd_IMAPSecurity :: string
  rd_SMTPHost :: string
  rd_SMTPPort :: int
  rd_SMTPSecurity :: string
  rd_Username :: string
  rd_Mailbox :: string
  rd_FetchIntervalSeconds :: int
  rd_FlowID :: "int option"
  rd_AuthType :: string
  rd_OAuthProvider :: "string option"
  rd_OAuthClientID :: "string option"
  rd_OAuthConnected :: bool
  rd_ConnectionState :: string
  rd_LastSuccessfulConnectionAt :: "time option"
  rd_ConnectionError :: "string option"
  rd_CreatedAt :: time
  rd_CreatedByID :: "int option"
  rd_CreatedByName :: "string option"
  rd_UpdatedAt :: time
  rd_UpdatedByID :: "int option"
  rd_UpdatedByName :: "string option"

definition emailProfileFields :: "(string \<times> string list) list" where
  "emailProfileFields =
     [(''id'', [''p.id'']), (''domain_id'', [''p.domain_id'']), (''name'', [''p.name'']),
      (''description'', [''p.description'']), (''enabled'', [''p.enabled'']), (''email_address'', [''p.email_address'']),
      (''sender_name'', [''p.sender_name'']), (''reply_to'', [''p.reply_to'']), (''signature'', [''p.signature'']),
      (''imap_host'', [''p.imap_host'']), (''imap_port'', [''p.imap_port'']), (''imap_security'', [''p.imap_security'']),
      (''smtp_host'', [''p.smtp_host'']), (''smtp_port'', [''p.smtp_port'']), (''smtp_security'', [''p.smtp_security'']),
      (''username'', [''p.username'']), (''mailbox'', [''p.mailbox'']),
      (''fetch_interval_seconds'', [''p.fetch_interval_seconds'']), (''flow_id'', [''p.flow_id'']),
      (''auth_type'', [''p.auth_type'']), (''oauth_provider'', [''p.oauth_provider'']),
      (''oauth_client_id'', [''p.oauth_client_id'']),
      (''oauth_connected'', [''p.oauth_refresh_token IS NOT NULL AS oauth_connected'']),
      (''connection_state'', [''p.connection_state'']),
      (''last_successful_connection_at'', [''p.last_successful_connection_at'']),
      (''connection_error'', [''p.connection_error'']), (''created_at'', [''p.created_at'']),
      (''created_by'', [''p.created_by'', ''COALESCE(created_by.name, created_by.username) AS created_by_name'']),
      (''updated_at'', [''p.updated_at'']),
      (''updated_by'', [''p.updated_by'', ''COALESCE(updated_by.name, updated_by.username) AS updated_by_name''])]"

text \<open>The selected columns; the query joins them with commas.\<close>

definition emailProfileProjection :: "string list \<Rightarrow> string list" where
  "emailProfileProjection names =
     (let requested = set (map TrimSpace names);
          selectAll = \<not> list_ex (\<lambda>(name, cols). name \<in> requested) emailProfileFields
      in concat (map snd (filter (\<lambda>(name, cols). selectAll \<or> name = ''id'' \<or> name \<in> requested) emailProfileFields)))"

definition emailProfileColumns :: "string list" where
  "emailProfileColumns = emailProfileProjection []"

definition nullText :: "string \<Rightarrow> string option" where
  "nullText s = (if s = '''' then None else Some s)"

text \<open>
  What the query returns for a row and the scan leaves in the record: a column that is not
  selected keeps its zero value.
\<close>

definition readRow :: "(int \<Rightarrow> string option) \<Rightarrow> string list \<Rightarrow> profile_row \<Rightarrow> emailProfileRecord" where
  "readRow users cols r =
     (let p = pw_profile r;
          txt = (\<lambda>c v. if c \<in> set cols then v else '''');
          num = (\<lambda>c v. if c \<in> set cols then v else 0 :: int);
          opt = (\<lambda>c v. if c \<in> set cols then v else None);
          nam = (\<lambda>c v. if c \<in> set cols then Option.bind v (\<lambda>l. users (lk_ID l)) else None);
          who = (\<lambda>c v. if c \<in> set cols then map_option lk_ID v else None)
      in \<lparr>rd_ID = num ''p.id'' (ep_ID p), rd_DomainID = num ''p.domain_id'' (ep_DomainID p),
          rd_Name = txt ''p.name'' (ep_Name p), rd_Description = txt ''p.description'' (ep_Description p),
          rd_Enabled = (''p.enabled'' \<in> set cols \<and> ep_Enabled p), rd_EmailAddress = txt ''p.email_address'' (ep_EmailAddress p),
          rd_SenderName = txt ''p.sender_name'' (ep_SenderName p), rd_ReplyTo = txt ''p.reply_to'' (ep_ReplyTo p),
          rd_Signature = txt ''p.signature'' (ep_Signature p), rd_IMAPHost = txt ''p.imap_host'' (ep_IMAPHost p),
          rd_IMAPPort = num ''p.imap_port'' (ep_IMAPPort p), rd_IMAPSecurity = txt ''p.imap_security'' (ep_IMAPSecurity p),
          rd_SMTPHost = txt ''p.smtp_host'' (ep_SMTPHost p), rd_SMTPPort = num ''p.smtp_port'' (ep_SMTPPort p),
          rd_SMTPSecurity = txt ''p.smtp_security'' (ep_SMTPSecurity p), rd_Username = txt ''p.username'' (ep_Username p),
          rd_Mailbox = txt ''p.mailbox'' (ep_Mailbox p),
          rd_FetchIntervalSeconds = num ''p.fetch_interval_seconds'' (ep_FetchIntervalSeconds p),
          rd_FlowID = opt ''p.flow_id'' (ep_FlowID p), rd_AuthType = txt ''p.auth_type'' (ep_AuthType p),
          rd_OAuthProvider = nullText (txt ''p.oauth_provider'' (ep_OAuthProvider p)),
          rd_OAuthClientID = nullText (txt ''p.oauth_client_id'' (ep_OAuthClientID p)),
          rd_OAuthConnected = (''p.oauth_refresh_token IS NOT NULL AS oauth_connected'' \<in> set cols \<and> pw_oauth_refresh_token r \<noteq> None),
          rd_ConnectionState = txt ''p.connection_state'' (ep_ConnectionState p),
          rd_LastSuccessfulConnectionAt = opt ''p.last_successful_connection_at'' (ep_LastSuccessfulConnectionAt p),
          rd_ConnectionError = nullText (txt ''p.connection_error'' (ep_ConnectionError p)),
          rd_CreatedAt = num ''p.created_at'' (ep_CreatedAt p), rd_CreatedByID = who ''p.created_by'' (ep_CreatedBy p),
          rd_CreatedByName = nam ''COALESCE(created_by.name, created_by.username) AS created_by_name'' (ep_CreatedBy p),
          rd_UpdatedAt = num ''p.updated_at'' (ep_UpdatedAt p), rd_UpdatedByID = who ''p.updated_by'' (ep_UpdatedBy p),
          rd_UpdatedByName = nam ''COALESCE(updated_by.name, updated_by.username) AS updated_by_name'' (ep_UpdatedBy p)\<rparr>)"

definition nullString :: "string option \<Rightarrow> string" where
  "nullString v = (case v of None \<Rightarrow> '''' | Some s \<Rightarrow> s)"

definition lookupValue :: "int option \<Rightarrow> string option \<Rightarrow> Lookup option" where
  "lookupValue i name = (case i of None \<Rightarrow> None | Some x \<Rightarrow> Some \<lparr>lk_ID = x, lk_Name = nullString name\<rparr>)"

definition mapEmailProfile :: "emailProfileRecord \<Rightarrow> EmailProfile" where
  "mapEmailProfile r =
     \<lparr>ep_ID = rd_ID r, ep_DomainID = rd_DomainID r, ep_Name = rd_Name r, ep_Description = rd_Description r,
      ep_Enabled = rd_Enabled r, ep_EmailAddress = rd_EmailAddress r, ep_SenderName = rd_SenderName r,
      ep_ReplyTo = rd_ReplyTo r, ep_Signature = rd_Signature r, ep_IMAPHost = rd_IMAPHost r,
      ep_IMAPPort = rd_IMAPPort r, ep_IMAPSecurity = rd_IMAPSecurity r, ep_SMTPHost = rd_SMTPHost r,
      ep_SMTPPort = rd_SMTPPort r, ep_SMTPSecurity = rd_SMTPSecurity r, ep_Username = rd_Username r,
      ep_Mailbox = rd_Mailbox r, ep_FetchIntervalSeconds = rd_FetchIntervalSeconds r, ep_FlowID = rd_FlowID r,
      ep_AuthType = rd_AuthType r, ep_OAuthProvider = nullString (rd_OAuthProvider r),
      ep_OAuthClientID = nullString (rd_OAuthClientID r), ep_OAuthConnected = rd_OAuthConnected r,
      ep_ConnectionState = rd_ConnectionState r,
      ep_LastSuccessfulConnectionAt = rd_LastSuccessfulConnectionAt r,
      ep_ConnectionError = nullString (rd_ConnectionError r), ep_CreatedAt = rd_CreatedAt r,
      ep_CreatedBy = lookupValue (rd_CreatedByID r) (rd_CreatedByName r), ep_UpdatedAt = rd_UpdatedAt r,
      ep_UpdatedBy = lookupValue (rd_UpdatedByID r) (rd_UpdatedByName r)\<rparr>"

definition profileNotFound :: error where
  "profileNotFound = NotFound ''store.email_profile.not_found''"

definition profileAt :: "int \<Rightarrow> int \<Rightarrow> profile_row \<Rightarrow> bool" where
  "profileAt domainID i r \<longleftrightarrow> pw_domain r = domainID \<and> pw_id r = i"

definition Profile_Locate :: "(int \<Rightarrow> string option) \<Rightarrow> int \<Rightarrow> int \<Rightarrow> EmailProfile stmt" where
  "Profile_Locate users domainID i now d =
     (case find (profileAt domainID i) (db_profiles d) of
        None \<Rightarrow> Inl profileNotFound
      | Some r \<Rightarrow> Inr (mapEmailProfile (readRow users emailProfileColumns r), d))"

section \<open>Listing\<close>

definition defaultEmailProfilePage :: int where "defaultEmailProfilePage = 1"
definition defaultEmailProfileSize :: int where "defaultEmailProfileSize = 10"
definition maxEmailProfileSize :: int where "maxEmailProfileSize = 5000"

definition emailProfilePaging :: "int \<Rightarrow> int \<Rightarrow> int \<times> int" where
  "emailProfilePaging page sz =
     (let resolvedPage = (if page \<le> 0 then defaultEmailProfilePage else page)
      in if sz < 0 then (defaultEmailProfilePage, - 1)
         else if sz = 0 then (resolvedPage, defaultEmailProfileSize)
         else if sz > maxEmailProfileSize then (resolvedPage, maxEmailProfileSize)
         else (resolvedPage, sz))"

definition emailProfileSortFields :: "(string \<times> string) list" where
  "emailProfileSortFields = [(''id'', ''p.id''), (''name'', ''p.name''), (''email_address'', ''p.email_address''),
     (''enabled'', ''p.enabled''), (''connection_state'', ''p.connection_state''), (''created_at'', ''p.created_at''),
     (''updated_at'', ''p.updated_at'')]"

text \<open>One criterion of \<^verbatim>\<open>sort\<close>: the field, its column and whether it descends.\<close>

definition sortCriterion :: "string \<Rightarrow> (string \<times> string \<times> bool) option" where
  "sortCriterion criterion0 =
     (let criterion = TrimSpace criterion0
      in case criterion of [] \<Rightarrow> None
       | c # cs \<Rightarrow>
           let descending = (c = CHR ''-'');
               field = TrimSpace (if c = CHR ''+'' \<or> c = CHR ''-'' then cs else criterion)
           in map_option (\<lambda>column. (field, column, descending)) (map_of emailProfileSortFields field))"

text \<open>The columns of ORDER BY in turn; the query writes each with ASC or DESC.\<close>

definition emailProfileOrderBy :: "string \<Rightarrow> (string \<times> bool) list" where
  "emailProfileOrderBy criteria =
     (let known = List.map_filter sortCriterion (Split (CHR '','') criteria);
          orderBy = map snd known
      in if orderBy = [] then [(''p.name'', False), (''p.id'', False)]
         else if list_ex (\<lambda>(field, x). field = ''id'') known then orderBy else orderBy @ [(''p.id'', False)])"

text \<open>\<open>columnLess\<close>: a row sorts before another by a column, with the text order of the database.\<close>

definition columnLess :: "(string \<Rightarrow> string \<Rightarrow> bool) \<Rightarrow> string \<Rightarrow> profile_row \<Rightarrow> profile_row \<Rightarrow> bool" where
  "columnLess textLess column a b =
     (let p = pw_profile a; q = pw_profile b
      in if column = ''p.id'' then ep_ID p < ep_ID q
         else if column = ''p.name'' then textLess (ep_Name p) (ep_Name q)
         else if column = ''p.email_address'' then textLess (ep_EmailAddress p) (ep_EmailAddress q)
         else if column = ''p.enabled'' then \<not> ep_Enabled p \<and> ep_Enabled q
         else if column = ''p.connection_state'' then textLess (ep_ConnectionState p) (ep_ConnectionState q)
         else if column = ''p.created_at'' then ep_CreatedAt p < ep_CreatedAt q
         else if column = ''p.updated_at'' then ep_UpdatedAt p < ep_UpdatedAt q
         else False)"

fun ordered :: "(string \<Rightarrow> string \<Rightarrow> bool) \<Rightarrow> (string \<times> bool) list \<Rightarrow> profile_row \<Rightarrow> profile_row \<Rightarrow> bool" where
  "ordered textLess [] a b = True"
| "ordered textLess ((column, descending) # cs) a b =
     (let less = (\<lambda>x y. if descending then columnLess textLess column y x else columnLess textLess column x y)
      in less a b \<or> \<not> less b a \<and> ordered textLess cs a b)"

fun insertRow :: "('r \<Rightarrow> 'r \<Rightarrow> bool) \<Rightarrow> 'r \<Rightarrow> 'r list \<Rightarrow> 'r list" where
  "insertRow le x [] = [x]"
| "insertRow le x (y # ys) = (if le x y then x # y # ys else y # insertRow le x ys)"

definition orderRows :: "('r \<Rightarrow> 'r \<Rightarrow> bool) \<Rightarrow> 'r list \<Rightarrow> 'r list" where
  "orderRows le rs = foldr (insertRow le) rs []"

text \<open>
  \<^verbatim>\<open>likePattern\<close> writes a pattern for \<^verbatim>\<open>LIKE ... ESCAPE '\'\<close>, whose meaning is \<open>like\<close>.
\<close>

definition likeEscape :: "char \<Rightarrow> string" where
  "likeEscape c = (if c = CHR 92 \<or> c = CHR ''%'' \<or> c = CHR ''_'' then [CHR 92, c] else [c])"

definition likePattern :: "string \<Rightarrow> string" where
  "likePattern search = map (\<lambda>c. if c = CHR ''*'' then CHR ''%'' else c) (concat (map likeEscape search))"

fun like :: "string \<Rightarrow> string \<Rightarrow> bool" where
  "like [] s \<longleftrightarrow> s = []"
| "like (p # ps) s \<longleftrightarrow>
     (if p = CHR ''%'' then like ps s \<or> (case s of [] \<Rightarrow> False | c # cs \<Rightarrow> like (p # ps) cs)
      else if p = CHR ''_'' then (case s of [] \<Rightarrow> False | c # cs \<Rightarrow> like ps cs)
      else if p = CHR 92 then (case ps of [] \<Rightarrow> False | q # qs \<Rightarrow> (case s of [] \<Rightarrow> False | c # cs \<Rightarrow> c = q \<and> like qs cs))
      else (case s of [] \<Rightarrow> False | c # cs \<Rightarrow> c = p \<and> like ps cs))"

record EmailProfileFilter =
  pf_Page :: int
  pf_Size :: int
  pf_Query :: string
  pf_Sort :: string
  pf_Fields :: "string list"

record collation =
  co_textLess :: "string \<Rightarrow> string \<Rightarrow> bool"
  co_fold :: "string \<Rightarrow> string"
  co_place :: "profile_row \<Rightarrow> nat"

definition ilike :: "collation \<Rightarrow> string \<Rightarrow> string \<Rightarrow> bool" where
  "ilike co pat s \<longleftrightarrow> like (co_fold co pat) (co_fold co s)"

definition matchesQuery :: "collation \<Rightarrow> string \<Rightarrow> EmailProfile \<Rightarrow> bool" where
  "matchesQuery co query p \<longleftrightarrow>
     (let search = TrimSpace query
      in search = '''' \<or> ilike co (likePattern search) (ep_Name p) \<or> ilike co (likePattern search) (ep_Description p) \<or>
         ilike co (likePattern search) (ep_EmailAddress p))"

text \<open>
  The rows of the query before LIMIT and OFFSET. They are found in the order of \<open>co_place\<close>,
  which another run of the query need not find them in, and rows that the criteria do not
  tell apart stay in that order.
\<close>

definition selectedRows :: "collation \<Rightarrow> int \<Rightarrow> EmailProfileFilter \<Rightarrow> db \<Rightarrow> profile_row list" where
  "selectedRows co domainID fl d =
     orderRows (ordered (co_textLess co) (emailProfileOrderBy (pf_Sort fl)))
       (sort_key (co_place co)
         (List.filter (\<lambda>r. pw_domain r = domainID \<and> matchesQuery co (pf_Query fl) (pw_profile r)) (db_profiles d)))"

definition Profile_List ::
  "(int \<Rightarrow> string option) \<Rightarrow> collation \<Rightarrow> int \<Rightarrow> EmailProfileFilter \<Rightarrow> (EmailProfile list \<times> bool) stmt" where
  "Profile_List users co domainID fl now d =
     (let (page, sz) = emailProfilePaging (pf_Page fl) (pf_Size fl);
          rows = selectedRows co domainID fl d;
          records = (if sz > 0 then take (nat (sz + 1)) (drop (nat ((page - 1) * sz)) rows) else rows);
          profiles = map (\<lambda>r. mapEmailProfile (readRow users (emailProfileProjection (pf_Fields fl)) r)) records
      in if sz > 0 \<and> int (length profiles) > sz then Inr ((take (nat sz) profiles, True), d)
         else Inr ((profiles, False), d))"

section \<open>Writing\<close>

record CreateEmailProfileParams =
  cp_DomainID :: int
  cp_UserID :: int
  cp_Profile :: EmailProfile
  cp_Password :: "string option"
  cp_OAuthClientSecret :: "string option"

record UpdateEmailProfileParams =
  up_DomainID :: int
  up_UserID :: int
  up_ID :: int
  up_Profile :: EmailProfile
  up_Password :: "string option"
  up_OAuthClientSecret :: "string option"

text \<open>The writable settings, over the other columns of a row.\<close>

definition emailProfileWriteArgs :: "EmailProfile \<Rightarrow> EmailProfile \<Rightarrow> EmailProfile" where
  "emailProfileWriteArgs profile row =
     row\<lparr>ep_Name := ep_Name profile, ep_Description := ep_Description profile, ep_Enabled := ep_Enabled profile,
       ep_EmailAddress := ep_EmailAddress profile, ep_SenderName := ep_SenderName profile,
       ep_ReplyTo := ep_ReplyTo profile, ep_Signature := ep_Signature profile, ep_IMAPHost := ep_IMAPHost profile,
       ep_IMAPPort := ep_IMAPPort profile, ep_IMAPSecurity := ep_IMAPSecurity profile,
       ep_SMTPHost := ep_SMTPHost profile, ep_SMTPPort := ep_SMTPPort profile,
       ep_SMTPSecurity := ep_SMTPSecurity profile, ep_Username := ep_Username profile,
       ep_Mailbox := ep_Mailbox profile, ep_FetchIntervalSeconds := ep_FetchIntervalSeconds profile,
       ep_FlowID := ep_FlowID profile, ep_AuthType := ep_AuthType profile,
       ep_OAuthProvider := ep_OAuthProvider profile, ep_OAuthClientID := ep_OAuthClientID profile\<rparr>"

definition nullIfZero :: "int \<Rightarrow> Lookup option" where
  "nullIfZero userID = (if userID = 0 then None else Some \<lparr>lk_ID = userID, lk_Name = ''''\<rparr>)"

text \<open>The CHECK constraints of \<^verbatim>\<open>email.profile\<close>.\<close>

definition profile_check :: "EmailProfile \<Rightarrow> bool" where
  "profile_check p \<longleftrightarrow> sql_trim (ep_Name p) \<noteq> '''' \<and> sql_trim (ep_EmailAddress p) \<noteq> '''' \<and>
     1 \<le> ep_IMAPPort p \<and> ep_IMAPPort p \<le> 65535 \<and> 1 \<le> ep_SMTPPort p \<and> ep_SMTPPort p \<le> 65535 \<and>
     5 \<le> ep_FetchIntervalSeconds p \<and>
     ep_IMAPSecurity p \<in> {''tls'', ''starttls''} \<and> ep_SMTPSecurity p \<in> {''tls'', ''starttls''} \<and>
     ep_AuthType p \<in> {''basic'', ''oauth2''} \<and> ep_OAuthProvider p \<in> {'''', ''google'', ''microsoft''} \<and>
     ep_ConnectionState p \<in> {''idle'', ''ready'', ''error'', ''reauthorization_required''}"

definition Profile_Create :: "(int \<Rightarrow> string option) \<Rightarrow> CreateEmailProfileParams \<Rightarrow> EmailProfile stmt" where
  "Profile_Create users params now d =
     (let row = \<lparr>pw_profile = (emailProfileWriteArgs (cp_Profile params) zero_EmailProfile)
              \<lparr>ep_ID := sq_profile (db_seq d), ep_DomainID := cp_DomainID params, ep_ConnectionState := ''idle'',
               ep_CreatedAt := now, ep_CreatedBy := nullIfZero (cp_UserID params),
               ep_UpdatedAt := now, ep_UpdatedBy := nullIfZero (cp_UserID params)\<rparr>,
            pw_password = cp_Password params, pw_oauth_client_secret = cp_OAuthClientSecret params,
            pw_oauth_refresh_token = None\<rparr>
      in if \<not> profile_check (pw_profile row) then Inl (constraintError ''profile_check'')
         else if \<exists>r\<in>set (db_profiles d). pw_id r = pw_id row then Inl (constraintError ''profile_pkey'')
         else Inr (mapEmailProfile (readRow users emailProfileColumns row),
                d\<lparr>db_profiles := db_profiles d @ [row],
                  db_seq := (db_seq d)\<lparr>sq_profile := sq_profile (db_seq d) + 1\<rparr>\<rparr>))"

text \<open>\<^verbatim>\<open>COALESCE\<close> of a new secret and the stored one.\<close>

definition coalesce :: "'a option \<Rightarrow> 'a option \<Rightarrow> 'a option" where
  "coalesce a b = (if a = None then b else a)"

definition sameClient :: "EmailProfile \<Rightarrow> EmailProfile \<Rightarrow> bool" where
  "sameClient p q \<longleftrightarrow> ep_OAuthProvider p = ep_OAuthProvider q \<and> ep_OAuthClientID p = ep_OAuthClientID q"

definition updateRow :: "UpdateEmailProfileParams \<Rightarrow> time \<Rightarrow> profile_row \<Rightarrow> profile_row" where
  "updateRow params now r =
     (let profile = up_Profile params; old = pw_profile r
      in \<lparr>pw_profile = (emailProfileWriteArgs profile old)\<lparr>ep_UpdatedAt := now, ep_UpdatedBy := nullIfZero (up_UserID params)\<rparr>,
          pw_password = (if ep_AuthType profile = ''basic'' then coalesce (up_Password params) (pw_password r) else None),
          pw_oauth_client_secret =
            (if ep_AuthType profile \<noteq> ''oauth2'' then None
             else if sameClient old profile then coalesce (up_OAuthClientSecret params) (pw_oauth_client_secret r)
             else up_OAuthClientSecret params),
          pw_oauth_refresh_token =
            (if ep_AuthType profile = ''oauth2'' \<and> sameClient old profile then pw_oauth_refresh_token r else None)\<rparr>)"

text \<open>An UPDATE of one profile that returns the row as it is then.\<close>

definition writeReturning ::
  "(int \<Rightarrow> string option) \<Rightarrow> int \<Rightarrow> int \<Rightarrow> (profile_row \<Rightarrow> profile_row) \<Rightarrow> EmailProfile stmt" where
  "writeReturning users domainID i f now d =
     (case find (profileAt domainID i) (db_profiles d) of
        None \<Rightarrow> Inl profileNotFound
      | Some r \<Rightarrow>
          if \<not> profile_check (pw_profile (f r)) then Inl (constraintError ''profile_check'')
          else Inr (mapEmailProfile (readRow users emailProfileColumns (f r)),
                 d\<lparr>db_profiles := update_where (profileAt domainID i) f (db_profiles d)\<rparr>))"

definition Profile_Update :: "(int \<Rightarrow> string option) \<Rightarrow> UpdateEmailProfileParams \<Rightarrow> EmailProfile stmt" where
  "Profile_Update users params now =
     writeReturning users (up_DomainID params) (up_ID params) (updateRow params now) now"

definition GetPassword :: "int \<Rightarrow> int \<Rightarrow> string option stmt" where
  "GetPassword domainID i now d =
     (case find (profileAt domainID i) (db_profiles d) of
        None \<Rightarrow> Inl profileNotFound | Some r \<Rightarrow> Inr (pw_password r, d))"

record EmailProfileOAuthCredentials =
  oc_ClientSecret :: "string option"
  oc_RefreshToken :: "string option"

definition GetOAuthCredentials :: "int \<Rightarrow> int \<Rightarrow> EmailProfileOAuthCredentials stmt" where
  "GetOAuthCredentials domainID i now d =
     (case find (profileAt domainID i) (db_profiles d) of
        None \<Rightarrow> Inl profileNotFound
      | Some r \<Rightarrow> Inr (\<lparr>oc_ClientSecret = pw_oauth_client_secret r, oc_RefreshToken = pw_oauth_refresh_token r\<rparr>, d))"

text \<open>The plain updates: they return nothing of the row.\<close>

definition writeRow :: "int \<Rightarrow> int \<Rightarrow> (profile_row \<Rightarrow> profile_row) \<Rightarrow> unit stmt" where
  "writeRow domainID i f now d =
     (case find (profileAt domainID i) (db_profiles d) of
        None \<Rightarrow> Inl profileNotFound
      | Some r \<Rightarrow>
          if \<not> profile_check (pw_profile (f r)) then Inl (constraintError ''profile_check'')
          else Inr ((), d\<lparr>db_profiles := update_where (profileAt domainID i) f (db_profiles d)\<rparr>))"

definition SetOAuthRefreshToken :: "int \<Rightarrow> int \<Rightarrow> string option \<Rightarrow> unit stmt" where
  "SetOAuthRefreshToken domainID i refreshToken now =
     writeRow domainID i (\<lambda>r. r\<lparr>pw_profile := (pw_profile r)\<lparr>ep_UpdatedAt := now\<rparr>, pw_oauth_refresh_token := refreshToken\<rparr>) now"

definition SetOAuthRefreshTokenAndState ::
  "(int \<Rightarrow> string option) \<Rightarrow> int \<Rightarrow> int \<Rightarrow> string option \<Rightarrow> EmailConnectionState \<Rightarrow> EmailProfile stmt" where
  "SetOAuthRefreshTokenAndState users domainID i refreshToken state now =
     writeReturning users domainID i (\<lambda>r. r\<lparr>pw_profile := (pw_profile r)
       \<lparr>ep_ConnectionState := state, ep_ConnectionError := '''', ep_UpdatedAt := now\<rparr>, pw_oauth_refresh_token := refreshToken\<rparr>) now"

definition SetConnectionResult :: "int \<Rightarrow> int \<Rightarrow> EmailConnectionState \<Rightarrow> string \<Rightarrow> bool \<Rightarrow> unit stmt" where
  "SetConnectionResult domainID i state connectionError successful now =
     writeRow domainID i (\<lambda>r. r\<lparr>pw_profile := (pw_profile r)\<lparr>ep_ConnectionState := state,
       ep_LastSuccessfulConnectionAt := (if successful then Some now else ep_LastSuccessfulConnectionAt (pw_profile r)),
       ep_ConnectionError := connectionError\<rparr>\<rparr>) now"

text \<open>
  Deleting: threads and messages restrict it, the runtime row and the recorded failures go
  with the profile.
\<close>

definition Profile_Delete :: "(int \<Rightarrow> string option) \<Rightarrow> int \<Rightarrow> int \<Rightarrow> EmailProfile stmt" where
  "Profile_Delete users domainID i now d =
     (case find (profileAt domainID i) (db_profiles d) of
        None \<Rightarrow> Inl profileNotFound
      | Some r \<Rightarrow>
          if (\<exists>t\<in>set (db_threads d). th_DomainID t = domainID \<and> th_ProfileID t = i) \<or>
             (\<exists>m\<in>set (db_messages d). em_DomainID m = domainID \<and> em_ProfileID m = i)
          then Inl ErrEmailProfileHasHistory
          else Inr (mapEmailProfile (readRow users emailProfileColumns r),
                 d\<lparr>db_profiles := filter (\<lambda>x. \<not> profileAt domainID i x) (db_profiles d),
                   db_runtime := filter (\<lambda>x. \<not> (rr_domain_id x = domainID \<and> rr_profile_id x = i)) (db_runtime d),
                   db_failures := filter (\<lambda>x. \<not> (if_DomainID x = domainID \<and> if_ProfileID x = i)) (db_failures d)\<rparr>))"

section \<open>Reading the whole row\<close>

text \<open>A read of the whole row: the settings, the presence of an authorization, and the users by name.\<close>

lemma emailProfileColumns_all: "emailProfileColumns = concat (map snd emailProfileFields)"
proof -
  have "list_ex (\<lambda>(name, cols). name \<in> set (map TrimSpace [])) emailProfileFields = False" by (simp add: list_ex_iff case_prod_beta)
  then show ?thesis by (simp add: emailProfileColumns_def emailProfileProjection_def Let_def case_prod_beta)
qed

lemma column_known:
  "''p.id'' \<in> set emailProfileColumns" "''p.domain_id'' \<in> set emailProfileColumns" "''p.name'' \<in> set emailProfileColumns"
  "''p.description'' \<in> set emailProfileColumns" "''p.enabled'' \<in> set emailProfileColumns" "''p.email_address'' \<in> set emailProfileColumns"
  "''p.sender_name'' \<in> set emailProfileColumns" "''p.reply_to'' \<in> set emailProfileColumns" "''p.signature'' \<in> set emailProfileColumns"
  "''p.imap_host'' \<in> set emailProfileColumns" "''p.imap_port'' \<in> set emailProfileColumns" "''p.imap_security'' \<in> set emailProfileColumns"
  "''p.smtp_host'' \<in> set emailProfileColumns" "''p.smtp_port'' \<in> set emailProfileColumns" "''p.smtp_security'' \<in> set emailProfileColumns"
  "''p.username'' \<in> set emailProfileColumns" "''p.mailbox'' \<in> set emailProfileColumns"
  "''p.fetch_interval_seconds'' \<in> set emailProfileColumns" "''p.flow_id'' \<in> set emailProfileColumns"
  "''p.auth_type'' \<in> set emailProfileColumns" "''p.oauth_provider'' \<in> set emailProfileColumns"
  "''p.oauth_client_id'' \<in> set emailProfileColumns"
  "''p.oauth_refresh_token IS NOT NULL AS oauth_connected'' \<in> set emailProfileColumns"
  "''p.connection_state'' \<in> set emailProfileColumns" "''p.last_successful_connection_at'' \<in> set emailProfileColumns"
  "''p.connection_error'' \<in> set emailProfileColumns" "''p.created_at'' \<in> set emailProfileColumns"
  "''p.created_by'' \<in> set emailProfileColumns" "''COALESCE(created_by.name, created_by.username) AS created_by_name'' \<in> set emailProfileColumns"
  "''p.updated_at'' \<in> set emailProfileColumns" "''p.updated_by'' \<in> set emailProfileColumns"
  "''COALESCE(updated_by.name, updated_by.username) AS updated_by_name'' \<in> set emailProfileColumns"
  by (simp_all add: emailProfileColumns_all emailProfileFields_def)

lemma nullText_inverse [simp]: "nullString (nullText s) = s"
  by (simp add: nullString_def nullText_def)

lemma full_read:
  "mapEmailProfile (readRow users emailProfileColumns r) = (pw_profile r)\<lparr>ep_OAuthConnected := pw_oauth_refresh_token r \<noteq> None,
     ep_CreatedBy := map_option (\<lambda>l. \<lparr>lk_ID = lk_ID l, lk_Name = nullString (users (lk_ID l))\<rparr>) (ep_CreatedBy (pw_profile r)),
     ep_UpdatedBy := map_option (\<lambda>l. \<lparr>lk_ID = lk_ID l, lk_Name = nullString (users (lk_ID l))\<rparr>) (ep_UpdatedBy (pw_profile r))\<rparr>"
proof -
  have who: "lookupValue (map_option lk_ID v) (Option.bind v (\<lambda>l. users (lk_ID l))) =
      map_option (\<lambda>l. \<lparr>lk_ID = lk_ID l, lk_Name = nullString (users (lk_ID l))\<rparr>) v" for v :: "Lookup option"
    by (cases v) (simp_all add: lookupValue_def)
  show ?thesis unfolding mapEmailProfile_def readRow_def Let_def by (simp add: column_known who)
qed

section \<open>The order of a list\<close>

text \<open>What the database's text comparison promises: a strict linear order.\<close>

definition text_order :: "(string \<Rightarrow> string \<Rightarrow> bool) \<Rightarrow> bool" where
  "text_order lt \<longleftrightarrow> (\<forall>a. \<not> lt a a) \<and> (\<forall>a b c. lt a b \<longrightarrow> lt b c \<longrightarrow> lt a c) \<and>
     (\<forall>a b. a \<noteq> b \<longrightarrow> lt a b \<or> lt b a)"

text \<open>A strict weak order: equivalent rows are not told apart by the column.\<close>

definition weak_order :: "('r \<Rightarrow> 'r \<Rightarrow> bool) \<Rightarrow> bool" where
  "weak_order lt \<longleftrightarrow> (\<forall>a b. lt a b \<longrightarrow> \<not> lt b a) \<and> (\<forall>a b c. \<not> lt b a \<longrightarrow> \<not> lt c b \<longrightarrow> \<not> lt c a)"

lemma weak_order_key:
  assumes "\<And>a b. lt a b \<longleftrightarrow> (f a :: 'k::linorder) < f b"
  shows "weak_order lt"
  using assms by (auto simp: weak_order_def)

lemma weak_order_text:
  assumes "text_order tless" and "\<And>a b. lt a b \<longleftrightarrow> tless (f a) (f b)"
  shows "weak_order lt"
proof -
  have tless: "\<not> tless x x" "tless x y \<Longrightarrow> tless y z \<Longrightarrow> tless x z" "x \<noteq> y \<Longrightarrow> tless x y \<or> tless y x" for x y z
    using assms(1) unfolding text_order_def by blast+
  have "\<not> lt b a" if "lt a b" for a b using that tless(1)[of "f a"] tless(2)[of "f a" "f b" "f a"] by (auto simp: assms(2))
  moreover have "\<not> lt c a" if "\<not> lt b a" "\<not> lt c b" for a b c
    using that tless(2)[of "f c" "f a" "f b"] tless(3)[of "f a" "f b"] unfolding assms(2) by metis
  ultimately show ?thesis unfolding weak_order_def by blast
qed

lemma weak_order_flip: "weak_order lt \<Longrightarrow> weak_order (\<lambda>a b. lt b a)"
  unfolding weak_order_def by blast

lemma weak_order_column:
  assumes "text_order tless"
  shows "weak_order (columnLess tless column)"
proof -
  note by_text = weak_order_text[OF assms]
  have bool: "weak_order (\<lambda>a b. \<not> f a \<and> f b)" for f :: "profile_row \<Rightarrow> bool" by (auto simp: weak_order_def)
  have none: "weak_order (\<lambda>a b :: profile_row. False)" by (simp add: weak_order_def)
  have "weak_order (\<lambda>a b. columnLess tless column a b)"
    unfolding columnLess_def Let_def
    by (cases "column = ''p.id''"; cases "column = ''p.name''"; cases "column = ''p.email_address''"; cases "column = ''p.enabled''";
        cases "column = ''p.connection_state''"; cases "column = ''p.created_at''"; cases "column = ''p.updated_at''")
       (auto intro: weak_order_key by_text bool none)
  then show ?thesis by simp
qed

lemma ordered_step:
  "ordered tless ((column, descending) # cs) a b \<longleftrightarrow>
     (let lt = (if descending then (\<lambda>x y. columnLess tless column y x) else columnLess tless column)
      in lt a b \<or> \<not> lt b a \<and> ordered tless cs a b)"
  by (simp add: Let_def)

lemma ordered_total_trans:
  assumes "text_order tless"
  shows "ordered tless cs a b \<or> ordered tless cs b a"
    and "ordered tless cs a b \<Longrightarrow> ordered tless cs b c \<Longrightarrow> ordered tless cs a c"
proof -
  have weak: "weak_order (if descending then (\<lambda>x y. columnLess tless column y x) else columnLess tless column)" for descending column
    using weak_order_column[OF assms] weak_order_flip by auto
  show "ordered tless cs a b \<or> ordered tless cs b a"
  proof (induction cs)
    case (Cons x cs)
    then show ?case by (cases x) (simp only: ordered_step Let_def, blast)
  qed simp
  show "ordered tless cs a b \<Longrightarrow> ordered tless cs b c \<Longrightarrow> ordered tless cs a c"
  proof (induction cs)
    case (Cons x cs)
    obtain column descending where x: "x = (column, descending)" by (cases x)
    define lt where "lt = (if descending then (\<lambda>x y. columnLess tless column y x) else columnLess tless column)"
    have w: "weak_order lt" unfolding lt_def by (rule weak)
    from Cons.prems have "lt a b \<or> \<not> lt b a \<and> ordered tless cs a b" "lt b c \<or> \<not> lt c b \<and> ordered tless cs b c"
      unfolding x ordered_step lt_def Let_def by auto
    with w Cons.IH have "lt a c \<or> \<not> lt c a \<and> ordered tless cs a c" unfolding weak_order_def by metis
    then show ?case unfolding x ordered_step lt_def Let_def .
  qed simp
qed

lemma insertRow_mset: "mset (insertRow le x ys) = add_mset x (mset ys)"
  by (induction ys) auto

lemma insertRow_sorted:
  assumes "\<And>a b. le a b \<or> le b a" and "\<And>a b c. le a b \<Longrightarrow> le b c \<Longrightarrow> le a c" and "sorted_wrt le ys"
  shows "sorted_wrt le (insertRow le x ys)"
  using assms(3)
proof (induction ys)
  case (Cons y ys)
  have "set (insertRow le x ys) = insert x (set ys)" using insertRow_mset[of le x ys] by (metis set_mset_add_mset_insert set_mset_mset)
  with Cons assms(1)[of x y] assms(2) show ?case by auto
qed simp

lemma orderRows_mset: "mset (orderRows le rs) = mset rs"
  unfolding orderRows_def by (induction rs) (simp_all add: insertRow_mset)

lemma orderRows_sorted:
  assumes "\<And>a b. le a b \<or> le b a" and "\<And>a b c. le a b \<Longrightarrow> le b c \<Longrightarrow> le a c"
  shows "sorted_wrt le (orderRows le rs)"
  unfolding orderRows_def by (induction rs) (simp_all add: insertRow_sorted[OF assms])

lemmas selected_sorted = orderRows_sorted[OF ordered_total_trans]

text \<open>With the id among the criteria two rows compare equal only if they are one row.\<close>

lemma order_has_id: "\<exists>descending. (''p.id'', descending) \<in> set (emailProfileOrderBy criteria)"
proof -
  have id: "column = ''p.id''" if "sortCriterion c = Some (''id'', column, descending)" for c column descending
    using that by (auto simp: sortCriterion_def Let_def emailProfileSortFields_def split: list.splits if_splits)
  let ?known = "List.map_filter sortCriterion (Split (CHR '','') criteria)"
  show ?thesis
  proof (cases "list_ex (\<lambda>(field, x). field = ''id'') ?known")
    case True
    then obtain column descending where known: "(''id'', column, descending) \<in> set ?known" by (auto simp: list_ex_iff)
    then obtain c where "sortCriterion c = Some (''id'', column, descending)" by (auto simp: List.map_filter_def)
    with id known have "(''p.id'', descending) \<in> snd ` set ?known" by (metis image_eqI snd_conv)
    with True show ?thesis by (intro exI[of _ descending]) (auto simp: emailProfileOrderBy_def Let_def simp del: image_eqI)
  qed (auto simp: emailProfileOrderBy_def Let_def)
qed

lemma ordered_antisym:
  assumes "text_order tless" and "(''p.id'', descending) \<in> set cs" and "ordered tless cs a b" and "ordered tless cs b a"
  shows "pw_id a = pw_id b"
  using assms(2-)
proof (induction cs)
  case (Cons x cs)
  obtain column dsc where x: "x = (column, dsc)" by (cases x)
  have "\<not> (columnLess tless column a b \<and> columnLess tless column b a)"
    using weak_order_column[OF assms(1), of column] unfolding weak_order_def by blast
  with Cons.prems have both: "ordered tless cs a b" "ordered tless cs b a" "\<not> columnLess tless column a b" "\<not> columnLess tless column b a"
    unfolding x by (auto simp: Let_def split: if_splits)
  show ?case
  proof (cases "column = ''p.id''")
    case True
    with both(3,4) show ?thesis by (simp add: columnLess_def Let_def)
  next
    case False
    with Cons.prems(1) both(1,2) show ?thesis unfolding x by (auto intro: Cons.IH)
  qed
qed simp

lemma sorted_wrt_unique:
  assumes "mset xs = mset ys" and "sorted_wrt le xs" and "sorted_wrt le ys"
    and "\<And>a b. a \<in> set xs \<Longrightarrow> b \<in> set xs \<Longrightarrow> le a b \<Longrightarrow> le b a \<Longrightarrow> a = b"
  shows "xs = ys"
  using assms
proof (induction xs arbitrary: ys)
  case (Cons x xs)
  then obtain y ys' where ys: "ys = y # ys'" by (cases ys) auto
  have sets: "insert x (set xs) = insert y (set ys')" using mset_eq_setD[OF Cons.prems(1)] unfolding ys by simp
  then have "x = y \<or> (x \<in> set ys' \<and> y \<in> set xs)" by auto
  then have "x = y" using Cons.prems(2,3,4) sets unfolding ys by auto
  moreover have "xs = ys'" using Cons.prems unfolding ys \<open>x = y\<close> by (intro Cons.IH) auto
  ultimately show ?case unfolding ys by simp
qed simp

lemma sorted_by_id_unique:
  assumes "text_order tless" and "distinct (map pw_id rows)" and "mset xs = mset rows" and "mset ys = mset rows"
    and "sorted_wrt (ordered tless (emailProfileOrderBy criteria)) xs" and "sorted_wrt (ordered tless (emailProfileOrderBy criteria)) ys"
  shows "xs = ys"
proof (rule sorted_wrt_unique)
  obtain descending where id: "(''p.id'', descending) \<in> set (emailProfileOrderBy criteria)" using order_has_id by blast
  fix a b
  assume "a \<in> set xs" "b \<in> set xs" and both: "ordered tless (emailProfileOrderBy criteria) a b" "ordered tless (emailProfileOrderBy criteria) b a"
  then have rows: "a \<in> set rows" "b \<in> set rows" using mset_eq_setD[OF assms(3)] by simp_all
  have "inj_on pw_id (set rows)" using assms(2) unfolding distinct_map by (rule conjunct2)
  then show "a = b" using ordered_antisym[OF assms(1) id both] rows by (rule inj_onD)
qed (use assms(3-) in \<open>simp_all only:\<close>)

text \<open>So the list does not depend on where the rows are found.\<close>

lemma selectedRows_mset:
  "mset (selectedRows co domainID fl d) =
     mset (filter (\<lambda>r. pw_domain r = domainID \<and> matchesQuery co (pf_Query fl) (pw_profile r)) (db_profiles d))"
  unfolding selectedRows_def orderRows_mset by simp

lemma selectedRows_sorted:
  assumes "text_order (co_textLess co)"
  shows "sorted_wrt (ordered (co_textLess co) (emailProfileOrderBy (pf_Sort fl))) (selectedRows co domainID fl d)"
  unfolding selectedRows_def by (rule selected_sorted[OF assms]) (use assms in assumption)+

lemma selectedRows_place:
  assumes "text_order (co_textLess co)" and "distinct (map pw_id (db_profiles d))"
  shows "selectedRows (co\<lparr>co_place := place\<rparr>) domainID fl d = selectedRows co domainID fl d"
proof -
  have q: "matchesQuery (co\<lparr>co_place := place\<rparr>) = matchesQuery co" by (simp add: matchesQuery_def ilike_def fun_eq_iff)
  have "sorted_wrt (ordered (co_textLess co) (emailProfileOrderBy (pf_Sort fl))) (selectedRows (co\<lparr>co_place := place\<rparr>) domainID fl d)"
    using selectedRows_sorted[of "co\<lparr>co_place := place\<rparr>" fl domainID d] assms(1) by simp
  with selectedRows_mset[of "co\<lparr>co_place := place\<rparr>" domainID fl d, unfolded q] show ?thesis
    by (rule sorted_by_id_unique[OF assms(1) distinct_map_filter[OF assms(2)] _ selectedRows_mset _ selectedRows_sorted[OF assms(1)]])
qed

section \<open>Pages\<close>

lemma paging_size:
  assumes "0 \<le> sz"
  shows "emailProfilePaging page sz = (if page \<le> 0 then 1 else page, snd (emailProfilePaging 1 sz))"
    and "0 < snd (emailProfilePaging 1 sz)" "snd (emailProfilePaging 1 sz) \<le> 5000"
  using assms by (auto simp: emailProfilePaging_def Let_def defaultEmailProfilePage_def defaultEmailProfileSize_def maxEmailProfileSize_def)

lemma page_of:
  assumes "0 \<le> pf_Size fl" and "sz = nat (snd (emailProfilePaging 1 (pf_Size fl)))" and "1 \<le> k"
  shows "Profile_List users co domainID (fl\<lparr>pf_Page := int k\<rparr>) now d =
    Inr ((map (\<lambda>r. mapEmailProfile (readRow users (emailProfileProjection (pf_Fields fl)) r))
       (take sz (drop ((k - 1) * sz) (selectedRows co domainID fl d))), k * sz < length (selectedRows co domainID fl d)), d)"
proof -
  have sz: "0 < sz" "snd (emailProfilePaging 1 (pf_Size fl)) = int sz" using paging_size(2)[OF assms(1)] assms(2) by simp_all
  have rows: "selectedRows co domainID (fl\<lparr>pf_Page := int k\<rparr>) d = selectedRows co domainID fl d" by (simp add: selectedRows_def)
  have pages: "emailProfilePaging (int k) (pf_Size fl) = (int k, int sz)"
    unfolding sz(2)[symmetric] by (subst paging_size(1)[OF assms(1)]) (use assms(3) in simp)
  obtain j where k: "k = Suc j" using assms(3) by (cases k) auto
  have ints: "nat ((int k - 1) * int sz) = (k - 1) * sz" "nat (int sz + 1) = Suc sz" by (simp_all add: k nat_mult_distrib)
  let ?rest = "drop ((k - 1) * sz) (selectedRows co domainID fl d)"
  have more_iff: "length ?rest > sz \<longleftrightarrow> k * sz < length (selectedRows co domainID fl d)" by (auto simp: k)
  have taken: "length (take (Suc sz) ?rest) > sz \<longleftrightarrow> length ?rest > sz" by auto
  have "Profile_List users co domainID (fl\<lparr>pf_Page := int k\<rparr>) now d =
    (let profiles = map (\<lambda>r. mapEmailProfile (readRow users (emailProfileProjection (pf_Fields fl)) r)) (take (Suc sz) ?rest)
     in if length profiles > sz then Inr ((take sz profiles, True), d) else Inr ((profiles, False), d))"
    using sz(1) by (simp add: Profile_List_def Let_def pages rows ints)
  also have "\<dots> = Inr ((map (\<lambda>r. mapEmailProfile (readRow users (emailProfileProjection (pf_Fields fl)) r)) (take sz ?rest), length ?rest > sz), d)"
    unfolding Let_def length_map taken by (auto simp: take_map)
  finally show ?thesis unfolding more_iff .
qed

lemma concat_pages: "concat (map (\<lambda>k. take s (drop (k * s) xs)) [0..<n]) = take (n * s) xs"
  by (induction n) (simp_all add: take_add add.commute[of s])

section \<open>Properties\<close>

definition sample_collation :: collation where
  "sample_collation = \<lparr>co_textLess = (<), co_fold = id, co_place = (\<lambda>r. nat (pw_id r))\<rparr>"

definition sample_row :: profile_row where
  "sample_row = \<lparr>pw_profile = zero_EmailProfile\<lparr>ep_ID := 1, ep_DomainID := 7, ep_Name := ''Support'', ep_EmailAddress := ''a@b.c'',
     ep_IMAPHost := ''i'', ep_IMAPPort := 993, ep_IMAPSecurity := ''tls'', ep_SMTPHost := ''s'', ep_SMTPPort := 465,
     ep_SMTPSecurity := ''tls'', ep_Username := ''u'', ep_Mailbox := ''INBOX'', ep_FetchIntervalSeconds := 30,
     ep_AuthType := ''oauth2'', ep_OAuthProvider := ''google'', ep_OAuthClientID := ''c'', ep_ConnectionState := ''idle''\<rparr>,
     pw_password = None, pw_oauth_client_secret = Some ''sealed'', pw_oauth_refresh_token = Some ''token''\<rparr>"

definition sample_names :: db where
  "sample_names = empty_db\<lparr>db_profiles := map (\<lambda>(i, nm). sample_row\<lparr>pw_profile := (pw_profile sample_row)\<lparr>ep_ID := i, ep_Name := nm\<rparr>\<rparr>)
     [(1, ''b''), (2, ''a''), (3, ''b'')]\<rparr>"

text \<open>
  C36: The pages of a list are a partition. Asked for page after page of one size, each page
  by a query of its own that may find the rows of the table in another order, the store
  returns every matching profile of the domain exactly once, in the order of the sort
  criteria with the id as the last one, and says that another page exists exactly when it
  does. The ids of the table are unique, as its primary key says.
\<close>

theorem pages_cover_the_list:
  assumes "text_order (co_textLess co)" and "distinct (map pw_id (db_profiles d))"
    and "0 \<le> pf_Size fl" and "sz = nat (snd (emailProfilePaging 1 (pf_Size fl)))"
    and "length (selectedRows co domainID fl d) \<le> n * sz"
  shows "(\<forall>k\<in>{1..n}. \<exists>ps. Profile_List users (co\<lparr>co_place := place k\<rparr>) domainID (fl\<lparr>pf_Page := int k\<rparr>) now d =
       Inr ((ps, k * sz < length (selectedRows co domainID fl d)), d)) \<and>
    concat (map (\<lambda>k. fst (fst (projr (Profile_List users (co\<lparr>co_place := place k\<rparr>) domainID (fl\<lparr>pf_Page := int k\<rparr>) now d)))) [1..<Suc n]) =
      map (\<lambda>r. mapEmailProfile (readRow users (emailProfileProjection (pf_Fields fl)) r)) (selectedRows co domainID fl d) \<and>
    mset (selectedRows co domainID fl d) =
      mset (filter (\<lambda>r. pw_domain r = domainID \<and> matchesQuery co (pf_Query fl) (pw_profile r)) (db_profiles d)) \<and>
    sorted_wrt (ordered (co_textLess co) (emailProfileOrderBy (pf_Sort fl))) (selectedRows co domainID fl d)"
proof (intro conjI ballI)
  let ?rows = "selectedRows co domainID fl d"
  show "\<exists>ps. Profile_List users (co\<lparr>co_place := place k\<rparr>) domainID (fl\<lparr>pf_Page := int k\<rparr>) now d =
       Inr ((ps, k * sz < length ?rows), d)" if "k \<in> {1..n}" for k
    using page_of[OF assms(3,4), of k users "co\<lparr>co_place := place k\<rparr>" domainID now d] that
    by (simp add: selectedRows_place[OF assms(1,2)])
  let ?read = "\<lambda>r. mapEmailProfile (readRow users (emailProfileProjection (pf_Fields fl)) r)"
  let ?F = "\<lambda>k. fst (fst (projr (Profile_List users (co\<lparr>co_place := place k\<rparr>) domainID (fl\<lparr>pf_Page := int k\<rparr>) now d)))"
  have F: "?F (Suc j) = map ?read (take sz (drop (j * sz) ?rows))" for j
    using page_of[OF assms(3,4), of "Suc j" users "co\<lparr>co_place := place (Suc j)\<rparr>" domainID now d]
    by (simp add: selectedRows_place[OF assms(1,2)])
  have "map ?F [1..<Suc n] = map (\<lambda>j. ?F (Suc j)) [0..<n]" unfolding One_nat_def map_Suc_upt[symmetric] by (simp only: map_map comp_def)
  then have "concat (map ?F [1..<Suc n]) = map ?read (concat (map (\<lambda>k. take sz (drop (k * sz) ?rows)) [0..<n]))"
    by (simp only: F map_concat map_map comp_def)
  also have "\<dots> = map ?read ?rows" unfolding concat_pages using assms(5) by simp
  finally show "concat (map ?F [1..<Suc n]) = map ?read ?rows" .
qed (rule selectedRows_mset selectedRows_sorted[OF assms(1)])+

text \<open>The second page is read from a table whose rows lie the other way round.\<close>

theorem pages_cover_the_list_witness:
  "concat (map (\<lambda>k. fst (fst (projr (Profile_List (\<lambda>_. None) (sample_collation\<lparr>co_place := \<lambda>r. if k = 1 then nat (pw_id r) else nat (9 - pw_id r)\<rparr>) 7
     (\<lparr>pf_Page = 0, pf_Size = 2, pf_Query = '''', pf_Sort = ''-name'', pf_Fields = [''id'']\<rparr>\<lparr>pf_Page := int k\<rparr>) 0 sample_names)))) [1..<Suc 2])
   = map (\<lambda>i. zero_EmailProfile\<lparr>ep_ID := i\<rparr>) [1, 3, 2]"
proof -
  let ?fl = "\<lparr>pf_Page = 0, pf_Size = 2, pf_Query = '''', pf_Sort = ''-name'', pf_Fields = [''id'']\<rparr>"
  let ?place = "\<lambda>(k::nat) r. if k = 1 then nat (pw_id r) else nat (9 - pw_id r)"
  have co: "text_order (co_textLess sample_collation)" by (auto simp: text_order_def sample_collation_def)
  have ids: "distinct (map pw_id (db_profiles sample_names))" by code_simp
  have rows: "map pw_id (selectedRows sample_collation 7 ?fl sample_names) = [1, 3, 2]" by code_simp
  moreover have "(2::nat) = nat (snd (emailProfilePaging 1 (pf_Size ?fl)))" by (simp add: emailProfilePaging_def maxEmailProfileSize_def)
  moreover have "length (selectedRows sample_collation 7 ?fl sample_names) = 3" using arg_cong[OF rows, of length] by simp
  moreover have "map (\<lambda>r. mapEmailProfile (readRow (\<lambda>_. None) (emailProfileProjection (pf_Fields ?fl)) r))
      (selectedRows sample_collation 7 ?fl sample_names) = map (\<lambda>i. zero_EmailProfile\<lparr>ep_ID := i\<rparr>) [1, 3, 2]" by code_simp
  ultimately show ?thesis using pages_cover_the_list[OF co ids, of ?fl 2 7 2 "\<lambda>_. None" ?place 0] by simp
qed

text \<open>The search language of the user: \<^verbatim>\<open>*\<close> stands for any text, everything else for itself.\<close>

fun glob :: "string \<Rightarrow> string \<Rightarrow> bool" where
  "glob [] s \<longleftrightarrow> s = []"
| "glob (p # ps) s \<longleftrightarrow>
     (if p = CHR ''*'' then glob ps s \<or> (case s of [] \<Rightarrow> False | c # cs \<Rightarrow> glob (p # ps) cs)
      else (case s of [] \<Rightarrow> False | c # cs \<Rightarrow> c = p \<and> glob ps cs))"

lemma likePattern_Cons:
  "likePattern (c # cs) = (if c = CHR ''*'' then CHR ''%'' # likePattern cs
     else if c = CHR 92 \<or> c = CHR ''%'' \<or> c = CHR ''_'' then CHR 92 # c # likePattern cs else c # likePattern cs)"
  by (simp add: likePattern_def likeEscape_def)

text \<open>
  A search finds what it says: the LIKE pattern made of a search text matches exactly the
  values the search text describes, with \<^verbatim>\<open>*\<close> as its only wildcard, whatever characters the
  user types.
\<close>

theorem search_is_literal: "like (likePattern search) v \<longleftrightarrow> glob search v"
proof (induction search arbitrary: v)
  case Nil
  show ?case by (simp add: likePattern_def)
next
  case (Cons c cs)
  show ?case
  proof (cases "c = CHR ''*''")
    case True
    have "like (CHR ''%'' # likePattern cs) v = glob (CHR ''*'' # cs) v"
    proof (induction v)
      case Nil
      then show ?case using Cons.IH by simp
    next
      case (Cons x xs)
      then show ?case using \<open>\<And>v. like (likePattern cs) v \<longleftrightarrow> glob cs v\<close> by simp
    qed
    with True show ?thesis by (simp add: likePattern_Cons)
  next
    case False
    with Cons.IH show ?thesis by (auto simp: likePattern_Cons split: list.splits)
  qed
qed

lemma find_profile_unique:
  assumes "distinct (map pw_id (db_profiles d))" and "r \<in> set (db_profiles d)" and "profileAt domainID i r"
  shows "find (profileAt domainID i) (db_profiles d) = Some r"
proof (rule find_only[where P = "profileAt domainID i", OF assms(2,3)])
  fix x assume "x \<in> set (db_profiles d)" "profileAt domainID i x"
  with assms show "x = r" by (metis (mono_tags) distinct_map inj_on_contraD profileAt_def)
qed

text \<open>
  C35: An update never carries a secret over to settings it does not belong to. After it the
  profile holds a password only under Basic authentication; a client secret only under OAuth2,
  and then the submitted one or the stored one of the same client; and its refresh token
  survives only under OAuth2 with the same provider and client. No other profile changes.
\<close>

theorem update_drops_foreign_secrets:
  assumes "Profile_Update users params now d = Inr (p, d')" and "r' \<in> set (db_profiles d')"
  shows "\<exists>r\<in>set (db_profiles d). pw_id r' = pw_id r \<and> pw_domain r' = pw_domain r \<and>
    (if pw_domain r = up_DomainID params \<and> pw_id r = up_ID params
     then (pw_password r' \<noteq> None \<longrightarrow> ep_AuthType (pw_profile r') = EmailAuthTypeBasic) \<and>
       (pw_oauth_client_secret r' \<noteq> None \<longrightarrow> ep_AuthType (pw_profile r') = EmailAuthTypeOAuth2 \<and>
          (pw_oauth_client_secret r' = up_OAuthClientSecret params \<or>
           pw_oauth_client_secret r' = pw_oauth_client_secret r \<and> sameClient (pw_profile r) (pw_profile r'))) \<and>
       (pw_oauth_refresh_token r' \<noteq> None \<longrightarrow> ep_AuthType (pw_profile r') = EmailAuthTypeOAuth2 \<and>
          pw_oauth_refresh_token r' = pw_oauth_refresh_token r \<and> sameClient (pw_profile r) (pw_profile r'))
     else r' = r)"
proof -
  from assms(1) have "db_profiles d' = update_where (profileAt (up_DomainID params) (up_ID params)) (updateRow params now) (db_profiles d)"
    by (auto simp: Profile_Update_def writeReturning_def split: option.splits if_splits)
  with assms(2) obtain r where r: "r \<in> set (db_profiles d)"
    "r' = (if profileAt (up_DomainID params) (up_ID params) r then updateRow params now r else r)"
    by (auto simp: update_where_def)
  then show ?thesis
    by (intro bexI[OF _ r(1)])
       (auto simp: profileAt_def updateRow_def Let_def emailProfileWriteArgs_def sameClient_def coalesce_def
         EmailAuthTypeBasic_def EmailAuthTypeOAuth2_def split: if_splits)
qed

definition sample_update :: UpdateEmailProfileParams where
  "sample_update = \<lparr>up_DomainID = 7, up_UserID = 3, up_ID = 1,
     up_Profile = (pw_profile sample_row)\<lparr>ep_AuthType := ''basic'', ep_OAuthProvider := '''', ep_OAuthClientID := ''''\<rparr>,
     up_Password = Some ''new'', up_OAuthClientSecret = None\<rparr>"

theorem update_drops_foreign_secrets_witness:
  "\<exists>p d' r'. Profile_Update (\<lambda>_. None) sample_update 50 (empty_db\<lparr>db_profiles := [sample_row]\<rparr>) = Inr (p, d') \<and>
     db_profiles d' = [r'] \<and> pw_oauth_refresh_token sample_row \<noteq> None \<and> pw_oauth_refresh_token r' = None"
proof -
  let ?run = "Profile_Update (\<lambda>_. None) sample_update 50 (empty_db\<lparr>db_profiles := [sample_row]\<rparr>)"
  obtain p d' where run: "?run = Inr (p, d')" "length (db_profiles d') = 1"
    by (auto simp: Profile_Update_def writeReturning_def profileAt_def sample_update_def sample_row_def empty_db_def updateRow_def
        emailProfileWriteArgs_def Let_def profile_check_def sql_trim_def)
  then obtain r' where rows: "db_profiles d' = [r']" by (cases "db_profiles d'") auto
  have "ep_AuthType (pw_profile r') = ''basic''" using run(1) rows
    by (auto simp: Profile_Update_def writeReturning_def profileAt_def sample_update_def sample_row_def empty_db_def updateRow_def
        emailProfileWriteArgs_def Let_def profile_check_def sql_trim_def)
  moreover have "pw_domain sample_row = up_DomainID sample_update" "pw_id sample_row = up_ID sample_update"
    by (simp_all add: sample_row_def sample_update_def)
  ultimately have "pw_oauth_refresh_token r' = None"
    using update_drops_foreign_secrets[OF run(1), of r'] rows by (auto simp: EmailAuthTypeOAuth2_def)
  with run(1) rows show ?thesis by (auto simp: sample_row_def)
qed

end
