(* ===== verification/Profile_Service.thy ===== *)
theory Profile_Service
  imports Profile_Store Inbound_Correct
begin

text \<open>
  The profile use cases, \<^verbatim>\<open>internal/service/email_profile.go\<close>, \<^verbatim>\<open>email_profile_oauth.go\<close> and
  \<^verbatim>\<open>email_profile_polling.go\<close>, with the encryption adapter \<^verbatim>\<open>infra/crypto\<close> and the provider
  settings of \<^verbatim>\<open>infra/oauth\<close>. A service state is a world together with the cached OAuth2
  tokens; the mutex of a cache entry is held from before the first read of the profile to the
  end of every operation that uses it, so an operation is one step on that state. The
  cipher, the OAuth2 library, the address parser, the JSON decoder, the texts of errors and
  the checks of a mail server are arguments (\<open>profile_env\<close>).
\<close>

section \<open>The service and what it calls\<close>

record Token =
  tk_AccessToken :: string
  tk_RefreshToken :: string
  tk_Expiry :: time

record oauth_config =
  oa_ClientID :: string
  oa_ClientSecret :: string
  oa_RedirectURL :: string
  oa_AuthURL :: string
  oa_TokenURL :: string
  oa_Scopes :: "string list"

record emailProfileOAuthState =
  os_DomainID :: int
  os_UserID :: int
  os_ProfileID :: int
  os_Provider :: EmailOAuthProvider
  os_ExpiresAt :: int

record MailConnection =
  mc_Host :: string
  mc_Port :: int
  mc_Security :: EmailConnectionSecurity
  mc_Username :: string
  mc_Password :: string
  mc_AuthType :: EmailAuthType
  mc_AccessToken :: string

text \<open>How the token source of the OAuth2 library fails: the provider rejects the grant, or anything else.\<close>

datatype token_error = InvalidGrant string | TokenFailure error

record profile_env =
  en_users :: "int \<Rightarrow> string option"
  en_codecEncrypt :: "nat \<Rightarrow> string \<Rightarrow> error + string"
  en_codecDecrypt :: "nat \<Rightarrow> string \<Rightarrow> error + string \<times> bool"
  en_UnframeBinary :: "string \<Rightarrow> string option"
  en_ParseAddress :: "string \<Rightarrow> string option"
  en_imapTest :: "nat \<Rightarrow> MailConnection \<Rightarrow> error option"
  en_smtpTest :: "nat \<Rightarrow> MailConnection \<Rightarrow> error option"
  en_redirectURL :: string
  en_AuthCodeURL :: "oauth_config \<Rightarrow> string \<Rightarrow> string"
  en_Exchange :: "nat \<Rightarrow> oauth_config \<Rightarrow> string \<Rightarrow> error + Token"
  en_Token :: "nat \<Rightarrow> oauth_config \<Rightarrow> Token \<Rightarrow> token_error + Token"
  en_Unmarshal :: "string \<Rightarrow> error + emailProfileOAuthState"
  en_errorText :: "error \<Rightarrow> string"

record svc =
  sv_world :: world
  sv_tokens :: "int \<times> int \<Rightarrow> Token option"

type_synonym 'a sio = "svc \<Rightarrow> (error + 'a) \<times> svc"

definition returnS :: "'a \<Rightarrow> 'a sio" where
  "returnS x s = (Inr x, s)"

definition throwS :: "error \<Rightarrow> 'a sio" where
  "throwS e s = (Inl e, s)"

definition bindS :: "'a sio \<Rightarrow> ('a \<Rightarrow> 'b sio) \<Rightarrow> 'b sio" where
  "bindS m f s = (case m s of (Inl e, s1) \<Rightarrow> (Inl e, s1) | (Inr x, s1) \<Rightarrow> f x s1)"

definition liftS :: "'a io \<Rightarrow> 'a sio" where
  "liftS m s = (case m (sv_world s) of (r, w) \<Rightarrow> (r, s\<lparr>sv_world := w\<rparr>))"

definition getToken :: "int \<Rightarrow> int \<Rightarrow> Token option sio" where
  "getToken domainID i s = (Inr (sv_tokens s (domainID, i)), s)"

definition setToken :: "int \<Rightarrow> int \<Rightarrow> Token option \<Rightarrow> unit sio" where
  "setToken domainID i t s = (Inr (), s\<lparr>sv_tokens := (sv_tokens s)((domainID, i) := t)\<rparr>)"

definition invalidEmailProfile :: "string \<Rightarrow> error" where
  "invalidEmailProfile i = InvalidArgument (''email.profile.'' @ i)"

section \<open>Encryption\<close>

definition ErrNotCiphertext :: error where
  "ErrNotCiphertext = PlainError ''crypto: stored value is not ciphertext''"

definition Encrypt :: "profile_env \<Rightarrow> string \<Rightarrow> string io" where
  "Encrypt env v = call (\<lambda>n. en_codecEncrypt env n v)"

text \<open>A nil blob is the empty one.\<close>

definition Decrypt :: "profile_env \<Rightarrow> string option \<Rightarrow> string io" where
  "Decrypt env stored =
     (let blob = nullString stored
      in if blob = '''' then returnM ''''
         else if en_UnframeBinary env blob = Some '''' then throwM ErrNotCiphertext
         else bindM (call (\<lambda>n. en_codecDecrypt env n blob)) (\<lambda>(data, encrypted).
           if \<not> encrypted then throwM ErrNotCiphertext else returnM data))"

section \<open>Validation\<close>

definition validEmailAddress :: "profile_env \<Rightarrow> string \<Rightarrow> bool" where
  "validEmailAddress env v0 = (let v = TrimSpace v0 in en_ParseAddress env v = Some v)"

definition validateEmailPort :: "string \<Rightarrow> int \<Rightarrow> error option" where
  "validateEmailPort protocol port =
     (if port < 1 \<or> port > 65535 then Some (invalidEmailProfile (protocol @ ''_port_invalid'')) else None)"

definition validConnectionSecurity :: "EmailConnectionSecurity \<Rightarrow> bool" where
  "validConnectionSecurity v = (v = EmailConnectionSecurityTLS \<or> v = EmailConnectionSecurityStartTLS)"

definition validAuthType :: "EmailAuthType \<Rightarrow> bool" where
  "validAuthType v = (v = EmailAuthTypeBasic \<or> v = EmailAuthTypeOAuth2)"

definition validOAuthProvider :: "EmailOAuthProvider \<Rightarrow> bool" where
  "validOAuthProvider v = (v = EmailOAuthProviderGoogle \<or> v = EmailOAuthProviderMicrosoft)"

definition validateEmailProfile :: "profile_env \<Rightarrow> EmailProfile \<Rightarrow> error option" where
  "validateEmailProfile env p =
     (if TrimSpace (ep_Name p) = '''' then Some (invalidEmailProfile ''name_required'')
      else if TrimSpace (ep_EmailAddress p) = '''' then Some (invalidEmailProfile ''email_address_required'')
      else if \<not> validEmailAddress env (ep_EmailAddress p) then Some (invalidEmailProfile ''email_address_invalid'')
      else if ep_ReplyTo p \<noteq> '''' \<and> \<not> validEmailAddress env (ep_ReplyTo p) then Some (invalidEmailProfile ''reply_to_invalid'')
      else if TrimSpace (ep_Username p) = '''' then Some (invalidEmailProfile ''username_required'')
      else if TrimSpace (ep_IMAPHost p) = '''' then Some (invalidEmailProfile ''imap_host_required'')
      else if validateEmailPort ''imap'' (ep_IMAPPort p) \<noteq> None then validateEmailPort ''imap'' (ep_IMAPPort p)
      else if \<not> validConnectionSecurity (ep_IMAPSecurity p) then Some (invalidEmailProfile ''imap_security_invalid'')
      else if TrimSpace (ep_SMTPHost p) = '''' then Some (invalidEmailProfile ''smtp_host_required'')
      else if validateEmailPort ''smtp'' (ep_SMTPPort p) \<noteq> None then validateEmailPort ''smtp'' (ep_SMTPPort p)
      else if \<not> validConnectionSecurity (ep_SMTPSecurity p) then Some (invalidEmailProfile ''smtp_security_invalid'')
      else if ep_AuthType p = '''' then Some (invalidEmailProfile ''auth_type_required'')
      else if \<not> validAuthType (ep_AuthType p) then Some (invalidEmailProfile ''auth_type_invalid'')
      else if ep_AuthType p = EmailAuthTypeOAuth2 \<and> \<not> validOAuthProvider (ep_OAuthProvider p)
      then Some (invalidEmailProfile ''oauth_provider_invalid'')
      else if ep_AuthType p = EmailAuthTypeOAuth2 \<and> TrimSpace (ep_OAuthClientID p) = ''''
      then Some (invalidEmailProfile ''oauth_client_id_required'')
      else if (case ep_FlowID p of None \<Rightarrow> False | Some f \<Rightarrow> f \<le> 0) then Some (invalidEmailProfile ''flow_id_invalid'')
      else if ep_FetchIntervalSeconds p < MinEmailProfileFetchIntervalSeconds
      then Some (invalidEmailProfile ''fetch_interval_invalid'')
      else None)"

text \<open>The profile is changed in place, so the prepared one is what the caller goes on with.\<close>

definition prepareEmailProfile :: "profile_env \<Rightarrow> EmailProfile option \<Rightarrow> error + EmailProfile" where
  "prepareEmailProfile env profile = (case profile of
     None \<Rightarrow> Inl (invalidEmailProfile ''input_required'')
   | Some p \<Rightarrow> (case validateEmailProfile env (ApplyDefaults p) of Some e \<Rightarrow> Inl e | None \<Rightarrow> Inr (ApplyDefaults p)))"

section \<open>Secrets\<close>

definition sealBasicPassword :: "profile_env \<Rightarrow> EmailProfile \<Rightarrow> string \<Rightarrow> bool \<Rightarrow> string option io" where
  "sealBasicPassword env p password required =
     (if ep_AuthType p \<noteq> EmailAuthTypeBasic
      then if password \<noteq> '''' then throwM (invalidEmailProfile ''password_not_allowed'') else returnM None
      else if password = ''''
      then if required then throwM (invalidEmailProfile ''password_required'') else returnM None
      else bindM (Encrypt env password) (\<lambda>blob. returnM (Some blob)))"

definition sealOAuthClientSecret :: "profile_env \<Rightarrow> EmailProfile \<Rightarrow> string \<Rightarrow> bool \<Rightarrow> string option io" where
  "sealOAuthClientSecret env p clientSecret required =
     (if ep_AuthType p \<noteq> EmailAuthTypeOAuth2
      then if clientSecret \<noteq> '''' then throwM (invalidEmailProfile ''oauth_client_secret_not_allowed'') else returnM None
      else if clientSecret = ''''
      then if required then throwM (invalidEmailProfile ''oauth_client_secret_required'') else returnM None
      else bindM (Encrypt env clientSecret) (\<lambda>blob. returnM (Some blob)))"

definition openBasicPassword :: "profile_env \<Rightarrow> int \<Rightarrow> int \<Rightarrow> string io" where
  "openBasicPassword env domainID i = bindM (exec (GetPassword domainID i)) (Decrypt env)"

definition openOAuthClientSecret :: "profile_env \<Rightarrow> int \<Rightarrow> int \<Rightarrow> string io" where
  "openOAuthClientSecret env domainID i =
     bindM (exec (GetOAuthCredentials domainID i)) (\<lambda>c. Decrypt env (oc_ClientSecret c))"

definition openOAuthRefreshToken :: "profile_env \<Rightarrow> int \<Rightarrow> int \<Rightarrow> string io" where
  "openOAuthRefreshToken env domainID i =
     bindM (exec (GetOAuthCredentials domainID i)) (\<lambda>c. Decrypt env (oc_RefreshToken c))"

section \<open>Creating, updating and deleting\<close>

record CreateEmailProfileInput =
  ci_DomainID :: int
  ci_UserID :: int
  ci_Profile :: "EmailProfile option"
  ci_Password :: string
  ci_OAuthClientSecret :: string

record UpdateEmailProfileInput =
  ui_DomainID :: int
  ui_UserID :: int
  ui_ID :: int
  ui_Profile :: "EmailProfile option"
  ui_Password :: string
  ui_OAuthClientSecret :: string

definition Service_Create :: "profile_env \<Rightarrow> CreateEmailProfileInput \<Rightarrow> EmailProfile io" where
  "Service_Create env input = (case prepareEmailProfile env (ci_Profile input) of
     Inl e \<Rightarrow> throwM e
   | Inr profile \<Rightarrow>
     bindM (sealBasicPassword env profile (ci_Password input) True) (\<lambda>sealedPassword.
     bindM (sealOAuthClientSecret env profile (ci_OAuthClientSecret input) True) (\<lambda>sealedOAuthClientSecret.
     exec (Profile_Create (en_users env) \<lparr>cp_DomainID = ci_DomainID input, cp_UserID = ci_UserID input, cp_Profile = profile,
       cp_Password = sealedPassword, cp_OAuthClientSecret = sealedOAuthClientSecret\<rparr>))))"

definition Service_Update :: "profile_env \<Rightarrow> UpdateEmailProfileInput \<Rightarrow> EmailProfile sio" where
  "Service_Update env input = (case prepareEmailProfile env (ui_Profile input) of
     Inl e \<Rightarrow> throwS e
   | Inr profile \<Rightarrow>
     bindS (liftS (
       bindM (exec (Profile_Locate (en_users env) (ui_DomainID input) (ui_ID input))) (\<lambda>current.
       bindM (sealBasicPassword env profile (ui_Password input) False) (\<lambda>sealedPassword.
       bindM (sealOAuthClientSecret env profile (ui_OAuthClientSecret input) (OAuthClientChangedFrom profile current))
         (\<lambda>sealedOAuthClientSecret.
       exec (Profile_Update (en_users env) \<lparr>up_DomainID = ui_DomainID input, up_UserID = ui_UserID input, up_ID = ui_ID input,
         up_Profile = profile, up_Password = sealedPassword, up_OAuthClientSecret = sealedOAuthClientSecret\<rparr>)))))) (\<lambda>updated.
     bindS (setToken (ui_DomainID input) (ui_ID input) None) (\<lambda>_. returnS updated)))"

definition Service_Delete :: "profile_env \<Rightarrow> int \<Rightarrow> int \<Rightarrow> EmailProfile sio" where
  "Service_Delete env domainID i =
     bindS (liftS (exec (Profile_Delete (en_users env) domainID i))) (\<lambda>profile.
     bindS (setToken domainID i None) (\<lambda>_. returnS profile))"

section \<open>OAuth2\<close>

definition Resolver_Config :: "string \<Rightarrow> EmailOAuthProvider \<Rightarrow> string \<Rightarrow> string \<Rightarrow> error + oauth_config" where
  "Resolver_Config redirectURL provider clientID clientSecret =
     (if provider = EmailOAuthProviderGoogle then
        if redirectURL = '''' then Inl (PlainError ''oauth: redirect URL is not configured'')
        else Inr \<lparr>oa_ClientID = clientID, oa_ClientSecret = clientSecret, oa_RedirectURL = redirectURL,
          oa_AuthURL = ''https://accounts.google.com/o/oauth2/v2/auth'', oa_TokenURL = ''https://oauth2.googleapis.com/token'',
          oa_Scopes = [''https://mail.google.com/'']\<rparr>
      else if provider = EmailOAuthProviderMicrosoft then
        if redirectURL = '''' then Inl (PlainError ''oauth: redirect URL is not configured'')
        else Inr \<lparr>oa_ClientID = clientID, oa_ClientSecret = clientSecret, oa_RedirectURL = redirectURL,
          oa_AuthURL = ''https://login.microsoftonline.com/organizations/oauth2/v2.0/authorize'',
          oa_TokenURL = ''https://login.microsoftonline.com/organizations/oauth2/v2.0/token'',
          oa_Scopes = [''https://outlook.office.com/IMAP.AccessAsUser.All'', ''https://outlook.office.com/SMTP.Send'',
            ''offline_access'']\<rparr>
      else Inl (PlainError ''oauth: unsupported provider''))"

definition oauthConfig :: "profile_env \<Rightarrow> int \<Rightarrow> EmailProfile \<Rightarrow> oauth_config io" where
  "oauthConfig env domainID profile =
     (if ep_AuthType profile \<noteq> EmailAuthTypeOAuth2 then throwM (invalidEmailProfile ''oauth2_required'')
      else if ep_OAuthClientID profile = '''' then throwM (invalidEmailProfile ''oauth_client_id_required'')
      else bindM (openOAuthClientSecret env domainID (ep_ID profile)) (\<lambda>clientSecret.
        if clientSecret = '''' then throwM (invalidEmailProfile ''oauth_client_secret_required'')
        else (case Resolver_Config (en_redirectURL env) (ep_OAuthProvider profile) (ep_OAuthClientID profile) clientSecret of
            Inl e \<Rightarrow> throwM e | Inr config \<Rightarrow> returnM config)))"

definition oauthStateTTL :: duration where
  "oauthStateTTL = 600 * second"

text \<open>\<^verbatim>\<open>Time.Unix\<close>: whole seconds since 1970; the zero time is 62135596800 seconds before.\<close>

definition Unix :: "time \<Rightarrow> int" where
  "Unix t = t div second - 62135596800"

definition expiredAt :: "emailProfileOAuthState \<Rightarrow> time \<Rightarrow> bool" where
  "expiredAt st now \<longleftrightarrow> Unix now \<ge> os_ExpiresAt st"

definition validAt :: "emailProfileOAuthState \<Rightarrow> time \<Rightarrow> bool" where
  "validAt st now \<longleftrightarrow> os_DomainID st > 0 \<and> os_UserID st > 0 \<and> os_ProfileID st > 0 \<and>
     validOAuthProvider (os_Provider st) \<and> \<not> expiredAt st now"

text \<open>\<^verbatim>\<open>json.Marshal\<close> escapes \<^verbatim>\<open><\<close>, \<^verbatim>\<open>>\<close> and \<^verbatim>\<open>&\<close> as well.\<close>

definition json_html :: "string \<Rightarrow> string" where
  "json_html v = [CHR 34] @ concat (map (\<lambda>r. if r = ''<'' then CHR 92 # ''u003c'' else if r = ''>'' then CHR 92 # ''u003e''
     else if r = ''&'' then CHR 92 # ''u0026'' else json_escape r) (runes v)) @ [CHR 34]"

definition json_field :: "string \<Rightarrow> string \<Rightarrow> string" where
  "json_field k v = [CHR 34] @ k @ [CHR 34] @ '':'' @ v"

definition Marshal_state :: "emailProfileOAuthState \<Rightarrow> string" where
  "Marshal_state st = ''{'' @ Join [json_field ''domain_id'' (FormatInt (os_DomainID st)), json_field ''user_id'' (FormatInt (os_UserID st)),
     json_field ''profile_id'' (FormatInt (os_ProfileID st)), json_field ''provider'' (json_html (os_Provider st)),
     json_field ''expires_at'' (FormatInt (os_ExpiresAt st))] '','' @ ''}''"

definition newOAuthState :: "profile_env \<Rightarrow> int \<Rightarrow> int \<Rightarrow> EmailProfile \<Rightarrow> string io" where
  "newOAuthState env domainID userID profile =
     bindM timeNow (\<lambda>now.
     bindM (Encrypt env (Marshal_state \<lparr>os_DomainID = domainID, os_UserID = userID, os_ProfileID = ep_ID profile,
        os_Provider = ep_OAuthProvider profile, os_ExpiresAt = Unix (now + oauthStateTTL)\<rparr>)) (\<lambda>sealed.
     returnM (RawURLEncode sealed)))"

definition invalidOAuthState :: error where
  "invalidOAuthState = invalidEmailProfile ''oauth_state_invalid''"

definition openOAuthState :: "profile_env \<Rightarrow> string \<Rightarrow> emailProfileOAuthState io" where
  "openOAuthState env encodedState = (case RawURLDecode encodedState of
     None \<Rightarrow> throwM (PlainError ''illegal base64 data'')
   | Some sealed \<Rightarrow>
     bindM (Decrypt env (Some sealed)) (\<lambda>payload.
     case en_Unmarshal env payload of Inl e \<Rightarrow> throwM e
     | Inr state \<Rightarrow> bindM timeNow (\<lambda>now. if \<not> validAt state now then throwM invalidOAuthState else returnM state)))"

record EmailProfileOAuthStart =
  st_AuthURL :: string
  st_State :: string

definition BeginOAuth :: "profile_env \<Rightarrow> int \<Rightarrow> int \<Rightarrow> int \<Rightarrow> EmailProfileOAuthStart io" where
  "BeginOAuth env domainID userID i =
     bindM (exec (Profile_Locate (en_users env) domainID i)) (\<lambda>profile.
     bindM (oauthConfig env domainID profile) (\<lambda>config.
     bindM (newOAuthState env domainID userID profile) (\<lambda>state.
     returnM \<lparr>st_AuthURL = en_AuthCodeURL env config state, st_State = state\<rparr>)))"

text \<open>\<^verbatim>\<open>state, err := openOAuthState(...)\<close>, where an error counts as a state that does not match.\<close>

definition matchingState :: "profile_env \<Rightarrow> int \<Rightarrow> int \<Rightarrow> int \<Rightarrow> string \<Rightarrow> emailProfileOAuthState io" where
  "matchingState env domainID userID i encodedState =
     catchM (openOAuthState env encodedState) (\<lambda>e. throwM invalidOAuthState) (\<lambda>state.
       if os_DomainID state \<noteq> domainID \<or> os_UserID state \<noteq> userID \<or> os_ProfileID state \<noteq> i
       then throwM invalidOAuthState else returnM state)"

definition exchangeCode :: "profile_env \<Rightarrow> int \<Rightarrow> int \<Rightarrow> string \<Rightarrow> emailProfileOAuthState \<Rightarrow> (EmailProfile \<times> Token) io" where
  "exchangeCode env domainID i code state =
     bindM (exec (Profile_Locate (en_users env) domainID i)) (\<lambda>profile.
     if os_Provider state \<noteq> ep_OAuthProvider profile then throwM invalidOAuthState
     else
     bindM (oauthConfig env domainID profile) (\<lambda>config.
     catchM (call (\<lambda>n. en_Exchange env n config code))
       (\<lambda>e. throwM (invalidEmailProfile ''oauth_code_exchange_failed'')) (\<lambda>token.
     if tk_RefreshToken token = '''' then throwM (invalidEmailProfile ''oauth_refresh_token_missing'')
     else
     bindM (Encrypt env (tk_RefreshToken token)) (\<lambda>sealedRefreshToken.
     bindM (exec (SetOAuthRefreshTokenAndState (en_users env) domainID i (Some sealedRefreshToken) EmailConnectionStateIdle))
       (\<lambda>updated. returnM (updated, token))))))"

definition CompleteOAuth :: "profile_env \<Rightarrow> int \<Rightarrow> int \<Rightarrow> int \<Rightarrow> string \<Rightarrow> string \<Rightarrow> EmailProfile sio" where
  "CompleteOAuth env domainID userID i code encodedState =
     (if TrimSpace code = '''' then throwS (invalidEmailProfile ''oauth_code_required'')
      else
      bindS (liftS (matchingState env domainID userID i encodedState)) (\<lambda>state.
      bindS (liftS (exchangeCode env domainID i code state)) (\<lambda>(updated, token).
      bindS (setToken domainID i (Some token)) (\<lambda>_. returnS updated))))"

definition oauthRefreshError :: "token_error \<Rightarrow> error" where
  "oauthRefreshError cause = (case cause of
     InvalidGrant _ \<Rightarrow> ErrReauthorizationRequired | TokenFailure _ \<Rightarrow> PlainError ''email.profile.oauth.refresh_failed'')"

definition callToken :: "profile_env \<Rightarrow> oauth_config \<Rightarrow> Token \<Rightarrow> Token io" where
  "callToken env config base = call (\<lambda>n. case en_Token env n config base of Inl e \<Rightarrow> Inl (oauthRefreshError e) | Inr t \<Rightarrow> Inr t)"

text \<open>What happens under the lock of the cache entry: the refreshed token, with the stored one renewed.\<close>

definition renewToken :: "profile_env \<Rightarrow> int \<Rightarrow> int \<Rightarrow> Token option \<Rightarrow> oauth_config \<Rightarrow> string \<Rightarrow> Token io" where
  "renewToken env domainID i cached config stored =
     (if stored = '''' then throwM (invalidEmailProfile ''oauth_not_connected'')
      else
      let base = (case cached of
            Some t \<Rightarrow> if tk_RefreshToken t = stored then t else \<lparr>tk_AccessToken = '''', tk_RefreshToken = stored, tk_Expiry = zero_time\<rparr>
          | None \<Rightarrow> \<lparr>tk_AccessToken = '''', tk_RefreshToken = stored, tk_Expiry = zero_time\<rparr>)
      in
      bindM (callToken env config base) (\<lambda>token.
      if tk_RefreshToken token \<noteq> stored
      then bindM (Encrypt env (tk_RefreshToken token)) (\<lambda>sealed.
           bindM (exec (SetOAuthRefreshToken domainID i (Some sealed))) (\<lambda>_. returnM token))
      else returnM token))"

definition refreshToken :: "profile_env \<Rightarrow> int \<Rightarrow> int \<Rightarrow> Token option \<Rightarrow> Token io" where
  "refreshToken env domainID i cached =
     bindM (exec (Profile_Locate (en_users env) domainID i)) (\<lambda>profile.
     bindM (oauthConfig env domainID profile) (\<lambda>config.
     bindM (openOAuthRefreshToken env domainID i) (renewToken env domainID i cached config)))"

definition accessToken :: "profile_env \<Rightarrow> int \<Rightarrow> int \<Rightarrow> string sio" where
  "accessToken env domainID i =
     bindS (getToken domainID i) (\<lambda>cached.
     bindS (liftS (refreshToken env domainID i cached)) (\<lambda>token.
     bindS (setToken domainID i (Some token)) (\<lambda>_. returnS (tk_AccessToken token))))"

definition DisconnectOAuth :: "profile_env \<Rightarrow> int \<Rightarrow> int \<Rightarrow> EmailProfile sio" where
  "DisconnectOAuth env domainID i =
     bindS (liftS (
       bindM (exec (Profile_Locate (en_users env) domainID i)) (\<lambda>profile.
       if ep_AuthType profile \<noteq> EmailAuthTypeOAuth2 then throwM (invalidEmailProfile ''oauth2_required'')
       else exec (SetOAuthRefreshTokenAndState (en_users env) domainID i None EmailConnectionStateIdle)))) (\<lambda>updated.
     bindS (setToken domainID i None) (\<lambda>_. returnS updated))"

section \<open>Connections\<close>

definition imapSettings :: "EmailProfile \<Rightarrow> MailConnection" where
  "imapSettings p = \<lparr>mc_Host = ep_IMAPHost p, mc_Port = ep_IMAPPort p, mc_Security = ep_IMAPSecurity p,
     mc_Username = ep_Username p, mc_Password = '''', mc_AuthType = '''', mc_AccessToken = ''''\<rparr>"

definition smtpSettings :: "EmailProfile \<Rightarrow> MailConnection" where
  "smtpSettings p = \<lparr>mc_Host = ep_SMTPHost p, mc_Port = ep_SMTPPort p, mc_Security = ep_SMTPSecurity p,
     mc_Username = ep_Username p, mc_Password = '''', mc_AuthType = '''', mc_AccessToken = ''''\<rparr>"

definition IMAPConnection :: "profile_env \<Rightarrow> EmailProfile \<Rightarrow> MailConnection sio" where
  "IMAPConnection env p =
     (let connection = (imapSettings p)\<lparr>mc_AuthType := ep_AuthType p\<rparr>
      in if ep_AuthType p = EmailAuthTypeOAuth2
         then bindS (accessToken env (ep_DomainID p) (ep_ID p)) (\<lambda>token. returnS (connection\<lparr>mc_AccessToken := token\<rparr>))
         else bindS (liftS (openBasicPassword env (ep_DomainID p) (ep_ID p))) (\<lambda>password.
           if password = '''' then throwS (invalidEmailProfile ''password_required'')
           else returnS (connection\<lparr>mc_Password := password\<rparr>)))"

definition RequiresReauthorization :: "error \<Rightarrow> bool" where
  "RequiresReauthorization e \<longleftrightarrow> e = ErrReauthorizationRequired \<or> e = invalidEmailProfile ''oauth_not_connected''"

definition connectionTestResult :: "profile_env \<Rightarrow> error option \<Rightarrow> EmailConnectionTestResult" where
  "connectionTestResult env e = (case e of
     None \<Rightarrow> \<lparr>ct_Success = True, ct_Error = ''''\<rparr> | Some x \<Rightarrow> \<lparr>ct_Success = False, ct_Error = en_errorText env x\<rparr>)"

text \<open>The two checks run at the same time and touch nothing the other one reads.\<close>

definition testConnections ::
  "profile_env \<Rightarrow> MailConnection \<Rightarrow> MailConnection \<Rightarrow> EmailProfileTestResult io" where
  "testConnections env imap smtp w =
     (Inr \<lparr>pt_IMAP = connectionTestResult env (en_imapTest env (w_step w) imap),
           pt_SMTP = connectionTestResult env (en_smtpTest env (Suc (w_step w)) smtp)\<rparr>, tick (tick w))"

definition connectionState :: "EmailProfileTestResult \<Rightarrow> EmailConnectionState \<times> string \<times> bool" where
  "connectionState result =
     (if ct_Success (pt_IMAP result) \<and> ct_Success (pt_SMTP result) then (EmailConnectionStateReady, '''', True)
      else let errors = (if \<not> ct_Success (pt_IMAP result) then [''IMAP: '' @ ct_Error (pt_IMAP result)] else []) @
                        (if \<not> ct_Success (pt_SMTP result) then [''SMTP: '' @ ct_Error (pt_SMTP result)] else [])
           in (EmailConnectionStateError, Join errors ''; '', False))"

definition storeTestResult :: "int \<Rightarrow> int \<Rightarrow> EmailProfileTestResult \<Rightarrow> EmailProfileTestResult io" where
  "storeTestResult domainID i result =
     (case connectionState result of (state, connectionError, successful) \<Rightarrow>
       bindM (exec (SetConnectionResult domainID i state connectionError successful)) (\<lambda>_. returnM result))"

definition storeOAuthTokenFailure :: "profile_env \<Rightarrow> int \<Rightarrow> int \<Rightarrow> error \<Rightarrow> EmailProfileTestResult io" where
  "storeOAuthTokenFailure env domainID i tokenErr =
     (let tokenError = \<lparr>ct_Success = False, ct_Error = en_errorText env tokenErr\<rparr>;
          state = (if tokenErr = ErrReauthorizationRequired then EmailConnectionStateReauthorizationRequired
                   else EmailConnectionStateError)
      in bindM (exec (SetConnectionResult domainID i state (en_errorText env tokenErr) False)) (\<lambda>_.
         returnM \<lparr>pt_IMAP = tokenError, pt_SMTP = tokenError\<rparr>))"

definition testBasic :: "profile_env \<Rightarrow> int \<Rightarrow> int \<Rightarrow> EmailProfile \<Rightarrow> EmailProfileTestResult io" where
  "testBasic env domainID i profile =
     bindM (openBasicPassword env domainID i) (\<lambda>password.
     if password = '''' then throwM (invalidEmailProfile ''password_required'')
     else
     bindM (testConnections env ((imapSettings profile)\<lparr>mc_Password := password\<rparr>) ((smtpSettings profile)\<lparr>mc_Password := password\<rparr>))
       (storeTestResult domainID i))"

definition catchS :: "'a sio \<Rightarrow> (error \<Rightarrow> 'b sio) \<Rightarrow> ('a \<Rightarrow> 'b sio) \<Rightarrow> 'b sio" where
  "catchS m failed ok s = (case m s of (Inl e, s1) \<Rightarrow> failed e s1 | (Inr x, s1) \<Rightarrow> ok x s1)"

definition testOAuth2 :: "profile_env \<Rightarrow> int \<Rightarrow> int \<Rightarrow> EmailProfile \<Rightarrow> EmailProfileTestResult sio" where
  "testOAuth2 env domainID i profile =
     catchS (accessToken env domainID i)
       (\<lambda>e. if e = invalidEmailProfile ''oauth_not_connected'' then throwS e else liftS (storeOAuthTokenFailure env domainID i e))
       (\<lambda>token. let oauth = (\<lambda>c. c\<lparr>mc_AuthType := EmailAuthTypeOAuth2, mc_AccessToken := token\<rparr>)
          in liftS (bindM (testConnections env (oauth (imapSettings profile)) (oauth (smtpSettings profile))) (storeTestResult domainID i)))"

definition Service_Test :: "profile_env \<Rightarrow> int \<Rightarrow> int \<Rightarrow> EmailProfileTestResult sio" where
  "Service_Test env domainID i =
     bindS (liftS (exec (Profile_Locate (en_users env) domainID i))) (\<lambda>profile.
     if ep_AuthType profile = EmailAuthTypeOAuth2 then testOAuth2 env domainID i profile
     else liftS (testBasic env domainID i profile))"

section \<open>How the operations succeed\<close>

lemma bindS_Inr [io_success]: "bindS m f s = (Inr y, s') \<longleftrightarrow> (\<exists>x s1. m s = (Inr x, s1) \<and> f x s1 = (Inr y, s'))"
  by (auto simp: bindS_def split: prod.splits sum.splits)

lemma returnS_Inr [io_success]: "returnS x s = (Inr y, s') \<longleftrightarrow> y = x \<and> s' = s"
  by (auto simp: returnS_def)

lemma throwS_Inr [io_success]: "throwS e s = (Inr y, s') \<longleftrightarrow> False"
  by (simp add: throwS_def)

lemma liftS_Inr [io_success]: "liftS m s = (Inr x, s') \<longleftrightarrow> (\<exists>w. m (sv_world s) = (Inr x, w) \<and> s' = s\<lparr>sv_world := w\<rparr>)"
  by (auto simp: liftS_def split: prod.splits)

lemma token_Inr [io_success]:
  "getToken d i s = (Inr t, s') \<longleftrightarrow> t = sv_tokens s (d, i) \<and> s' = s"
  "setToken d i v s = (Inr u, s') \<longleftrightarrow> s' = s\<lparr>sv_tokens := (sv_tokens s)((d, i) := v)\<rparr>"
  by (auto simp: getToken_def setToken_def)

lemma call_Inr [io_success]: "call f w = (Inr x, w') \<longleftrightarrow> f (w_step w) = Inr x \<and> w' = tick w"
  by (auto simp: call_def)

text \<open>A value opened by the cipher, and what the cipher promises.\<close>

definition opens :: "profile_env \<Rightarrow> string option \<Rightarrow> string \<Rightarrow> bool" where
  "opens env stored v \<longleftrightarrow> (\<exists>b n. stored = Some b \<and> en_codecDecrypt env n b = Inr (v, True))"

definition codec_contract :: "profile_env \<Rightarrow> bool" where
  "codec_contract env \<longleftrightarrow> (\<forall>n v b. en_codecEncrypt env n v = Inr b \<longrightarrow>
     b \<noteq> '''' \<and> en_UnframeBinary env b \<noteq> Some '''' \<and> (\<forall>k. en_codecDecrypt env k b = Inr (v, True)))"

lemma Encrypt_opens:
  assumes "Encrypt env v w = (Inr b, w')" and "codec_contract env"
  shows "opens env (Some b) v" and "Decrypt env (Some b) u = (Inr v, tick u)" and "w' = tick w"
  using assms by (auto simp: Encrypt_def call_def codec_contract_def opens_def Decrypt_def nullString_def bindM_def returnM_def)

lemma Decrypt_opens:
  assumes "Decrypt env stored w = (Inr v, w')" and "v \<noteq> ''''"
  shows "opens env stored v" and "w_db w' = w_db w"
  using assms
  by (auto simp: Decrypt_def Let_def nullString_def opens_def io_success split: if_splits option.splits prod.splits sum.splits)

lemma Decrypt_nothing: "Decrypt env None w = (Inr '''', w)"
  by (simp add: Decrypt_def nullString_def returnM_def)

section \<open>Properties\<close>

lemma prepared_valid:
  assumes "prepareEmailProfile env p0 = Inr p"
  shows "validateEmailProfile env p = None"
  using assms by (auto simp: prepareEmailProfile_def split: option.splits)

text \<open>
  C34: A profile the service accepts fits its table. Written over a row in a valid connection
  state it satisfies every CHECK constraint, except when a profile with Basic authentication
  names an unknown OAuth provider, which the service does not look at.
\<close>

theorem accepted_profile_fits_the_table:
  assumes "prepareEmailProfile env p0 = Inr p"
    and "ep_ConnectionState q \<in> {''idle'', ''ready'', ''error'', ''reauthorization_required''}"
  shows "(profile_check (emailProfileWriteArgs p q) \<longleftrightarrow> ep_OAuthProvider p = '''' \<or> validOAuthProvider (ep_OAuthProvider p)) \<and>
    (ep_AuthType p = EmailAuthTypeOAuth2 \<longrightarrow> profile_check (emailProfileWriteArgs p q))"
proof -
  note valid = prepared_valid[OF assms(1)]
  have "TrimSpace (ep_Name p) \<noteq> ''''" "TrimSpace (ep_EmailAddress p) \<noteq> ''''"
    using valid by (auto simp: validateEmailProfile_def split: if_splits)
  then have trimmed: "sql_trim (ep_Name p) \<noteq> ''''" "sql_trim (ep_EmailAddress p) \<noteq> ''''" using TrimSpace_sql_trim by blast+
  have ports: "validateEmailPort ''imap'' (ep_IMAPPort p) = None" "validateEmailPort ''smtp'' (ep_SMTPPort p) = None"
    "validConnectionSecurity (ep_IMAPSecurity p)" "validConnectionSecurity (ep_SMTPSecurity p)" "validAuthType (ep_AuthType p)"
    "ep_AuthType p = EmailAuthTypeOAuth2 \<Longrightarrow> validOAuthProvider (ep_OAuthProvider p)"
    "MinEmailProfileFetchIntervalSeconds \<le> ep_FetchIntervalSeconds p"
    using valid unfolding validateEmailProfile_def by (simp_all split: if_splits)
  from trimmed ports assms(2) show ?thesis
    by (auto simp: profile_check_def emailProfileWriteArgs_def validateEmailPort_def validConnectionSecurity_def validAuthType_def
        validOAuthProvider_def EmailConnectionSecurityTLS_def EmailConnectionSecurityStartTLS_def EmailAuthTypeBasic_def
        EmailAuthTypeOAuth2_def EmailOAuthProviderGoogle_def EmailOAuthProviderMicrosoft_def MinEmailProfileFetchIntervalSeconds_def
        split: if_splits)
qed

text \<open>An environment whose cipher writes a mark before the text, and a submitted profile.\<close>

definition sample_env :: profile_env where
  "sample_env = \<lparr>en_users = (\<lambda>_. None), en_codecEncrypt = (\<lambda>_ v. Inr (CHR ''#'' # v)),
     en_codecDecrypt = (\<lambda>_ b. Inr (List.tl b, True)), en_UnframeBinary = (\<lambda>_. None), en_ParseAddress = (\<lambda>v. Some v),
     en_imapTest = (\<lambda>_ _. None), en_smtpTest = (\<lambda>_ _. None), en_redirectURL = ''https://w/cb'',
     en_AuthCodeURL = (\<lambda>_ st. st), en_Exchange = (\<lambda>_ _ code. Inr \<lparr>tk_AccessToken = ''a'', tk_RefreshToken = code, tk_Expiry = 0\<rparr>),
     en_Token = (\<lambda>_ _ t. Inr (t\<lparr>tk_AccessToken := ''a'', tk_RefreshToken := ''rotated''\<rparr>)),
     en_Unmarshal = (\<lambda>v. if v = Marshal_state \<lparr>os_DomainID = 7, os_UserID = 3, os_ProfileID = 1, os_Provider = ''google'',
          os_ExpiresAt = Unix (1000 + oauthStateTTL)\<rparr>
        then Inr \<lparr>os_DomainID = 7, os_UserID = 3, os_ProfileID = 1, os_Provider = ''google'', os_ExpiresAt = Unix (1000 + oauthStateTTL)\<rparr>
        else Inl (PlainError ''json'')),
     en_errorText = (\<lambda>_. ''error'')\<rparr>"

definition sample_form :: EmailProfile where
  "sample_form = (pw_profile sample_row)\<lparr>ep_AuthType := ''basic'', ep_OAuthProvider := '''', ep_OAuthClientID := ''''\<rparr>"

lemma sample_form_accepted: "provider \<in> {'''', ''yahoo''} \<Longrightarrow>
    prepareEmailProfile sample_env (Some (sample_form\<lparr>ep_OAuthProvider := provider\<rparr>)) = Inr (sample_form\<lparr>ep_OAuthProvider := provider\<rparr>)"
proof -
  have trims: "TrimSpace ''Support'' = ''Support''" "TrimSpace ''a@b.c'' = ''a@b.c''" "TrimSpace ''u'' = ''u''" "TrimSpace ''i'' = ''i''" "TrimSpace ''s'' = ''s''"
    by code_simp+
  show ?thesis
    by (simp add: prepareEmailProfile_def ApplyDefaults_def validateEmailProfile_def sample_form_def sample_row_def trims validEmailAddress_def
        sample_env_def validateEmailPort_def validConnectionSecurity_def validAuthType_def EmailConnectionSecurityTLS_def EmailAuthTypeBasic_def
        EmailAuthTypeOAuth2_def MinEmailProfileFetchIntervalSeconds_def zero_EmailProfile_def)
qed

lemma sample_form_plain: "sample_form\<lparr>ep_OAuthProvider := ''''\<rparr> = sample_form"
  by (simp add: sample_form_def)

theorem accepted_profile_fits_the_table_witness:
  "profile_check (emailProfileWriteArgs sample_form (pw_profile sample_row)) \<and>
   \<not> profile_check (emailProfileWriteArgs (sample_form\<lparr>ep_OAuthProvider := ''yahoo''\<rparr>) (pw_profile sample_row))"
  using accepted_profile_fits_the_table[OF sample_form_accepted, of "''''" "pw_profile sample_row"]
    accepted_profile_fits_the_table[OF sample_form_accepted, of "''yahoo''" "pw_profile sample_row"]
  unfolding sample_form_plain
  by (simp add: sample_row_def sample_form_def validOAuthProvider_def EmailOAuthProviderGoogle_def EmailOAuthProviderMicrosoft_def)

text \<open>Storing a new profile, seen from its row.\<close>

lemma Profile_Create_row:
  assumes "Profile_Create users params now d = Inr (p, d')"
  shows "\<exists>r. find (profileAt (ep_DomainID p) (ep_ID p)) (db_profiles d') = Some r \<and>
    p = mapEmailProfile (readRow users emailProfileColumns r) \<and> pw_password r = cp_Password params"
proof -
  from assms obtain r where d': "db_profiles d' = db_profiles d @ [r]" and p: "p = mapEmailProfile (readRow users emailProfileColumns r)"
    and fresh: "\<forall>x\<in>set (db_profiles d). pw_id x \<noteq> pw_id r" and pw: "pw_password r = cp_Password params"
    unfolding Profile_Create_def Let_def by (auto split: if_splits)
  have ids: "ep_ID p = pw_id r" "ep_DomainID p = pw_domain r" unfolding p full_read by simp_all
  have "find (profileAt (pw_domain r) (pw_id r)) (db_profiles d) = None" using fresh by (auto simp: find_None_iff profileAt_def)
  then have "find (profileAt (ep_DomainID p) (ep_ID p)) (db_profiles d') = Some r"
    by (simp add: d' ids find_append profileAt_def)
  with p pw show ?thesis by blast
qed

text \<open>
  C30: A password survives the round trip through the store: after a Basic profile was created
  with a password, opening its IMAP settings yields the submitted settings with exactly that
  password, whatever else the world does next, as long as the row is still there.
\<close>

theorem created_password_round_trip:
  assumes "codec_contract env" and "Service_Create env input w = (Inr p, w')" and "ep_AuthType p = EmailAuthTypeBasic"
    and "db_profiles (w_db v) = db_profiles (w_db w')" and "w_faults v (w_step v) = None"
  shows "fst (IMAPConnection env p \<lparr>sv_world = v, sv_tokens = tokens\<rparr>) =
    Inr ((imapSettings p)\<lparr>mc_AuthType := EmailAuthTypeBasic, mc_Password := ci_Password input\<rparr>)"
proof -
  from assms(2) obtain profile pw secret w1 w2 where
      seal: "sealBasicPassword env profile (ci_Password input) True w = (Inr pw, w1)" and
      create: "exec (Profile_Create (en_users env) \<lparr>cp_DomainID = ci_DomainID input, cp_UserID = ci_UserID input, cp_Profile = profile,
        cp_Password = pw, cp_OAuthClientSecret = secret\<rparr>) w2 = (Inr p, w')"
    unfolding Service_Create_def by (auto simp: io_success split: sum.splits)
  from exec_Inr[OF create] obtain now where run: "Profile_Create (en_users env) \<lparr>cp_DomainID = ci_DomainID input, cp_UserID = ci_UserID input,
      cp_Profile = profile, cp_Password = pw, cp_OAuthClientSecret = secret\<rparr> now (w_db w2) = Inr (p, w_db w')" by auto
  from Profile_Create_row[OF this] obtain r where row: "find (profileAt (ep_DomainID p) (ep_ID p)) (db_profiles (w_db w')) = Some r"
      "pw_password r = pw" by auto
  have auth: "ep_AuthType profile = EmailAuthTypeBasic"
    using run assms(3) by (auto simp: Profile_Create_def Let_def full_read emailProfileWriteArgs_def split: if_splits)
  then obtain b where b: "pw = Some b" "Encrypt env (ci_Password input) w = (Inr b, w1)" and given: "ci_Password input \<noteq> ''''"
    using seal by (auto simp: sealBasicPassword_def io_success split: if_splits)
  have get: "exec (GetPassword (ep_DomainID p) (ep_ID p)) v = (Inr (Some b), tick v)"
    using assms(4,5) row b(1) by (simp add: exec_def GetPassword_def)
  have "openBasicPassword env (ep_DomainID p) (ep_ID p) v = (Inr (ci_Password input), tick (tick v))"
    unfolding openBasicPassword_def bindM_def get using Encrypt_opens(2)[OF b(2) assms(1)] by simp
  moreover have "ep_AuthType p \<noteq> EmailAuthTypeOAuth2" using assms(3) by (simp add: EmailAuthTypeBasic_def EmailAuthTypeOAuth2_def)
  ultimately show ?thesis using given assms(3)
    by (simp add: IMAPConnection_def Let_def bindS_def liftS_def returnS_def)
qed

lemma sample_codec: "codec_contract sample_env"
  by (simp add: codec_contract_def sample_env_def)

definition sample_input :: CreateEmailProfileInput where
  "sample_input = \<lparr>ci_DomainID = 7, ci_UserID = 3, ci_Profile = Some sample_form, ci_Password = ''secret'', ci_OAuthClientSecret = ''''\<rparr>"

theorem created_password_round_trip_witness:
  "\<exists>p w'. Service_Create sample_env sample_input (sample_world empty_db) = (Inr p, w') \<and>
     fst (IMAPConnection sample_env p \<lparr>sv_world = w', sv_tokens = (\<lambda>_. None)\<rparr>) =
       Inr ((imapSettings p)\<lparr>mc_AuthType := EmailAuthTypeBasic, mc_Password := ''secret''\<rparr>)"
proof -
  have form: "prepareEmailProfile sample_env (ci_Profile sample_input) = Inr sample_form"
    using sample_form_accepted[of "''''"] by (simp add: sample_form_plain sample_input_def)
  obtain p w' where run: "Service_Create sample_env sample_input (sample_world empty_db) = (Inr p, w')"
    and auth: "ep_AuthType p = EmailAuthTypeBasic" and fault: "w_faults w' = (\<lambda>_. None)"
    unfolding Service_Create_def form
    by (simp add: bindM_def sealBasicPassword_def sealOAuthClientSecret_def Encrypt_def call_def returnM_def exec_def Profile_Create_def Let_def
        sample_form_def sample_row_def sample_env_def sample_input_def sample_world_def empty_db_def EmailAuthTypeBasic_def EmailAuthTypeOAuth2_def
        emailProfileWriteArgs_def profile_check_def sql_trim_def full_read)
  have "ci_Password sample_input = ''secret''" by (simp add: sample_input_def)
  with created_password_round_trip[OF sample_codec run auth, of w' "\<lambda>_. None"] run fault show ?thesis by auto
qed

text \<open>Programs that fail on a database and leave it as it is.\<close>

definition fails_on :: "db \<Rightarrow> 'a io \<Rightarrow> bool" where
  "fails_on d m \<longleftrightarrow> (\<forall>w. w_db w = d \<longrightarrow> (\<exists>e w'. m w = (Inl e, w') \<and> w_db w' = d))"

lemma fails_throw: "fails_on d (throwM e)"
  by (simp add: fails_on_def throwM_def)

lemma fails_bind:
  assumes "silent m" and "\<And>w x w'. w_db w = d \<Longrightarrow> m w = (Inr x, w') \<Longrightarrow> fails_on d (f x)"
  shows "fails_on d (bindM m f)"
  unfolding fails_on_def
proof (intro allI impI)
  fix w :: world assume w: "w_db w = d"
  obtain r w1 where m: "m w = (r, w1)" by fastforce
  with assms(1) w have "w_db w1 = d" unfolding silent_def by (metis snd_conv)
  with m assms(2)[OF w, of _ w1] show "\<exists>e w'. bindM m f w = (Inl e, w') \<and> w_db w' = d"
    by (cases r) (auto simp: bindM_def fails_on_def)
qed

lemma silent_throw: "silent (throwM e)" and silent_call: "silent (call f)"
  by (simp_all add: silent_def throwM_def call_def)

lemma silent_Decrypt: "silent (Decrypt env stored)"
  unfolding Decrypt_def Let_def by (auto intro!: silent_bind silent_return silent_throw silent_call split: prod.split)

lemma silent_profile_reads:
  "silent (exec (Profile_Locate users domainID i))" "silent (exec (GetOAuthCredentials domainID i))" "silent (exec (GetPassword domainID i))"
  by (auto simp: Profile_Locate_def GetOAuthCredentials_def GetPassword_def intro!: silent_exec split: option.splits)

lemma silent_oauthConfig: "silent (oauthConfig env domainID profile)"
  unfolding oauthConfig_def openOAuthClientSecret_def
  by (auto intro!: silent_bind silent_Decrypt silent_profile_reads silent_return silent_throw split: sum.split)

lemma silent_openOAuthRefreshToken: "silent (openOAuthRefreshToken env domainID i)"
  unfolding openOAuthRefreshToken_def by (intro silent_bind silent_profile_reads silent_Decrypt)

lemma openOAuthRefreshToken_none:
  assumes "find (profileAt domainID i) (db_profiles (w_db w)) = Some r" and "pw_oauth_refresh_token r = None"
    and "openOAuthRefreshToken env domainID i w = (Inr v, w')"
  shows "v = ''''"
proof -
  from assms(3) obtain c w1 where c: "exec (GetOAuthCredentials domainID i) w = (Inr c, w1)" "Decrypt env (oc_RefreshToken c) w1 = (Inr v, w')"
    by (auto simp: openOAuthRefreshToken_def io_success)
  from exec_Inr[OF c(1)] assms(1,2) have "oc_RefreshToken c = None" by (auto simp: GetOAuthCredentials_def)
  with c(2) show ?thesis by (simp add: Decrypt_nothing)
qed

lemma refreshToken_disconnected:
  assumes "find (profileAt domainID i) (db_profiles d) = Some r" and "pw_oauth_refresh_token r = None"
  shows "fails_on d (refreshToken env domainID i cached)"
  unfolding refreshToken_def
proof (intro fails_bind silent_profile_reads silent_oauthConfig silent_openOAuthRefreshToken)
  fix w v w' config
  assume "w_db w = d" "openOAuthRefreshToken env domainID i w = (Inr v, w')"
  with openOAuthRefreshToken_none[of domainID i w r env v w'] assms have "v = ''''" by simp
  then show "fails_on d (renewToken env domainID i cached config v)" by (simp add: renewToken_def fails_throw)
qed

lemma find_updated:
  assumes "find P rs = Some r" and "\<And>x. P x \<Longrightarrow> P (f x)"
  shows "find P (update_where P f rs) = Some (f r)"
  using assms by (induction rs) (auto split: if_splits)

lemma writeReturning_row:
  assumes "writeReturning users domainID i f now d = Inr (p, d')" and "\<And>x. profileAt domainID i x \<Longrightarrow> profileAt domainID i (f x)"
  shows "\<exists>r. find (profileAt domainID i) (db_profiles d) = Some r \<and> find (profileAt domainID i) (db_profiles d') = Some (f r)"
  using assms find_updated[of "profileAt domainID i" "db_profiles d" _ f] by (auto simp: writeReturning_def split: option.splits if_splits)

lemma writeRow_row:
  assumes "writeRow domainID i f now d = Inr (u, d')" and "\<And>x. profileAt domainID i x \<Longrightarrow> profileAt domainID i (f x)"
  shows "\<exists>r. find (profileAt domainID i) (db_profiles d) = Some r \<and> find (profileAt domainID i) (db_profiles d') = Some (f r)"
  using assms find_updated[of "profileAt domainID i" "db_profiles d" _ f] by (auto simp: writeRow_def split: option.splits if_splits)

text \<open>
  C32: After an authorization is disconnected no access token is handed out: as long as the
  stored profile is not changed again, asking for one fails and changes nothing, whatever
  token was cached before and whatever the provider would answer.
\<close>

theorem disconnected_profile_gets_no_token:
  assumes "DisconnectOAuth env domainID i s = (Inr p, s')" and "db_profiles (w_db (sv_world t)) = db_profiles (w_db (sv_world s'))"
  shows "\<exists>e t'. accessToken env domainID i t = (Inl e, t') \<and> w_db (sv_world t') = w_db (sv_world t)"
proof -
  from assms(1) obtain w where "exec (SetOAuthRefreshTokenAndState (en_users env) domainID i None EmailConnectionStateIdle) w = (Inr p, sv_world s')"
    unfolding DisconnectOAuth_def by (auto simp: io_success split: if_splits)
  from exec_Inr[OF this] obtain now d' where
    stored: "SetOAuthRefreshTokenAndState (en_users env) domainID i None EmailConnectionStateIdle now (w_db w) = Inr (p, d')"
    and db: "w_db (sv_world s') = d'" by auto
  from writeReturning_row[OF stored[unfolded SetOAuthRefreshTokenAndState_def]] obtain r where
    row: "find (profileAt domainID i) (db_profiles d') = Some r" "pw_oauth_refresh_token r = None" by (force simp: profileAt_def)
  have "fails_on (w_db (sv_world t)) (refreshToken env domainID i (sv_tokens t (domainID, i)))"
    by (rule refreshToken_disconnected[OF _ row(2)]) (use assms(2) db row(1) in simp)
  then obtain e w' where "refreshToken env domainID i (sv_tokens t (domainID, i)) (sv_world t) = (Inl e, w')" "w_db w' = w_db (sv_world t)"
    unfolding fails_on_def by blast
  then show ?thesis by (simp add: accessToken_def bindS_def getToken_def liftS_def)
qed

definition sample_google :: svc where
  "sample_google = \<lparr>sv_world = sample_world (empty_db\<lparr>db_profiles := [sample_row\<lparr>pw_oauth_client_secret := Some ''#k'',
     pw_oauth_refresh_token := Some ''#r''\<rparr>]\<rparr>), sv_tokens = (\<lambda>_. None)\<rparr>"

lemma sample_google_runs:
  "\<exists>a s'. accessToken sample_env 7 1 sample_google = (Inr a, s')" "\<exists>p s'. DisconnectOAuth sample_env 7 1 sample_google = (Inr p, s')"
  by (simp_all add: accessToken_def DisconnectOAuth_def bindS_def getToken_def liftS_def setToken_def returnS_def refreshToken_def bindM_def exec_def
      Profile_Locate_def profileAt_def sample_google_def sample_row_def sample_world_def empty_db_def full_read oauthConfig_def EmailAuthTypeOAuth2_def
      openOAuthClientSecret_def openOAuthRefreshToken_def GetOAuthCredentials_def Decrypt_def nullString_def sample_env_def call_def returnM_def
      Resolver_Config_def EmailOAuthProviderGoogle_def renewToken_def callToken_def Encrypt_def SetOAuthRefreshToken_def writeRow_def
      SetOAuthRefreshTokenAndState_def writeReturning_def profile_check_def sql_trim_def EmailConnectionStateIdle_def)

theorem disconnected_profile_gets_no_token_witness:
  "\<exists>p s' e t'. DisconnectOAuth sample_env 7 1 sample_google = (Inr p, s') \<and> accessToken sample_env 7 1 s' = (Inl e, t') \<and>
     (\<exists>a s'. accessToken sample_env 7 1 sample_google = (Inr a, s'))"
proof -
  obtain p s' where run: "DisconnectOAuth sample_env 7 1 sample_google = (Inr p, s')" using sample_google_runs(2) by blast
  from disconnected_profile_gets_no_token[OF run, of s'] run sample_google_runs(1) show ?thesis by blast
qed

lemma renewToken_Inr:
  assumes "renewToken env domainID i cached config stored w = (Inr t, w')"
  shows "stored \<noteq> '''' \<and> (tk_RefreshToken t = stored \<and> w_db w' = w_db w \<or> (\<exists>b u v.
     Encrypt env (tk_RefreshToken t) u = (Inr b, v) \<and> exec (SetOAuthRefreshToken domainID i (Some b)) v = (Inr (), w')))"
  using assms unfolding renewToken_def Let_def callToken_def by (auto simp: io_success split: if_splits)

text \<open>
  C33: A rotated refresh token is never lost: when an access token is handed out, the token kept
  in the cache carries it, and the refresh token stored for the profile opens to the refresh
  token of the cached one, rotated by the provider or not.
\<close>

theorem cached_token_matches_the_store:
  assumes "codec_contract env" and "accessToken env domainID i s = (Inr a, s')"
  shows "\<exists>t r. sv_tokens s' (domainID, i) = Some t \<and> tk_AccessToken t = a \<and>
    find (profileAt domainID i) (db_profiles (w_db (sv_world s'))) = Some r \<and> opens env (pw_oauth_refresh_token r) (tk_RefreshToken t)"
proof -
  from assms(2) obtain t w where t: "refreshToken env domainID i (sv_tokens s (domainID, i)) (sv_world s) = (Inr t, w)"
    "tk_AccessToken t = a" "sv_tokens s' (domainID, i) = Some t" "sv_world s' = w"
    by (auto simp: accessToken_def io_success)
  from t(1) obtain config stored w1 w2 where opened: "openOAuthRefreshToken env domainID i w1 = (Inr stored, w2)"
    and renewed: "renewToken env domainID i (sv_tokens s (domainID, i)) config stored w2 = (Inr t, w)"
    unfolding refreshToken_def bindM_Inr by blast
  from renewToken_Inr[OF renewed] have given: "stored \<noteq> ''''" and rest: "tk_RefreshToken t = stored \<and> w_db w = w_db w2 \<or>
      (\<exists>b u v. Encrypt env (tk_RefreshToken t) u = (Inr b, v) \<and> exec (SetOAuthRefreshToken domainID i (Some b)) v = (Inr (), w))" by blast+
  from rest have "\<exists>r. find (profileAt domainID i) (db_profiles (w_db w)) = Some r \<and> opens env (pw_oauth_refresh_token r) (tk_RefreshToken t)"
  proof (elim disjE exE conjE)
    assume same: "tk_RefreshToken t = stored" "w_db w = w_db w2"
    from opened obtain c w4 where c: "exec (GetOAuthCredentials domainID i) w1 = (Inr c, w4)" "Decrypt env (oc_RefreshToken c) w4 = (Inr stored, w2)"
      by (auto simp: openOAuthRefreshToken_def io_success)
    from exec_Inr[OF c(1)] obtain r where r: "find (profileAt domainID i) (db_profiles (w_db w4)) = Some r" "oc_RefreshToken c = pw_oauth_refresh_token r"
      by (auto simp: GetOAuthCredentials_def split: option.splits)
    from Decrypt_opens[OF c(2) given] r same show ?thesis by auto
  next
    fix b u v
    assume b: "Encrypt env (tk_RefreshToken t) u = (Inr b, v)" "exec (SetOAuthRefreshToken domainID i (Some b)) v = (Inr (), w)"
    from exec_Inr[OF b(2)] obtain now where "SetOAuthRefreshToken domainID i (Some b) now (w_db v) = Inr ((), w_db w)" by auto
    from writeRow_row[OF this[unfolded SetOAuthRefreshToken_def]]
    obtain r where "find (profileAt domainID i) (db_profiles (w_db w)) = Some r" "pw_oauth_refresh_token r = Some b"
      by (force simp: profileAt_def)
    with Encrypt_opens(1)[OF b(1) assms(1)] show ?thesis by auto
  qed
  with t show ?thesis by auto
qed

theorem cached_token_matches_the_store_witness:
  "\<exists>a s' t r. accessToken sample_env 7 1 sample_google = (Inr a, s') \<and> sv_tokens s' (7, 1) = Some t \<and>
     find (profileAt 7 1) (db_profiles (w_db (sv_world s'))) = Some r \<and> opens sample_env (pw_oauth_refresh_token r) (tk_RefreshToken t)"
proof -
  obtain a s' where run: "accessToken sample_env 7 1 sample_google = (Inr a, s')" using sample_google_runs(1) by blast
  from cached_token_matches_the_store[OF sample_codec run] run show ?thesis by blast
qed

text \<open>
  C31: An authorization state opens only for whom it was made. A state made for a domain, a user
  and a profile of a supported provider is accepted exactly for the same three, when they are
  real ids, and within ten minutes of its making; opened in time it yields what it was made of.
\<close>

theorem authorization_state_round_trip:
  assumes "codec_contract env" and "newOAuthState env domainID userID profile w = (Inr st, w')"
    and "validOAuthProvider (ep_OAuthProvider profile)"
    and "en_Unmarshal env (Marshal_state \<lparr>os_DomainID = domainID, os_UserID = userID, os_ProfileID = ep_ID profile,
        os_Provider = ep_OAuthProvider profile, os_ExpiresAt = Unix (created + oauthStateTTL)\<rparr>) =
      Inr \<lparr>os_DomainID = domainID, os_UserID = userID, os_ProfileID = ep_ID profile,
        os_Provider = ep_OAuthProvider profile, os_ExpiresAt = Unix (created + oauthStateTTL)\<rparr>"
    and "created = w_clock w (w_step w)" and "now = w_clock v (Suc (w_step v))"
  shows "fst (matchingState env domainID' userID' i st v) =
    (if domainID' = domainID \<and> userID' = userID \<and> i = ep_ID profile \<and> 0 < domainID \<and> 0 < userID \<and> 0 < i \<and>
        Unix now < Unix (created + oauthStateTTL)
     then Inr \<lparr>os_DomainID = domainID, os_UserID = userID, os_ProfileID = i, os_Provider = ep_OAuthProvider profile,
       os_ExpiresAt = Unix (created + oauthStateTTL)\<rparr>
     else Inl invalidOAuthState)"
proof -
  let ?state = "\<lparr>os_DomainID = domainID, os_UserID = userID, os_ProfileID = ep_ID profile, os_Provider = ep_OAuthProvider profile,
      os_ExpiresAt = Unix (created + oauthStateTTL)\<rparr>"
  from assms(2,5) obtain b where sealed: "Encrypt env (Marshal_state ?state) (tick w) = (Inr b, w')" "st = RawURLEncode b"
    unfolding newOAuthState_def by (auto simp: io_success)
  have "en_Unmarshal env (Marshal_state ?state) = Inr ?state" using assms(3,4) by simp
  moreover have "Decrypt env (Some b) v = (Inr (Marshal_state ?state), tick v)" using Encrypt_opens(2)[OF sealed(1) assms(1)] .
  ultimately have "openOAuthState env st v = (if validAt ?state now then Inr ?state else Inl invalidOAuthState, tick (tick v))"
    using assms(6) by (simp add: openOAuthState_def sealed(2) base64_round_trip bindM_def timeNow_def throwM_def returnM_def)
  then show ?thesis using assms(3)
    by (auto simp: matchingState_def catchM_def throwM_def returnM_def validAt_def expiredAt_def)
qed

theorem authorization_state_round_trip_witness:
  "\<exists>st w'. newOAuthState sample_env 7 3 (pw_profile sample_row) (sample_world empty_db) = (Inr st, w') \<and>
     isl (fst (matchingState sample_env 7 3 1 st w')) = False \<and>
     fst (matchingState sample_env 7 4 1 st w') = Inl invalidOAuthState"
proof -
  obtain st w' where run: "newOAuthState sample_env 7 3 (pw_profile sample_row) (sample_world empty_db) = (Inr st, w')"
    and clock: "w_clock w' = (\<lambda>n. 1000 + int n)" "w_step w' = 2"
    by (simp add: newOAuthState_def bindM_def timeNow_def Encrypt_def call_def returnM_def sample_env_def sample_world_def)
  have made: "(1000::int) = w_clock (sample_world empty_db) (w_step (sample_world empty_db))" by (simp add: sample_world_def)
  have reads: "en_Unmarshal sample_env (Marshal_state \<lparr>os_DomainID = 7, os_UserID = 3, os_ProfileID = ep_ID (pw_profile sample_row),
      os_Provider = ep_OAuthProvider (pw_profile sample_row), os_ExpiresAt = Unix (1000 + oauthStateTTL)\<rparr>) =
    Inr \<lparr>os_DomainID = 7, os_UserID = 3, os_ProfileID = ep_ID (pw_profile sample_row),
      os_Provider = ep_OAuthProvider (pw_profile sample_row), os_ExpiresAt = Unix (1000 + oauthStateTTL)\<rparr>"
    by (simp add: sample_env_def sample_row_def)
  have google: "validOAuthProvider (ep_OAuthProvider (pw_profile sample_row))"
    by (simp add: sample_row_def validOAuthProvider_def EmailOAuthProviderGoogle_def)
  have "w_clock w' (Suc (w_step w')) = 1003" by (simp add: clock)
  then show ?thesis
    using run authorization_state_round_trip[OF sample_codec run google reads made HOL.refl, where v = w' and domainID' = 7 and userID' = 3 and i = 1]
      authorization_state_round_trip[OF sample_codec run google reads made HOL.refl, where v = w' and domainID' = 7 and userID' = 4 and i = 1]
    by (simp add: sample_row_def Unix_def oauthStateTTL_def)
qed

end
