(* ===== verification/Poll_Worker.thy ===== *)
theory Poll_Worker
  imports Profile_Service
begin

text \<open>
  One poll of a profile, \<^verbatim>\<open>internal/polling/worker.go\<close>: it is announced in the runtime table,
  the settings are read, a session is reused or opened, the mailbox is synced, and the result is
  written under the fence. The sessions of other profiles and the slots for connections are the
  scheduler's (\<open>Poll_Scheduler\<close>); here the session of the profile is given, the outcome of
  waiting for a slot is an observation, and the calls of \<^verbatim>\<open>dropSession\<close> are returned.
\<close>

section \<open>The session of a poll\<close>

text \<open>A cached session: the server behind it, its fetch mode and the profile version it was opened with.\<close>

record pollSession =
  ss_env :: imap_env
  ss_sequential :: bool
  ss_version :: time

record poll_env =
  pl_profile :: profile_env
  pl_sync :: sync_config
  pl_handler :: handler
  pl_Noop :: "nat \<Rightarrow> error option"
  pl_acquireConnSlot :: "nat \<Rightarrow> error option"
  pl_Connect :: "nat \<Rightarrow> MailConnection \<Rightarrow> error + imap_env"

definition openSession :: "poll_env \<Rightarrow> EmailProfile \<Rightarrow> pollSession sio" where
  "openSession pe profile =
     bindS (IMAPConnection (pl_profile pe) profile) (\<lambda>connection.
     bindS (liftS (call (\<lambda>n. case pl_acquireConnSlot pe n of Some e \<Rightarrow> Inl e | None \<Rightarrow> Inr ()))) (\<lambda>_.
     bindS (liftS (call (\<lambda>n. pl_Connect pe n connection))) (\<lambda>conn.
     returnS \<lparr>ss_env = conn, ss_sequential = False, ss_version = ep_UpdatedAt profile\<rparr>)))"

text \<open>The list holds the calls of \<^verbatim>\<open>dropSession\<close>, each with its \<open>graceful\<close> argument.\<close>

definition session :: "poll_env \<Rightarrow> pollSession option \<Rightarrow> EmailProfile \<Rightarrow> svc \<Rightarrow> (bool list \<times> (error + pollSession)) \<times> svc" where
  "session pe current profile s =
     (case current of
        None \<Rightarrow> (case openSession pe profile s of (r, s1) \<Rightarrow> (([], r), s1))
      | Some c \<Rightarrow>
          if ss_version c = ep_UpdatedAt profile
          then (case liftS (call (\<lambda>n. Inr (pl_Noop pe n = None))) s of
              (Inl e, s1) \<Rightarrow> (([], Inl e), s1)
            | (Inr healthy, s1) \<Rightarrow>
                if healthy then (([], Inr c), s1)
                else (case openSession pe profile s1 of (r, s2) \<Rightarrow> (([False], r), s2)))
          else (case openSession pe profile s of (r, s1) \<Rightarrow> (([True], r), s1)))"

section \<open>Recording the result\<close>

definition failedPoll :: "profile_env \<Rightarrow> error \<Rightarrow> ProviderCursor option \<Rightarrow> EmailProfilePollResult" where
  "failedPoll env e cursor =
     (let message = ''IMAP: '' @ en_errorText env e
      in \<lparr>pr_ProviderCursor = cursor, pr_NextCheckAt = None, pr_Error = message,
          pr_ConnectionState = (if RequiresReauthorization e then EmailConnectionStateReauthorizationRequired
                                else EmailConnectionStateError),
          pr_ConnectionError = message, pr_Connected = False\<rparr>)"

definition nextCheckAt :: "syncResult \<Rightarrow> time option io" where
  "nextCheckAt synced = (if \<not> sr_more synced \<or> sr_handlerErr synced \<noteq> None then returnM None
     else bindM timeNow (\<lambda>now. returnM (Some now)))"

definition handleStoreError :: "error \<Rightarrow> bool list" where
  "handleStoreError e = (if e = ErrStaleEmailProfileAssignment then [True] else [])"

definition complete :: "EmailProfileAssignment \<Rightarrow> EmailProfilePollResult \<Rightarrow> world \<Rightarrow> bool list \<times> world" where
  "complete a result w =
     (case ctxErr w of
        (Inl e, w1) \<Rightarrow> ([], w1)
      | (Inr cancelled, w1) \<Rightarrow>
          if cancelled then ([], w1)
          else (case exec (CompletePoll a result) w1 of
              (Inl e, w2) \<Rightarrow> (handleStoreError e, w2) | (Inr u, w2) \<Rightarrow> ([], w2)))"

definition completeS :: "bool list \<Rightarrow> EmailProfileAssignment \<Rightarrow> EmailProfilePollResult \<Rightarrow> svc \<Rightarrow> (bool list \<times> svc) option" where
  "completeS drops a result s = (case complete a result (sv_world s) of (ds, w) \<Rightarrow> Some (drops @ ds, s\<lparr>sv_world := w\<rparr>))"

section \<open>A poll\<close>

definition pollResult :: "profile_env \<Rightarrow> syncResult \<Rightarrow> time option \<Rightarrow> EmailProfilePollResult" where
  "pollResult env synced at =
     \<lparr>pr_ProviderCursor = sr_cursor synced, pr_NextCheckAt = at,
      pr_Error = (case sr_handlerErr synced of None \<Rightarrow> '''' | Some e \<Rightarrow> ''handler: '' @ en_errorText env e),
      pr_ConnectionState = EmailConnectionStateReady, pr_ConnectionError = '''', pr_Connected = True\<rparr>"

text \<open>
  The part of \<^verbatim>\<open>poll\<close> that has a session. The result is \<open>None\<close> only when the sync
  does not end.
\<close>

definition syncPoll :: "poll_env \<Rightarrow> EmailProfileAssignment \<Rightarrow> EmailProfile \<Rightarrow> pollSession \<Rightarrow> ProviderCursor option \<Rightarrow>
    bool list \<Rightarrow> svc \<Rightarrow> (bool list \<times> svc) option" where
  "syncPoll pe a profile c stored drops s =
     (case sync (pl_sync pe) (ss_env c) (pl_handler pe) profile a (ss_sequential c) stored (sv_world s) of
        None \<Rightarrow> None
      | Some (synced, seq, w) \<Rightarrow>
          (case sr_imapErr synced of
             Some e \<Rightarrow> completeS (drops @ [False]) a (failedPoll (pl_profile pe) e (sr_cursor synced)) (s\<lparr>sv_world := w\<rparr>)
           | None \<Rightarrow>
               (case nextCheckAt synced w of
                  (Inl e, w1) \<Rightarrow> None
                | (Inr at, w1) \<Rightarrow> completeS drops a (pollResult (pl_profile pe) synced at) (s\<lparr>sv_world := w1\<rparr>))))"

definition zero_assignment :: EmailProfileAssignment where
  "zero_assignment = \<lparr>as_ProfileID = 0, as_DomainID = 0, as_OwnerInstanceID = '''', as_Generation = 0\<rparr>"

definition poll :: "poll_env \<Rightarrow> pollSession option \<Rightarrow> EmailProfileRuntime \<Rightarrow> svc \<Rightarrow> (bool list \<times> svc) option" where
  "poll pe current runtime s =
     (let a = (case Assignment (Some runtime) of Some a \<Rightarrow> a | None \<Rightarrow> zero_assignment)
      in case liftS (exec (StartPoll a)) s of
           (Inl e, s1) \<Rightarrow> Some (handleStoreError e, s1)
         | (Inr u, s1) \<Rightarrow>
             (case liftS (exec (Profile_Locate (en_users (pl_profile pe)) (as_DomainID a) (as_ProfileID a))) s1 of
                (Inl e, s2) \<Rightarrow>
                  (case e of NotFound _ \<Rightarrow> Some ([False], s2)
                   | _ \<Rightarrow> completeS [] a \<lparr>pr_ProviderCursor = None, pr_NextCheckAt = None, pr_Error = en_errorText (pl_profile pe) e,
                            pr_ConnectionState = '''', pr_ConnectionError = '''', pr_Connected = False\<rparr> s2)
              | (Inr profile, s2) \<Rightarrow>
                  if \<not> ep_Enabled profile then Some ([True], s2)
                  else (case session pe current profile s2 of
                      ((drops, Inl e), s3) \<Rightarrow> completeS (drops @ [False]) a (failedPoll (pl_profile pe) e None) s3
                    | ((drops, Inr c), s3) \<Rightarrow> syncPoll pe a profile c (rt_ProviderCursor runtime) drops s3)))"

text \<open>A poll ends: its only loops are those of the sync.\<close>

lemma syncPoll_ends:
  assumes "0 < sc_FetchBatchSize (pl_sync pe)"
  shows "syncPoll pe a profile c stored drops s \<noteq> None"
proof -
  obtain synced seq w where
    "sync (pl_sync pe) (ss_env c) (pl_handler pe) profile a (ss_sequential c) stored (sv_world s) = Some (synced, seq, w)"
    using sync_ends[OF assms, of "ss_env c" "pl_handler pe" profile a "ss_sequential c" stored "sv_world s"] by auto
  then show ?thesis
    by (auto simp: syncPoll_def completeS_def nextCheckAt_def timeNow_def returnM_def bindM_def
        split: option.splits prod.splits if_splits)
qed

lemma completeS_ends: "completeS drops a result s \<noteq> None"
  by (simp add: completeS_def split: prod.splits)

lemma poll_ends:
  assumes "0 < sc_FetchBatchSize (pl_sync pe)"
  shows "\<exists>drops s'. poll pe current runtime s = Some (drops, s')"
proof -
  have "poll pe current runtime s \<noteq> None"
    using syncPoll_ends[OF assms] completeS_ends
    by (auto simp: poll_def Let_def simp del: not_None_eq split: sum.splits prod.splits error.splits)
  then show ?thesis by auto
qed

section \<open>What a sync keeps\<close>

text \<open>Whatever the handler keeps of the database, a sync with this handler keeps.\<close>

lemma batchStep_keeps:
  assumes "\<And>r s. K s \<Longrightarrow> K (handle r s)" and "K (snd st)"
  shows "K (snd (batchStep maxSize uids handle m st))"
  using assms by (auto simp: batchStep_def Let_def split: prod.splits sum.splits)

lemma fetchRawBatch_keeps:
  assumes "\<And>r s. K s \<Longrightarrow> K (handle r s)" and "K s"
  shows "K (snd (fetchRawBatch maxSize uids handle response s))"
proof -
  have "K (snd (fold (batchStep maxSize uids handle) ms st))" if "K (snd st)" for ms st
    using that by (induction ms arbitrary: st) (simp_all add: batchStep_keeps[of K, OF assms(1)])
  from this[of "(batch_start, s)" "fst response"] assms(2)
  have "K (snd (fold (batchStep maxSize uids handle) (fst response) (batch_start, s)))" by simp
  then show ?thesis by (auto simp: fetchRawBatch_def split: prod.splits option.splits)
qed

lemma fetchRawSequential_keeps:
  assumes "\<And>r sw. I (w_db (snd sw)) \<Longrightarrow> I (w_db (snd (handle r sw)))" and "I (w_db (snd sw))"
  shows "I (w_db (snd (snd (fetchRawSequential env maxSize uids handle sw))))"
  using assms(2)
proof (induction uids arbitrary: sw)
  case (Cons u us)
  obtain s w where sw: "sw = (s, w)" by fastforce
  from Cons.prems sw have "I (w_db (snd (s, tick w)))" by simp
  with assms(1) have "I (w_db (snd (handle r (s, tick w))))" for r by blast
  with Cons sw show ?case by (auto split: sum.splits option.splits)
qed simp

lemma FetchRaw_keeps:
  assumes "\<And>r sw. I (w_db (snd sw)) \<Longrightarrow> I (w_db (snd (handle r sw)))" and "I (w_db (snd sw))"
  shows "I (w_db (snd (snd (snd (FetchRaw env maxSize seq uids handle sw)))))"
proof -
  let ?us = "remdups_adj (sort uids)"
  obtain s w where sw: "sw = (s, w)" by fastforce
  obtain nx unordered err sw1 where b: "fetchRawBatch maxSize ?us handle (ic_UidFetch (env (w_step w)) ?us) (s, tick w) =
      ((nx, unordered, err), sw1)" by (metis surj_pair)
  have "I (w_db (snd (snd (fetchRawBatch maxSize ?us handle (ic_UidFetch (env (w_step w)) ?us) (s, tick w)))))"
    by (rule fetchRawBatch_keeps[of "\<lambda>sw. I (w_db (snd sw))"]) (use assms sw in auto)
  then have sw1: "I (w_db (snd sw1))" by (simp add: b)
  obtain e sw2 where q: "fetchRawSequential env maxSize (drop nx ?us) handle sw1 = (e, sw2)" by (rule prod.exhaust)
  obtain e' sw3 where q': "fetchRawSequential env maxSize ?us handle sw = (e', sw3)" by (rule prod.exhaust)
  have "I (w_db (snd sw2))" "I (w_db (snd sw3))"
    using fetchRawSequential_keeps[of I handle sw1 env maxSize "drop nx ?us"] fetchRawSequential_keeps[of I handle sw env maxSize ?us]
      assms sw1 q q' by simp_all
  with assms(2) sw1 b q q' sw show ?thesis by (simp add: FetchRaw_def Let_def split: option.split)
qed

lemma deliverOne_keeps:
  assumes "\<And>m. keeps I (handle m)" and "I (w_db (snd st))"
  shows "I (w_db (snd (deliverOne handle p a c m st)))"
proof -
  obtain e h w where st: "st = ((e, h), w)" by (metis surj_pair)
  obtain r w2 where run: "handle (message_of p a c m) (tick w) = (r, w2)" by fastforce
  from keepsD[OF assms(1), of "tick w" "message_of p a c m"] assms(2) st run have "I (w_db w2)" by simp
  with assms(2) st run show ?thesis by (simp add: deliverOne_def ctxErr_def split: sum.split)
qed

lemma deliver_keeps:
  assumes "\<And>m. keeps I (handle m)" and "I (w_db w)"
    and "deliver cfg env handle p a c seq uids handled w = Some (errs, handled', seq', w')"
  shows "I (w_db w')"
  using assms(2,3)
proof (induction "length uids" arbitrary: uids seq handled w rule: less_induct)
  case less
  let ?b = "take (nat (sc_FetchBatchSize cfg)) uids"
  obtain err seq1 sw1 where f': "FetchRaw env (sc_MaxMessageSize cfg) seq ?b (deliverOne handle p a c)
      ((None, handled), w) = (err, seq1, sw1)" by (rule prod_cases3)
  obtain he h1 w1 where sw1: "sw1 = ((he, h1), w1)" by (metis surj_pair)
  note f = f'[unfolded sw1]
  have "I (w_db (snd (snd (snd (FetchRaw env (sc_MaxMessageSize cfg) seq ?b (deliverOne handle p a c) ((None, handled), w))))))"
    by (rule FetchRaw_keeps[of I]) (use less.prems(1) deliverOne_keeps[of I handle, OF assms(1)] in simp_all)
  then have w1: "I (w_db w1)" by (simp add: f)
  show ?case
  proof (cases "uids = [] \<or> err \<noteq> None \<or> he \<noteq> None")
    case True
    with less.prems f w1 show ?thesis by (auto simp: deliver.simps[of _ _ _ _ _ _ _ uids] Let_def split: if_splits)
  next
    case False
    with less.prems(2) f have "deliver cfg env handle p a c seq1 (drop (nat (sc_FetchBatchSize cfg)) uids) h1 w1 =
        Some (errs, handled', seq', w')" and "sc_FetchBatchSize cfg > 0"
      by (auto simp: deliver.simps[of _ _ _ _ _ _ _ uids] Let_def split: if_splits)
    with less.hyps[of "drop (nat (sc_FetchBatchSize cfg)) uids"] w1 False show ?thesis by simp
  qed
qed

lemma ticks_db: "\<exists>n. w' = (tick ^^ n) w \<Longrightarrow> w_db w' = w_db w"
proof -
  have "w_db ((tick ^^ n) w) = w_db w" for n by (induction n) simp_all
  then show "\<exists>n. w' = (tick ^^ n) w \<Longrightarrow> w_db w' = w_db w" by auto
qed

lemmas search_db = searchUIDs_ticks[THEN ticks_db] FetchInternalDates_ticks[THEN ticks_db] lastUID_ticks[THEN ticks_db]

lemma recover_keeps:
  assumes "\<And>m. keeps I (handle m)" and "I (w_db w)" and "recover cfg env handle p a seq c r w = Some (res, seq', w')"
  shows "I (w_db w')"
proof -
  have "I (w_db v')" if "deliver cfg env handle p a c s us h v = Some (errs, h', s', v')" "w_db v = w_db w" for s us h v errs h' s' v'
    using deliver_keeps[of I handle, OF assms(1) _ that(1)] that(2) assms(2) by simp
  with assms(2,3) show ?thesis
    by (auto simp: recover_def Let_def split: if_splits prod.splits sum.splits option.splits dest!: search_db)
qed

lemma pollNew_keeps:
  assumes "\<And>m. keeps I (handle m)" and "I (w_db w)" and "pollNew cfg env handle p a seq mailbox c w = Some (res, seq', w')"
  shows "I (w_db w')"
proof -
  obtain x w1 where found: "searchUIDs env \<lparr>se_after = cur_LastUID c, se_to = lastSearchableUID mailbox,
      se_since = zero_time, se_limit = sc_MaxMessagesPerPoll cfg\<rparr> w = (x, w1)" by fastforce
  then have w1: "w_db w1 = w_db w" by (rule search_db)
  have "I (w_db v')" if "deliver cfg env handle p a c s us h w1 = Some (errs, h', s', v')" for s us h errs h' s' v'
    using deliver_keeps[of I handle, OF assms(1) _ that] w1 assms(2) by simp
  with assms(2,3) found w1 show ?thesis
    by (auto simp: pollNew_def Let_def split: if_splits sum.splits option.splits prod.splits)
qed

lemma exec_outcome:
  assumes "exec st w = (r, w')"
  obtains "w_db w' = w_db w" | now x where "st now (w_db w) = Inr (x, w_db w')"
  using exec_db[of st w] assms by auto

lemma sync_keeps:
  assumes "\<And>m. keeps I (handle m)" and "I (w_db w)" and "sync cfg env handle p a seq stored w = Some (res, seq', w')"
  shows "I (w_db w')"
proof -
  obtain x w1 where ex: "Examine env (ep_Mailbox p) w = (x, w1)" by fastforce
  then have w1: "w_db w1 = w_db w" using Examine_tick by fastforce
  have last: "w_db v' = w_db w" if "lastUID env mailbox w1 = (y, v')" for mailbox y v'
    using search_db(3)[OF that] w1 by simp
  have received: "w_db v' = w_db v" if "exec (LastReceivedAt dm i) v = (z, v')" for dm i z v v'
    using that by (rule exec_outcome) (simp_all add: LastReceivedAt_def Let_def)
  have rec: "I (w_db v')" if "recover cfg env handle p a seq c r v = Some (res, seq', v')" "w_db v = w_db w" for c r v v'
    using recover_keeps[of I handle, OF assms(1) _ that(1)] that(2) assms(2) by simp
  have new: "I (w_db v')" if "pollNew cfg env handle p a seq mailbox c w1 = Some (res, seq', v')" for mailbox c v'
    using pollNew_keeps[of I handle, OF assms(1) _ that] w1 assms(2) by simp
  show ?thesis
  proof (cases x)
    case (Inl e)
    with assms ex w1 show ?thesis by (simp add: sync_def)
  next
    case (Inr mailbox)
    obtain y w2 where l: "lastUID env mailbox w1 = (y, w2)" by fastforce
    note w2 = last[OF l]
    show ?thesis
    proof (cases "Option.bind stored pc_IMAP")
      case None
      then have "(case stored of None \<Rightarrow> None | Some pc \<Rightarrow> pc_IMAP pc) = None" by (cases stored) simp_all
      with assms(2,3) ex Inr l w2 show ?thesis by (simp add: sync_def split: sum.splits)
    next
      case (Some c)
      then have c: "(case stored of None \<Rightarrow> None | Some pc \<Rightarrow> pc_IMAP pc) = Some c" by (cases stored) simp_all
      obtain z w3 where t: "exec (LastReceivedAt (ep_DomainID p) (ep_ID p)) w2 = (z, w3)" by fastforce
      then have w3: "w_db w3 = w_db w" using received w2 by simp
      from assms(2,3) ex Inr l w1 w2 c t w3 rec new show ?thesis
        by (auto simp: sync_def Let_def split: if_splits sum.splits option.splits)
    qed
  qed
qed

text \<open>A sync with the real pipeline only adds to the inbox.\<close>

lemma sync_evolves:
  assumes "sync cfg env (QuarantineHandler_Handle sv) p a seq stored w = Some (res, seq', w')"
  shows "inbox_evolves (w_db w) (w_db w')"
proof -
  have "keeps (inbox_evolves (w_db w)) (QuarantineHandler_Handle sv m)" for m
  proof (rule keepsI)
    fix v :: world assume "inbox_evolves (w_db w) (w_db v)"
    moreover have "inbox_evolves (w_db v) (w_db (snd (QuarantineHandler_Handle sv m v)))"
      using evolves_QuarantineHandler unfolding evolves_io_def by blast
    ultimately show "inbox_evolves (w_db w) (w_db (snd (QuarantineHandler_Handle sv m v)))" by (rule inbox_evolves_trans)
  qed
  from sync_keeps[of "inbox_evolves (w_db w)", OF this _ assms] show ?thesis by simp
qed

section \<open>What opening a session keeps\<close>

text \<open>Reading the settings and renewing the token writes the profiles table only.\<close>

definition keepsS :: "(db \<Rightarrow> bool) \<Rightarrow> 'a sio \<Rightarrow> bool" where
  "keepsS I m \<longleftrightarrow> (\<forall>s. I (w_db (sv_world s)) \<longrightarrow> I (w_db (sv_world (snd (m s)))))"

lemma keepsS_rules [keeps_intros]:
  "keepsS I (returnS x)" "keepsS I (throwS e)" "keepsS I (getToken d i)" "keepsS I (setToken d i t)"
  "keeps I m \<Longrightarrow> keepsS I (liftS m)"
  by (auto simp: keepsS_def returnS_def throwS_def getToken_def setToken_def liftS_def keeps_def split: prod.splits)

lemma keepsS_bind [keeps_intros]:
  assumes "keepsS I m" and "\<And>x. keepsS I (f x)"
  shows "keepsS I (bindS m f)"
  unfolding keepsS_def
proof (intro allI impI)
  fix s :: svc assume "I (w_db (sv_world s))"
  with assms(1) have "I (w_db (sv_world (snd (m s))))" by (simp add: keepsS_def)
  with assms(2) show "I (w_db (sv_world (snd (bindS m f s))))"
    by (auto simp: bindS_def keepsS_def split: prod.splits sum.splits)
qed

lemma keepsS_if [keeps_intros]: "keepsS I a \<Longrightarrow> keepsS I b \<Longrightarrow> keepsS I (if c then a else b)"
  by simp

lemma keeps_call [keeps_intros]: "keeps I (call f)"
  by (simp add: keeps_def call_def)

definition elsewhere :: "db \<Rightarrow> db \<Rightarrow> bool" where
  "elsewhere d d' \<longleftrightarrow> (\<exists>ps. d' = d\<lparr>db_profiles := ps\<rparr>)"

lemma elsewhere_simps:
  "elsewhere d d' \<Longrightarrow> db_runtime d' = db_runtime d" "elsewhere d d' \<Longrightarrow> inbox_wf d' = inbox_wf d"
  by (auto simp: elsewhere_def inbox_wf_def)

lemma elsewhere_exec [keeps_intros]:
  "keeps (elsewhere d) (exec (Profile_Locate users dm i))" "keeps (elsewhere d) (exec (GetPassword dm i))"
  "keeps (elsewhere d) (exec (GetOAuthCredentials dm i))" "keeps (elsewhere d) (exec (SetOAuthRefreshToken dm i t))"
  by (rule keeps_exec; auto simp: elsewhere_def Profile_Locate_def GetPassword_def GetOAuthCredentials_def SetOAuthRefreshToken_def
      writeRow_def split: option.splits if_splits)+

lemma openSession_elsewhere: "keepsS (elsewhere d) (openSession pe p)"
  unfolding openSession_def IMAPConnection_def accessToken_def refreshToken_def renewToken_def callToken_def oauthConfig_def
    openBasicPassword_def openOAuthRefreshToken_def openOAuthClientSecret_def Decrypt_def Encrypt_def Let_def case_prod_beta
  by (intro keeps_intros)

section \<open>The stored cursor\<close>

definition stored_cursors :: "db \<Rightarrow> int \<Rightarrow> ProviderCursor option set" where
  "stored_cursors d pid = rr_provider_cursor ` {r \<in> set (db_runtime d). rr_profile_id r = pid}"

text \<open>Every connection the poll may use, the cached one included, reads the same mailbox.\<close>

definition serves :: "poll_env \<Rightarrow> (uid \<rightharpoonup> IMAPMessage) \<Rightarrow> imap_env \<Rightarrow> bool" where
  "serves pe msgs env \<longleftrightarrow> (\<exists>zn. search_contract zn env msgs) \<and> fetch_contract env (sc_MaxMessageSize (pl_sync pe)) msgs"

definition connections_serve :: "poll_env \<Rightarrow> pollSession option \<Rightarrow> (uid \<rightharpoonup> IMAPMessage) \<Rightarrow> bool" where
  "connections_serve pe current msgs \<longleftrightarrow> (\<forall>c. current = Some c \<longrightarrow> serves pe msgs (ss_env c)) \<and>
     (\<forall>n mc env. pl_Connect pe n mc = Inr env \<longrightarrow> serves pe msgs env)"

lemma session_elsewhere:
  assumes "session pe current p s = ((drops, r), s')"
  shows "elsewhere (w_db (sv_world s)) (w_db (sv_world s'))"
proof -
  have opened: "elsewhere (w_db (sv_world s)) (w_db (sv_world t'))"
    if "openSession pe p t = (x, t')" "w_db (sv_world t) = w_db (sv_world s)" for t x t'
  proof -
    have "elsewhere (w_db (sv_world s)) (w_db (sv_world t))" using that(2) by (auto simp: elsewhere_def intro: exI[of _ "db_profiles (w_db (sv_world s))"])
    with openSession_elsewhere[of "w_db (sv_world s)" pe p] that(1) show ?thesis unfolding keepsS_def by fastforce
  qed
  have "elsewhere (w_db (sv_world s)) (w_db (sv_world s))" by (auto simp: elsewhere_def intro: exI[of _ "db_profiles (w_db (sv_world s))"])
  with assms opened show ?thesis
    by (auto simp: session_def liftS_def call_def split: option.splits if_splits prod.splits)
qed

lemma session_serves:
  assumes "connections_serve pe current msgs" and "session pe current p s = ((drops, Inr c), s')"
  shows "serves pe msgs (ss_env c)"
  using assms by (auto simp: session_def connections_serve_def openSession_def io_success liftS_def call_def returnS_def
      split: option.splits if_splits prod.splits)

lemma stored_cursors_update:
  assumes "db_runtime d' = update_where P f (db_runtime d)" and "\<And>r. rr_profile_id (f r) = rr_profile_id r"
    and "\<And>r. rr_provider_cursor (f r) = rr_provider_cursor r \<or> rr_provider_cursor (f r) = x"
  shows "stored_cursors d' pid \<subseteq> insert x (stored_cursors d pid)"
proof
  fix c assume "c \<in> stored_cursors d' pid"
  then obtain r where "r \<in> set (db_runtime d)" "rr_profile_id r = pid" "c = rr_provider_cursor (if P r then f r else r)"
    using assms(1,2) by (auto simp: stored_cursors_def update_where_def split: if_splits)
  with assms(3)[of r] show "c \<in> insert x (stored_cursors d pid)" by (auto simp: stored_cursors_def split: if_splits)
qed

lemma CompletePoll_writes:
  assumes "CompletePoll a res now d = Inr (u, d')"
  shows "stored_cursors d' pid \<subseteq> insert (pr_ProviderCursor res) (stored_cursors d pid) \<and>
    db_messages d' = db_messages d \<and> db_failures d' = db_failures d"
proof -
  let ?f = "\<lambda>r. complete_row now res (case joined_profile d r of Some p \<Rightarrow> ep_FetchIntervalSeconds (pw_profile p) | None \<Rightarrow> 0) r"
  from assms have rt: "db_runtime d' = update_where (\<lambda>r. token_matches a r \<and> joined_profile d r \<noteq> None) ?f (db_runtime d)"
    and same: "db_messages d' = db_messages d" "db_failures d' = db_failures d"
    by (auto simp: CompletePoll_def Let_def split: option.splits)
  have "stored_cursors d' pid \<subseteq> insert (pr_ProviderCursor res) (stored_cursors d pid)"
    by (rule stored_cursors_update[OF rt]) (simp_all add: complete_row_def encodeProviderCursor_def split: option.split)
  with same show ?thesis by blast
qed

lemma completeS_writes:
  assumes "completeS drops a res s = Some (ds, s')"
  shows "stored_cursors (w_db (sv_world s')) pid \<subseteq> insert (pr_ProviderCursor res) (stored_cursors (w_db (sv_world s)) pid)"
    and "db_messages (w_db (sv_world s')) = db_messages (w_db (sv_world s))"
    and "db_failures (w_db (sv_world s')) = db_failures (w_db (sv_world s))"
proof -
  let ?d = "w_db (sv_world s)" let ?d' = "w_db (sv_world s')"
  consider "?d' = ?d" | now where "CompletePoll a res now ?d = Inr ((), ?d')"
    using assms by (auto simp: completeS_def complete_def ctxErr_def split: if_splits prod.splits sum.splits elim!: exec_outcome)
  then have "stored_cursors ?d' pid \<subseteq> insert (pr_ProviderCursor res) (stored_cursors ?d pid) \<and>
    db_messages ?d' = db_messages ?d \<and> db_failures ?d' = db_failures ?d"
    using CompletePoll_writes by cases auto
  then show "stored_cursors ?d' pid \<subseteq> insert (pr_ProviderCursor res) (stored_cursors ?d pid)"
    "db_messages ?d' = db_messages ?d" "db_failures ?d' = db_failures ?d" by auto
qed

lemma StartPoll_writes:
  assumes "liftS (exec (StartPoll a)) s = (r, s')" and "stored_cursors (w_db (sv_world s)) pid \<subseteq> {x}"
  shows "stored_cursors (w_db (sv_world s')) pid \<subseteq> {x} \<and> inbox_wf (w_db (sv_world s')) = inbox_wf (w_db (sv_world s))"
proof -
  let ?d = "w_db (sv_world s)" let ?d' = "w_db (sv_world s')"
  consider "?d' = ?d" | now u where "StartPoll a now ?d = Inr (u, ?d')"
    using assms(1) by (auto simp: liftS_def split: prod.splits elim!: exec_outcome)
  then show ?thesis
  proof cases
    case 2
    then have d': "?d' = ?d\<lparr>db_runtime := update_where (token_matches a)
        (\<lambda>r. r\<lparr>rr_last_poll_started_at := Some now, rr_updated_at := now\<rparr>) (db_runtime ?d)\<rparr>" by (simp add: StartPoll_Inr)
    have "stored_cursors ?d' pid \<subseteq> insert x (stored_cursors ?d pid)"
      by (rule stored_cursors_update[OF arg_cong[OF d', of db_runtime, simplified]]) simp_all
    with assms(2) d' show ?thesis by (auto simp: inbox_wf_def)
  qed (use assms(2) in simp)
qed

lemma Locate_same:
  assumes "liftS (exec (Profile_Locate users dm i)) s = (Inr p, s')"
  shows "w_db (sv_world s') = w_db (sv_world s)" "ep_ID p = i" "ep_DomainID p = dm"
  using assms by (auto simp: liftS_def Profile_Locate_def full_read profileAt_def find_Some_iff split: prod.splits option.splits dest!: exec_Inr)

lemma syncPoll_completes:
  assumes "syncPoll pe a p c stored drops s = Some (ds, s')"
  obtains res seq w v drops1 result where
    "sync (pl_sync pe) (ss_env c) (pl_handler pe) p a (ss_sequential c) stored (sv_world s) = Some (res, seq, w)"
    "completeS drops1 a result (s\<lparr>sv_world := v\<rparr>) = Some (ds, s')" "w_db v = w_db w" "pr_ProviderCursor result = sr_cursor res"
proof -
  have next_db: "w_db w1 = w_db w" if "nextCheckAt res w = (x, w1)" for res w x w1
    using that by (auto simp: nextCheckAt_def returnM_def bindM_def timeNow_def split: if_splits)
  from assms obtain res seq w where run:
    "sync (pl_sync pe) (ss_env c) (pl_handler pe) p a (ss_sequential c) stored (sv_world s) = Some (res, seq, w)"
    by (auto simp: syncPoll_def split: option.splits)
  show thesis
  proof (cases "sr_imapErr res")
    case None
    with assms run obtain at w1 where "nextCheckAt res w = (Inr at, w1)"
      "completeS drops a (pollResult (pl_profile pe) res at) (s\<lparr>sv_world := w1\<rparr>) = Some (ds, s')"
      by (auto simp: syncPoll_def split: prod.splits sum.splits)
    with that[OF run] next_db show thesis by (simp add: pollResult_def)
  next
    case (Some e)
    with assms run have "completeS (drops @ [False]) a (failedPoll (pl_profile pe) e (sr_cursor res)) (s\<lparr>sv_world := w\<rparr>) = Some (ds, s')"
      by (simp add: syncPoll_def)
    from that[OF run this] show thesis by (simp add: failedPoll_def Let_def)
  qed
qed

lemma poll_stops:
  assumes "poll pe current runtime s = Some (drops, s')" and "Assignment (Some runtime) = Some a"
    and "liftS (exec (StartPoll a)) s = (r, s1)"
    and "liftS (exec (Profile_Locate (en_users (pl_profile pe)) (as_DomainID a) (as_ProfileID a))) s1 = (l, s2)"
    and "\<not> (\<exists>u p. r = Inr u \<and> l = Inr p \<and> ep_Enabled p)"
  shows "s' = s1 \<or> s' = s2 \<or> (\<exists>res. completeS [] a res s2 = Some (drops, s') \<and> pr_ProviderCursor res = None)"
proof (cases r)
  case Inl
  with assms(1-3) show ?thesis by (simp add: poll_def)
next
  case (Inr u)
  show ?thesis
  proof (cases l)
    case (Inl e)
    let ?res = "\<lparr>pr_ProviderCursor = None, pr_NextCheckAt = None, pr_Error = en_errorText (pl_profile pe) e,
      pr_ConnectionState = [], pr_ConnectionError = [], pr_Connected = False\<rparr>"
    have "s' = s2 \<or> completeS [] a ?res s2 = Some (drops, s')"
      using assms(1-4) Inr Inl by (cases e) (simp_all add: poll_def)
    then show ?thesis by (auto intro!: exI[of _ ?res])
  next
    case (Inr p)
    with assms \<open>r = Inr u\<close> show ?thesis by (simp add: poll_def)
  qed
qed

text \<open>How a poll can end: the stored cursor is as it was, or a sync has run and its cursor may be stored.\<close>

lemma poll_outcome:
  assumes "poll pe current runtime s = Some (drops, s')" and "Assignment (Some runtime) = Some a"
    and "stored_cursors (w_db (sv_world s)) pid \<subseteq> {x}" and "inbox_wf (w_db (sv_world s))"
  obtains (untouched) "stored_cursors (w_db (sv_world s')) pid \<subseteq> {None, x}"
  | (synced) p drops1 c t t1 where "ep_ID p = as_ProfileID a" "ep_DomainID p = as_DomainID a"
      "session pe current p t = ((drops1, Inr c), t1)"
      "stored_cursors (w_db (sv_world t1)) pid \<subseteq> {x}" "inbox_wf (w_db (sv_world t1))"
      "syncPoll pe a p c (rt_ProviderCursor runtime) drops1 t1 = Some (drops, s')"
proof -
  obtain r s1 where start: "liftS (exec (StartPoll a)) s = (r, s1)" by fastforce
  note s1 = StartPoll_writes[OF start assms(3)]
  obtain l s2 where locate: "liftS (exec (Profile_Locate (en_users (pl_profile pe)) (as_DomainID a) (as_ProfileID a))) s1 = (l, s2)" by fastforce
  have s2: "w_db (sv_world s2) = w_db (sv_world s1)"
    using locate by (auto simp: liftS_def Profile_Locate_def split: prod.splits option.splits elim!: exec_outcome)
  have ended: "stored_cursors (w_db (sv_world s')) pid \<subseteq> {None, x}"
    if "completeS ds a res t = Some (drops, s')" "pr_ProviderCursor res = None" "stored_cursors (w_db (sv_world t)) pid \<subseteq> {x}" for ds res t
    using completeS_writes(1)[OF that(1), of pid] that(2,3) by auto
  show thesis
  proof (cases "\<exists>u p. r = Inr u \<and> l = Inr p \<and> ep_Enabled p")
    case False
    then have "stored_cursors (w_db (sv_world s')) pid \<subseteq> {None, x}"
      using s1 s2 poll_stops[OF assms(1,2) start locate] ended[of "[]"] by fastforce
    then show thesis by (rule untouched)
  next
    case True
    then obtain u p where p: "r = Inr u" "l = Inr p" "ep_Enabled p" by blast
    obtain ds y s3 where sess: "session pe current p s2 = ((ds, y), s3)" by (metis surj_pair)
    from elsewhere_simps[OF session_elsewhere[OF sess]] s1 s2 assms(4)
    have s3: "stored_cursors (w_db (sv_world s3)) pid \<subseteq> {x}" "inbox_wf (w_db (sv_world s3))" by (simp_all add: stored_cursors_def)
    show thesis
    proof (cases y)
      case (Inl e)
      with assms(1,2) start locate p sess
      have "completeS (ds @ [False]) a (failedPoll (pl_profile pe) e None) s3 = Some (drops, s')" by (simp add: poll_def)
      from ended[OF this _ s3(1)] show thesis by (intro untouched) (simp add: failedPoll_def Let_def)
    next
      case (Inr c)
      with assms(1,2) start locate p sess
      have "syncPoll pe a p c (rt_ProviderCursor runtime) ds s3 = Some (drops, s')" by (simp add: poll_def)
      with synced Locate_same(2,3)[OF locate[unfolded p(2)]] sess[unfolded Inr] s3 show thesis by blast
    qed
  qed
qed

lemma email_done_cong:
  "db_messages d' = db_messages d \<Longrightarrow> db_failures d' = db_failures d \<Longrightarrow> email_done sv m d' = email_done sv m d"
  unfolding email_done_def stored_as_def by (cases "sv_Parse sv m") simp_all

end
