(* ===== verification/Thread_Service.thy ===== *)
theory Thread_Service
  imports Inbound_Correct
begin

text \<open>
  The operator's decision about the contact of a thread, \<^verbatim>\<open>internal/service/email_thread.go\<close>.
  The contacts service is an argument; every answer of it is an observation of the world.
\<close>

section \<open>Operations\<close>

definition errThreadIDRequired :: error where
  "errThreadIDRequired = InvalidArgument ''email.thread.id_required''"

definition setContact :: "int \<Rightarrow> int \<Rightarrow> int option \<Rightarrow> unit io" where
  "setContact domainID threadID contactID =
     bindM (exec (SetContactManually domainID threadID contactID)) (\<lambda>applied.
     if \<not> applied then throwM (NotFound ''email.thread.not_found'') else returnM ())"

definition BindContact :: "(nat \<Rightarrow> int \<Rightarrow> int \<Rightarrow> error + bool) \<Rightarrow> int \<Rightarrow> int \<Rightarrow> int \<Rightarrow> unit io" where
  "BindContact verifyContact domainID threadID contactID =
     (if threadID \<le> 0 then throwM errThreadIDRequired
      else if contactID \<le> 0 then throwM (InvalidArgument ''email.thread.contact_id_required'')
      else
      bindM (call (\<lambda>n. verifyContact n domainID contactID)) (\<lambda>own.
      if \<not> own then throwM (NotFound ''email.thread.contact_not_found'')
      else setContact domainID threadID (Some contactID)))"

definition UnbindContact :: "int \<Rightarrow> int \<Rightarrow> unit io" where
  "UnbindContact domainID threadID =
     (if threadID \<le> 0 then throwM errThreadIDRequired else setContact domainID threadID None)"

section \<open>The decision of an operator\<close>

text \<open>Handling emails one after the other, each with whatever fails on its way.\<close>

definition handleAll :: "services \<Rightarrow> Message list \<Rightarrow> world \<Rightarrow> world" where
  "handleAll sv ms w = fold (\<lambda>m w. snd (QuarantineHandler_Handle sv m w)) ms w"

lemma handleAll_evolves: "inbox_evolves (w_db w) (w_db (handleAll sv ms w))"
  unfolding handleAll_def
proof (induction ms arbitrary: w)
  case (Cons m ms)
  have "inbox_evolves (w_db w) (w_db (snd (QuarantineHandler_Handle sv m w)))"
    using evolves_QuarantineHandler unfolding evolves_io_def by blast
  from inbox_evolves_trans[OF this] Cons.IH show ?case by simp
qed simp

definition manualState :: "int option \<Rightarrow> EmailContactResolutionState" where
  "manualState contactID = (if contactID = None then EmailContactResolutionUnlinked else EmailContactResolutionResolved)"

definition decidedAs :: "int \<Rightarrow> int \<Rightarrow> int option \<Rightarrow> db \<Rightarrow> bool" where
  "decidedAs domainID threadID contactID d \<longleftrightarrow> (\<exists>t\<in>set (db_threads d). th_ID t = threadID \<and> th_DomainID t = domainID \<and>
     th_Kind t = EmailThreadKindRegular \<and> th_ContactID t = contactID \<and> th_ContactResolutionState t = manualState contactID)"

lemma setContact_decides:
  assumes "setContact domainID threadID contactID w = (Inr (), w')"
  shows "decidedAs domainID threadID contactID (w_db w')"
proof -
  let ?P = "\<lambda>t. th_DomainID t = domainID \<and> th_ID t = threadID \<and> th_Kind t = EmailThreadKindRegular"
  from assms obtain w1 where run: "exec (SetContactManually domainID threadID contactID) w = (Inr True, w1)" "w' = w1"
    by (auto simp: setContact_def io_success split: if_splits)
  from exec_Inr[OF run(1)] obtain now d' where stmt: "SetContactManually domainID threadID contactID now (w_db w) = Inr (True, d')"
    and d': "w_db w' = d'" using run(2) by auto
  from stmt have rows: "db_threads d' = update_where ?P (\<lambda>t. t\<lparr>th_ContactID := contactID,
        th_ContactResolutionState := (if contactID = None then EmailContactResolutionUnlinked else EmailContactResolutionResolved),
        th_UpdatedAt := now\<rparr>) (db_threads (w_db w))" and "rows_affected ?P (db_threads (w_db w)) > 0"
    by (auto simp: SetContactManually_def update_threads_def split: sum.splits if_splits)
  then obtain t where "t \<in> set (db_threads (w_db w))" "?P t" by (auto simp: rows_affected_pos)
  then show ?thesis unfolding decidedAs_def d' rows bex_update_where manualState_def by (intro bexI[of _ t]) auto
qed

lemma decidedAs_evolves:
  assumes "decidedAs domainID threadID contactID d" and "inbox_evolves d d'"
  shows "decidedAs domainID threadID contactID d'"
proof -
  from assms(1) obtain t where t: "t \<in> set (db_threads d)" "th_ID t = threadID" "th_DomainID t = domainID" "th_Kind t = EmailThreadKindRegular"
    "th_ContactID t = contactID" "th_ContactResolutionState t = manualState contactID" by (auto simp: decidedAs_def)
  from evolves_thread[OF assms(2) t(1)] obtain t' where t': "t' \<in> set (db_threads d')" "thread_evolves t t'" by blast
  have "\<not> resolvable (th_ContactResolutionState t)" by (simp add: t(6) manualState_def resolvable_def)
  with t t' show ?thesis unfolding decidedAs_def by (intro bexI[of _ t']) (auto simp: thread_evolves_def)
qed

text \<open>
  C29: The decision of an operator is final. After a contact was bound to a thread, or a thread
  was unlinked from its contact, the thread shows that decision after any number of later
  emails, whatever the contacts service would answer for them and whatever fails; and
  only a contact the contacts service knows in the same domain can be bound.
\<close>

theorem operator_decision_is_final:
  assumes "contactID = None \<longrightarrow> UnbindContact domainID threadID w = (Inr (), w')"
    and "\<forall>c. contactID = Some c \<longrightarrow> BindContact verify domainID threadID c w = (Inr (), w')"
  shows "decidedAs domainID threadID contactID (w_db (handleAll sv ms w')) \<and>
    (\<forall>c. contactID = Some c \<longrightarrow> verify (w_step w) domainID c = Inr True)"
proof (cases contactID)
  case None
  with assms(1) have "setContact domainID threadID None w = (Inr (), w')" by (auto simp: UnbindContact_def throwM_def split: if_splits)
  from decidedAs_evolves[OF setContact_decides[OF this] handleAll_evolves] None show ?thesis by simp
next
  case (Some c)
  with assms(2) obtain w1 where "setContact domainID threadID (Some c) w1 = (Inr (), w')" and "verify (w_step w) domainID c = Inr True"
    by (auto simp: BindContact_def call_def io_success split: if_splits)
  with decidedAs_evolves[OF setContact_decides handleAll_evolves] Some show ?thesis by blast
qed

definition sample_conversation :: world where
  "sample_conversation = sample_world (sample_owned\<lparr>db_threads := [sample_thread\<lparr>th_DomainID := 7\<rparr>]\<rparr>)"

theorem operator_decision_is_final_witness:
  "\<exists>w'. BindContact (\<lambda>_ _ c. Inr (c = 5)) 7 3 5 sample_conversation = (Inr (), w') \<and>
     decidedAs 7 3 (Some 5) (w_db (handleAll sample_services [sample_mail, sample_mail] w'))"
proof -
  have "\<exists>w'. BindContact (\<lambda>_ _ c. Inr (c = 5)) 7 3 5 sample_conversation = (Inr (), w')"
    by (simp add: BindContact_def bindM_def call_def setContact_def exec_def SetContactManually_def update_threads_def sample_conversation_def
        sample_world_def sample_thread_def thread_valid_def rows_affected_def returnM_def tick_def)
  then obtain w' where run: "BindContact (\<lambda>_ _ c. Inr (c = 5)) 7 3 5 sample_conversation = (Inr (), w')" ..
  have "decidedAs 7 3 (Some 5) (w_db (handleAll sample_services [sample_mail, sample_mail] w'))"
    by (rule conjunct1, rule operator_decision_is_final[where w = sample_conversation and verify = "\<lambda>_ _ c. Inr (c = 5)"]) (simp_all add: run)
  with run show ?thesis by blast
qed

end
