(* ===== verification/Poll_Scheduler.thy ===== *)
theory Poll_Scheduler
  imports Runtime_Store "HOL-Library.AList" "HOL-Library.Multiset"
begin

text \<open>
  The scheduler of \<^verbatim>\<open>internal/polling/scheduler.go\<close> and the connection pool of
  \<^verbatim>\<open>internal/polling/worker.go\<close>: which profiles are polled at the same time and which
  connections are open. The state is what the goroutines share: the maps \<^verbatim>\<open>running\<close> and
  \<^verbatim>\<open>sessions\<close>, the channels \<^verbatim>\<open>slots\<close> and \<^verbatim>\<open>connSlots\<close> with the goroutines that block on
  the latter, and the closes in flight. Every section under \<^verbatim>\<open>mu\<close> and every channel
  operation is one step, \<open>happen\<close>, so that a run is any interleaving of the dispatch loop,
  the workers, the closing goroutines and the shutdown. A dispatch is four kinds of step: it
  reads the free slots, reads the running polls, asks the store and starts one profile after
  the other, and the workers go on in between. What a worker does between two of these steps is
  \<open>Poll_Worker\<close>.

  The specification \<open>pool_act\<close> is a pool without goroutines, channels and maps whose actions are
  what can be seen from outside: polls that begin and end, connections that are dialled, kept,
  waited for and closed. \<open>acts\<close> names the actions of each step, and every run is, action by
  action, a run of the specification.
\<close>

section \<open>State\<close>

text \<open>Where a worker is. \<open>Evicting\<close> is between the two selects of \<^verbatim>\<open>acquireConnSlot\<close>, \<open>Blocked\<close> inside the second.\<close>

datatype phase = Checking | Probing | Connecting | Evicting | Blocked | Dialing | Syncing | Finishing

record pooled =
  ps_lastUsed :: time
  ps_idleTimeout :: duration

text \<open>
  \<open>sd_sessions\<close> lists the map in the order an iteration would meet it. \<open>sd_leaving\<close> counts the
  workers that have left \<^verbatim>\<open>running\<close> and still hold their slot. \<open>sd_waiters\<close> is the queue of
  blocked senders of \<^verbatim>\<open>connSlots\<close>.
\<close>

text \<open>
  Where the dispatch loop is: outside \<^verbatim>\<open>dispatch\<close>, after reading the free slots, after computing
  the limit of the query, and with rows still to start.
\<close>

datatype dispatching = Idle | Sized nat | Asked nat | Starting "EmailProfileRuntime list"

record scheduler =
  sd_running :: "int list"
  sd_slots :: nat
  sd_leaving :: nat
  sd_connSlots :: nat
  sd_waiters :: "int list"
  sd_sessions :: "(int \<times> pooled) list"
  sd_closing :: nat
  sd_workers :: "(int \<times> phase) list"
  sd_cancelled :: bool
  sd_loop :: dispatching

record limits =
  lm_MaxConcurrency :: nat
  lm_MaxOpenConnections :: nat

definition New_scheduler :: scheduler where
  "New_scheduler = \<lparr>sd_running = [], sd_slots = 0, sd_leaving = 0, sd_connSlots = 0, sd_waiters = [], sd_sessions = [],
     sd_closing = 0, sd_workers = [], sd_cancelled = False, sd_loop = Idle\<rparr>"

definition setPhase :: "int \<Rightarrow> phase \<Rightarrow> (int \<times> phase) list \<Rightarrow> (int \<times> phase) list" where
  "setPhase p ph ws = map (\<lambda>(q, x). (q, if q = p then ph else x)) ws"

definition enter :: "int \<Rightarrow> phase \<Rightarrow> scheduler \<Rightarrow> scheduler" where
  "enter p ph s = s\<lparr>sd_workers := setPhase p ph (sd_workers s)\<rparr>"

section \<open>Starting polls\<close>

definition tryStart :: "limits \<Rightarrow> int \<Rightarrow> scheduler \<Rightarrow> bool \<times> scheduler" where
  "tryStart cfg p s =
     (if p \<in> set (sd_running s) then (False, s)
      else if sd_slots s < lm_MaxConcurrency cfg
      then (True, s\<lparr>sd_slots := Suc (sd_slots s), sd_running := p # sd_running s\<rparr>)
      else (False, s))"

text \<open>\<^verbatim>\<open>go s.run(runtime)\<close>, and the two halves of what \<^verbatim>\<open>run\<close> defers.\<close>

definition run_begin :: "int \<Rightarrow> scheduler \<Rightarrow> scheduler" where
  "run_begin p s = s\<lparr>sd_workers := (p, Checking) # sd_workers s\<rparr>"

definition run_forget :: "int \<Rightarrow> scheduler \<Rightarrow> scheduler" where
  "run_forget p s = s\<lparr>sd_running := removeAll p (sd_running s), sd_workers := AList.delete p (sd_workers s),
     sd_leaving := Suc (sd_leaving s)\<rparr>"

definition run_release :: "scheduler \<Rightarrow> scheduler" where
  "run_release s = s\<lparr>sd_leaving := sd_leaving s - 1, sd_slots := sd_slots s - 1\<rparr>"

text \<open>The body of the loop of \<^verbatim>\<open>dispatch\<close>.\<close>

definition startDue :: "limits \<Rightarrow> EmailProfileRuntime \<Rightarrow> scheduler \<Rightarrow> scheduler" where
  "startDue cfg rt s = (if Assignment (Some rt) = None then s
     else (case tryStart cfg (rt_ProfileID rt) s of (ok, s1) \<Rightarrow> if ok then run_begin (rt_ProfileID rt) s1 else s))"

text \<open>The steps of \<^verbatim>\<open>dispatch\<close>; with no free slot, after an error and after the last row it is over.\<close>

definition dispatchRest :: "EmailProfileRuntime list \<Rightarrow> dispatching" where
  "dispatchRest due = (if due = [] then Idle else Starting due)"

definition dispatch_free :: "limits \<Rightarrow> scheduler \<Rightarrow> scheduler" where
  "dispatch_free cfg s = (let free = lm_MaxConcurrency cfg - sd_slots s in s\<lparr>sd_loop := (if free = 0 then Idle else Sized free)\<rparr>)"

definition dispatch_busy :: "nat \<Rightarrow> scheduler \<Rightarrow> scheduler" where
  "dispatch_busy free s = (let busy = length (sd_running s) in s\<lparr>sd_loop := Asked (free + busy)\<rparr>)"

definition dispatch_listed :: "error + EmailProfileRuntime list \<Rightarrow> scheduler \<Rightarrow> scheduler" where
  "dispatch_listed answer s = s\<lparr>sd_loop := (case answer of Inl e \<Rightarrow> Idle | Inr due \<Rightarrow> dispatchRest due)\<rparr>"

definition dispatch_next :: "limits \<Rightarrow> EmailProfileRuntime \<Rightarrow> EmailProfileRuntime list \<Rightarrow> scheduler \<Rightarrow> scheduler" where
  "dispatch_next cfg rt due s = (startDue cfg rt s)\<lparr>sd_loop := dispatchRest due\<rparr>"

section \<open>The connection pool\<close>

text \<open>A receive from a full channel lets the first blocked sender in, so the permit is handed over.\<close>

definition releaseConnSlot :: "scheduler \<Rightarrow> scheduler" where
  "releaseConnSlot s = (case sd_waiters s of
     [] \<Rightarrow> s\<lparr>sd_connSlots := sd_connSlots s - 1\<rparr>
   | p # ps \<Rightarrow> enter p Dialing (s\<lparr>sd_waiters := ps\<rparr>))"

definition closeSession :: "bool \<Rightarrow> scheduler \<Rightarrow> scheduler" where
  "closeSession graceful s = (if \<not> graceful then releaseConnSlot s else s\<lparr>sd_closing := Suc (sd_closing s)\<rparr>)"

definition forgetSession :: "int \<Rightarrow> scheduler \<Rightarrow> scheduler" where
  "forgetSession p s = s\<lparr>sd_sessions := AList.delete p (sd_sessions s)\<rparr>"

definition dropSession :: "int \<Rightarrow> bool \<Rightarrow> scheduler \<Rightarrow> scheduler" where
  "dropSession p graceful s = (case map_of (sd_sessions s) p of
     None \<Rightarrow> s | Some c \<Rightarrow> closeSession graceful (forgetSession p s))"

definition touchSession :: "int \<Rightarrow> time \<Rightarrow> scheduler \<Rightarrow> scheduler" where
  "touchSession p now s = s\<lparr>sd_sessions := map (\<lambda>(q, c). (q, if q = p then c\<lparr>ps_lastUsed := now\<rparr> else c)) (sd_sessions s)\<rparr>"

definition evictee :: "scheduler \<Rightarrow> (int \<times> pooled) option" where
  "evictee s = fold (\<lambda>(p, c) evict. if p \<in> set (sd_running s) then evict
     else (case evict of None \<Rightarrow> Some (p, c)
           | Some (q, d) \<Rightarrow> if ps_lastUsed c < ps_lastUsed d then Some (p, c) else evict)) (sd_sessions s) None"

definition evictForCapacity :: "scheduler \<Rightarrow> scheduler" where
  "evictForCapacity s = (case evictee s of None \<Rightarrow> s | Some (p, c) \<Rightarrow> closeSession True (forgetSession p s))"

text \<open>The two selects of \<^verbatim>\<open>acquireConnSlot\<close>.\<close>

definition takeConnSlot :: "int \<Rightarrow> scheduler \<Rightarrow> scheduler" where
  "takeConnSlot p s = enter p Dialing (s\<lparr>sd_connSlots := Suc (sd_connSlots s)\<rparr>)"

definition acquireConnSlot :: "limits \<Rightarrow> int \<Rightarrow> scheduler \<Rightarrow> scheduler" where
  "acquireConnSlot cfg p s = (if sd_connSlots s < lm_MaxOpenConnections cfg then takeConnSlot p s
     else enter p Evicting (evictForCapacity s))"

definition awaitConnSlot :: "limits \<Rightarrow> int \<Rightarrow> scheduler \<Rightarrow> scheduler" where
  "awaitConnSlot cfg p s = (if sd_connSlots s < lm_MaxOpenConnections cfg then takeConnSlot p s
     else enter p Blocked (s\<lparr>sd_waiters := sd_waiters s @ [p]\<rparr>))"

definition keepSession :: "int \<Rightarrow> time \<Rightarrow> int \<Rightarrow> scheduler \<Rightarrow> scheduler" where
  "keepSession p now fetchInterval s = s\<lparr>sd_sessions := AList.update p
     \<lparr>ps_lastUsed = now, ps_idleTimeout = 2 * fetchInterval * second + 60 * second\<rparr> (sd_sessions s)\<rparr>"

definition closeIdleSessions :: "time \<Rightarrow> scheduler \<Rightarrow> scheduler" where
  "closeIdleSessions now s = fold (\<lambda>(p, c) s. if p \<in> set (sd_running s) \<or> now - ps_lastUsed c < ps_idleTimeout c then s
     else closeSession True (forgetSession p s)) (sd_sessions s) s"

section \<open>Shutdown\<close>

text \<open>\<^verbatim>\<open>interrupt\<close> with the profiles whose connections it aborts; \<^verbatim>\<open>stop\<close> cancels before it closes.\<close>

definition interrupt :: "scheduler \<Rightarrow> int list \<times> scheduler" where
  "interrupt s = (filter (\<lambda>p. p \<in> set (sd_running s)) (map fst (sd_sessions s)), s\<lparr>sd_cancelled := True\<rparr>)"

definition closeAllSessions :: "scheduler \<Rightarrow> scheduler" where
  "closeAllSessions s = fold (\<lambda>_. closeSession True) (sd_sessions s) (s\<lparr>sd_sessions := []\<rparr>)"

definition stop_sessions :: "scheduler \<Rightarrow> scheduler" where
  "stop_sessions s = closeAllSessions (s\<lparr>sd_cancelled := True\<rparr>)"

section \<open>Steps\<close>

text \<open>\<open>Listed\<close> carries what the store answers to each limit.\<close>

datatype event =
    ReadFree
  | ReadBusy
  | Listed "nat \<Rightarrow> error + EmailProfileRuntime list"
  | Next
  | Abandon int "bool list"
  | Look int
  | Reuse int time
  | Renew int bool
  | Refused int "bool list"
  | Acquire int
  | Await int
  | GiveUp int "bool list"
  | Connected int time int
  | ConnectFailed int "bool list"
  | Synced int "bool list"
  | Exit int
  | Left
  | Closed
  | Tick time
  | Interrupt
  | Stop
  | Reorder "(int \<times> pooled) list"

definition at :: "scheduler \<Rightarrow> int \<Rightarrow> phase \<Rightarrow> bool" where
  "at s p ph \<longleftrightarrow> (p, ph) \<in> set (sd_workers s)"

text \<open>The \<^verbatim>\<open>dropSession\<close> calls at the end of a poll, each with its \<open>graceful\<close> argument.\<close>

definition finish :: "int \<Rightarrow> bool list \<Rightarrow> scheduler \<Rightarrow> scheduler" where
  "finish p drops s = enter p Finishing (fold (dropSession p) drops s)"

definition guarded :: "bool \<Rightarrow> scheduler \<Rightarrow> scheduler option" where
  "guarded b s = (if b then Some s else None)"

fun happen :: "limits \<Rightarrow> event \<Rightarrow> scheduler \<Rightarrow> scheduler option" where
  "happen cfg ReadFree s = guarded (sd_loop s = Idle) (dispatch_free cfg s)"
| "happen cfg ReadBusy s = (case sd_loop s of Sized free \<Rightarrow> Some (dispatch_busy free s) | _ \<Rightarrow> None)"
| "happen cfg (Listed listDue) s = (case sd_loop s of Asked limit \<Rightarrow> Some (dispatch_listed (listDue limit) s) | _ \<Rightarrow> None)"
| "happen cfg Next s = (case sd_loop s of Starting (rt # due) \<Rightarrow> Some (dispatch_next cfg rt due s) | _ \<Rightarrow> None)"
| "happen cfg (Abandon p drops) s = guarded (at s p Checking) (finish p drops s)"
| "happen cfg (Look p) s = guarded (at s p Checking) (enter p (if map_of (sd_sessions s) p = None then Connecting else Probing) s)"
| "happen cfg (Reuse p now) s = guarded (at s p Probing) (enter p Syncing (touchSession p now s))"
| "happen cfg (Renew p graceful) s = guarded (at s p Probing) (enter p Connecting (dropSession p graceful s))"
| "happen cfg (Refused p drops) s = guarded (at s p Connecting) (finish p drops s)"
| "happen cfg (Acquire p) s = guarded (at s p Connecting) (acquireConnSlot cfg p s)"
| "happen cfg (Await p) s = guarded (at s p Evicting) (awaitConnSlot cfg p s)"
| "happen cfg (GiveUp p drops) s = guarded ((at s p Blocked \<or> at s p Evicting) \<and> sd_cancelled s)
     (finish p drops (s\<lparr>sd_waiters := removeAll p (sd_waiters s), sd_workers := setPhase p Connecting (sd_workers s)\<rparr>))"
| "happen cfg (Connected p now interval) s = guarded (at s p Dialing) (enter p Syncing (keepSession p now interval s))"
| "happen cfg (ConnectFailed p drops) s = guarded (at s p Dialing) (finish p drops (releaseConnSlot (enter p Connecting s)))"
| "happen cfg (Synced p drops) s = guarded (at s p Syncing) (finish p drops s)"
| "happen cfg (Exit p) s = guarded (at s p Finishing) (run_forget p s)"
| "happen cfg Left s = guarded (0 < sd_leaving s) (run_release s)"
| "happen cfg Closed s = guarded (0 < sd_closing s) (releaseConnSlot (s\<lparr>sd_closing := sd_closing s - 1\<rparr>))"
| "happen cfg (Tick now) s = guarded (sd_loop s = Idle) (closeIdleSessions now s)"
| "happen cfg Interrupt s = Some (snd (interrupt s))"
| "happen cfg Stop s = Some (stop_sessions s)"
| "happen cfg (Reorder ss) s = guarded (mset ss = mset (sd_sessions s)) (s\<lparr>sd_sessions := ss\<rparr>)"

definition sched_step :: "limits \<Rightarrow> scheduler \<Rightarrow> scheduler \<Rightarrow> bool" where
  "sched_step cfg s s' \<longleftrightarrow> (\<exists>ev. happen cfg ev s = Some s')"

text \<open>Runs of a partial step function, and the labels they show.\<close>

fun runs :: "('e \<Rightarrow> 's \<Rightarrow> 's option) \<Rightarrow> 'e list \<Rightarrow> 's \<Rightarrow> 's option" where
  "runs step [] s = Some s"
| "runs step (e # es) s = Option.bind (step e s) (runs step es)"


fun labels :: "('e \<Rightarrow> 's \<Rightarrow> 's option) \<Rightarrow> ('e \<Rightarrow> 's \<Rightarrow> 'l list) \<Rightarrow> 'e list \<Rightarrow> 's \<Rightarrow> 'l list" where
  "labels step lab [] s = []"
| "labels step lab (e # es) s = lab e s @ (case step e s of None \<Rightarrow> [] | Some t \<Rightarrow> labels step lab es t)"

definition happens :: "limits \<Rightarrow> event list \<Rightarrow> scheduler \<Rightarrow> scheduler option" where
  "happens cfg = runs (happen cfg)"

section \<open>The invariant\<close>

definition dialing :: "scheduler \<Rightarrow> nat" where
  "dialing s = length (filter (\<lambda>w. snd w = Dialing) (sd_workers s))"

text \<open>A worker without a connection: its profile has no session in the map.\<close>

definition unconnected :: "phase \<Rightarrow> bool" where
  "unconnected ph \<longleftrightarrow> ph \<in> {Connecting, Evicting, Blocked, Dialing}"

text \<open>
  One worker per running profile; every slot is held by a worker or by one that is leaving; every
  permit is held by a cached connection, a connection being closed or a worker that dials, but for
  \<open>n\<close> permits in the hands of the step that runs; a profile has at most one cached connection; a sender blocks only on a full channel.
\<close>

definition workers_ok :: "limits \<Rightarrow> scheduler \<Rightarrow> bool" where
  "workers_ok cfg s \<longleftrightarrow> sd_running s = map fst (sd_workers s) \<and> distinct (map fst (sd_workers s)) \<and>
     sd_slots s = length (sd_workers s) + sd_leaving s \<and> sd_slots s \<le> lm_MaxConcurrency cfg"

definition pool_ok :: "limits \<Rightarrow> nat \<Rightarrow> scheduler \<Rightarrow> bool" where
  "pool_ok cfg n s \<longleftrightarrow> distinct (map fst (sd_sessions s)) \<and>
     sd_connSlots s = length (sd_sessions s) + sd_closing s + dialing s + n \<and> sd_connSlots s \<le> lm_MaxOpenConnections cfg \<and>
     (\<forall>(p, ph)\<in>set (sd_workers s). unconnected ph \<longrightarrow> p \<notin> fst ` set (sd_sessions s)) \<and>
     distinct (sd_waiters s) \<and> (\<forall>p. p \<in> set (sd_waiters s) \<longleftrightarrow> at s p Blocked) \<and>
     (sd_waiters s \<noteq> [] \<longrightarrow> sd_connSlots s = lm_MaxOpenConnections cfg)"

definition sched_ok :: "limits \<Rightarrow> scheduler \<Rightarrow> bool" where
  "sched_ok cfg s \<longleftrightarrow> workers_ok cfg s \<and> pool_ok cfg 0 s"

lemma at_update [simp]:
  "at (s\<lparr>sd_waiters := a\<rparr>) p ph = at s p ph" "at (s\<lparr>sd_sessions := b\<rparr>) p ph = at s p ph" "at (s\<lparr>sd_closing := c\<rparr>) p ph = at s p ph"
  "at (s\<lparr>sd_connSlots := d\<rparr>) p ph = at s p ph" "at (s\<lparr>sd_cancelled := e\<rparr>) p ph = at s p ph"
  "at (s\<lparr>sd_loop := f\<rparr>) p ph = at s p ph"
  by (simp_all add: at_def)

lemma dialing_update [simp]:
  "dialing (s\<lparr>sd_waiters := a\<rparr>) = dialing s" "dialing (s\<lparr>sd_sessions := b\<rparr>) = dialing s" "dialing (s\<lparr>sd_closing := c\<rparr>) = dialing s"
  "dialing (s\<lparr>sd_connSlots := d\<rparr>) = dialing s" "dialing (s\<lparr>sd_cancelled := e\<rparr>) = dialing s"
  "dialing (s\<lparr>sd_loop := f\<rparr>) = dialing s"
  by (simp_all add: dialing_def)

lemma pool_okI:
  assumes "distinct (map fst (sd_sessions s))" and "sd_connSlots s = length (sd_sessions s) + sd_closing s + dialing s + n"
    and "sd_connSlots s \<le> lm_MaxOpenConnections cfg"
    and "\<And>p ph. at s p ph \<Longrightarrow> unconnected ph \<Longrightarrow> p \<notin> fst ` set (sd_sessions s)"
    and "distinct (sd_waiters s)" and "\<And>p. p \<in> set (sd_waiters s) \<longleftrightarrow> at s p Blocked"
    and "sd_waiters s \<noteq> [] \<Longrightarrow> sd_connSlots s = lm_MaxOpenConnections cfg"
  shows "pool_ok cfg n s"
  using assms by (auto simp: pool_ok_def at_def)

lemma pool_okD:
  assumes "pool_ok cfg n s"
  shows "distinct (map fst (sd_sessions s))" and "sd_connSlots s = length (sd_sessions s) + sd_closing s + dialing s + n"
    and "sd_connSlots s \<le> lm_MaxOpenConnections cfg"
    and "at s p ph \<Longrightarrow> unconnected ph \<Longrightarrow> p \<notin> fst ` set (sd_sessions s)"
    and "distinct (sd_waiters s)" and "p \<in> set (sd_waiters s) \<longleftrightarrow> at s p Blocked"
    and "sd_waiters s \<noteq> [] \<Longrightarrow> sd_connSlots s = lm_MaxOpenConnections cfg"
  using assms by (auto simp: pool_ok_def at_def)

lemma sched_ok_loop [simp]: "sched_ok cfg (s\<lparr>sd_loop := f\<rparr>) = sched_ok cfg s"
  by (simp add: sched_ok_def workers_ok_def pool_ok_def)

subsection \<open>Phases\<close>

lemma setPhase_fst [simp]: "map fst (setPhase p ph ws) = map fst ws" "length (setPhase p ph ws) = length ws"
  by (auto simp: setPhase_def case_prod_beta)

lemma in_setPhase: "(q, x) \<in> set (setPhase p ph ws) \<longleftrightarrow>
    (if q = p then x = ph \<and> p \<in> fst ` set ws else (q, x) \<in> set ws)"
  by (force simp: setPhase_def)

lemma setPhase_count:
  assumes "distinct (map fst ws)" and "(p, x) \<in> set ws"
  shows "length (filter (\<lambda>w. snd w = d) (setPhase p y ws)) + (if x = d then 1 else 0) =
    length (filter (\<lambda>w. snd w = d) ws) + (if y = d then 1 else 0)"
  using assms
proof (induction ws)
  case (Cons w ws)
  have same: "setPhase p y ws = ws" if "p \<notin> fst ` set ws"
    using that by (force simp: setPhase_def intro: map_idI)
  show ?case
  proof (cases "fst w = p")
    case True
    from Cons.prems(1) True have fresh: "p \<notin> fst ` set ws" by auto
    with Cons.prems(2) True have "snd w = x" by (cases w) (auto simp: image_iff)
    with same[OF fresh] True show ?thesis by (cases w) (simp add: setPhase_def)
  next
    case False
    with Cons show ?thesis by (cases w) (auto simp: setPhase_def)
  qed
qed simp

lemma enter_simps [simp]:
  "sd_running (enter p ph s) = sd_running s" "sd_slots (enter p ph s) = sd_slots s" "sd_leaving (enter p ph s) = sd_leaving s"
  "sd_connSlots (enter p ph s) = sd_connSlots s" "sd_waiters (enter p ph s) = sd_waiters s"
  "sd_sessions (enter p ph s) = sd_sessions s" "sd_closing (enter p ph s) = sd_closing s"
  "sd_cancelled (enter p ph s) = sd_cancelled s" "sd_loop (enter p ph s) = sd_loop s" "sd_workers (enter p ph s) = setPhase p ph (sd_workers s)"
  by (simp_all add: enter_def)

lemma workers_ok_enter [simp]: "workers_ok cfg (enter p ph s) = workers_ok cfg s"
  by (simp add: workers_ok_def)

lemma dialing_enter:
  assumes "workers_ok cfg s" and "at s p x"
  shows "dialing (enter p y s) + (if x = Dialing then 1 else 0) = dialing s + (if y = Dialing then 1 else 0)"
  using setPhase_count[of "sd_workers s" p x Dialing y] assms by (simp add: dialing_def workers_ok_def at_def)

lemma at_enter: "at (enter p y s) q x \<longleftrightarrow> (if q = p then x = y \<and> p \<in> fst ` set (sd_workers s) else at s q x)"
  by (simp add: at_def in_setPhase)

lemma at_unique: "workers_ok cfg s \<Longrightarrow> at s p x \<Longrightarrow> at s p y \<Longrightarrow> x = y"
  unfolding workers_ok_def at_def by (metis eq_key_imp_eq_value)

text \<open>A worker that moves between two phases with the same needs.\<close>

lemma pool_ok_enter:
  assumes "pool_ok cfg n s" and "workers_ok cfg s" and "at s p x" and "x \<notin> {Dialing, Blocked}" and "y \<notin> {Dialing, Blocked}"
    and "unconnected y \<Longrightarrow> unconnected x \<or> p \<notin> fst ` set (sd_sessions s)"
  shows "pool_ok cfg n (enter p y s)"
proof -
  have p: "p \<in> fst ` set (sd_workers s)" using assms(3) by (force simp: at_def)
  have "dialing (enter p y s) = dialing s" using dialing_enter[OF assms(2,3), of y] assms(4,5) by simp
  moreover have "at (enter p y s) q Blocked \<longleftrightarrow> at s q Blocked" for q
    using at_unique[OF assms(2,3), of Blocked] assms(4,5) p by (auto simp: at_enter)
  moreover have "q \<notin> fst ` set (sd_sessions s)" if "at (enter p y s) q ph" "unconnected ph" for q ph
    using that assms(3,6) pool_okD(4)[OF assms(1)] by (auto simp: at_enter split: if_splits)
  ultimately show ?thesis using pool_okD[OF assms(1)] by (intro pool_okI) simp_all
qed

subsection \<open>Closing\<close>

lemma releaseConnSlot_simps [simp]:
  "sd_running (releaseConnSlot s) = sd_running s" "sd_slots (releaseConnSlot s) = sd_slots s" "sd_leaving (releaseConnSlot s) = sd_leaving s"
  "sd_sessions (releaseConnSlot s) = sd_sessions s" "sd_closing (releaseConnSlot s) = sd_closing s"
  "sd_cancelled (releaseConnSlot s) = sd_cancelled s" "workers_ok cfg (releaseConnSlot s) = workers_ok cfg s"
  by (auto simp: releaseConnSlot_def workers_ok_def split: list.splits)

lemma workers_ok_other:
  assumes "workers_ok cfg s" and "sd_running t = sd_running s" "sd_workers t = sd_workers s" "sd_slots t = sd_slots s" "sd_leaving t = sd_leaving s"
  shows "workers_ok cfg t"
  using assms by (simp add: workers_ok_def)

lemma releaseConnSlot_ok:
  assumes "workers_ok cfg s" and "pool_ok cfg (Suc n) s"
  shows "pool_ok cfg n (releaseConnSlot s)"
proof (cases "sd_waiters s")
  case Nil
  with assms(2) show ?thesis by (auto simp: pool_ok_def releaseConnSlot_def dialing_def at_def)
next
  case (Cons p ps)
  let ?t = "s\<lparr>sd_waiters := ps\<rparr>"
  have p: "at s p Blocked" "at ?t p Blocked" "p \<notin> set ps" using pool_okD(5,6)[OF assms(2)] Cons by auto
  have ok: "workers_ok cfg ?t" using assms(1) by (rule workers_ok_other) simp_all
  have "dialing (enter p Dialing ?t) = Suc (dialing s)" using dialing_enter[OF ok p(2), of Dialing] by simp
  moreover have "at (enter p Dialing ?t) q Blocked \<longleftrightarrow> q \<in> set ps" for q
    using pool_okD(6)[OF assms(2), of q] Cons p(3) by (auto simp: at_enter)
  moreover have "q \<notin> fst ` set (sd_sessions s)" if "at (enter p Dialing ?t) q ph" "unconnected ph" for q ph
    using that pool_okD(4)[OF assms(2)] p(1) by (auto simp: at_enter unconnected_def split: if_splits)
  ultimately show ?thesis using pool_okD[OF assms(2)] Cons by (intro pool_okI) (simp_all add: releaseConnSlot_def)
qed

lemma closeSession_simps [simp]:
  "sd_running (closeSession g s) = sd_running s" "sd_sessions (closeSession g s) = sd_sessions s"
  "sd_cancelled (closeSession g s) = sd_cancelled s" "workers_ok cfg (closeSession g s) = workers_ok cfg s"
  by (cases g; simp add: closeSession_def; simp add: workers_ok_def)+

lemma closeSession_ok:
  assumes "workers_ok cfg s" and "pool_ok cfg (Suc n) s"
  shows "pool_ok cfg n (closeSession g s)"
  using releaseConnSlot_ok[OF assms] assms(2) by (auto simp: closeSession_def pool_ok_def dialing_def at_def)

lemma set_delete_keys: "fst ` set (AList.delete k xs) = fst ` set xs - {k}"
  by (force simp: AList.delete_eq)

lemma length_delete_key: "distinct (map fst xs) \<Longrightarrow> k \<in> fst ` set xs \<Longrightarrow> Suc (length (AList.delete k xs)) = length xs"
proof (induction xs)
  case (Cons x xs)
  show ?case
  proof (cases "fst x = k")
    case True
    with Cons.prems(1) have "k \<notin> fst ` set xs" by auto
    with True show ?thesis by (cases x) simp
  next
    case False
    with Cons show ?thesis by (cases x) auto
  qed
qed simp

lemma forgetSession_simps [simp]:
  "sd_running (forgetSession p s) = sd_running s" "fst ` set (sd_sessions (forgetSession p s)) = fst ` set (sd_sessions s) - {p}"
  "sd_cancelled (forgetSession p s) = sd_cancelled s" "workers_ok cfg (forgetSession p s) = workers_ok cfg s"
  by (simp_all add: forgetSession_def workers_ok_def set_delete_keys)

lemma forgetSession_ok:
  assumes "pool_ok cfg n s" and "p \<in> fst ` set (sd_sessions s)"
  shows "pool_ok cfg (Suc n) (forgetSession p s)"
proof (rule pool_okI)
  note ok = pool_okD[OF assms(1)]
  show "distinct (map fst (sd_sessions (forgetSession p s)))" using ok(1) by (simp add: forgetSession_def distinct_delete)
  have "Suc (length (AList.delete p (sd_sessions s))) = length (sd_sessions s)" using ok(1) assms(2) by (rule length_delete_key)
  with ok(2) show "sd_connSlots (forgetSession p s) = length (sd_sessions (forgetSession p s)) + sd_closing (forgetSession p s) +
      dialing (forgetSession p s) + Suc n" by (simp add: forgetSession_def)
  show "sd_connSlots (forgetSession p s) \<le> lm_MaxOpenConnections cfg" using ok(3) by (simp add: forgetSession_def)
  fix q ph assume "at (forgetSession p s) q ph" "unconnected ph"
  with ok(4) have "q \<notin> fst ` set (sd_sessions s)" by (simp add: forgetSession_def)
  then show "q \<notin> fst ` set (sd_sessions (forgetSession p s))" by simp
qed (use pool_okD(5-7)[OF assms(1)] in \<open>simp_all add: forgetSession_def\<close>)

lemma dropSession_ok:
  assumes "workers_ok cfg s" and "pool_ok cfg n s"
  shows "pool_ok cfg n (dropSession p g s)" "workers_ok cfg (dropSession p g s)"
  using assms closeSession_ok[OF _ forgetSession_ok[OF assms(2)]] by (auto simp: dropSession_def map_of_eq_None_iff split: option.splits)
     (force dest: map_of_SomeD)

lemma fold_dropSession_ok:
  "workers_ok cfg s \<Longrightarrow> pool_ok cfg n s \<Longrightarrow> workers_ok cfg (fold (dropSession p) ds s) \<and> pool_ok cfg n (fold (dropSession p) ds s)"
  by (induction ds arbitrary: s) (simp_all add: dropSession_ok)

text \<open>A worker that does not wait for a permit stays where it is when others close connections.\<close>

lemma releaseConnSlot_at:
  assumes "workers_ok cfg s" and "pool_ok cfg n s" and "at s p x" and "x \<noteq> Blocked"
  shows "at (releaseConnSlot s) p x"
proof (cases "sd_waiters s")
  case (Cons q qs)
  then have "at s q Blocked" using pool_okD(6)[OF assms(2), of q] by simp
  with assms have "p \<noteq> q" using at_unique by blast
  with Cons assms(3) show ?thesis by (simp add: releaseConnSlot_def at_enter)
qed (use assms in \<open>simp add: releaseConnSlot_def\<close>)

lemma dropSession_at:
  assumes "workers_ok cfg s" and "pool_ok cfg n s" and "at s p x" and "x \<noteq> Blocked"
  shows "at (dropSession q g s) p x"
proof (cases "map_of (sd_sessions s) q")
  case (Some c)
  then have "q \<in> fst ` set (sd_sessions s)" by (force dest: map_of_SomeD)
  then have "pool_ok cfg (Suc n) (forgetSession q s)" by (rule forgetSession_ok[OF assms(2)])
  moreover have "at (forgetSession q s) p x" using assms(3) by (simp add: forgetSession_def)
  ultimately have "at (releaseConnSlot (forgetSession q s)) p x" using assms(1,4) by (intro releaseConnSlot_at) simp_all
  with Some assms(3) show ?thesis by (auto simp: dropSession_def closeSession_def forgetSession_def)
qed (use assms in \<open>simp add: dropSession_def\<close>)

lemma fold_dropSession_at:
  "workers_ok cfg s \<Longrightarrow> pool_ok cfg n s \<Longrightarrow> at s p x \<Longrightarrow> x \<noteq> Blocked \<Longrightarrow> at (fold (dropSession q) ds s) p x"
  by (induction ds arbitrary: s) (simp_all add: dropSession_ok dropSession_at)

lemma finish_ok:
  assumes "workers_ok cfg s" and "pool_ok cfg 0 s" and "at s p x" and "x \<notin> {Dialing, Blocked}"
  shows "sched_ok cfg (finish p drops s)"
proof -
  note d = fold_dropSession_ok[OF assms(1,2), of p drops]
  have "at (fold (dropSession p) drops s) p x" using fold_dropSession_at[OF assms(1-3)] assms(4) by simp
  with d assms(4) have "pool_ok cfg 0 (finish p drops s)" unfolding finish_def by (intro pool_ok_enter[of _ _ _ _ x]) (auto simp: unconnected_def)
  with d show ?thesis by (simp add: sched_ok_def finish_def)
qed

lemma evictee_idle:
  "evictee s = Some (p, c) \<Longrightarrow> (p, c) \<in> set (sd_sessions s) \<and> p \<notin> set (sd_running s)"
  "evictee s = None \<Longrightarrow> (p, c) \<in> set (sd_sessions s) \<Longrightarrow> p \<in> set (sd_running s)"
proof -
  let ?f = "\<lambda>(p, c) evict. if p \<in> set (sd_running s) then evict
     else (case evict of None \<Rightarrow> Some (p, c) | Some (q, d) \<Rightarrow> if ps_lastUsed c < ps_lastUsed d then Some (p, c) else evict)"
  have some: "e = Some (p, c) \<or> (p, c) \<in> set xs \<and> p \<notin> set (sd_running s)" if "fold ?f xs e = Some (p, c)" for xs e
    using that
  proof (induction xs arbitrary: e)
    case (Cons x xs)
    from Cons.IH[of "?f x e"] Cons.prems have "?f x e = Some (p, c) \<or> (p, c) \<in> set xs \<and> p \<notin> set (sd_running s)" by simp
    then show ?case by (cases x; cases e) (auto split: if_splits)
  qed simp
  have none: "e = None \<and> (\<forall>(p, c)\<in>set xs. p \<in> set (sd_running s))" if "fold ?f xs e = None" for xs e
    using that
  proof (induction xs arbitrary: e)
    case (Cons x xs)
    from Cons.IH[of "?f x e"] Cons.prems have "?f x e = None \<and> (\<forall>(p, c)\<in>set xs. p \<in> set (sd_running s))" by simp
    then show ?case by (cases x; cases e) (auto split: if_splits)
  qed simp
  show "evictee s = Some (p, c) \<Longrightarrow> (p, c) \<in> set (sd_sessions s) \<and> p \<notin> set (sd_running s)" using some[of "sd_sessions s" None] by (simp add: evictee_def)
  show "evictee s = None \<Longrightarrow> (p, c) \<in> set (sd_sessions s) \<Longrightarrow> p \<in> set (sd_running s)" using none[of "sd_sessions s" None] by (auto simp: evictee_def)
qed

lemma forget_and_close:
  assumes "workers_ok cfg s" and "pool_ok cfg n s" and "p \<in> fst ` set (sd_sessions s)"
  shows "pool_ok cfg n (closeSession True (forgetSession p s))" "workers_ok cfg (closeSession True (forgetSession p s))"
    "at (closeSession True (forgetSession p s)) q x = at s q x"
proof -
  show "pool_ok cfg n (closeSession True (forgetSession p s))" using closeSession_ok[OF _ forgetSession_ok[OF assms(2,3)]] assms(1) by simp
qed (use assms in simp, simp add: closeSession_def forgetSession_def)

lemma evictForCapacity_ok:
  assumes "workers_ok cfg s" and "pool_ok cfg n s"
  shows "pool_ok cfg n (evictForCapacity s)" "workers_ok cfg (evictForCapacity s)" "at (evictForCapacity s) q x = at s q x"
proof -
  have "p \<in> fst ` set (sd_sessions s)" if "evictee s = Some (p, c)" for p c using evictee_idle(1)[OF that] by force
  note f = forget_and_close[OF assms this]
  show "pool_ok cfg n (evictForCapacity s)" "workers_ok cfg (evictForCapacity s)" "at (evictForCapacity s) q x = at s q x"
    using f assms by (auto simp: evictForCapacity_def split: option.splits)
qed

lemma closeIdleSessions_ok:
  assumes "workers_ok cfg s" and "pool_ok cfg n s"
  shows "pool_ok cfg n (closeIdleSessions now s)" "workers_ok cfg (closeIdleSessions now s)"
proof -
  let ?f = "\<lambda>(p, c) s. if p \<in> set (sd_running s) \<or> now - ps_lastUsed c < ps_idleTimeout c then s else closeSession True (forgetSession p s)"
  have "workers_ok cfg (fold ?f xs t) \<and> pool_ok cfg n (fold ?f xs t)"
    if "workers_ok cfg t" "pool_ok cfg n t" "distinct (map fst xs)" "fst ` set xs \<subseteq> fst ` set (sd_sessions t)" for xs t
    using that
  proof (induction xs arbitrary: t)
    case (Cons x xs)
    obtain p c where x: "x = (p, c)" by fastforce
    have "p \<in> fst ` set (sd_sessions t)" using Cons.prems(4) x by simp
    note f = forget_and_close[OF Cons.prems(1,2) this]
    have "fst ` set xs \<subseteq> fst ` set (sd_sessions (closeSession True (forgetSession p t)))"
      using Cons.prems(3,4) x by (simp add: subset_Diff_insert)
    with f Cons x show ?case by simp
  qed simp
  from this[OF assms pool_okD(1)[OF assms(2)]] show "pool_ok cfg n (closeIdleSessions now s)" "workers_ok cfg (closeIdleSessions now s)"
    by (simp_all add: closeIdleSessions_def)
qed

lemma closeAllSessions_simps:
  "closeAllSessions s = s\<lparr>sd_sessions := [], sd_closing := sd_closing s + length (sd_sessions s)\<rparr>"
proof -
  have "fold (\<lambda>_. closeSession True) xs t = t\<lparr>sd_closing := sd_closing t + length xs\<rparr>" for xs :: "(int \<times> pooled) list" and t
    by (induction xs arbitrary: t) (simp_all add: closeSession_def)
  then show ?thesis by (simp add: closeAllSessions_def)
qed

lemma stop_sessions_ok:
  assumes "workers_ok cfg s" and "pool_ok cfg n s"
  shows "sched_ok cfg (stop_sessions s) \<or> n \<noteq> 0"
  using pool_okD[OF assms(2)] assms(1)
  by (auto simp: stop_sessions_def closeAllSessions_simps sched_ok_def intro!: pool_okI elim: workers_ok_other)

subsection \<open>Every step keeps it\<close>

lemma same_keys_ok:
  assumes "pool_ok cfg n s" and "mset (map fst ss) = mset (map fst (sd_sessions s))"
  shows "pool_ok cfg n (s\<lparr>sd_sessions := ss\<rparr>)"
proof (rule pool_okI)
  note ok = pool_okD[OF assms(1)]
  have len: "length ss = length (sd_sessions s)" using assms(2) by (metis length_map mset_eq_length)
  have keys: "fst ` set ss = fst ` set (sd_sessions s)" using mset_eq_setD[OF assms(2)] by simp
  show "distinct (map fst (sd_sessions (s\<lparr>sd_sessions := ss\<rparr>)))" using ok(1) mset_eq_imp_distinct_iff[OF assms(2)] by simp
  show "sd_connSlots (s\<lparr>sd_sessions := ss\<rparr>) = length (sd_sessions (s\<lparr>sd_sessions := ss\<rparr>)) + sd_closing (s\<lparr>sd_sessions := ss\<rparr>) +
      dialing (s\<lparr>sd_sessions := ss\<rparr>) + n" using ok(2) len by simp
  show "q \<notin> fst ` set (sd_sessions (s\<lparr>sd_sessions := ss\<rparr>))" if "at (s\<lparr>sd_sessions := ss\<rparr>) q ph" "unconnected ph" for q ph
    using ok(4) that keys by simp
qed (use pool_okD[OF assms(1)] in simp_all)

lemma touchSession_ok:
  assumes "workers_ok cfg s" and "pool_ok cfg n s"
  shows "pool_ok cfg n (touchSession p now s)" "workers_ok cfg (touchSession p now s)" "at (touchSession p now s) q x = at s q x"
proof -
  have "map fst (map (\<lambda>(q, c). (q, if q = p then c\<lparr>ps_lastUsed := now\<rparr> else c)) ss) = map fst ss"
    for ss :: "(int \<times> pooled) list" by (induction ss) auto
  then show "pool_ok cfg n (touchSession p now s)" unfolding touchSession_def by (intro same_keys_ok[OF assms(2)]) (simp only:)
qed (use assms(1) in \<open>simp_all add: touchSession_def workers_ok_def\<close>)

lemma takeConnSlot_ok:
  assumes "workers_ok cfg s" and "pool_ok cfg 0 s" and "at s p x" and "x \<in> {Connecting, Evicting}"
    and "sd_connSlots s < lm_MaxOpenConnections cfg"
  shows "sched_ok cfg (takeConnSlot p s)"
proof -
  let ?t = "s\<lparr>sd_connSlots := Suc (sd_connSlots s)\<rparr>"
  have ok: "workers_ok cfg ?t" using assms(1) by (rule workers_ok_other) simp_all
  note ok0 = pool_okD[OF assms(2)]
  have p: "p \<in> fst ` set (sd_workers s)" using assms(3) by (force simp: at_def)
  have "dialing (enter p Dialing ?t) = Suc (dialing s)" using dialing_enter[OF ok, of p x Dialing] assms(3,4) by auto
  moreover have "at (enter p Dialing ?t) q Blocked \<longleftrightarrow> at s q Blocked" for q
    using at_unique[OF assms(1,3), of Blocked] assms(4) by (auto simp: at_enter)
  moreover have "q \<notin> fst ` set (sd_sessions s)" if "at (enter p Dialing ?t) q ph" "unconnected ph" for q ph
    using that ok0(4) assms(3,4) by (auto simp: at_enter unconnected_def split: if_splits)
  moreover have "sd_waiters s = []" using ok0(7) assms(5) by auto
  ultimately have "pool_ok cfg 0 (takeConnSlot p s)" using ok0 assms(5) unfolding takeConnSlot_def by (intro pool_okI) simp_all
  with ok show ?thesis by (simp add: sched_ok_def takeConnSlot_def)
qed

lemma awaitConnSlot_ok:
  assumes "workers_ok cfg s" and "pool_ok cfg 0 s" and "at s p Evicting"
  shows "sched_ok cfg (awaitConnSlot cfg p s)"
proof (cases "sd_connSlots s < lm_MaxOpenConnections cfg")
  case False
  let ?t = "s\<lparr>sd_waiters := sd_waiters s @ [p]\<rparr>"
  have ok: "workers_ok cfg ?t" using assms(1) by (rule workers_ok_other) simp_all
  note ok0 = pool_okD[OF assms(2)]
  have p: "p \<in> fst ` set (sd_workers s)" using assms(3) by (force simp: at_def)
  have new: "p \<notin> set (sd_waiters s)" using ok0(6)[of p] at_unique[OF assms(1,3), of Blocked] by auto
  have "dialing (enter p Blocked ?t) = dialing s" using dialing_enter[OF ok, of p Evicting Blocked] assms(3) by simp
  moreover have "at (enter p Blocked ?t) q Blocked \<longleftrightarrow> q \<in> set (sd_waiters s @ [p])" for q
    using ok0(6)[of q] p by (auto simp: at_enter)
  moreover have "q \<notin> fst ` set (sd_sessions s)" if "at (enter p Blocked ?t) q ph" "unconnected ph" for q ph
    using that ok0(4) assms(3) by (auto simp: at_enter unconnected_def split: if_splits)
  ultimately have "pool_ok cfg 0 (awaitConnSlot cfg p s)" using ok0 False new unfolding awaitConnSlot_def by (intro pool_okI) simp_all
  with ok False show ?thesis by (simp add: sched_ok_def awaitConnSlot_def)
qed (use takeConnSlot_ok[OF assms] in \<open>simp add: awaitConnSlot_def\<close>)

lemma acquireConnSlot_ok:
  assumes "workers_ok cfg s" and "pool_ok cfg 0 s" and "at s p Connecting"
  shows "sched_ok cfg (acquireConnSlot cfg p s)"
proof (cases "sd_connSlots s < lm_MaxOpenConnections cfg")
  case False
  note e = evictForCapacity_ok[OF assms(1,2)]
  have "pool_ok cfg 0 (enter p Evicting (evictForCapacity s))"
    by (rule pool_ok_enter[OF e(1,2), of p Connecting]) (use assms(3) e(3) in \<open>auto simp: unconnected_def\<close>)
  with e(2) False show ?thesis by (simp add: acquireConnSlot_def sched_ok_def)
qed (use takeConnSlot_ok[OF assms] in \<open>simp add: acquireConnSlot_def\<close>)

lemma giveUp_ok:
  assumes "workers_ok cfg s" and "pool_ok cfg 0 s" and "at s p x" and "x \<in> {Blocked, Evicting}"
  defines "t \<equiv> enter p Connecting (s\<lparr>sd_waiters := removeAll p (sd_waiters s)\<rparr>)"
  shows "workers_ok cfg t \<and> pool_ok cfg 0 t \<and> at t p Connecting"
proof -
  let ?s = "s\<lparr>sd_waiters := removeAll p (sd_waiters s)\<rparr>"
  have ok: "workers_ok cfg ?s" using assms(1) by (rule workers_ok_other) simp_all
  note ok0 = pool_okD[OF assms(2)]
  have p: "p \<in> fst ` set (sd_workers s)" using assms(3) by (force simp: at_def)
  have "dialing t = dialing s" using dialing_enter[OF ok, of p x Connecting] assms(3,4) unfolding t_def by auto
  moreover have "at t q Blocked \<longleftrightarrow> q \<in> set (removeAll p (sd_waiters s))" for q
    using ok0(6)[of q] unfolding t_def by (auto simp: at_enter)
  moreover have "q \<notin> fst ` set (sd_sessions s)" if "at t q ph" "unconnected ph" for q ph
    using that ok0(4) assms(3,4) unfolding t_def by (auto simp: at_enter unconnected_def split: if_splits)
  moreover have "sd_waiters s \<noteq> []" if "removeAll p (sd_waiters s) \<noteq> []" using that by auto
  ultimately have "pool_ok cfg 0 t" using ok0 by (intro pool_okI) (auto simp: t_def distinct_removeAll)
  with ok p show ?thesis by (simp add: t_def at_enter)
qed

lemma update_new_key: "k \<notin> fst ` set xs \<Longrightarrow> AList.update k v xs = xs @ [(k, v)]"
  by (induction xs) auto

lemma connected_ok:
  assumes "workers_ok cfg s" and "pool_ok cfg 0 s" and "at s p Dialing"
  shows "sched_ok cfg (enter p Syncing (keepSession p now i s))"
proof -
  let ?t = "keepSession p now i s"
  have ok: "workers_ok cfg ?t" using assms(1) by (rule workers_ok_other) (simp_all add: keepSession_def)
  note ok0 = pool_okD[OF assms(2)]
  have new: "p \<notin> fst ` set (sd_sessions s)" using ok0(4)[OF assms(3)] by (simp add: unconnected_def)
  then have ss: "sd_sessions ?t = sd_sessions s @ [(p, \<lparr>ps_lastUsed = now, ps_idleTimeout = 2 * i * second + 60 * second\<rparr>)]"
    by (simp add: keepSession_def update_new_key)
  have "dialing s = Suc (dialing (enter p Syncing ?t))" using dialing_enter[OF ok, of p Dialing Syncing] assms(3)
    by (simp add: keepSession_def)
  moreover have "at (enter p Syncing ?t) q Blocked \<longleftrightarrow> at s q Blocked" for q
    using at_unique[OF assms(1,3), of Blocked] by (auto simp: at_enter keepSession_def)
  moreover have "q \<notin> insert p (fst ` set (sd_sessions s))" if "at (enter p Syncing ?t) q ph" "unconnected ph" for q ph
    using that ok0(4) by (auto simp: at_enter unconnected_def keepSession_def split: if_splits)
  ultimately have "pool_ok cfg 0 (enter p Syncing ?t)" using ok0 new
    by (intro pool_okI) (simp_all add: ss, simp_all add: keepSession_def)
  with ok show ?thesis by (simp add: sched_ok_def)
qed

lemma undialed_ok:
  assumes "workers_ok cfg s" and "pool_ok cfg 0 s" and "at s p Dialing"
  shows "pool_ok cfg (Suc 0) (enter p Connecting s)"
proof -
  note ok0 = pool_okD[OF assms(2)]
  have "dialing s = Suc (dialing (enter p Connecting s))" using dialing_enter[OF assms(1,3), of Connecting] by simp
  moreover have "at (enter p Connecting s) q Blocked \<longleftrightarrow> at s q Blocked" for q
    using at_unique[OF assms(1,3), of Blocked] by (auto simp: at_enter)
  moreover have "q \<notin> fst ` set (sd_sessions s)" if "at (enter p Connecting s) q ph" "unconnected ph" for q ph
    using that ok0(4) assms(3) by (auto simp: at_enter unconnected_def split: if_splits)
  ultimately show ?thesis using ok0 by (intro pool_okI) simp_all
qed

lemma release_dialed:
  assumes "workers_ok cfg s" and "pool_ok cfg 0 s" and "at s p Dialing"
  defines "t \<equiv> releaseConnSlot (enter p Connecting s)"
  shows "workers_ok cfg t \<and> pool_ok cfg 0 t \<and> at t p Connecting"
proof -
  note ok1 = undialed_ok[OF assms(1-3)]
  have "p \<in> fst ` set (sd_workers s)" using assms(3) by (force simp: at_def)
  then have "at (enter p Connecting s) p Connecting" by (simp add: at_enter)
  then show ?thesis using assms(1) releaseConnSlot_ok[OF _ ok1] releaseConnSlot_at[OF _ ok1, of p Connecting] by (simp add: t_def)
qed

lemma start_ok:
  assumes "sched_ok cfg s"
  shows "sched_ok cfg (startDue cfg rt s)"
proof -
  from assms have ok: "workers_ok cfg s" "pool_ok cfg 0 s" by (simp_all add: sched_ok_def)
  let ?p = "rt_ProfileID rt"
  let ?t = "run_begin ?p (s\<lparr>sd_slots := Suc (sd_slots s), sd_running := ?p # sd_running s\<rparr>)"
  have "workers_ok cfg ?t" if "?p \<notin> set (sd_running s)" "sd_slots s < lm_MaxConcurrency cfg"
    using ok(1) that by (auto simp: workers_ok_def run_begin_def)
  moreover have "pool_ok cfg 0 ?t"
    using pool_okD[OF ok(2)] by (intro pool_okI) (auto simp: run_begin_def dialing_def at_def unconnected_def)
  ultimately show ?thesis using assms by (simp add: sched_ok_def startDue_def tryStart_def)
qed

lemma exit_ok:
  assumes "sched_ok cfg s" and "at s p Finishing"
  shows "sched_ok cfg (run_forget p s)"
proof -
  from assms(1) have ok: "workers_ok cfg s" "pool_ok cfg 0 s" by (simp_all add: sched_ok_def)
  let ?ws = "AList.delete p (sd_workers s)"
  have p: "p \<in> fst ` set (sd_workers s)" using assms(2) by (force simp: at_def)
  have "map fst (AList.delete p ws) = removeAll p (map fst ws)" for ws :: "(int \<times> phase) list" by (induction ws) auto
  note keys = this[of "sd_workers s"]
  have "Suc (length ?ws) = length (sd_workers s)" using ok(1) p by (intro length_delete_key) (simp_all add: workers_ok_def)
  with ok(1) keys have "workers_ok cfg (run_forget p s)" by (simp add: workers_ok_def run_forget_def distinct_removeAll)
  moreover have other: "at (run_forget p s) q x \<longleftrightarrow> at s q x \<and> q \<noteq> p" for q x by (auto simp: at_def run_forget_def AList.delete_eq)
  have "p \<notin> set (sd_waiters s)" using pool_okD(6)[OF ok(2), of p] at_unique[OF ok(1) assms(2), of Blocked] by auto
  moreover have "filter (\<lambda>w. snd w = Dialing) ?ws = filter (\<lambda>w. snd w = Dialing) (sd_workers s)"
  proof -
    have "fst w \<noteq> p" if "w \<in> set (sd_workers s)" "snd w = Dialing" for w
    proof
      assume "fst w = p"
      with that have "at s p Dialing" unfolding at_def by (metis prod.collapse)
      with at_unique[OF ok(1) assms(2)] show False by blast
    qed
    then show ?thesis by (auto simp: AList.delete_eq filter_filter intro!: filter_cong split: prod.splits) blast
  qed
  then have "dialing (run_forget p s) = dialing s" by (simp add: dialing_def run_forget_def)
  ultimately have "pool_ok cfg 0 (run_forget p s)" using pool_okD[OF ok(2)]
    by (intro pool_okI) (simp_all add: other, simp_all add: run_forget_def, blast+)
  with \<open>workers_ok cfg (run_forget p s)\<close> show ?thesis by (simp add: sched_ok_def)
qed

lemma look_ok:
  assumes "workers_ok cfg s" and "pool_ok cfg 0 s" and "at s p Checking"
  shows "sched_ok cfg (enter p (if map_of (sd_sessions s) p = None then Connecting else Probing) s)"
  using assms(1) pool_ok_enter[OF assms(2,1,3)] by (auto simp: sched_ok_def unconnected_def map_of_eq_None_iff)

lemma reuse_ok:
  assumes "workers_ok cfg s" and "pool_ok cfg 0 s" and "at s p Probing"
  shows "sched_ok cfg (enter p Syncing (touchSession p now s))"
proof -
  note t = touchSession_ok[OF assms(1,2), of p now]
  have "pool_ok cfg 0 (enter p Syncing (touchSession p now s))"
    by (rule pool_ok_enter[OF t(1,2), of p Probing]) (simp_all add: t(3) assms(3) unconnected_def)
  with t(2) show ?thesis by (simp add: sched_ok_def)
qed

lemma renew_ok:
  assumes "workers_ok cfg s" and "pool_ok cfg 0 s" and "at s p Probing"
  shows "sched_ok cfg (enter p Connecting (dropSession p g s))"
proof -
  note d = dropSession_ok[OF assms(1,2), of p g]
  have "p \<notin> fst ` set (sd_sessions (dropSession p g s))"
    by (auto simp: dropSession_def map_of_eq_None_iff split: option.splits)
  then have "pool_ok cfg 0 (enter p Connecting (dropSession p g s))"
    by (intro pool_ok_enter[OF d(1,2), of p Probing]) (simp_all add: dropSession_at[OF assms])
  with d(2) show ?thesis by (simp add: sched_ok_def)
qed

lemma left_ok:
  assumes "workers_ok cfg s" and "pool_ok cfg 0 s" and "0 < sd_leaving s"
  shows "sched_ok cfg (run_release s)"
proof -
  have "at (run_release s) = at s" "dialing (run_release s) = dialing s" by (simp_all add: fun_eq_iff at_def dialing_def run_release_def)
  with pool_okD[OF assms(2)] have "pool_ok cfg 0 (run_release s)" by (intro pool_okI) (simp_all, simp_all add: run_release_def)
  with assms(1,3) show ?thesis by (auto simp: sched_ok_def workers_ok_def run_release_def)
qed

lemma closed_ok:
  assumes "workers_ok cfg s" and "pool_ok cfg 0 s" and "0 < sd_closing s"
  shows "sched_ok cfg (releaseConnSlot (s\<lparr>sd_closing := sd_closing s - 1\<rparr>))"
proof -
  let ?t = "s\<lparr>sd_closing := sd_closing s - 1\<rparr>"
  have "workers_ok cfg ?t" using assms(1) by (rule workers_ok_other) simp_all
  moreover have "pool_ok cfg (Suc 0) ?t" using pool_okD[OF assms(2)] assms(3) by (intro pool_okI) simp_all
  ultimately show ?thesis using releaseConnSlot_ok by (simp add: sched_ok_def)
qed

lemma interrupt_ok:
  assumes "workers_ok cfg s" and "pool_ok cfg 0 s"
  shows "sched_ok cfg (snd (interrupt s))"
proof -
  have "workers_ok cfg (s\<lparr>sd_cancelled := True\<rparr>)" using assms(1) by (rule workers_ok_other) simp_all
  moreover have "pool_ok cfg 0 (s\<lparr>sd_cancelled := True\<rparr>)" using pool_okD[OF assms(2)] by (intro pool_okI) simp_all
  ultimately show ?thesis by (simp add: sched_ok_def interrupt_def)
qed

lemma reorder_ok:
  assumes "workers_ok cfg s" and "pool_ok cfg 0 s" and "mset ss = mset (sd_sessions s)"
  shows "sched_ok cfg (s\<lparr>sd_sessions := ss\<rparr>)"
proof -
  have "workers_ok cfg (s\<lparr>sd_sessions := ss\<rparr>)" using assms(1) by (rule workers_ok_other) simp_all
  moreover have "mset (map fst ss) = mset (map fst (sd_sessions s))" using assms(3) by simp
  ultimately show ?thesis using same_keys_ok[OF assms(2)] by (simp add: sched_ok_def)
qed

lemma give_up_ok:
  assumes "workers_ok cfg s" and "pool_ok cfg 0 s" and "at s p Blocked \<or> at s p Evicting"
  shows "sched_ok cfg (finish p ds (s\<lparr>sd_waiters := removeAll p (sd_waiters s), sd_workers := setPhase p Connecting (sd_workers s)\<rparr>))"
proof -
  let ?t = "enter p Connecting (s\<lparr>sd_waiters := removeAll p (sd_waiters s)\<rparr>)"
  from assms(3) obtain x where "at s p x" "x \<in> {Blocked, Evicting}" by auto
  from giveUp_ok[OF assms(1,2) this] have "workers_ok cfg ?t" "pool_ok cfg 0 ?t" "at ?t p Connecting" by simp_all
  from finish_ok[OF this, of ds] show ?thesis by (simp add: enter_def)
qed

lemma connect_failed_ok:
  assumes "workers_ok cfg s" and "pool_ok cfg 0 s" and "at s p Dialing"
  shows "sched_ok cfg (finish p ds (releaseConnSlot (enter p Connecting s)))"
  using release_dialed[OF assms] finish_ok[of cfg "releaseConnSlot (enter p Connecting s)" p Connecting ds] by simp

lemma guarded_Some [simp]: "guarded b s = Some t \<longleftrightarrow> b \<and> t = s"
  by (auto simp: guarded_def)

lemmas steps_ok = look_ok reuse_ok renew_ok acquireConnSlot_ok awaitConnSlot_ok give_up_ok connected_ok connect_failed_ok
  left_ok closed_ok interrupt_ok reorder_ok

lemma happen_ok:
  assumes "sched_ok cfg s" and "happen cfg ev s = Some s'"
  shows "sched_ok cfg s'"
proof -
  from assms(1) have ok: "workers_ok cfg s" "pool_ok cfg 0 s" by (simp_all add: sched_ok_def)
  note finishing = finish_ok[OF ok, of _ Checking] finish_ok[OF ok, of _ Connecting] finish_ok[OF ok, of _ Syncing]
  show ?thesis
  proof (cases ev)
    case (Tick now)
    with assms(2) closeIdleSessions_ok[OF ok, of now] show ?thesis by (auto simp: sched_ok_def)
  next
    case Stop
    with assms(2) stop_sessions_ok[OF ok] show ?thesis by simp
  next
    case Next
    with assms show ?thesis by (auto simp: dispatch_next_def intro: start_ok split: dispatching.splits list.splits)
  qed (use assms exit_ok steps_ok[OF ok] finishing in \<open>simp_all only: happen.simps guarded_Some option.inject,
      auto simp: dispatch_free_def dispatch_busy_def dispatch_listed_def Let_def split: dispatching.splits\<close>)
qed

section \<open>The specification: a bounded pool\<close>

text \<open>
  What the scheduler promises, without goroutines, channels and maps, as the actions that can be
  seen of it. At most \<open>C\<close> profiles are polled, each by one poll; at most \<open>M\<close> connections are
  open; a poll dials only when its profile has no connection; it waits only while all \<open>M\<close> are
  open, and who waits is served in turn; an idle connection is given up for a poll only when all
  \<open>M\<close> are open, and never under a poll of its profile; only the shutdown closes the connection
  of a poll that is not its own.
\<close>

datatype act =
    Begin int
  | End int
  | Dial int
  | Wait int
  | Leave int
  | Keep int
  | Fail int
  | Drop int bool
  | Evict int
  | Expire int
  | Shut int
  | HangUp

record pool =
  sp_polling :: "int set"
  sp_dialing :: "int set"
  sp_waiting :: "int list"
  sp_cached :: "int set"
  sp_closing :: nat

definition pool_start :: pool where
  "pool_start = \<lparr>sp_polling = {}, sp_dialing = {}, sp_waiting = [], sp_cached = {}, sp_closing = 0\<rparr>"

definition sp_open :: "pool \<Rightarrow> nat" where
  "sp_open a = card (sp_cached a) + card (sp_dialing a) + sp_closing a"

definition needs_connection :: "int \<Rightarrow> pool \<Rightarrow> bool" where
  "needs_connection p a \<longleftrightarrow> p \<in> sp_polling a \<and> p \<notin> sp_cached a \<and> p \<notin> sp_dialing a"

definition leave_cache :: "int \<Rightarrow> pool \<Rightarrow> pool" where
  "leave_cache p a = a\<lparr>sp_cached := sp_cached a - {p}\<rparr>"

definition close_later :: "int \<Rightarrow> pool \<Rightarrow> pool" where
  "close_later p a = (leave_cache p a)\<lparr>sp_closing := Suc (sp_closing a)\<rparr>"

definition allowed :: "bool \<Rightarrow> 'a \<Rightarrow> 'a option" where
  "allowed b a = (if b then Some a else None)"

fun pool_act :: "nat \<Rightarrow> nat \<Rightarrow> act \<Rightarrow> pool \<Rightarrow> pool option" where
  "pool_act C M (Begin p) a = allowed (p \<notin> sp_polling a \<and> card (sp_polling a) < C) (a\<lparr>sp_polling := insert p (sp_polling a)\<rparr>)"
| "pool_act C M (End p) a = allowed (p \<in> sp_polling a \<and> p \<notin> sp_dialing a \<and> p \<notin> set (sp_waiting a)) (a\<lparr>sp_polling := sp_polling a - {p}\<rparr>)"
| "pool_act C M (Dial p) a = allowed (needs_connection p a \<and> sp_open a < M \<and> (sp_waiting a = [] \<or> p = hd (sp_waiting a)))
     (a\<lparr>sp_dialing := insert p (sp_dialing a), sp_waiting := tl (sp_waiting a)\<rparr>)"
| "pool_act C M (Wait p) a = allowed (needs_connection p a \<and> sp_open a = M \<and> p \<notin> set (sp_waiting a)) (a\<lparr>sp_waiting := sp_waiting a @ [p]\<rparr>)"
| "pool_act C M (Leave p) a = allowed (p \<in> set (sp_waiting a)) (a\<lparr>sp_waiting := removeAll p (sp_waiting a)\<rparr>)"
| "pool_act C M (Keep p) a = allowed (p \<in> sp_dialing a) (a\<lparr>sp_dialing := sp_dialing a - {p}, sp_cached := insert p (sp_cached a)\<rparr>)"
| "pool_act C M (Fail p) a = allowed (p \<in> sp_dialing a) (a\<lparr>sp_dialing := sp_dialing a - {p}\<rparr>)"
| "pool_act C M (Drop p graceful) a = allowed (p \<in> sp_cached a \<and> p \<in> sp_polling a) (if graceful then close_later p a else leave_cache p a)"
| "pool_act C M (Evict p) a = allowed (p \<in> sp_cached a \<and> p \<notin> sp_polling a \<and> sp_open a = M) (close_later p a)"
| "pool_act C M (Expire p) a = allowed (p \<in> sp_cached a \<and> p \<notin> sp_polling a) (close_later p a)"
| "pool_act C M (Shut p) a = allowed (p \<in> sp_cached a) (close_later p a)"
| "pool_act C M HangUp a = allowed (0 < sp_closing a) (a\<lparr>sp_closing := sp_closing a - 1\<rparr>)"

text \<open>The actions of each step. A permit that is given back goes to the first worker that waits.\<close>

definition handOver :: "scheduler \<Rightarrow> act list" where
  "handOver s = map Dial (take 1 (sd_waiters s))"

definition dropActs :: "int \<Rightarrow> bool list \<Rightarrow> scheduler \<Rightarrow> act list" where
  "dropActs p drops s = (if p \<in> fst ` set (sd_sessions s)
     then (case drops of [] \<Rightarrow> [] | graceful # _ \<Rightarrow> Drop p graceful # (if graceful then [] else handOver s)) else [])"

definition expired :: "time \<Rightarrow> scheduler \<Rightarrow> int \<times> pooled \<Rightarrow> bool" where
  "expired now s = (\<lambda>(p, c). \<not> (p \<in> set (sd_running s) \<or> now - ps_lastUsed c < ps_idleTimeout c))"

fun acts :: "limits \<Rightarrow> event \<Rightarrow> scheduler \<Rightarrow> act list" where
  "acts cfg Next s = (case sd_loop s of
     Starting (rt # due) \<Rightarrow> if Assignment (Some rt) \<noteq> None \<and> fst (tryStart cfg (rt_ProfileID rt) s) then [Begin (rt_ProfileID rt)] else []
   | _ \<Rightarrow> [])"
| "acts cfg (Abandon p drops) s = dropActs p drops s"
| "acts cfg (Renew p graceful) s = dropActs p [graceful] s"
| "acts cfg (Refused p drops) s = dropActs p drops s"
| "acts cfg (Acquire p) s = (if sd_connSlots s < lm_MaxOpenConnections cfg then [Dial p]
     else (case evictee s of None \<Rightarrow> [] | Some (q, c) \<Rightarrow> [Evict q]))"
| "acts cfg (Await p) s = (if sd_connSlots s < lm_MaxOpenConnections cfg then [Dial p] else [Wait p])"
| "acts cfg (GiveUp p drops) s = (if p \<in> set (sd_waiters s) then [Leave p] else [])"
| "acts cfg (Connected p now interval) s = [Keep p]"
| "acts cfg (ConnectFailed p drops) s = Fail p # handOver s"
| "acts cfg (Synced p drops) s = dropActs p drops s"
| "acts cfg (Exit p) s = [End p]"
| "acts cfg Closed s = HangUp # handOver s"
| "acts cfg (Tick now) s = map (\<lambda>x. Expire (fst x)) (filter (expired now s) (sd_sessions s))"
| "acts cfg Stop s = map (\<lambda>x. Shut (fst x)) (sd_sessions s)"
| "acts cfg ev s = []"

definition trace :: "limits \<Rightarrow> event list \<Rightarrow> scheduler \<Rightarrow> act list" where
  "trace cfg = labels (happen cfg) (acts cfg)"

definition abs_pool :: "scheduler \<Rightarrow> pool" where
  "abs_pool s = \<lparr>sp_polling = set (sd_running s), sp_dialing = {p. at s p Dialing}, sp_waiting = sd_waiters s,
     sp_cached = fst ` set (sd_sessions s), sp_closing = sd_closing s\<rparr>"


subsection \<open>Matching the steps\<close>

abbreviation pool_acts :: "limits \<Rightarrow> act list \<Rightarrow> pool \<Rightarrow> pool option" where
  "pool_acts cfg \<equiv> runs (pool_act (lm_MaxConcurrency cfg) (lm_MaxOpenConnections cfg))"

lemma allowed_simps [simp]: "allowed b x = Some y \<longleftrightarrow> b \<and> y = x" "allowed True x = Some x"
  by (auto simp: allowed_def)

lemma abs_pool_simps [simp]:
  "sp_polling (abs_pool s) = set (sd_running s)" "sp_waiting (abs_pool s) = sd_waiters s"
  "sp_cached (abs_pool s) = fst ` set (sd_sessions s)" "sp_closing (abs_pool s) = sd_closing s"
  "p \<in> sp_dialing (abs_pool s) \<longleftrightarrow> at s p Dialing"
  by (simp_all add: abs_pool_def)

lemma abs_pool_eqI:
  assumes "set (sd_running s) = sp_polling a" "sd_waiters s = sp_waiting a" "fst ` set (sd_sessions s) = sp_cached a" "sd_closing s = sp_closing a"
    and "\<And>p. at s p Dialing \<longleftrightarrow> p \<in> sp_dialing a"
  shows "a = abs_pool s"
  using assms by (cases a) (auto simp: abs_pool_def)

lemma card_dialing:
  assumes "workers_ok cfg s"
  shows "card {p. at s p Dialing} = dialing s"
proof -
  let ?D = "filter (\<lambda>w. snd w = Dialing) (sd_workers s)"
  have "{p. at s p Dialing} = set (map fst ?D)" by (force simp: at_def)
  moreover have "distinct (map fst ?D)" using assms by (simp add: workers_ok_def distinct_map_filter)
  ultimately show ?thesis using distinct_card by (fastforce simp: dialing_def)
qed

lemma card_cached:
  assumes "pool_ok cfg n s"
  shows "card (fst ` set (sd_sessions s)) = length (sd_sessions s)"
  using distinct_card[OF pool_okD(1)[OF assms]] by simp

lemma abs_open:
  assumes "workers_ok cfg s" and "pool_ok cfg n s"
  shows "sp_open (abs_pool s) + n = sd_connSlots s"
  using card_dialing[OF assms(1)] card_cached[OF assms(2)] pool_okD(2)[OF assms(2)] by (simp add: sp_open_def) (simp add: abs_pool_def)

lemma working: "workers_ok cfg s \<Longrightarrow> at s p x \<Longrightarrow> p \<in> set (sd_running s)"
  by (force simp: workers_ok_def at_def)

lemma abs_needs:
  assumes "workers_ok cfg s" and "pool_ok cfg n s" and "at s p x" and "x \<in> {Connecting, Evicting, Blocked}"
  shows "needs_connection p (abs_pool s)"
  using working[OF assms(1,3)] pool_okD(4)[OF assms(2,3)] at_unique[OF assms(1,3), of Dialing] assms(4)
  by (auto simp: needs_connection_def unconnected_def)


lemma hands_over:
  assumes "workers_ok cfg s" and "pool_ok cfg (Suc n) s"
  shows "pool_acts cfg (handOver s) (abs_pool s) = Some (abs_pool (releaseConnSlot s))"
proof (cases "sd_waiters s")
  case Nil
  then show ?thesis by (simp add: handOver_def) (rule abs_pool_eqI, simp_all add: releaseConnSlot_def)
next
  case (Cons p ps)
  then have p: "at s p Blocked" using pool_okD(6)[OF assms(2), of p] by simp
  have "sp_open (abs_pool s) < lm_MaxOpenConnections cfg" using abs_open[OF assms] pool_okD(3)[OF assms(2)] by simp
  moreover have "p \<in> fst ` set (sd_workers s)" using p by (force simp: at_def)
  ultimately show ?thesis using Cons abs_needs[OF assms p]
    by (simp add: handOver_def releaseConnSlot_def) (rule abs_pool_eqI, simp_all add: at_enter)
qed

lemma forgets: "leave_cache p (abs_pool s) = abs_pool (forgetSession p s)"
  by (rule abs_pool_eqI) (simp_all add: leave_cache_def, simp_all add: forgetSession_def)

lemma closes_later: "close_later p (abs_pool s) = abs_pool (closeSession True (forgetSession p s))"
  unfolding close_later_def forgets by (rule abs_pool_eqI) (simp_all add: closeSession_def, simp_all add: forgetSession_def)

text \<open>One lemma for each way a connection leaves the pool.\<close>

lemma drops:
  assumes "workers_ok cfg s" and "pool_ok cfg n s" and "p \<in> set (sd_running s)"
  shows "pool_acts cfg (dropActs p [g] s) (abs_pool s) = Some (abs_pool (dropSession p g s))"
proof (cases "map_of (sd_sessions s) p")
  case (Some c)
  then have p: "p \<in> fst ` set (sd_sessions s)" by (force dest: map_of_SomeD)
  have over: "handOver s = handOver (forgetSession p s)" by (simp add: handOver_def forgetSession_def)
  have "workers_ok cfg (forgetSession p s)" using assms(1) by simp
  from hands_over[OF this forgetSession_ok[OF assms(2) p]] Some p assms(3) show ?thesis
    by (simp add: dropActs_def dropSession_def forgets closes_later over) (simp add: closeSession_def)
next
  case None
  then show ?thesis by (simp add: dropActs_def dropSession_def) (simp add: map_of_eq_None_iff)
qed
















lemma abs_unseen [simp]:
  "abs_pool (s\<lparr>sd_loop := f\<rparr>) = abs_pool s" "abs_pool (s\<lparr>sd_cancelled := b\<rparr>) = abs_pool s" "abs_pool (run_release s) = abs_pool s"
  "abs_pool (touchSession p now s) = abs_pool s"
proof -
  have "map fst (map (\<lambda>(q, c). (q, if q = p then c\<lparr>ps_lastUsed := now\<rparr> else c)) ss) = map fst ss"
    for ss :: "(int \<times> pooled) list" by (induction ss) auto
  note this[of "sd_sessions s", THEN arg_cong[of _ _ set], unfolded set_map[of fst]]
  then show "abs_pool (touchSession p now s) = abs_pool s" unfolding abs_pool_def by (simp add: touchSession_def)
qed (simp_all add: abs_pool_def run_release_def at_def)



lemma New_scheduler_ok: "sched_ok cfg New_scheduler" "abs_pool New_scheduler = pool_start"
  by (auto simp: sched_ok_def workers_ok_def New_scheduler_def abs_pool_def pool_start_def dialing_def at_def intro!: pool_okI)

section \<open>Dispatching\<close>

text \<open>What the store answers to \<^verbatim>\<open>ListDue\<close>, and the polls a run has begun.\<close>

definition listDue_of :: "string \<Rightarrow> time \<Rightarrow> db \<Rightarrow> nat \<Rightarrow> error + EmailProfileRuntime list" where
  "listDue_of inst now d n = (case ListDue inst (int n) now d of Inl e \<Rightarrow> Inl e | Inr (due, d') \<Rightarrow> Inr due)"

definition begun :: "act list \<Rightarrow> int list" where
  "begun as = concat (map (\<lambda>a. case a of Begin p \<Rightarrow> [p] | _ \<Rightarrow> []) as)"

lemma begun_simps [simp]: "begun [] = []" "begun (xs @ ys) = begun xs @ begun ys" "begun (a # xs) = (case a of Begin p \<Rightarrow> [p] | _ \<Rightarrow> []) @ begun xs"
  by (simp_all add: begun_def)

definition loop_event :: "event \<Rightarrow> bool" where
  "loop_event ev \<longleftrightarrow> (case ev of ReadFree \<Rightarrow> True | ReadBusy \<Rightarrow> True | Listed f \<Rightarrow> True | Next \<Rightarrow> True | _ \<Rightarrow> False)"

text \<open>Everybody but the loop only ends polls and gives slots back.\<close>

lemma closeSession_rest [simp]: "sd_slots (closeSession g s) = sd_slots s" "sd_loop (closeSession g s) = sd_loop s"
  by (auto simp: closeSession_def releaseConnSlot_def split: list.splits)

lemma dropSession_rest [simp]:
  "sd_slots (dropSession p g s) = sd_slots s" "sd_loop (dropSession p g s) = sd_loop s" "sd_running (dropSession p g s) = sd_running s"
  by (auto simp: dropSession_def forgetSession_def split: option.splits)

lemma finish_rest [simp]:
  "sd_slots (finish p ds s) = sd_slots s" "sd_loop (finish p ds s) = sd_loop s" "sd_running (finish p ds s) = sd_running s"
proof -
  have "sd_slots (fold (dropSession p) ds s) = sd_slots s \<and> sd_loop (fold (dropSession p) ds s) = sd_loop s \<and>
    sd_running (fold (dropSession p) ds s) = sd_running s" by (induction ds arbitrary: s) simp_all
  then show "sd_slots (finish p ds s) = sd_slots s" "sd_loop (finish p ds s) = sd_loop s" "sd_running (finish p ds s) = sd_running s"
    by (simp_all add: finish_def)
qed

lemma closeIdle_rest:
  "sd_slots (closeIdleSessions now s) = sd_slots s" "sd_loop (closeIdleSessions now s) = sd_loop s"
  "sd_running (closeIdleSessions now s) = sd_running s"
proof -
  let ?f = "\<lambda>(p, c) s. if p \<in> set (sd_running s) \<or> now - ps_lastUsed c < ps_idleTimeout c then s else closeSession True (forgetSession p s)"
  have "sd_slots (fold ?f xs t) = sd_slots t \<and> sd_loop (fold ?f xs t) = sd_loop t \<and> sd_running (fold ?f xs t) = sd_running t" for xs t
    by (induction xs arbitrary: t) (auto simp: forgetSession_def)
  from this[of "sd_sessions s" s] show "sd_slots (closeIdleSessions now s) = sd_slots s" "sd_loop (closeIdleSessions now s) = sd_loop s"
    "sd_running (closeIdleSessions now s) = sd_running s" by (simp_all add: closeIdleSessions_def)
qed

lemma releaseConnSlot_loop [simp]: "sd_loop (releaseConnSlot s) = sd_loop s"
  by (auto simp: releaseConnSlot_def split: list.splits)

lemma conn_rest:
  "sd_slots (acquireConnSlot cfg p s) = sd_slots s" "sd_loop (acquireConnSlot cfg p s) = sd_loop s" "sd_running (acquireConnSlot cfg p s) = sd_running s"
  "sd_slots (awaitConnSlot cfg p s) = sd_slots s" "sd_loop (awaitConnSlot cfg p s) = sd_loop s" "sd_running (awaitConnSlot cfg p s) = sd_running s"
  by (auto simp: acquireConnSlot_def awaitConnSlot_def takeConnSlot_def evictForCapacity_def forgetSession_def split: option.splits)

lemma others_only_leave:
  assumes "happen cfg ev s = Some s'" and "\<not> loop_event ev"
  shows "sd_loop s' = sd_loop s \<and> sd_slots s' \<le> sd_slots s \<and> set (sd_running s') \<subseteq> set (sd_running s)"
  using assms by (cases ev) (auto simp: loop_event_def conn_rest closeIdle_rest touchSession_def keepSession_def run_forget_def run_release_def
      interrupt_def stop_sessions_def closeAllSessions_simps)

lemma others_begin_nothing:
  assumes "\<not> loop_event ev"
  shows "begun (acts cfg ev s) = []"
proof -
  have none: "begun (map (\<lambda>x. Expire (fst x)) xs) = []" "begun (map (\<lambda>x. Shut (fst x)) xs) = []" for xs :: "(int \<times> pooled) list"
    by (induction xs) simp_all
  have over: "begun (handOver s) = []" by (cases "sd_waiters s") (simp_all add: handOver_def)
  have drop: "begun (dropActs p ds s) = []" for p ds
    by (cases ds) (simp_all add: dropActs_def over)
  have evict: "begun (case evictee s of None \<Rightarrow> [] | Some (q, c) \<Rightarrow> [Evict q]) = []" by (cases "evictee s") auto
  show ?thesis using assms by (cases ev) (simp_all add: loop_event_def drop over evict none)
qed

text \<open>
  How far one dispatch has come that found \<open>F\<close> free slots while the profiles \<open>R\<close> were polled, when
  the store has the due rows \<open>L\<close> and the polls \<open>b\<close> have been begun. The limit of the query counts
  the polls \<open>B\<close> that still ran when the loop read them. A row that was passed over was polled then,
  or has been begun, or all slots were taken because \<open>F\<close> polls have been begun.
\<close>

definition passed :: "nat \<Rightarrow> int set \<Rightarrow> int list \<Rightarrow> EmailProfileRuntime \<Rightarrow> bool" where
  "passed F B b rt \<longleftrightarrow> rt_ProfileID rt \<in> B \<union> set b \<or> F \<le> length b"

definition progress :: "limits \<Rightarrow> nat \<Rightarrow> int set \<Rightarrow> EmailProfileRuntime list \<Rightarrow> int list \<Rightarrow> scheduler \<Rightarrow> bool" where
  "progress cfg F R L b s \<longleftrightarrow> sd_slots s + F \<le> lm_MaxConcurrency cfg + length b \<and>
     (case sd_loop s of
        Sized free \<Rightarrow> free = F \<and> b = [] \<and> set (sd_running s) \<subseteq> R
      | Asked n \<Rightarrow> b = [] \<and> (\<exists>B\<subseteq>R. set (sd_running s) \<subseteq> B \<and> n = F + card B)
      | Starting rest \<Rightarrow> (\<exists>B\<subseteq>R. \<exists>done. set (sd_running s) \<subseteq> B \<union> set b \<and> take (F + card B) L = done @ rest \<and> (\<forall>rt\<in>set done. passed F B b rt))
      | Idle \<Rightarrow> (\<exists>B\<subseteq>R. \<forall>rt\<in>set (take (F + card B) L). passed F B b rt))"

lemma passed_mono: "passed F B b rt \<Longrightarrow> passed F B (b @ b') rt"
  by (auto simp: passed_def)

lemma progress_others:
  assumes "progress cfg F R L b s" and "happen cfg ev s = Some s'" and "\<not> loop_event ev"
  shows "progress cfg F R L b s'"
proof -
  have o: "sd_loop s' = sd_loop s" "sd_slots s' \<le> sd_slots s" "set (sd_running s') \<subseteq> set (sd_running s)"
    using others_only_leave[OF assms(2,3)] by blast+
  then have "sd_slots s' + F \<le> lm_MaxConcurrency cfg + length b" using assms(1) by (auto simp: progress_def)
  with assms(1) show ?thesis unfolding progress_def o(1) by (cases "sd_loop s") (use o(3) in \<open>simp, blast\<close> | use o(3) in simp)+
qed

lemma progress_rest:
  assumes "sd_slots s + F \<le> lm_MaxConcurrency cfg + length b" and "B \<subseteq> R" and "set (sd_running s) \<subseteq> B \<union> set b"
    and "take (F + card B) L = done @ rest" and "\<forall>rt\<in>set done. passed F B b rt"
  shows "progress cfg F R L b (s\<lparr>sd_loop := dispatchRest rest\<rparr>)"
  using assms unfolding progress_def dispatchRest_def by (cases rest) auto

text \<open>One row: it is started, or was running, or there is no slot.\<close>

lemma progress_next:
  assumes "progress cfg F R L b s" and "sd_loop s = Starting (rt # rest)" and "\<forall>rt\<in>set L. Assignment (Some rt) \<noteq> None"
  shows "progress cfg F R L (b @ begun (acts cfg Next s)) (dispatch_next cfg rt rest s)"
proof -
  from assms(1,2) obtain B "done" where slots: "sd_slots s + F \<le> lm_MaxConcurrency cfg + length b" and B: "B \<subseteq> R"
    and running: "set (sd_running s) \<subseteq> B \<union> set b" and "take": "take (F + card B) L = done @ rt # rest"
    and "done": "\<forall>rt\<in>set done. passed F B b rt" by (auto simp: progress_def)
  have "rt \<in> set L" using "take" by (metis in_set_conv_decomp in_set_takeD)
  with assms(3) have own: "Assignment (Some rt) \<noteq> None" by blast
  let ?p = "rt_ProfileID rt" let ?b = "b @ begun (acts cfg Next s)" let ?t = "startDue cfg rt s"
  have "begun (acts cfg Next s) = (if fst (tryStart cfg ?p s) then [?p] else [])" using assms(2) own by (simp add: begun_def)
  with own slots running have "sd_slots ?t + F \<le> lm_MaxConcurrency cfg + length ?b" "set (sd_running ?t) \<subseteq> B \<union> set ?b" "passed F B ?b rt"
    by (auto simp: startDue_def tryStart_def run_begin_def passed_def)
  moreover have "\<forall>rt\<in>set (done @ [rt]). passed F B ?b rt" using "done" passed_mono \<open>passed F B ?b rt\<close> by auto
  ultimately show ?thesis using B "take" unfolding dispatch_next_def by (intro progress_rest[of _ _ _ _ B _ _ "done @ [rt]"]) simp_all
qed

lemma progress_step:
  assumes "sched_ok cfg s" and "progress cfg F R L b s" and "happen cfg ev s = Some s'" and "ev \<noteq> ReadFree" and "0 < F"
    and "\<And>f n. ev = Listed f \<Longrightarrow> 0 < n \<Longrightarrow> f n = Inr (take n L)" and "\<forall>rt\<in>set L. Assignment (Some rt) \<noteq> None"
  shows "progress cfg F R L (b @ begun (acts cfg ev s)) s'"
proof (cases "loop_event ev")
  case False
  with progress_others[OF assms(2,3)] show ?thesis by (simp add: others_begin_nothing)
next
  case True
  have card: "card (set (sd_running s)) = length (sd_running s)" using assms(1) distinct_card[of "sd_running s"] by (simp add: sched_ok_def workers_ok_def)
  from True assms(4) consider "ev = ReadBusy" | f where "ev = Listed f" | "ev = Next" by (auto simp: loop_event_def split: event.splits)
  then show ?thesis
  proof cases
    case 1
    with assms(3) obtain free where free: "sd_loop s = Sized free" "s' = dispatch_busy free s" by (auto split: dispatching.splits)
    with assms(2) card have "\<exists>B\<subseteq>R. set (sd_running s) \<subseteq> B \<and> free + length (sd_running s) = F + card B"
      by (intro exI[of _ "set (sd_running s)"]) (simp add: progress_def)
    with assms(2) free 1 show ?thesis by (auto simp: progress_def dispatch_busy_def begun_def)
  next
    case (2 f)
    with assms(3) obtain n where n: "sd_loop s = Asked n" "s' = dispatch_listed (f n) s" by (auto split: dispatching.splits)
    with assms(2) obtain B where B: "B \<subseteq> R" "set (sd_running s) \<subseteq> B" "n = F + card B" and b: "b = []"
      and slots: "sd_slots s + F \<le> lm_MaxConcurrency cfg" by (auto simp: progress_def)
    have "f n = Inr (take n L)" using assms(5,6) 2 B(3) by simp
    with n b slots B 2 show ?thesis using progress_rest[of s F cfg "[]" B R L "[]" "take n L"] by (simp add: dispatch_listed_def)
  next
    case 3
    with assms(3) obtain rt rest where "sd_loop s = Starting (rt # rest)" "s' = dispatch_next cfg rt rest s"
      by (auto split: dispatching.splits list.splits)
    with progress_next[OF assms(2) this(1) assms(7)] 3 show ?thesis by simp
  qed
qed

lemma progress_run:
  assumes "runs (happen cfg) evs s = Some s'" and "sched_ok cfg s" and "progress cfg F R L b s" and "ReadFree \<notin> set evs" and "0 < F"
    and "\<And>f n. Listed f \<in> set evs \<Longrightarrow> 0 < n \<Longrightarrow> f n = Inr (take n L)" and "\<forall>rt\<in>set L. Assignment (Some rt) \<noteq> None"
  shows "progress cfg F R L (b @ begun (labels (happen cfg) (acts cfg) evs s)) s'"
  using assms
proof (induction evs arbitrary: s b)
  case (Cons ev evs)
  then obtain t where t: "happen cfg ev s = Some t" "runs (happen cfg) evs t = Some s'" by (auto simp: bind_eq_Some_conv)
  have "progress cfg F R L (b @ begun (acts cfg ev s)) t"
    by (rule progress_step[OF Cons.prems(2,3) t(1)]) (use Cons.prems(4-7) in \<open>auto simp del: acts.simps\<close>)
  from Cons.IH[OF t(2) happen_ok[OF Cons.prems(2) t(1)] this _ Cons.prems(5) _ Cons.prems(7)] Cons.prems(4,6) t(1) show ?case by simp
qed simp

text \<open>At the end a row is left out only when the slots that were free have been used.\<close>

lemma progress_end:
  assumes "\<forall>rt\<in>set (take (F + card B) L). passed F B b rt" and "finite B" and "distinct (map rt_ProfileID L)" and "rt \<in> set L" and "\<not> F \<le> length b"
  shows "rt_ProfileID rt \<in> B \<union> set b"
proof -
  let ?n = "F + card B"
  have in_take: "rt_ProfileID ` set (take ?n L) \<subseteq> B \<union> set b" using assms(1,5) by (auto simp: passed_def)
  have "length L \<le> ?n"
  proof (rule ccontr)
    assume "\<not> length L \<le> ?n"
    moreover have "distinct (map rt_ProfileID (take ?n L))" using assms(3) by (metis distinct_take take_map)
    ultimately have "card (rt_ProfileID ` set (take ?n L)) = ?n" using distinct_card[of "map rt_ProfileID (take ?n L)"] by simp
    moreover have "card (rt_ProfileID ` set (take ?n L)) \<le> card B + card (set b)"
      using card_mono[OF _ in_take] card_Un_le[of B "set b"] assms(2) by force
    ultimately show False using assms(5) card_length[of b] by linarith
  qed
  with in_take assms(4) show ?thesis by auto
qed

section \<open>Properties\<close>

lemma happens_run: "happens cfg evs s = Some t \<Longrightarrow> (sched_step cfg)\<^sup>*\<^sup>* s t"
proof (induction evs arbitrary: s)
  case (Cons ev evs)
  then obtain u where "happen cfg ev s = Some u" "happens cfg evs u = Some t" by (auto simp: happens_def bind_eq_Some_conv)
  then have "sched_step cfg s u" "(sched_step cfg)\<^sup>*\<^sup>* u t" using Cons.IH unfolding sched_step_def by blast+
  then show ?case by (rule converse_rtranclp_into_rtranclp)
qed (simp add: happens_def)

lemma reachable_ok: "(sched_step cfg)\<^sup>*\<^sup>* New_scheduler s \<Longrightarrow> sched_ok cfg s"
  by (induction rule: rtranclp_induct) (auto simp: sched_step_def New_scheduler_ok(1) intro: happen_ok)

text \<open>Two profiles keep their connections; a third one needs a permit, and a fourth one comes by.\<close>

definition sample_pool_limits :: limits where
  "sample_pool_limits = \<lparr>lm_MaxConcurrency = 2, lm_MaxOpenConnections = 2\<rparr>"

definition sample_due_row :: "int \<Rightarrow> EmailProfileRuntime" where
  "sample_due_row p = \<lparr>rt_ProfileID = p, rt_DomainID = 7, rt_OwnerInstanceID = ''node-a'', rt_AssignmentGeneration = 1, rt_NextCheckAt = None,
     rt_ProviderCursor = None, rt_LastPollStartedAt = None, rt_LastPollFinishedAt = None, rt_LastPollError = '''', rt_CreatedAt = 0, rt_UpdatedAt = 0\<rparr>"

definition sample_dispatch :: "int \<Rightarrow> event list" where
  "sample_dispatch p = [ReadFree, ReadBusy, Listed (\<lambda>n. Inr [sample_due_row p]), Next]"

definition sample_full :: "event list" where
  "sample_full = sample_dispatch 1 @ [Look 1, Acquire 1, Connected 1 100 30, Synced 1 [], Exit 1, Left] @
     sample_dispatch 2 @ [Look 2, Acquire 2, Connected 2 200 30, Synced 2 [], Exit 2, Left] @ sample_dispatch 3 @ [Look 3]"

definition sample_idle :: "int \<Rightarrow> time \<Rightarrow> int \<times> pooled" where
  "sample_idle p t = (p, \<lparr>ps_lastUsed = t, ps_idleTimeout = 120 * second\<rparr>)"

definition sample_third :: scheduler where
  "sample_third = \<lparr>sd_running = [3], sd_slots = 1, sd_leaving = 0, sd_connSlots = 2, sd_waiters = [],
     sd_sessions = [sample_idle 1 100, sample_idle 2 200], sd_closing = 0, sd_workers = [(3, Connecting)], sd_cancelled = False, sd_loop = Idle\<rparr>"

lemma sample_full_run: "happens sample_pool_limits sample_full New_scheduler = Some sample_third"
  by code_simp

lemmas sample_third_reachable = happens_run[OF sample_full_run]

text \<open>
  C7: In every interleaving of the dispatch loop, the polls, the closing connections and the
  shutdown, at most \<^verbatim>\<open>MaxConcurrency\<close> profiles are polled at once and none of them twice; a
  profile has at most one cached connection; and the connections that are open, cached, closing
  or being dialled, are exactly the permits handed out and never more than
  \<^verbatim>\<open>MaxOpenConnections\<close>, so no permit is lost and none is given back twice.
\<close>

theorem polls_and_connections_are_bounded:
  assumes "(sched_step cfg)\<^sup>*\<^sup>* New_scheduler s"
  shows "distinct (sd_running s) \<and> length (sd_running s) \<le> lm_MaxConcurrency cfg \<and> distinct (map fst (sd_sessions s)) \<and>
    length (sd_sessions s) + sd_closing s + dialing s = sd_connSlots s \<and> sd_connSlots s \<le> lm_MaxOpenConnections cfg"
  using reachable_ok[OF assms] pool_okD(1-3)[of cfg 0 s] by (auto simp: sched_ok_def workers_ok_def)

theorem polls_and_connections_are_bounded_witness:
  "length (sd_running sample_third) \<le> 2 \<and> length (sd_sessions sample_third) + sd_closing sample_third + dialing sample_third = 2"
  using polls_and_connections_are_bounded[OF sample_third_reachable] by (simp add: sample_pool_limits_def sample_third_def)



text \<open>
  C40: A dispatch leaves nothing waiting that it could have started. Take any run of the program in
  which the loop goes once through \<^verbatim>\<open>dispatch\<close>, from reading the free slots until it is idle again,
  while polls end and connections come and go in between, and in which the store answers from a
  database in which a profile of this instance is enabled and due. When the dispatch is over, that
  profile was already being polled when it began, or the dispatch has begun its poll, or it has
  begun at least as many polls as slots were free when it began: asking the store for the free slots
  plus the running polls is enough, although the running profiles are still due and come back in
  the answer.
\<close>

theorem dispatch_starts_due_profiles:
  assumes "(sched_step cfg)\<^sup>*\<^sup>* New_scheduler s"
    and "happens cfg (ReadFree # evs) s = Some s'" and "ReadFree \<notin> set evs" and "sd_loop s' = Idle"
    and "\<And>f. Listed f \<in> set evs \<Longrightarrow> f = listDue_of inst now d"
    and "distinct (map rr_profile_id (db_runtime d))" and "inst \<noteq> ''''" and "r \<in> set (db_runtime d)" and "is_due now inst d r"
  shows "rr_profile_id r \<in> set (sd_running s) \<or> rr_profile_id r \<in> set (begun (trace cfg (ReadFree # evs) s)) \<or>
    lm_MaxConcurrency cfg - sd_slots s \<le> length (begun (trace cfg (ReadFree # evs) s))"
proof (cases "lm_MaxConcurrency cfg - sd_slots s = 0")
  case False
  let ?F = "lm_MaxConcurrency cfg - sd_slots s" let ?b = "begun (trace cfg (ReadFree # evs) s)"
  let ?due = "sort_key (\<lambda>r. (rr_next_check_at r, rr_profile_id r)) (filter (is_due now inst d) (db_runtime d))"
  let ?L = "map scanEmailProfileRuntime ?due"
  note ok = reachable_ok[OF assms(1)]
  let ?t = "s\<lparr>sd_loop := Sized ?F\<rparr>"
  from False assms(2) have t: "happen cfg ReadFree s = Some ?t" and run: "runs (happen cfg) evs ?t = Some s'"
    by (auto simp: happens_def dispatch_free_def Let_def bind_eq_Some_conv)
  have trace: "trace cfg (ReadFree # evs) s = labels (happen cfg) (acts cfg) evs ?t" by (simp add: trace_def t del: happen.simps)
  have answer: "listDue_of inst now d n = Inr (take n ?L)" if "0 < n" for n
    using that by (simp add: listDue_of_def ListDue_def take_map Let_def)
  have owned: "\<forall>rt\<in>set ?L. Assignment (Some rt) \<noteq> None" using assms(7) by (auto simp: is_due_def scanEmailProfileRuntime_def Assignment_def)
  have start: "progress cfg ?F (set (sd_running s)) ?L [] ?t" using False by (simp add: progress_def)
  have answers: "f n = Inr (take n ?L)" if "Listed f \<in> set evs" "0 < n" for f n using answer[OF that(2)] assms(5)[OF that(1)] by (simp only:)
  have "progress cfg ?F (set (sd_running s)) ?L ([] @ begun (labels (happen cfg) (acts cfg) evs ?t)) s'"
  proof (rule progress_run[OF run])
    show "f n = Inr (take n ?L)" if "Listed f \<in> set evs" "0 < n" for f n using that by (rule answers)
  qed (use ok False start assms(3) owned in simp_all)
  then have "progress cfg ?F (set (sd_running s)) ?L ?b s'" unfolding trace by simp
  with assms(4) obtain B where B: "B \<subseteq> set (sd_running s)" "\<forall>rt\<in>set (take (?F + card B) ?L). passed ?F B ?b rt"
    by (auto simp: progress_def simp del: set_map)
  have "distinct (map rr_profile_id ?due)" using assms(6) by (simp add: distinct_map_filter distinct_map inj_on_def)
  then have ids: "distinct (map rt_ProfileID ?L)" by (simp add: comp_def scanEmailProfileRuntime_def)
  have "scanEmailProfileRuntime r \<in> set ?L" using assms(8,9) by simp
  from progress_end[OF B(2) finite_subset[OF B(1) finite_set] ids this] B(1) show ?thesis by (auto simp: scanEmailProfileRuntime_def)
qed simp

text \<open>A poll leaves while the loop is between reading the free slots and reading the running polls.\<close>

definition sample_leaving :: "event list" where
  "sample_leaving = [Exit 3, ReadBusy, Listed (listDue_of ''node-a'' 100 sample_owned), Left, Next]"

definition sample_polled :: scheduler where
  "sample_polled = \<lparr>sd_running = [3], sd_slots = 1, sd_leaving = 0, sd_connSlots = 0, sd_waiters = [],
     sd_sessions = [], sd_closing = 0, sd_workers = [(3, Finishing)], sd_cancelled = False, sd_loop = Idle\<rparr>"

theorem dispatch_starts_due_profiles_witness:
  "trace sample_pool_limits (ReadFree # sample_leaving) sample_polled = [End 3, Begin 1] \<and>
   (1 \<in> set (sd_running sample_polled) \<or> 1 \<in> set (begun (trace sample_pool_limits (ReadFree # sample_leaving) sample_polled)) \<or>
    2 - sd_slots sample_polled \<le> length (begun (trace sample_pool_limits (ReadFree # sample_leaving) sample_polled)))"
proof
  let ?r = "new_runtime_row 100 ''node-a'' sample_profile" let ?evs = "ReadFree # sample_leaving"
  have row: "?r \<in> set (db_runtime sample_owned)" "is_due 100 ''node-a'' sample_owned ?r" "distinct (map rr_profile_id (db_runtime sample_owned))"
    by (simp_all add: sample_owned_def is_due_def sample_defs EmailConnectionStateReauthorizationRequired_def)
  have "happens sample_pool_limits (sample_dispatch 3 @ [Look 3, Refused 3 []]) New_scheduler = Some sample_polled" by code_simp
  note reach = happens_run[OF this]
  have run: "map_option sd_loop (happens sample_pool_limits ?evs sample_polled) = Some Idle"
    and trace: "trace sample_pool_limits ?evs sample_polled = [End 3, Begin 1]" by code_simp+
  from run obtain s' where s': "happens sample_pool_limits ?evs sample_polled = Some s'" "sd_loop s' = Idle" by auto
  show "trace sample_pool_limits ?evs sample_polled = [End 3, Begin 1]" by (rule trace)
  have evs: "ReadFree \<notin> set sample_leaving" "\<And>f. Listed f \<in> set sample_leaving \<Longrightarrow> f = listDue_of ''node-a'' 100 sample_owned"
    by (simp_all add: sample_leaving_def)
  have "rr_profile_id ?r = 1" "lm_MaxConcurrency sample_pool_limits = 2" by (simp_all add: sample_defs sample_pool_limits_def)
  with dispatch_starts_due_profiles[OF reach s'(1) evs(1) s'(2) evs(2) row(3) _ row(1,2)]
  show "1 \<in> set (sd_running sample_polled) \<or> 1 \<in> set (begun (trace sample_pool_limits ?evs sample_polled)) \<or>
    2 - sd_slots sample_polled \<le> length (begun (trace sample_pool_limits ?evs sample_polled))"
    by (simp only: list.distinct simp_thms)
qed

text \<open>
  A slot that comes free during a dispatch may stay free until the next one: when a poll leaves
  after the free slots were read and before the running polls are, the limit counts it in neither.
\<close>

lemma slot_freed_during_dispatch_waits:
  "map_option (\<lambda>s. (sd_loop s, sd_running s, sd_slots s)) (happens sample_pool_limits
     [ReadFree, Exit 3, Left, ReadBusy, Listed (\<lambda>n. Inr (take n [sample_due_row 1, sample_due_row 2])), Next] sample_polled) = Some (Idle, [1], 1)"
  by code_simp



text \<open>
  The close a worker waits behind is not reserved for it: between the two selects of
  \<^verbatim>\<open>acquireConnSlot\<close> the permit can be taken by another worker. The worker then blocks with
  nothing being closed, while idle sessions hold every permit.
\<close>

lemma permit_taken_between_the_selects:
  "\<exists>s. (sched_step sample_pool_limits)\<^sup>*\<^sup>* New_scheduler s \<and> sd_workers s = [(3, Blocked)] \<and> sd_closing s = 0 \<and>
     map fst (sd_sessions s) = [2, 4] \<and> sd_connSlots s = lm_MaxOpenConnections sample_pool_limits"
proof -
  let ?s = "\<lparr>sd_running = [3], sd_slots = 1, sd_leaving = 0, sd_connSlots = 2, sd_waiters = [3],
     sd_sessions = [sample_idle 2 200, sample_idle 4 300], sd_closing = 0, sd_workers = [(3, Blocked)], sd_cancelled = False, sd_loop = Idle\<rparr>"
  have "happens sample_pool_limits (sample_full @ [Acquire 3, Closed] @ sample_dispatch 4 @ [Look 4, Acquire 4, Connected 4 300 30, Await 3, Synced 4 [], Exit 4, Left])
      New_scheduler = Some ?s" by code_simp
  from happens_run[OF this] show ?thesis by (intro exI[of _ ?s]) (simp add: sample_pool_limits_def sample_idle_def)
qed

end
