(* ===== verification/Mime_Parser.thy ===== *)
theory Mime_Parser
  imports Inbound_Pipeline Go_Text
begin

text \<open>
  Reading a raw email, \<^verbatim>\<open>internal/inbound/mime_parser.go\<close>, and the hints a quarantine record
  takes from its headers. The grammar of MIME belongs to the go-message library: the entity it
  reads, with the accessors of its header, and the parts it visits are arguments of the model, as
  are the text a third library makes of HTML, the header blocks of a delivery status, SHA-256 and
  the Unicode table of lower-case letters beyond ASCII. Everything the service decides itself is
  here: which identifier, subject and addresses it keeps, what kind of email it is, which parts
  become bodies or attachments, and every limit. A slice out of range is the result \<open>None\<close>:
  Go panics there.
\<close>

section \<open>What the libraries answer\<close>

datatype read_error = Undecodable | Broken error

record body =
  bd_bytes :: string
  bd_broken :: bool

record mime_header =
  mh_Get :: "string \<Rightarrow> string"
  mh_Has :: "string \<Rightarrow> bool"
  mh_ContentType :: "(string \<times> (string \<Rightarrow> string)) option"
  mh_MessageID :: "string \<times> bool"
  mh_MsgIDList :: "string \<Rightarrow> string list"
  mh_Subject :: "string \<times> bool"
  mh_Date :: "time option"
  mh_AddressList :: "string \<Rightarrow> (string \<times> string) list option"

text \<open>A part as \<^verbatim>\<open>Walk\<close> passes it: the error of reading it, its header, its file name and its body.\<close>

record part =
  pt_err :: "read_error option"
  pt_header :: mime_header
  pt_disposition :: string
  pt_Filename :: string
  pt_Body :: body

record entity =
  et_Header :: mime_header
  et_visits :: "part list"
  et_walkErr :: "error option"

record mime_env =
  mv_Read :: "nat option \<Rightarrow> body \<Rightarrow> entity option \<times> read_error option"
  mv_statusHeaders :: "string \<Rightarrow> (string \<Rightarrow> string) list"
  mv_HTML2Text :: "string \<Rightarrow> string"
  mv_Sum256 :: "string \<Rightarrow> string"
  mv_lowerRune :: "string \<Rightarrow> string"
  mv_cancel :: "nat \<Rightarrow> bool"
  mv_cancelled :: bool
  mv_Now :: time

record MIMEParser =
  mp_maxBodySize :: nat
  mp_maxAttachmentSize :: nat
  mp_maxAttachmentsTotalSize :: nat
  mp_maxAttachments :: nat

definition isRecoverableDecodeError :: "read_error \<Rightarrow> bool" where
  "isRecoverableDecodeError e = (e = Undecodable)"

section \<open>Strings\<close>

definition asciiLower :: "char \<Rightarrow> char" where
  "asciiLower c = (if 65 \<le> byte c \<and> byte c \<le> 90 then char_of (byte c + 32) else c)"

definition validRune :: "string \<Rightarrow> string" where
  "validRune r = (if is_rune r then r else RuneError)"

definition ToLower :: "mime_env \<Rightarrow> string \<Rightarrow> string" where
  "ToLower env s = concat (map (\<lambda>r. if \<not> is_rune r then RuneError
     else case r of [c] \<Rightarrow> [asciiLower c] | _ \<Rightarrow> mv_lowerRune env r) (runes s))"

text \<open>
  \<^verbatim>\<open>strings.EqualFold\<close> with a word of lower-case ASCII: beside the two cases of a letter, the
  Kelvin sign folds to k and the long s to s.
\<close>

definition EqualFold :: "string \<Rightarrow> string \<Rightarrow> bool" where
  "EqualFold s word = list_all2 (\<lambda>r c. (case r of [x] \<Rightarrow> asciiLower x = c | _ \<Rightarrow> False) \<or>
     r = [CHR 0xE2, CHR 0x84, CHR 0xAA] \<and> c = CHR ''k'' \<or> r = [CHR 0xC5, CHR 0xBF] \<and> c = CHR ''s'') (runes s) word"

text \<open>\<^verbatim>\<open>strings.Cut\<close> at one byte: what is before it, what is after it, and whether it was there.\<close>

definition Cut :: "string \<Rightarrow> char \<Rightarrow> string \<times> string \<times> bool" where
  "Cut s c = (takeWhile (\<lambda>x. x \<noteq> c) s, drop (Suc (length (takeWhile (\<lambda>x. x \<noteq> c) s))) s, c \<in> set s)"

definition TrimChars :: "string \<Rightarrow> string \<Rightarrow> string" where
  "TrimChars s cutset = rev (dropWhile (\<lambda>c. c \<in> set cutset) (rev (dropWhile (\<lambda>c. c \<in> set cutset) s)))"

fun FieldsFunc :: "(string \<Rightarrow> bool) \<Rightarrow> string \<Rightarrow> string list \<Rightarrow> string list" where
  "FieldsFunc sep cur [] = (if cur = [] then [] else [cur])"
| "FieldsFunc sep cur (r # rs) = (if sep r then (if cur = [] then [] else [cur]) @ FieldsFunc sep [] rs
     else FieldsFunc sep (cur @ r) rs)"

fun Index :: "string \<Rightarrow> string \<Rightarrow> nat option" where
  "Index s sub = (if HasPrefix s sub then Some 0 else case s of [] \<Rightarrow> None | c # cs \<Rightarrow> map_option Suc (Index cs sub))"

declare Index.simps [simp del]

definition hexValue :: "char \<Rightarrow> nat option" where
  "hexValue c = (let x = byte c in if 48 \<le> x \<and> x \<le> 57 then Some (x - 48) else if 97 \<le> x \<and> x \<le> 102 then Some (x - 87)
     else if 65 \<le> x \<and> x \<le> 70 then Some (x - 55) else None)"

text \<open>\<^verbatim>\<open>url.PathUnescape\<close>, and \<^verbatim>\<open>url.QueryUnescape\<close> where a plus is a space.\<close>

fun unescape :: "bool \<Rightarrow> string \<Rightarrow> string option" where
  "unescape query [] = Some []"
| "unescape query (c # cs) =
     (if c = CHR ''%'' then (case cs of
        a # b # rest \<Rightarrow> (case (hexValue a, hexValue b) of
           (Some x, Some y) \<Rightarrow> map_option (\<lambda>r. char_of (16 * x + y) # r) (unescape query rest) | _ \<Rightarrow> None)
      | _ \<Rightarrow> None)
      else map_option (\<lambda>r. (if query \<and> c = CHR ''+'' then CHR '' '' else c) # r) (unescape query cs))"

section \<open>Header texts\<close>

text \<open>\<^verbatim>\<open>unicode.IsControl\<close>, on the bytes of one rune.\<close>

definition is_control :: "string \<Rightarrow> bool" where
  "is_control r \<longleftrightarrow> (case map byte r of [a] \<Rightarrow> a < 32 \<or> a = 127 | [a, b] \<Rightarrow> a = 194 \<and> b < 160 | _ \<Rightarrow> False)"

definition cleanHeaderText :: "string \<Rightarrow> string" where
  "cleanHeaderText v = TrimSpace (concat (map validRune (filter (\<lambda>r. \<not> is_control r) (runes v))))"

definition truncateRunes :: "string \<Rightarrow> nat \<Rightarrow> string" where
  "truncateRunes v limit = (if limit = 0 then '''' else if length (runes v) \<le> limit then v
     else concat (map validRune (take limit (runes v))))"

definition maxHeaderTextRunes :: nat where "maxHeaderTextRunes = 255"
definition maxMessageIDBytes :: nat where "maxMessageIDBytes = 998"
definition maxReferencesBytes :: nat where "maxReferencesBytes = 32 * 1024"

definition limitBody :: "string \<Rightarrow> nat \<Rightarrow> string" where
  "limitBody b limit =
     (let v = ToValidUTF8 (if length b > limit then take limit b else b)
      in if length v \<le> limit then v else take (cutBack v limit) v)"

definition cleanMessageID :: "string \<Rightarrow> string" where
  "cleanMessageID v0 = (let v = cleanHeaderText v0 in if v = '''' \<or> length v > maxMessageIDBytes then '''' else v)"

definition cleanMessageIDs :: "string list \<Rightarrow> string list" where
  "cleanMessageIDs vs = filter (\<lambda>v. v \<noteq> '''') (map cleanMessageID vs)"

text \<open>The loop of \<^verbatim>\<open>limitReferences\<close>, with its variables \<open>start\<close> and \<open>size\<close>.\<close>

fun referencesStart :: "string list \<Rightarrow> nat \<Rightarrow> nat \<Rightarrow> nat" where
  "referencesStart vs used 0 = 0"
| "referencesStart vs used (Suc k) =
     (let nx = length (vs ! k) + (if Suc k < length vs then 1 else 0)
      in if used + nx > maxReferencesBytes then Suc k else referencesStart vs (used + nx) k)"

definition limitReferences :: "string list \<Rightarrow> string list" where
  "limitReferences vs = drop (referencesStart vs 0 (length vs)) vs"

definition deliveryStatusValue :: "string \<Rightarrow> string" where
  "deliveryStatusValue v = (case Cut v (CHR '';'') of (_, result, found) \<Rightarrow> cleanHeaderText (if found then result else v))"

definition firstListValue :: "string \<Rightarrow> string" where
  "firstListValue v = (case Cut v (CHR '','') of (f, _, found) \<Rightarrow> cleanHeaderText (if found then f else v))"

definition HasSuffix :: "string \<Rightarrow> string \<Rightarrow> bool" where
  "HasSuffix s p \<longleftrightarrow> HasPrefix (rev s) (rev p)"

definition cleanRawMessageID :: "string \<Rightarrow> string" where
  "cleanRawMessageID v0 =
     (let v = cleanHeaderText v0
      in cleanMessageID (if HasPrefix v ''<'' \<and> HasSuffix v ''>'' then TrimSpace (take (length v - 2) (drop 1 v)) else v))"

definition firstHeaderToken :: "mime_env \<Rightarrow> string \<Rightarrow> string" where
  "firstHeaderToken env v = TrimSpace (fst (Cut (TrimSpace (ToLower env v)) (CHR '';'')))"

definition isAffirmativeHeader :: "mime_env \<Rightarrow> string \<Rightarrow> bool" where
  "isAffirmativeHeader env v = (firstHeaderToken env v \<in> {''yes'', ''true'', ''1''})"

definition containsHeaderToken :: "mime_env \<Rightarrow> string \<Rightarrow> string list \<Rightarrow> bool" where
  "containsHeaderToken env v expected =
     list_ex (\<lambda>token. token \<in> set expected)
       (FieldsFunc (\<lambda>r. is_space r \<or> r = '','' \<or> r = '';'') [] (runes (ToLower env v)))"

definition parseAddressList :: "mime_env \<Rightarrow> mime_header \<Rightarrow> string \<Rightarrow> EmailAddress list" where
  "parseAddressList env h name = (case mh_AddressList h name of
     None \<Rightarrow> []
   | Some listed \<Rightarrow> map (\<lambda>(shown, address).
         \<lparr>ea_Name = truncateRunes (cleanHeaderText shown) maxHeaderTextRunes, ea_Address = cleanHeaderText address,
          ea_NormalizedAddress = ToLower env (cleanHeaderText address)\<rparr>)
       (filter (\<lambda>(shown, address). cleanHeaderText address \<noteq> '''') listed))"

section \<open>What kind of email it is\<close>

definition isAutoReply :: "mime_env \<Rightarrow> mime_header \<Rightarrow> bool" where
  "isAutoReply env h =
     (let autoSubmitted = firstHeaderToken env (mh_Get h ''Auto-Submitted'')
      in if autoSubmitted \<noteq> '''' \<and> autoSubmitted \<noteq> ''no'' then True
         else if isAffirmativeHeader env (mh_Get h ''X-Autoreply'') \<or> isAffirmativeHeader env (mh_Get h ''X-Autorespond'') then True
         else if containsHeaderToken env (mh_Get h ''X-Auto-Response-Suppress'') [''all'', ''autoreply'', ''auto-reply'', ''oof''] then True
         else containsHeaderToken env (mh_Get h ''Precedence'') [''auto_reply'', ''auto-reply'', ''autoreply''])"

definition isBounce :: "mime_header \<Rightarrow> EmailAddress list list \<Rightarrow> bool" where
  "isBounce h origins =
     (if (case mh_ContentType h of None \<Rightarrow> False
          | Some (contentType, params) \<Rightarrow> EqualFold contentType ''multipart/report'' \<and> EqualFold (params ''report-type'') ''delivery-status'')
      then True
      else if TrimSpace (mh_Get h ''X-Failed-Recipients'') \<noteq> '''' then True
      else list_ex (\<lambda>a. case Cut (ea_NormalizedAddress a) (CHR ''@'') of (localPart, _, found) \<Rightarrow> found \<and> localPart = ''mailer-daemon'')
        (concat origins))"

definition hasEmptyReturnPath :: "mime_header \<Rightarrow> bool" where
  "hasEmptyReturnPath h =
     (if \<not> mh_Has h ''Return-Path'' then False
      else let returnPath = TrimSpace (mh_Get h ''Return-Path'') in returnPath = '''' \<or> returnPath = ''<>'')"

definition newBounceInfo :: "mime_header \<Rightarrow> EmailBounceInfo" where
  "newBounceInfo h = \<lparr>bi_OriginalMessageID = cleanRawMessageID (mh_Get h ''X-Original-Message-ID''),
     bi_Recipient = firstListValue (mh_Get h ''X-Failed-Recipients''), bi_Status = '''', bi_DiagnosticCode = ''''\<rparr>"

text \<open>The \<^verbatim>\<open>switch\<close> of \<^verbatim>\<open>parse\<close>.\<close>

definition classify :: "mime_env \<Rightarrow> mime_header \<Rightarrow> EmailAddress list \<Rightarrow> EmailAddress list \<Rightarrow> EmailKind \<times> EmailBounceInfo option" where
  "classify env h sender_from sender =
     (if isBounce h [sender_from, sender] then (EmailKindBounce, Some (newBounceInfo h))
      else if isAutoReply env h then (EmailKindAutoReply, None)
      else if hasEmptyReturnPath h then (EmailKindBounce, Some (newBounceInfo h))
      else (EmailKindRegular, None))"

definition statusStep :: "(string \<Rightarrow> string) \<Rightarrow> EmailBounceInfo \<Rightarrow> EmailBounceInfo" where
  "statusStep get bounce =
     (let b1 = (if bi_OriginalMessageID bounce = '''' then bounce\<lparr>bi_OriginalMessageID := cleanRawMessageID (get ''Original-Message-ID'')\<rparr> else bounce);
          b2 = (if bi_Recipient b1 = '''' then
                  (let r = deliveryStatusValue (get ''Final-Recipient'')
                   in b1\<lparr>bi_Recipient := (if r = '''' then deliveryStatusValue (get ''Original-Recipient'') else r)\<rparr>) else b1);
          b3 = (if bi_Status b2 = '''' then b2\<lparr>bi_Status := cleanHeaderText (get ''Status'')\<rparr> else b2)
      in if bi_DiagnosticCode b3 = '''' then b3\<lparr>bi_DiagnosticCode := deliveryStatusValue (get ''Diagnostic-Code'')\<rparr> else b3)"

definition parseDeliveryStatus :: "mime_env \<Rightarrow> MIMEParser \<Rightarrow> body \<Rightarrow> EmailBounceInfo \<Rightarrow> EmailBounceInfo" where
  "parseDeliveryStatus env p b bounce = fold statusStep (mv_statusHeaders env (take (mp_maxBodySize p + 1) (bd_bytes b))) bounce"

definition parseOriginalMessageHeaders :: "mime_env \<Rightarrow> body \<Rightarrow> nat \<Rightarrow> EmailBounceInfo \<Rightarrow> EmailBounceInfo" where
  "parseOriginalMessageHeaders env b maxHeaderBytes bounce =
     (if bi_OriginalMessageID bounce \<noteq> '''' then bounce
      else case mv_Read env (Some maxHeaderBytes) b of
        (None, _) \<Rightarrow> bounce
      | (Some e, err) \<Rightarrow>
          if (case err of None \<Rightarrow> False | Some x \<Rightarrow> \<not> isRecoverableDecodeError x) then bounce
          else bounce\<lparr>bi_OriginalMessageID := cleanMessageID (fst (mh_MessageID (et_Header e)))\<rparr>)"

section \<open>Parts\<close>

text \<open>\<^verbatim>\<open>io.ReadAll(io.LimitReader(reader, limit))\<close>: the bytes, or \<open>None\<close> after a read error.\<close>

definition readLimited :: "body \<Rightarrow> nat \<Rightarrow> string option" where
  "readLimited b limit = (if length (bd_bytes b) < limit \<and> bd_broken b then None else Some (take limit (bd_bytes b)))"

text \<open>The content, the size and whether reading failed.\<close>

definition readPartContent :: "body \<Rightarrow> nat \<Rightarrow> string option \<times> nat \<times> bool" where
  "readPartContent b bufferLimit = (case readLimited b (bufferLimit + 1) of
     None \<Rightarrow> (None, length (bd_bytes b), True)
   | Some bytes \<Rightarrow>
       (if bd_broken b then (None, length (bd_bytes b), True)
        else (if length bytes > bufferLimit then None else Some bytes, length (bd_bytes b), False)))"

definition parseEmailPart :: "mime_env \<Rightarrow> part \<Rightarrow> string \<Rightarrow> string \<Rightarrow> EmailPart option" where
  "parseEmailPart env part contentType0 disposition0 =
     (let disposition = ToLower env (TrimSpace disposition0);
          contentType = ToLower env (TrimSpace contentType0);
          kind = (if disposition = ''attachment'' then Some EmailPartDispositionAttachment
                  else if disposition = ''inline'' \<and> \<not> HasPrefix contentType ''text/'' then Some EmailPartDispositionInline
                  else if \<not> HasPrefix contentType ''text/'' \<and> \<not> HasPrefix contentType ''multipart/'' then Some EmailPartDispositionAttachment
                  else None)
      in map_option (\<lambda>k. \<lparr>pa_Name = cleanHeaderText (pt_Filename part), pa_ContentType = contentType,
           pa_ContentID = TrimChars (cleanHeaderText (mh_Get (pt_header part) ''Content-ID'')) ''<>'',
           pa_Disposition = k, pa_Size = 0, pa_Content = None, pa_SkippedReason = None\<rparr>) kind)"

record walk_state =
  wk_parsed :: ParsedEmail
  wk_acceptedParts :: nat
  wk_acceptedSize :: nat

definition acceptPart :: "MIMEParser \<Rightarrow> body \<Rightarrow> EmailPart \<Rightarrow> walk_state \<Rightarrow> walk_state" where
  "acceptPart p b emailPart0 st =
     (let room = mp_maxAttachmentsTotalSize p - wk_acceptedSize st;
          bufferLimit = (if wk_acceptedParts st \<ge> mp_maxAttachments p then 0 else min (mp_maxAttachmentSize p) room);
          (kept, size', broken) = readPartContent b bufferLimit;
          emailPart = emailPart0\<lparr>pa_Size := int size'\<rparr>;
          skipped = (\<lambda>reason. st\<lparr>wk_parsed := (wk_parsed st)\<lparr>pe_Parts := pe_Parts (wk_parsed st) @ [emailPart\<lparr>pa_SkippedReason := Some reason\<rparr>]\<rparr>\<rparr>)
      in if broken then skipped EmailPartSkippedReadError
         else if wk_acceptedParts st \<ge> mp_maxAttachments p then skipped EmailPartSkippedCountLimit
         else if size' > mp_maxAttachmentSize p then skipped EmailPartSkippedSizeLimit
         else if size' > room then skipped EmailPartSkippedTotalLimit
         else \<lparr>wk_parsed = (wk_parsed st)\<lparr>pe_Parts := pe_Parts (wk_parsed st) @ [emailPart\<lparr>pa_Content := kept\<rparr>]\<rparr>,
                wk_acceptedParts = Suc (wk_acceptedParts st), wk_acceptedSize = wk_acceptedSize st + size'\<rparr>)"

definition readBody :: "MIMEParser \<Rightarrow> part \<Rightarrow> string \<Rightarrow> walk_state \<Rightarrow> error + walk_state" where
  "readBody p part contentType st =
     (if contentType \<noteq> ''text/plain'' \<and> contentType \<noteq> ''text/html'' then Inr st
      else if contentType = ''text/plain'' \<and> pe_TextBody (wk_parsed st) \<noteq> '''' then Inr st
      else if contentType = ''text/html'' \<and> pe_HTMLBody (wk_parsed st) \<noteq> '''' then Inr st
      else case readLimited (pt_Body part) (mp_maxBodySize p + 1) of
        None \<Rightarrow> Inl (PlainError ''mime: read body'')
      | Some bytes \<Rightarrow>
          (let v = limitBody bytes (mp_maxBodySize p)
           in Inr (st\<lparr>wk_parsed := (if contentType = ''text/plain'' then (wk_parsed st)\<lparr>pe_TextBody := v\<rparr>
                else (wk_parsed st)\<lparr>pe_HTMLBody := v\<rparr>)\<rparr>)))"

text \<open>The callback of \<^verbatim>\<open>Walk\<close>. The visits are numbered for the oracle of the context.\<close>

definition visitPart :: "mime_env \<Rightarrow> MIMEParser \<Rightarrow> nat \<Rightarrow> part \<Rightarrow> walk_state \<Rightarrow> error + walk_state" where
  "visitPart env p i part st =
     (if mv_cancel env (Suc i) then Inl CtxErr
      else if (case pt_err part of None \<Rightarrow> False | Some e \<Rightarrow> \<not> isRecoverableDecodeError e) then Inl (PlainError ''mime: read part'')
      else case mh_ContentType (pt_header part) of
        None \<Rightarrow> Inr st
      | Some (contentType, _) \<Rightarrow>
          (case pe_Bounce (wk_parsed st) of
             Some bounce \<Rightarrow>
               (if ToLower env contentType = ''message/delivery-status''
                then Inr (st\<lparr>wk_parsed := (wk_parsed st)\<lparr>pe_Bounce := Some (parseDeliveryStatus env p (pt_Body part) bounce)\<rparr>\<rparr>)
                else if ToLower env contentType = ''message/rfc822'' \<or> ToLower env contentType = ''text/rfc822-headers''
                then Inr (st\<lparr>wk_parsed := (wk_parsed st)\<lparr>pe_Bounce :=
                       Some (parseOriginalMessageHeaders env (pt_Body part) (mp_maxBodySize p) bounce)\<rparr>\<rparr>)
                else (case parseEmailPart env part contentType (pt_disposition part) of
                    Some emailPart \<Rightarrow> Inr (acceptPart p (pt_Body part) emailPart st)
                  | None \<Rightarrow> readBody p part contentType st))
           | None \<Rightarrow> (case parseEmailPart env part contentType (pt_disposition part) of
                  Some emailPart \<Rightarrow> Inr (acceptPart p (pt_Body part) emailPart st)
                | None \<Rightarrow> readBody p part contentType st)))"

fun walkParts :: "mime_env \<Rightarrow> MIMEParser \<Rightarrow> nat \<Rightarrow> part list \<Rightarrow> walk_state \<Rightarrow> error + walk_state" where
  "walkParts env p i [] st = Inr st"
| "walkParts env p i (part # parts) st = (case visitPart env p i part st of
     Inl e \<Rightarrow> Inl e | Inr st1 \<Rightarrow> walkParts env p (Suc i) parts st1)"

definition parseMIMEParts :: "mime_env \<Rightarrow> MIMEParser \<Rightarrow> entity \<Rightarrow> ParsedEmail \<Rightarrow> error + ParsedEmail" where
  "parseMIMEParts env p e parsed = (case walkParts env p 0 (et_visits e) \<lparr>wk_parsed = parsed, wk_acceptedParts = 0, wk_acceptedSize = 0\<rparr> of
     Inl err \<Rightarrow> Inl err
   | Inr st \<Rightarrow> (case et_walkErr e of Some err \<Rightarrow> Inl err | None \<Rightarrow> Inr (wk_parsed st)))"

section \<open>Inline images\<close>

definition cidStop :: "char \<Rightarrow> bool" where
  "cidStop c \<longleftrightarrow> byte c \<in> {34, 39, 60, 62, 32, 40, 41, 9, 13, 10}"

text \<open>
  The loop of \<^verbatim>\<open>htmlReferencesCID\<close>. The position is found in the lower-case text and used in the
  original one; \<open>None\<close> when it lies behind its end, where the slice panics.
\<close>

function cidLoop :: "string \<Rightarrow> string \<Rightarrow> string \<Rightarrow> nat \<Rightarrow> bool option" where
  "cidLoop html lowerHTML contentID offset =
     (if offset < length html then
        (case Index (drop offset lowerHTML) ''cid:'' of
           None \<Rightarrow> Some False
         | Some index \<Rightarrow>
             (let start = offset + index + 4
              in if start > length html then None
                 else
                   (let v = takeWhile (\<lambda>c. \<not> cidStop c) (drop start html)
                    in if v = contentID then Some True
                       else if unescape False v = Some contentID then Some True
                       else if unescape True v = Some contentID then Some True
                       else cidLoop html lowerHTML contentID start)))
      else Some False)"
  by pat_completeness auto
termination
  by (relation "measure (\<lambda>(html, lowerHTML, contentID, offset). length html - offset)") auto

declare cidLoop.simps [simp del]

lemma HasPrefix_length: "HasPrefix s p \<Longrightarrow> length p \<le> length s"
  unfolding HasPrefix_def by (metis length_take min.cobounded1)

lemma Index_bound:
  assumes "Index s sub = Some k"
  shows "k + length sub \<le> length s"
  using assms
proof (induction s arbitrary: k)
  case Nil
  then show ?case using HasPrefix_length[of "[]" sub] by (simp add: Index.simps split: if_splits)
next
  case (Cons c s)
  show ?case
  proof (cases "HasPrefix (c # s) sub")
    case True
    with Cons.prems HasPrefix_length[OF True] show ?thesis by (simp add: Index.simps[of "c # s"])
  next
    case False
    with Cons.prems obtain j where "Index s sub = Some j" "k = Suc j" by (auto simp: Index.simps[of "c # s"])
    with Cons.IH[of j] show ?thesis by simp
  qed
qed

definition htmlReferencesCID :: "mime_env \<Rightarrow> string \<Rightarrow> string \<Rightarrow> bool option" where
  "htmlReferencesCID env html contentID =
     (if html = '''' \<or> contentID = '''' then Some False else cidLoop html (ToLower env html) contentID 0)"

definition dispositionText :: "EmailPartDisposition \<Rightarrow> string" where
  "dispositionText d = (case d of EmailPartDispositionAttachment \<Rightarrow> ''attachment'' | EmailPartDispositionInline \<Rightarrow> ''inline'')"

definition finalizePart :: "mime_env \<Rightarrow> string \<Rightarrow> nat \<Rightarrow> EmailPart \<Rightarrow> EmailPart option" where
  "finalizePart env html i part =
     (let isImage = HasPrefix (pa_ContentType part) ''image/''
      in case (if isImage then htmlReferencesCID env html (pa_ContentID part) else Some False) of
           None \<Rightarrow> None
         | Some referenced \<Rightarrow>
             (let d = (if referenced then EmailPartDispositionInline
                       else if pa_Disposition part = EmailPartDispositionInline \<and> (\<not> isImage \<or> html \<noteq> '''') then EmailPartDispositionAttachment
                       else pa_Disposition part)
              in Some (part\<lparr>pa_Disposition := d,
                   pa_Name := (if pa_Name part = '''' then dispositionText d @ ''-'' @ FormatInt (int i + 1) else pa_Name part)\<rparr>)))"

fun finalizeParts :: "mime_env \<Rightarrow> string \<Rightarrow> nat \<Rightarrow> EmailPart list \<Rightarrow> EmailPart list option" where
  "finalizeParts env html i [] = Some []"
| "finalizeParts env html i (q # qs) = (case finalizePart env html i q of
     None \<Rightarrow> None | Some q' \<Rightarrow> map_option (\<lambda>r. q' # r) (finalizeParts env html (Suc i) qs))"

definition finalizeEmailParts :: "mime_env \<Rightarrow> ParsedEmail \<Rightarrow> ParsedEmail option" where
  "finalizeEmailParts env parsed = map_option (\<lambda>qs. parsed\<lparr>pe_Parts := qs\<rparr>) (finalizeParts env (pe_HTMLBody parsed) 0 (pe_Parts parsed))"

section \<open>An email\<close>

definition rawChecksum :: "mime_env \<Rightarrow> string \<Rightarrow> string" where
  "rawChecksum env raw = mv_Sum256 env raw"

definition EncodeToString :: "string \<Rightarrow> string" where
  "EncodeToString bytes = concat (map (\<lambda>c. padded 16 2 (byte c)) bytes)"

definition fallbackKey :: "Message \<Rightarrow> string" where
  "fallbackKey m = FormatInt (msg_ProfileID m) @ '':'' @ FormatInt (int (length (msg_Mailbox m))) @ '':'' @ msg_Mailbox m @ '':'' @
     FormatInt (uint (msg_UIDValidity m)) @ '':'' @ FormatInt (uint (msg_UID m))"

definition fallbackMessageID :: "mime_env \<Rightarrow> Message \<Rightarrow> string" where
  "fallbackMessageID env m = ''imap.'' @ EncodeToString (mv_Sum256 env (fallbackKey m)) @ ''@webitel.local''"

text \<open>The headers of an email, before its parts are walked.\<close>

definition parseHeaders :: "mime_env \<Rightarrow> Message \<Rightarrow> mime_header \<Rightarrow> ParsedEmail" where
  "parseHeaders env m h =
     (let messageID = cleanMessageID (fst (mh_MessageID h));
          generated = (snd (mh_MessageID h) \<or> messageID = '''');
          inReplyTo = cleanMessageIDs (mh_MsgIDList h ''In-Reply-To'');
          sender = parseAddressList env h ''Sender'';
          (kind, bounce) = classify env h (parseAddressList env h ''From'') sender
      in \<lparr>pe_DomainID = msg_DomainID m, pe_ProfileID = msg_ProfileID m, pe_Assignment = msg_Assignment m, pe_Mailbox = msg_Mailbox m,
          pe_UIDValidity = msg_UIDValidity m, pe_UID = msg_UID m,
          pe_MessageID = (if generated then fallbackMessageID env m else messageID), pe_MessageIDGenerated = generated,
          pe_RawSHA256 = rawChecksum env (msg_Raw m), pe_InReplyTo = (case inReplyTo of [] \<Rightarrow> '''' | v # _ \<Rightarrow> v),
          pe_References = limitReferences (cleanMessageIDs (mh_MsgIDList h ''References'')),
          pe_Subject = truncateRunes (cleanHeaderText (fst (mh_Subject h))) maxHeaderTextRunes,
          pe_SentAt = (case mh_Date h of None \<Rightarrow> None | Some t \<Rightarrow> if IsZero t then None else Some t),
          pe_ReceivedAt = (if IsZero (msg_InternalDate m) then mv_Now env else msg_InternalDate m),
          pe_From = parseAddressList env h ''From'', pe_Sender = (case sender of [] \<Rightarrow> None | a # _ \<Rightarrow> Some a),
          pe_ReplyTo = parseAddressList env h ''Reply-To'', pe_To = parseAddressList env h ''To'', pe_Cc = parseAddressList env h ''Cc'',
          pe_Bcc = parseAddressList env h ''Bcc'', pe_TextBody = '''', pe_HTMLBody = '''', pe_Parts = [], pe_Kind = kind, pe_Bounce = bounce\<rparr>)"

definition parse :: "mime_env \<Rightarrow> MIMEParser \<Rightarrow> Message option \<Rightarrow> (error + ParsedEmail) option" where
  "parse env p message =
     (if mv_cancel env 0 then Some (Inl CtxErr)
      else case message of
        None \<Rightarrow> Some (Inl (PlainError ''mime: message is required''))
      | Some m \<Rightarrow>
          (case mv_Read env None \<lparr>bd_bytes = msg_Raw m, bd_broken = False\<rparr> of
             (None, _) \<Rightarrow> Some (Inl (PlainError ''mime: read message''))
           | (Some e, err) \<Rightarrow>
               if (case err of None \<Rightarrow> False | Some x \<Rightarrow> \<not> isRecoverableDecodeError x) then Some (Inl (PlainError ''mime: read message''))
               else (case parseMIMEParts env p e (parseHeaders env m (et_Header e)) of
                   Inl x \<Rightarrow> Some (Inl x)
                 | Inr parsed \<Rightarrow> (case finalizeEmailParts env parsed of
                     None \<Rightarrow> None
                   | Some fin \<Rightarrow> Some (Inr (if pe_TextBody fin = '''' \<and> pe_HTMLBody fin \<noteq> ''''
                       then fin\<lparr>pe_TextBody := limitBody (mv_HTML2Text env (pe_HTMLBody fin)) (mp_maxBodySize p)\<rparr> else fin))))))"

text \<open>\<^verbatim>\<open>Parse\<close>: every failure is permanent unless the context is cancelled by then.\<close>

definition Parse :: "mime_env \<Rightarrow> MIMEParser \<Rightarrow> Message option \<Rightarrow> (error + ParsedEmail) option" where
  "Parse env p message = map_option (\<lambda>r. case r of
       Inl e \<Rightarrow> if mv_cancelled env then Inl e else Inl (PermanentError InboundFailureMIMEParse e)
     | Inr parsed \<Rightarrow> Inr parsed) (parse env p message)"

definition headerHints :: "mime_env \<Rightarrow> string \<Rightarrow> string \<times> string \<times> string" where
  "headerHints env raw = (case mv_Read env None \<lparr>bd_bytes = raw, bd_broken = False\<rparr> of
     (None, _) \<Rightarrow> ('''', '''', '''')
   | (Some e, _) \<Rightarrow>
       (let h = et_Header e
        in (if snd (mh_MessageID h) then '''' else truncateRunes (cleanMessageID (fst (mh_MessageID h))) maxHeaderTextRunes,
            (case parseAddressList env h ''From'' of [] \<Rightarrow> '''' | a # _ \<Rightarrow> truncateRunes (cleanHeaderText (ea_Address a)) maxHeaderTextRunes),
            if snd (mh_Subject h) then '''' else truncateRunes (cleanHeaderText (fst (mh_Subject h))) maxHeaderTextRunes)))"

section \<open>Limits\<close>

lemma limitBody_limits: "ValidString (limitBody b n)" "length (limitBody b n) \<le> n"
proof -
  let ?v = "ToValidUTF8 (if length b > n then take n b else b)"
  show "ValidString (limitBody b n)"
    using ToValidUTF8_valid[of "if length b > n then take n b else b"] cut_valid[of ?v n] by (simp add: limitBody_def Let_def not_le)
  show "length (limitBody b n) \<le> n" using cutBack_le[of ?v n] by (simp add: limitBody_def Let_def)
qed

lemma cleanMessageID_limit: "length (cleanMessageID v) \<le> maxMessageIDBytes"
  by (simp add: cleanMessageID_def Let_def)

lemma cleanMessageIDs_limits: "v \<in> set (cleanMessageIDs vs) \<Longrightarrow> v \<noteq> '''' \<and> length v \<le> maxMessageIDBytes"
  using cleanMessageID_limit by (auto simp: cleanMessageIDs_def)

lemma is_rune_validRune: "is_rune (validRune r)"
  by (simp add: validRune_def is_rune_RuneError)

lemma truncateRunes_limit: "length (runes (truncateRunes v n)) \<le> n"
proof -
  have "runes (concat (map validRune (take n (runes v))) @ []) = map validRune (take n (runes v)) @ runes []"
    by (rule runes_concat) (simp add: list_all_iff is_rune_validRune)
  then show ?thesis by (simp add: truncateRunes_def)
qed

subsection \<open>References\<close>

text \<open>The bytes of the references from position \<open>k\<close> on, one separator between two of them.\<close>

definition refBytes :: "string list \<Rightarrow> nat \<Rightarrow> nat" where
  "refBytes vs k = length (Join (drop k vs) '' '')"

lemma length_Join: "length (Join (v # vs) sep) = length v + (if vs = [] then 0 else length sep + length (Join vs sep))"
  by (cases vs) simp_all

lemma refBytes_step:
  assumes "k < length vs"
  shows "refBytes vs k = refBytes vs (Suc k) + length (vs ! k) + (if Suc k < length vs then 1 else 0)"
  using assms Cons_nth_drop_Suc[OF assms, symmetric] by (simp add: refBytes_def length_Join)

lemma referencesStart_limits:
  assumes "k \<le> length vs" and "refBytes vs k \<le> maxReferencesBytes"
  shows "referencesStart vs (refBytes vs k) k \<le> length vs \<and> refBytes vs (referencesStart vs (refBytes vs k) k) \<le> maxReferencesBytes \<and>
    (\<forall>j. referencesStart vs (refBytes vs k) k = Suc j \<longrightarrow> maxReferencesBytes < refBytes vs j)"
  using assms
proof (induction k)
  case (Suc k)
  then have step: "refBytes vs k = refBytes vs (Suc k) + length (vs ! k) + (if Suc k < length vs then 1 else 0)"
    by (intro refBytes_step) simp
  show ?case
  proof (cases "refBytes vs k \<le> maxReferencesBytes")
    case True
    with Suc step show ?thesis by (simp add: Let_def add.assoc)
  next
    case False
    with Suc.prems step show ?thesis by (simp add: Let_def add.assoc)
  qed
qed simp

lemma limitReferences_suffix:
  "\<exists>k. limitReferences vs = drop k vs \<and> refBytes vs k \<le> maxReferencesBytes \<and> (\<forall>j. k = Suc j \<longrightarrow> maxReferencesBytes < refBytes vs j)"
proof -
  have "refBytes vs (length vs) = 0" by (simp add: refBytes_def)
  with referencesStart_limits[of "length vs" vs] show ?thesis unfolding limitReferences_def by (metis order_refl le0)
qed

subsection \<open>Parts\<close>

text \<open>What is kept of the parts: how many, how much together, and each with all of its bytes.\<close>

definition kept :: "EmailPart \<Rightarrow> bool" where
  "kept q \<longleftrightarrow> pa_Content q \<noteq> None"

definition part_ok :: "MIMEParser \<Rightarrow> EmailPart \<Rightarrow> bool" where
  "part_ok p q \<longleftrightarrow> (case pa_Content q of
     None \<Rightarrow> pa_SkippedReason q \<noteq> None
   | Some c \<Rightarrow> pa_SkippedReason q = None \<and> pa_Size q = int (length c) \<and> length c \<le> mp_maxAttachmentSize p)"

definition keptBytes :: "EmailPart list \<Rightarrow> nat" where
  "keptBytes qs = sum_list (map (\<lambda>q. case pa_Content q of None \<Rightarrow> 0 | Some c \<Rightarrow> length c) qs)"

definition parts_limited :: "MIMEParser \<Rightarrow> EmailPart list \<Rightarrow> bool" where
  "parts_limited p qs \<longleftrightarrow> list_all (part_ok p) qs \<and> length (filter kept qs) \<le> mp_maxAttachments p \<and>
     keptBytes qs \<le> mp_maxAttachmentsTotalSize p"

definition body_limited :: "MIMEParser \<Rightarrow> string \<Rightarrow> bool" where
  "body_limited p b \<longleftrightarrow> ValidString b \<and> length b \<le> mp_maxBodySize p"

definition walk_ok :: "MIMEParser \<Rightarrow> walk_state \<Rightarrow> bool" where
  "walk_ok p st \<longleftrightarrow> parts_limited p (pe_Parts (wk_parsed st)) \<and> wk_acceptedParts st = length (filter kept (pe_Parts (wk_parsed st))) \<and>
     wk_acceptedSize st = keptBytes (pe_Parts (wk_parsed st)) \<and>
     body_limited p (pe_TextBody (wk_parsed st)) \<and> body_limited p (pe_HTMLBody (wk_parsed st))"

lemma body_limited_simps [simp]: "body_limited p []" "body_limited p (limitBody b (mp_maxBodySize p))"
  by (simp_all add: body_limited_def limitBody_limits) (simp add: ValidString_def)

lemma parts_limited_snoc:
  "list_all (part_ok p) (qs @ [q]) \<longleftrightarrow> list_all (part_ok p) qs \<and> part_ok p q"
  "length (filter kept (qs @ [q])) = length (filter kept qs) + (if kept q then 1 else 0)"
  "keptBytes (qs @ [q]) = keptBytes qs + (case pa_Content q of None \<Rightarrow> 0 | Some c \<Rightarrow> length c)"
  by (simp_all add: keptBytes_def)

lemma parseEmailPart_empty: "parseEmailPart env part ct d = Some q \<Longrightarrow> pa_Content q = None \<and> pa_SkippedReason q = None"
  by (auto simp: parseEmailPart_def Let_def split: if_splits)

lemma readPartContent_whole:
  assumes "readPartContent b limit = (c, n, False)"
  shows "n = length (bd_bytes b)" and "n \<le> limit \<Longrightarrow> c = Some (bd_bytes b)"
  using assms by (auto simp: readPartContent_def readLimited_def split: if_splits)

lemma acceptPart_ok:
  assumes "walk_ok p st" and "pa_Content q = None \<and> pa_SkippedReason q = None"
  shows "walk_ok p (acceptPart p b q st)"
proof -
  let ?room = "mp_maxAttachmentsTotalSize p - wk_acceptedSize st"
  let ?limit = "if wk_acceptedParts st \<ge> mp_maxAttachments p then 0 else min (mp_maxAttachmentSize p) ?room"
  obtain c n broken where r: "readPartContent b ?limit = (c, n, broken)" by (rule prod_cases3)
  have skip: "walk_ok p (st\<lparr>wk_parsed := (wk_parsed st)\<lparr>pe_Parts := pe_Parts (wk_parsed st) @ [q\<lparr>pa_Size := int n, pa_SkippedReason := Some reason\<rparr>]\<rparr>\<rparr>)"
    for reason using assms by (simp add: walk_ok_def parts_limited_def parts_limited_snoc part_ok_def kept_def)
  show ?thesis
  proof (cases "\<not> broken \<and> wk_acceptedParts st < mp_maxAttachments p \<and> n \<le> mp_maxAttachmentSize p \<and> n \<le> ?room")
    case True
    then have "c = Some (bd_bytes b)" "n = length (bd_bytes b)" using readPartContent_whole[of b ?limit c n] r by auto
    with True r assms show ?thesis
      by (auto simp: acceptPart_def Let_def walk_ok_def parts_limited_def parts_limited_snoc part_ok_def kept_def)
  next
    case False
    with r skip show ?thesis by (auto simp: acceptPart_def Let_def)
  qed
qed

lemma walk_ok_bounce [simp]: "walk_ok p (st\<lparr>wk_parsed := (wk_parsed st)\<lparr>pe_Bounce := b\<rparr>\<rparr>) = walk_ok p st"
  by (simp add: walk_ok_def)

lemma readBody_ok:
  assumes "walk_ok p st" and "readBody p part ct st = Inr st'"
  shows "walk_ok p st'"
  using assms by (auto simp: readBody_def walk_ok_def Let_def split: if_splits option.splits)

lemma visitPart_ok:
  assumes "walk_ok p st" and "visitPart env p i part st = Inr st'"
  shows "walk_ok p st'"
  using assms acceptPart_ok[OF assms(1)] readBody_ok[OF assms(1)] parseEmailPart_empty
  by (auto simp: visitPart_def split: if_splits option.splits prod.splits)

lemma walkParts_ok:
  "walk_ok p st \<Longrightarrow> walkParts env p i parts st = Inr st' \<Longrightarrow> walk_ok p st'"
  by (induction env p i parts st rule: walkParts.induct) (auto split: sum.splits dest: visitPart_ok)

lemma finalizePart_same:
  "finalizePart env html i q = Some q' \<Longrightarrow> pa_Content q' = pa_Content q \<and> pa_Size q' = pa_Size q \<and> pa_SkippedReason q' = pa_SkippedReason q"
  by (auto simp: finalizePart_def Let_def split: option.splits)

lemma finalizeParts_limited:
  assumes "finalizeParts env html i qs = Some qs'"
  shows "list_all (part_ok p) qs' = list_all (part_ok p) qs \<and> length (filter kept qs') = length (filter kept qs) \<and> keptBytes qs' = keptBytes qs"
  using assms
proof (induction env html i qs arbitrary: qs' rule: finalizeParts.induct)
  case (2 env html i q qs)
  then obtain q' r where "finalizePart env html i q = Some q'" "finalizeParts env html (Suc i) qs = Some r" "qs' = q' # r"
    by (auto split: option.splits)
  with "2.IH" finalizePart_same show ?case by (auto simp: part_ok_def kept_def keptBytes_def)
qed simp

text \<open>What an email that was read looks like, whatever bytes it was read from.\<close>

definition email_limited :: "MIMEParser \<Rightarrow> ParsedEmail \<Rightarrow> bool" where
  "email_limited p e \<longleftrightarrow> body_limited p (pe_TextBody e) \<and> body_limited p (pe_HTMLBody e) \<and> parts_limited p (pe_Parts e) \<and>
     pe_MessageID e \<noteq> '''' \<and> length (pe_MessageID e) \<le> maxMessageIDBytes \<and> length (pe_InReplyTo e) \<le> maxMessageIDBytes \<and>
     length (Join (pe_References e) '' '') \<le> maxReferencesBytes \<and> (\<forall>v\<in>set (pe_References e). v \<noteq> '''') \<and>
     length (runes (pe_Subject e)) \<le> maxHeaderTextRunes"

lemma length_EncodeToString: "length (EncodeToString bs) = 2 * length bs"
  by (induction bs) (simp_all add: EncodeToString_def)

lemma fallbackMessageID_limit:
  assumes "length (mv_Sum256 env (fallbackKey m)) = 32"
  shows "length (fallbackMessageID env m) \<le> maxMessageIDBytes"
proof -
  show ?thesis using assms by (simp add: fallbackMessageID_def maxMessageIDBytes_def length_EncodeToString)
qed

lemma parseHeaders_limited:
  assumes "length (mv_Sum256 env (fallbackKey m)) = 32"
  shows "email_limited p (parseHeaders env m h)"
proof -
  have ids: "length (case cleanMessageIDs vs of [] \<Rightarrow> '''' | v # _ \<Rightarrow> v) \<le> maxMessageIDBytes" for vs
    using cleanMessageIDs_limits[of _ vs] by (cases "cleanMessageIDs vs") auto
  obtain k where refs: "limitReferences (cleanMessageIDs (mh_MsgIDList h ''References'')) = drop k (cleanMessageIDs (mh_MsgIDList h ''References''))"
    "refBytes (cleanMessageIDs (mh_MsgIDList h ''References'')) k \<le> maxReferencesBytes" using limitReferences_suffix by blast
  have "v \<noteq> ''''" if "v \<in> set (limitReferences (cleanMessageIDs (mh_MsgIDList h ''References'')))" for v
    using that cleanMessageIDs_limits refs(1) by (metis in_set_dropD)
  with ids refs fallbackMessageID_limit[OF assms] cleanMessageID_limit truncateRunes_limit show ?thesis
    by (auto simp: email_limited_def parseHeaders_def Let_def refBytes_def parts_limited_def keptBytes_def fallbackMessageID_def
        split: prod.splits)
qed

text \<open>Walking the parts leaves the headers alone.\<close>

definition headers :: "ParsedEmail \<Rightarrow> string \<times> string \<times> string list \<times> string" where
  "headers e = (pe_MessageID e, pe_InReplyTo e, pe_References e, pe_Subject e)"

lemma visitPart_headers: "visitPart env p i part st = Inr st' \<Longrightarrow> headers (wk_parsed st') = headers (wk_parsed st)"
  by (auto simp: visitPart_def readBody_def acceptPart_def headers_def Let_def split: if_splits option.splits prod.splits)

lemma walked_limited:
  assumes "email_limited p parsed" and "pe_Parts parsed = []" and "parseMIMEParts env p e parsed = Inr parsed'"
  shows "email_limited p parsed'"
proof -
  let ?st = "\<lparr>wk_parsed = parsed, wk_acceptedParts = 0, wk_acceptedSize = 0\<rparr>"
  from assms(3) obtain st where run: "walkParts env p 0 (et_visits e) ?st = Inr st" and p': "parsed' = wk_parsed st"
    by (auto simp: parseMIMEParts_def split: sum.splits option.splits)
  have "walk_ok p ?st" using assms(1,2) by (simp add: walk_ok_def email_limited_def keptBytes_def)
  from walkParts_ok[OF this run] have ok: "walk_ok p st" .
  have "headers (wk_parsed st') = headers (wk_parsed st0)" if "walkParts env p i parts st0 = Inr st'" for i parts st0 st'
    using that by (induction env p i parts st0 rule: walkParts.induct) (auto split: sum.splits dest: visitPart_headers)
  from this[OF run] assms(1) ok p' show ?thesis by (auto simp: email_limited_def walk_ok_def headers_def)
qed

lemma finalized_limited:
  assumes "email_limited p parsed" and "finalizeEmailParts env parsed = Some parsed'"
  shows "email_limited p parsed'"
  using assms finalizeParts_limited[of env "pe_HTMLBody parsed" 0 "pe_Parts parsed" _ p]
  by (auto simp: finalizeEmailParts_def email_limited_def parts_limited_def)

lemma Parse_Inr: "Parse env p m = Some (Inr e) \<Longrightarrow> parse env p m = Some (Inr e)"
  unfolding Parse_def by (cases "parse env p m") (auto split: sum.splits if_splits)

lemma parse_Inr:
  assumes "parse env p (Some m) = Some (Inr e)"
  obtains ent parsed fin where "parseMIMEParts env p ent (parseHeaders env m (et_Header ent)) = Inr parsed"
    "finalizeEmailParts env parsed = Some fin"
    "e = fin \<or> e = fin\<lparr>pe_TextBody := limitBody (mv_HTML2Text env (pe_HTMLBody fin)) (mp_maxBodySize p)\<rparr>"
proof -
  from assms obtain ent err where read: "mv_Read env None \<lparr>bd_bytes = msg_Raw m, bd_broken = False\<rparr> = (Some ent, err)"
    "\<not> mv_cancel env 0" "\<not> (case err of None \<Rightarrow> False | Some x \<Rightarrow> \<not> isRecoverableDecodeError x)"
    by (auto simp: parse_def split: if_splits prod.splits option.splits)
  with assms obtain parsed where walk: "parseMIMEParts env p ent (parseHeaders env m (et_Header ent)) = Inr parsed"
    by (auto simp: parse_def split: sum.splits)
  with assms read obtain fin where "finalizeEmailParts env parsed = Some fin" by (auto simp: parse_def split: option.splits)
  with assms read walk that show thesis by (auto simp: parse_def split: if_splits)
qed

text \<open>
  C10: Whatever an email contains, what is read from it is within the limits: the bodies are valid
  UTF-8 of at most \<^verbatim>\<open>MaxBodySize\<close> bytes; at most \<^verbatim>\<open>MaxAttachments\<close> parts are kept, each whole and
  of at most \<^verbatim>\<open>MaxAttachmentSize\<close> bytes, together at most \<^verbatim>\<open>MaxAttachmentsTotalSize\<close>, and every
  other part says why it was skipped; the message always has an identifier, of at most 998 bytes
  like the one it answers; the references fit in 32 KiB and the subject in 255 characters.
\<close>

theorem parsed_email_is_limited:
  assumes "Parse env p (Some m) = Some (Inr e)" and "length (mv_Sum256 env (fallbackKey m)) = 32"
  shows "email_limited p e"
proof -
  from Parse_Inr[OF assms(1)] obtain ent parsed fin where
    walk: "parseMIMEParts env p ent (parseHeaders env m (et_Header ent)) = Inr parsed" and fin: "finalizeEmailParts env parsed = Some fin"
    and e: "e = fin \<or> e = fin\<lparr>pe_TextBody := limitBody (mv_HTML2Text env (pe_HTMLBody fin)) (mp_maxBodySize p)\<rparr>"
    by (rule parse_Inr)
  have "pe_Parts (parseHeaders env m (et_Header ent)) = []" by (simp add: parseHeaders_def Let_def split: prod.splits)
  from finalized_limited[OF walked_limited[OF parseHeaders_limited[OF assms(2)] this walk] fin] e show ?thesis
    by (auto simp: email_limited_def)
qed

text \<open>An email with a text, a small file and one that is too large.\<close>

definition sample_mime_header :: "string \<Rightarrow> mime_header" where
  "sample_mime_header ct = \<lparr>mh_Get = (\<lambda>_. ''''), mh_Has = (\<lambda>_. False), mh_ContentType = Some (ct, \<lambda>_. ''''), mh_MessageID = (''a@b'', False),
     mh_MsgIDList = (\<lambda>_. [''r@b'']), mh_Subject = (''Hello'', False), mh_Date = None, mh_AddressList = (\<lambda>_. None)\<rparr>"

definition sample_part :: "string \<Rightarrow> string \<Rightarrow> part" where
  "sample_part ct b = \<lparr>pt_err = None, pt_header = sample_mime_header ct, pt_disposition = '''', pt_Filename = ''f'',
     pt_Body = \<lparr>bd_bytes = b, bd_broken = False\<rparr>\<rparr>"

definition sample_mime :: mime_env where
  "sample_mime = \<lparr>mv_Read = (\<lambda>_ _. (Some \<lparr>et_Header = sample_mime_header ''multipart/mixed'',
       et_visits = [sample_part ''text/plain'' ''Good day'', sample_part ''image/png'' ''12'', sample_part ''image/png'' ''12345''],
       et_walkErr = None\<rparr>, None)),
     mv_statusHeaders = (\<lambda>_. []), mv_HTML2Text = (\<lambda>s. s), mv_Sum256 = (\<lambda>_. replicate 32 (CHR ''x'')), mv_lowerRune = (\<lambda>r. r),
     mv_cancel = (\<lambda>_. False), mv_cancelled = False, mv_Now = 1\<rparr>"

definition sample_parser :: MIMEParser where
  "sample_parser = \<lparr>mp_maxBodySize = 4, mp_maxAttachmentSize = 3, mp_maxAttachmentsTotalSize = 3, mp_maxAttachments = 2\<rparr>"

definition sample_raw :: Message where
  "sample_raw = \<lparr>msg_DomainID = 7, msg_ProfileID = 1, msg_Assignment = sample_token, msg_Mailbox = ''INBOX'', msg_UIDValidity = 1, msg_UID = 5,
     msg_InternalDate = 1000, msg_Size = 9, msg_Raw = ''raw'', msg_TooLarge = False\<rparr>"

lemma parse_observed:
  assumes "map_option (\<lambda>r. case r of Inl _ \<Rightarrow> None | Inr e \<Rightarrow> Some (f e)) x = Some (Some y)"
  shows "\<exists>e. x = Some (Inr e) \<and> f e = y"
proof (cases x)
  case (Some r)
  with assms show ?thesis by (cases r) auto
qed (use assms in simp)

definition sample_view :: "ParsedEmail \<Rightarrow> string \<times> string option list \<times> EmailPartSkippedReason option list" where
  "sample_view e = (pe_TextBody e, map pa_Content (pe_Parts e), map pa_SkippedReason (pe_Parts e))"

lemma sample_parse_run:
  "map_option (\<lambda>r. case r of Inl _ \<Rightarrow> None | Inr e \<Rightarrow> Some (sample_view e)) (Parse sample_mime sample_parser (Some sample_raw)) =
     Some (Some (''Good'', [Some ''12'', None], [None, Some EmailPartSkippedSizeLimit]))"
  by code_simp

theorem parsed_email_is_limited_witness:
  "\<exists>e. Parse sample_mime sample_parser (Some sample_raw) = Some (Inr e) \<and> email_limited sample_parser e \<and>
     sample_view e = (''Good'', [Some ''12'', None], [None, Some EmailPartSkippedSizeLimit])"
proof -
  obtain e where run: "Parse sample_mime sample_parser (Some sample_raw) = Some (Inr e)"
    and e: "sample_view e = (''Good'', [Some ''12'', None], [None, Some EmailPartSkippedSizeLimit])"
    using parse_observed[OF sample_parse_run] by blast
  have "email_limited sample_parser e" by (rule parsed_email_is_limited[OF run]) (simp add: sample_mime_def)
  with run e show ?thesis by blast
qed

subsection \<open>References and generated identifiers\<close>

text \<open>
  Of references that are too long together the newest are kept, as many as fit: the result is a
  suffix of the cleaned list that fits in 32 KiB, and the suffix with one more would not.
\<close>

theorem references_keep_the_newest:
  "\<exists>k. limitReferences vs = drop k vs \<and> length (Join (drop k vs) '' '') \<le> maxReferencesBytes \<and>
     (k = 0 \<or> maxReferencesBytes < length (Join (drop (k - 1) vs) '' ''))"
proof -
  from limitReferences_suffix[of vs] obtain k where k: "limitReferences vs = drop k vs" "refBytes vs k \<le> maxReferencesBytes"
    "\<forall>j. k = Suc j \<longrightarrow> maxReferencesBytes < refBytes vs j" by blast
  then show ?thesis by (intro exI[of _ k]) (cases k, auto simp: refBytes_def)
qed

lemma cut_at_colon:
  assumes "a @ CHR '':'' # x = b @ CHR '':'' # y" and "CHR '':'' \<notin> set a" and "CHR '':'' \<notin> set b"
  shows "a = b \<and> x = y"
  using assms
proof (induction a arbitrary: b)
  case Nil
  then show ?case by (cases b) auto
next
  case (Cons c a)
  then show ?case by (cases b) auto
qed

lemma FormatInt_no_colon: "CHR '':'' \<notin> set (FormatInt i)"
  using FormatInt_chars[of "CHR '':''" i] by auto

lemma fallbackKey_identifies:
  assumes "fallbackKey a = fallbackKey b"
  shows "msg_ProfileID a = msg_ProfileID b \<and> msg_Mailbox a = msg_Mailbox b \<and> msg_UIDValidity a = msg_UIDValidity b \<and> msg_UID a = msg_UID b"
proof -
  let ?rest = "\<lambda>m. FormatInt (uint (msg_UIDValidity m)) @ CHR '':'' # FormatInt (uint (msg_UID m))"
  let ?tail = "\<lambda>m. msg_Mailbox m @ CHR '':'' # ?rest m"
  let ?mid = "\<lambda>m. FormatInt (int (length (msg_Mailbox m))) @ CHR '':'' # ?tail m"
  have "FormatInt (msg_ProfileID a) @ CHR '':'' # ?mid a = FormatInt (msg_ProfileID b) @ CHR '':'' # ?mid b"
    using assms by (simp add: fallbackKey_def)
  from cut_at_colon[OF this FormatInt_no_colon FormatInt_no_colon] have profile: "msg_ProfileID a = msg_ProfileID b" and mid: "?mid a = ?mid b"
    using FormatInt_inj by blast+
  from cut_at_colon[OF mid FormatInt_no_colon FormatInt_no_colon] have "int (length (msg_Mailbox a)) = int (length (msg_Mailbox b))"
    and tail: "?tail a = ?tail b" using FormatInt_inj by blast+
  then have mailbox: "msg_Mailbox a = msg_Mailbox b" and rest: "?rest a = ?rest b" by auto
  from cut_at_colon[OF rest FormatInt_no_colon FormatInt_no_colon] have "uint (msg_UIDValidity a) = uint (msg_UIDValidity b)" "uint (msg_UID a) = uint (msg_UID b)"
    using FormatInt_inj by blast+
  with profile mailbox show ?thesis by (simp add: word_uint_eq_iff)
qed

lemma EncodeToString_inj:
  assumes "EncodeToString a = EncodeToString b"
  shows "a = b"
  using assms
proof (induction a arbitrary: b)
  case Nil
  then have "length (EncodeToString b) = 0" by (simp add: EncodeToString_def)
  then show ?case by (simp add: length_EncodeToString)
next
  case (Cons c a)
  then have "length (EncodeToString b) > 0" by (metis length_EncodeToString length_Cons mult_is_0 not_gr_zero numeral_2_eq_2 nat.distinct(1))
  then obtain d b' where b: "b = d # b'" by (cases b) (simp_all add: EncodeToString_def)
  have low: "byte x mod 16 < 16" "byte x div 16 < 16" for x :: char using byte_bound[of x] by (simp_all add: less_mult_imp_div_less)
  have digit16: "m = n" if "digit m = digit n" "m < 16" "n < 16" for m n
    using that arg_cong[OF that(1), of "of_char :: char \<Rightarrow> nat"] by (auto simp: digit_def split: if_splits)
  from Cons.prems b have "digit (byte c mod 16) = digit (byte d mod 16)" "digit (byte c div 16 mod 16) = digit (byte d div 16 mod 16)"
    and rest: "EncodeToString a = EncodeToString b'" by (simp_all add: EncodeToString_def numeral_2_eq_2)
  then have "byte c mod 16 = byte d mod 16" "byte c div 16 = byte d div 16" using digit16 low by (metis mod_less)+
  then have "byte c = byte d" by (metis div_mult_mod_eq)
  then have "c = d" by simp
  with Cons.IH[OF rest] b show ?case by simp
qed

text \<open>
  The identifier made up for an email without one is that of its place in the mailbox: two
  emails share it only when profile, mailbox, UIDVALIDITY and UID are the same, or two different
  keys have the same SHA-256 sum.
\<close>

theorem fallback_identifies_the_position:
  assumes "fallbackMessageID env a = fallbackMessageID env b"
  shows "(msg_ProfileID a = msg_ProfileID b \<and> msg_Mailbox a = msg_Mailbox b \<and> msg_UIDValidity a = msg_UIDValidity b \<and> msg_UID a = msg_UID b) \<or>
    (fallbackKey a \<noteq> fallbackKey b \<and> mv_Sum256 env (fallbackKey a) = mv_Sum256 env (fallbackKey b))"
proof -
  have "EncodeToString (mv_Sum256 env (fallbackKey a)) @ ''@webitel.local'' = EncodeToString (mv_Sum256 env (fallbackKey b)) @ ''@webitel.local''"
    using assms unfolding fallbackMessageID_def by (rule same_append_eq[THEN iffD1])
  then have "mv_Sum256 env (fallbackKey a) = mv_Sum256 env (fallbackKey b)" using EncodeToString_inj by blast
  then show ?thesis using fallbackKey_identifies by blast
qed

theorem fallback_identifies_the_position_witness:
  "(msg_ProfileID sample_raw = msg_ProfileID (sample_raw\<lparr>msg_Size := 0\<rparr>) \<and> msg_Mailbox sample_raw = msg_Mailbox (sample_raw\<lparr>msg_Size := 0\<rparr>) \<and>
     msg_UIDValidity sample_raw = msg_UIDValidity (sample_raw\<lparr>msg_Size := 0\<rparr>) \<and> msg_UID sample_raw = msg_UID (sample_raw\<lparr>msg_Size := 0\<rparr>)) \<or>
   (fallbackKey sample_raw \<noteq> fallbackKey (sample_raw\<lparr>msg_Size := 0\<rparr>) \<and>
     mv_Sum256 sample_mime (fallbackKey sample_raw) = mv_Sum256 sample_mime (fallbackKey (sample_raw\<lparr>msg_Size := 0\<rparr>)))"
  by (rule fallback_identifies_the_position) (simp add: fallbackMessageID_def fallbackKey_def)

section \<open>Looking for an inline image\<close>

text \<open>The search ends without a panic when lower-casing does not make the text longer.\<close>

lemma cidLoop_returns:
  assumes "length lower \<le> length html"
  shows "cidLoop html lower cid offset \<noteq> None"
  using assms
proof (induction html lower cid offset rule: cidLoop.induct)
  case (1 html lower cid offset)
  show ?case
  proof (cases "offset < length html")
    case True
    show ?thesis
    proof (cases "Index (drop offset lower) ''cid:''")
      case None
      with True show ?thesis by (subst cidLoop.simps) simp
    next
      case (Some index)
      have "index + 4 \<le> length lower - offset" using Index_bound[OF Some] by simp
      with "1.prems" have "\<not> offset + index + 4 > length html" by simp
      with "1.IH"[OF True Some HOL.refl this HOL.refl] "1.prems" True Some show ?thesis
        by (subst cidLoop.simps) (simp add: Let_def del: not_None_eq)
    qed
  qed (subst cidLoop.simps, simp)
qed

lemma length_ToLower:
  assumes "\<forall>r\<in>set (runes s). is_rune r" and "\<forall>r\<in>set (runes s). length (mv_lowerRune env r) \<le> length r"
  shows "length (ToLower env s) \<le> length s"
proof -
  have "length (concat (map f rs)) \<le> length (concat rs)" if "\<forall>r\<in>set rs. length (f r) \<le> length r" for f :: "string \<Rightarrow> string" and rs
    using that by (induction rs) (auto intro: add_mono)
  moreover have "length (if \<not> is_rune r then RuneError else case r of [c] \<Rightarrow> [asciiLower c] | _ \<Rightarrow> mv_lowerRune env r) \<le> length r"
    if "r \<in> set (runes s)" for r using assms that by (auto split: list.splits)
  ultimately have "length (ToLower env s) \<le> length (concat (runes s))" unfolding ToLower_def by (metis (no_types, lifting))
  then show ?thesis by simp
qed

lemma finalizeParts_returns:
  assumes "length (ToLower env html) \<le> length html"
  shows "finalizeParts env html i qs \<noteq> None"
proof (induction qs arbitrary: i)
  case (Cons q qs)
  have "htmlReferencesCID env html cid \<noteq> None" for cid using cidLoop_returns[OF assms] by (simp add: htmlReferencesCID_def del: not_None_eq)
  then have "finalizePart env html i q \<noteq> None" by (auto simp: finalizePart_def Let_def simp del: not_None_eq split: option.splits if_splits)
  with Cons[of "Suc i"] show ?case by (auto simp del: not_None_eq split: option.splits)
qed simp

lemma walked_html:
  assumes "parseMIMEParts env p ent (parseHeaders env m h) = Inr parsed"
  shows "body_limited p (pe_HTMLBody parsed)"
proof -
  let ?st = "\<lparr>wk_parsed = parseHeaders env m h, wk_acceptedParts = 0, wk_acceptedSize = 0\<rparr>"
  from assms obtain st where run: "walkParts env p 0 (et_visits ent) ?st = Inr st" and p': "parsed = wk_parsed st"
    by (auto simp: parseMIMEParts_def split: sum.splits option.splits)
  have "walk_ok p ?st" by (simp add: walk_ok_def parts_limited_def keptBytes_def parseHeaders_def Let_def split: prod.splits)
  from walkParts_ok[OF this run] p' show ?thesis by (simp add: walk_ok_def)
qed

lemma parse_returns:
  assumes "\<And>s r. r \<in> set (runes s) \<Longrightarrow> length (mv_lowerRune env r) \<le> length r"
  shows "parse env p m \<noteq> None"
proof -
  have "finalizeEmailParts env parsed \<noteq> None" if "parseMIMEParts env p ent (parseHeaders env x h) = Inr parsed" for ent x h parsed
  proof -
    have "ValidString (pe_HTMLBody parsed)" using walked_html[OF that] by (simp add: body_limited_def)
    then have "length (ToLower env (pe_HTMLBody parsed)) \<le> length (pe_HTMLBody parsed)"
      using assms by (intro length_ToLower) (auto simp: ValidString_def list_all_iff)
    from finalizeParts_returns[OF this] show ?thesis by (simp add: finalizeEmailParts_def)
  qed
  then show ?thesis by (auto simp: parse_def simp del: not_None_eq split: option.splits prod.splits sum.splits)
qed

text \<open>
  The proviso is needed. The position of \<^verbatim>\<open>cid:\<close> is searched in the lower-case text and used in the
  original one, and U+023A, two bytes long, has a lower-case form of three bytes: the slice
  begins behind the end of the text.
\<close>

lemma cid_search_can_panic:
  assumes "mv_lowerRune env [CHR 0xC8, CHR 0xBA] = [CHR 0xE2, CHR 0xB1, CHR 0xA5]"
  shows "htmlReferencesCID env ([CHR 0xC8, CHR 0xBA] @ ''cid:'') ''logo'' = None"
proof -
  let ?html = "[CHR 0xC8, CHR 0xBA] @ ''cid:''"
  have "runes ?html = [[CHR 0xC8, CHR 0xBA], ''c'', ''i'', ''d'', '':'']" by code_simp
  then have low: "ToLower env ?html = [CHR 0xE2, CHR 0xB1, CHR 0xA5] @ ''cid:''"
    using assms by (simp add: ToLower_def width_def second_ok_def cont_def asciiLower_def)
  have "Index ([CHR 0xE2, CHR 0xB1, CHR 0xA5] @ ''cid:'') ''cid:'' = Some 3" by code_simp
  with low show ?thesis by (simp add: htmlReferencesCID_def cidLoop.simps Let_def)
qed

end
