(* ===== verification/Service_Config.thy ===== *)
theory Service_Config
  imports Poll_Worker Poll_Scheduler Mime_Parser Outbox_Relay
begin

text \<open>
  The configuration (\<^verbatim>\<open>config/config.go\<close>): its sections, the validation that the server and the
  migration command run before anything starts, the defaults of the flags, and the constructors
  through which the sections reach the components. The lemmas show what the components may rely
  on: every hypothesis on a limit that the other theories need follows from the validation.

  Flags, environment and file are read by \<^verbatim>\<open>appconfig\<close>, which is not part of the repository: a
  loader is an argument, and so are the checks of its own sections and the parser of URLs.
  A \<^verbatim>\<open>time.Duration\<close> is a signed 64-bit number, so the one product of the validation wraps.
\<close>

section \<open>Sections\<close>

record InboundEventConfig =
  ie_MaxBodyTextSize :: int
  ie_MaxAddressesPerType :: int
  ie_MaxAttachments :: int
  ie_MaxFieldSize :: int
  ie_MaxPayloadSize :: int

definition InboundEventConfig_Limits :: "InboundEventConfig \<Rightarrow> Limits" where
  "InboundEventConfig_Limits c = \<lparr>li_MaxBodyTextSize = ie_MaxBodyTextSize c, li_MaxAddressesPerType = ie_MaxAddressesPerType c,
     li_MaxAttachments = ie_MaxAttachments c, li_MaxFieldSize = ie_MaxFieldSize c, li_MaxPayloadSize = ie_MaxPayloadSize c\<rparr>"

record ContactsConfig =
  cc_SearchTimeout :: duration
  cc_MaxConcurrentSearches :: int

record StorageConfig =
  st_UploadTimeout :: duration
  st_MaxConcurrentUploads :: int
  st_MaxAttachmentAttempts :: int

record MIMEConfig =
  mc_MaxBodySize :: int
  mc_MaxAttachmentSize :: int
  mc_MaxAttachmentsTotalSize :: int
  mc_MaxAttachments :: int

record IMAPPollingConfig =
  ip_TickInterval :: duration
  ip_MaxConcurrency :: int
  ip_ShutdownTimeout :: duration
  ip_FetchBatchSize :: int
  ip_MaxMessageSize :: int
  ip_MaxMessagesPerPoll :: int
  ip_MaxOpenConnections :: int

record LeaderElectionConfig =
  le_SessionTTL :: duration
  le_LockDelay :: duration
  le_RetryInterval :: duration
  le_ErrorCooldown :: duration
  le_MonitorInterval :: duration

record ProfileDistributionConfig =
  pd_ReconcileInterval :: duration

record OAuthConfig =
  ou_RedirectURL :: string

text \<open>
  \<open>'g\<close> is \<^verbatim>\<open>appconfig.GRPCConn\<close>. Of the other sections of \<^verbatim>\<open>appconfig\<close> the fields the service reads
  are kept.
\<close>

record 'g ServiceConfig =
  se_Addr :: string
  se_Connection :: 'g

record 'g Config =
  cf_Service :: "'g ServiceConfig"
  cf_OAuth :: OAuthConfig
  cf_LogLevel :: string
  cf_PostgresDSN :: string
  cf_ConsulAddr :: string
  cf_PubsubDriver :: string
  cf_PubsubURL :: string
  cf_LeaderElection :: LeaderElectionConfig
  cf_ProfileDistribution :: ProfileDistributionConfig
  cf_IMAPPolling :: IMAPPollingConfig
  cf_MIME :: MIMEConfig
  cf_Storage :: StorageConfig
  cf_Contacts :: ContactsConfig
  cf_InboundEvent :: InboundEventConfig
  cf_Outbox :: OutboxConfig

section \<open>Validation\<close>

record URL =
  ur_Scheme :: string
  ur_Host :: string

text \<open>What the validation calls outside the repository: \<^verbatim>\<open>net/url\<close> and \<^verbatim>\<open>appconfig\<close>.\<close>

record 'g config_env =
  ce_Parse :: "string \<Rightarrow> error + URL"
  ce_ParseRequestURI :: "string \<Rightarrow> error + URL"
  ce_ValidateGRPCConn :: "string \<Rightarrow> 'g \<Rightarrow> error option"

abbreviation config_error :: "string \<Rightarrow> error option" where
  "config_error s \<equiv> Some (PlainError (''config: '' @ s))"

definition MaxInt32 :: int where
  "MaxInt32 = 2147483647"

text \<open>A product of a duration wraps around at 64 bits.\<close>

definition duration_times :: "int \<Rightarrow> duration \<Rightarrow> duration" where
  "duration_times k d = sint (word_of_int k * word_of_int d :: 64 word)"

definition LeaderElectionConfig_validate :: "LeaderElectionConfig \<Rightarrow> error option" where
  "LeaderElectionConfig_validate c =
     (if le_SessionTTL c < 10 * second \<or> le_SessionTTL c > 24 * 3600 * second
      then config_error ''leader_election.session_ttl must be within 10s..24h''
      else if le_LockDelay c \<le> 0 then config_error ''leader_election.lock_delay must be positive''
      else if le_RetryInterval c \<le> 0 \<or> le_ErrorCooldown c \<le> 0 \<or> le_MonitorInterval c \<le> 0
      then config_error ''leader_election intervals must be positive''
      else None)"

definition IMAPPollingConfig_validate :: "IMAPPollingConfig \<Rightarrow> error option" where
  "IMAPPollingConfig_validate c =
     (if ip_TickInterval c \<le> 0 then config_error ''imap_polling.tick_interval must be positive''
      else if ip_MaxConcurrency c < 1 then config_error ''imap_polling.max_concurrency must be at least 1''
      else if ip_ShutdownTimeout c \<le> 0 \<or> ip_ShutdownTimeout c \<ge> 15 * second
      then config_error ''imap_polling.shutdown_timeout must be within (0, 15s)''
      else if ip_FetchBatchSize c < 1 \<or> ip_MaxMessagesPerPoll c < ip_FetchBatchSize c
      then config_error ''imap_polling.fetch_batch_size must be at least 1 and not above max_messages_per_poll''
      else if ip_MaxMessageSize c < 1 \<or> ip_MaxMessageSize c \<ge> MaxInt32
      then config_error ''imap_polling.max_message_size must be within 1..2147483646 bytes''
      else if ip_MaxOpenConnections c < ip_MaxConcurrency c
      then config_error ''imap_polling.max_open_connections must be at least max_concurrency''
      else None)"

definition MIMEConfig_validate :: "MIMEConfig \<Rightarrow> int \<Rightarrow> error option" where
  "MIMEConfig_validate c maxMessageSize =
     (if mc_MaxBodySize c < 1 \<or> mc_MaxBodySize c > maxMessageSize
      then config_error ''mime.max_body_size must be within 1..imap_polling.max_message_size bytes''
      else if mc_MaxAttachmentSize c < 1 \<or> mc_MaxAttachmentSize c > maxMessageSize
      then config_error ''mime.max_attachment_size must be within 1..imap_polling.max_message_size bytes''
      else if mc_MaxAttachmentsTotalSize c < mc_MaxAttachmentSize c \<or> mc_MaxAttachmentsTotalSize c > maxMessageSize
      then config_error ''mime.max_attachments_total_size must be at least max_attachment_size and not above imap_polling.max_message_size''
      else if mc_MaxAttachments c < 1 then config_error ''mime.max_attachments must be at least 1''
      else None)"

definition StorageConfig_validate :: "StorageConfig \<Rightarrow> error option" where
  "StorageConfig_validate c =
     (if st_UploadTimeout c \<le> 0 then config_error ''storage.upload_timeout must be positive''
      else if st_MaxConcurrentUploads c < 1 then config_error ''storage.max_concurrent_uploads must be at least 1''
      else if st_MaxAttachmentAttempts c < 1 then config_error ''storage.max_attachment_attempts must be at least 1''
      else None)"

definition OutboxConfig_validate :: "OutboxConfig \<Rightarrow> error option" where
  "OutboxConfig_validate c =
     (if oc_PublishTimeout c \<le> 0 \<or> oc_PollInterval c \<le> 0 \<or> oc_CleanupInterval c \<le> 0 \<or> oc_Retention c \<le> 0
      then config_error ''outbox timeouts and intervals must be positive''
      else if oc_BatchSize c < 1 \<or> oc_CleanupBatch c < 1
      then config_error ''outbox.batch_size and outbox.cleanup_batch must be at least 1''
      else if oc_LeaseDuration c < duration_times 4 (oc_PublishTimeout c)
      then config_error ''outbox.lease_duration must be at least four times outbox.publish_timeout''
      else if oc_RetryInitialInterval c \<le> 0 \<or> oc_RetryMaxInterval c < oc_RetryInitialInterval c
      then config_error ''outbox.retry_initial_interval must be positive and not above retry_max_interval''
      else None)"

definition ContactsConfig_validate :: "ContactsConfig \<Rightarrow> error option" where
  "ContactsConfig_validate c =
     (if cc_SearchTimeout c \<le> 0 then config_error ''contacts.search_timeout must be positive''
      else if cc_MaxConcurrentSearches c < 1 then config_error ''contacts.max_concurrent_searches must be at least 1''
      else None)"

definition validateOAuthRedirectURL :: "'g config_env \<Rightarrow> string \<Rightarrow> error option" where
  "validateOAuthRedirectURL env rawURL =
     (if rawURL = '''' then None
      else case ce_ParseRequestURI env rawURL of
        Inl e \<Rightarrow> Some e
      | Inr u \<Rightarrow>
          if ur_Scheme u \<noteq> ''http'' \<and> ur_Scheme u \<noteq> ''https'' then config_error ''oauth.redirect_url must use http or https scheme''
          else if ur_Host u = '''' then config_error ''oauth.redirect_url must include a host''
          else None)"

definition validateMigrate :: "'g Config \<Rightarrow> error option" where
  "validateMigrate c =
     (if cf_LogLevel c \<in> {''debug'', ''info'', ''warn'', ''error''}
      then if cf_PostgresDSN c = '''' then config_error ''postgres.dsn is required (use --postgres.dsn or POSTGRES_DSN)'' else None
      else if cf_LogLevel c = '''' then config_error ''log.level is required''
      else config_error (''unsupported log.level '' @ cf_LogLevel c))"

definition validateAMQPURL :: "'g config_env \<Rightarrow> string \<Rightarrow> error option" where
  "validateAMQPURL env rawURL =
     (if rawURL = '''' then config_error ''pubsub.url is required (use --pubsub.url or PUBSUB_URL)''
      else case ce_Parse env rawURL of
        Inl e \<Rightarrow> Some e
      | Inr u \<Rightarrow>
          if ur_Scheme u \<noteq> ''amqp'' \<and> ur_Scheme u \<noteq> ''amqps'' then config_error ''pubsub.url must use amqp or amqps scheme''
          else if ur_Host u = '''' then config_error ''pubsub.url must include a host''
          else None)"

text \<open>\<^verbatim>\<open>if err := check(); err != nil { return err }\<close>, then the rest.\<close>

definition andThen :: "error option \<Rightarrow> error option \<Rightarrow> error option" where
  "andThen check rest = (case check of Some e \<Rightarrow> Some e | None \<Rightarrow> rest)"

lemma andThen_None [simp]: "andThen check rest = None \<longleftrightarrow> check = None \<and> rest = None"
  by (simp add: andThen_def split: option.splits)

definition Config_validate :: "'g config_env \<Rightarrow> 'g Config \<Rightarrow> error option" where
  "Config_validate env c =
     (if se_Addr (cf_Service c) = '''' then config_error ''service.addr is required''
      else andThen (ce_ValidateGRPCConn env ''service.conn'' (se_Connection (cf_Service c)))
       (andThen (validateOAuthRedirectURL env (ou_RedirectURL (cf_OAuth c)))
       (andThen (LeaderElectionConfig_validate (cf_LeaderElection c))
       (if pd_ReconcileInterval (cf_ProfileDistribution c) \<le> 0
        then config_error ''profile_distribution.reconcile_interval must be positive''
        else andThen (IMAPPollingConfig_validate (cf_IMAPPolling c))
       (andThen (MIMEConfig_validate (cf_MIME c) (ip_MaxMessageSize (cf_IMAPPolling c)))
       (andThen (StorageConfig_validate (cf_Storage c))
       (andThen (ContactsConfig_validate (cf_Contacts c))
       (andThen (Limits_Validate (InboundEventConfig_Limits (cf_InboundEvent c)))
       (andThen (OutboxConfig_validate (cf_Outbox c))
       (andThen (validateMigrate c)
       (if cf_ConsulAddr c = '''' then config_error ''consul.addr is required''
        else if cf_PubsubDriver c \<noteq> ''rabbitmq'' then config_error (''unsupported pubsub.driver '' @ cf_PubsubDriver c)
        else validateAMQPURL env (cf_PubsubURL c))))))))))))"

text \<open>
  Loading: the flags are parsed (the arguments that are no flags are left over), the loader merges
  flags, environment, file and defaults, and the result is validated.
\<close>

definition LoadConfig :: "(string list \<Rightarrow> error + string list) \<Rightarrow> (string list \<Rightarrow> error + 'c) \<Rightarrow> ('c \<Rightarrow> error option) \<Rightarrow>
    string list \<Rightarrow> error + 'c" where
  "LoadConfig parseFlags load check args =
     (case parseFlags args of
        Inl e \<Rightarrow> Inl e
      | Inr rest \<Rightarrow>
          if length rest \<noteq> 0 then Inl (PlainError ''config: unexpected arguments'')
          else (case load args of
            Inl e \<Rightarrow> Inl e
          | Inr cfg \<Rightarrow> (case check cfg of Some e \<Rightarrow> Inl e | None \<Rightarrow> Inr cfg)))"

definition LoadServerConfig where
  "LoadServerConfig env parseFlags load args = LoadConfig parseFlags load (Config_validate env) args"

definition LoadMigrateConfig where
  "LoadMigrateConfig parseFlags load args = LoadConfig parseFlags load validateMigrate args"

section \<open>Defaults\<close>

definition default_InboundEvent :: InboundEventConfig where
  "default_InboundEvent = \<lparr>ie_MaxBodyTextSize = 64 * 1024, ie_MaxAddressesPerType = 100, ie_MaxAttachments = 100,
     ie_MaxFieldSize = 1024, ie_MaxPayloadSize = 1024 * 1024\<rparr>"

text \<open>
  \<^verbatim>\<open>registerServiceFlags\<close>: the values a section has when nothing sets it. The sections of
  \<^verbatim>\<open>appconfig\<close> keep what they are given.
\<close>

definition registerServiceFlags :: "'g Config \<Rightarrow> 'g Config" where
  "registerServiceFlags c = c\<lparr>
     cf_Service := (cf_Service c)\<lparr>se_Addr := ''localhost:8080''\<rparr>,
     cf_OAuth := \<lparr>ou_RedirectURL = ''''\<rparr>,
     cf_LeaderElection := \<lparr>le_SessionTTL = 15 * second, le_LockDelay = second, le_RetryInterval = 10 * second,
       le_ErrorCooldown = 5 * second, le_MonitorInterval = 5 * second\<rparr>,
     cf_ProfileDistribution := \<lparr>pd_ReconcileInterval = 10 * second\<rparr>,
     cf_IMAPPolling := \<lparr>ip_TickInterval = second, ip_MaxConcurrency = 50, ip_ShutdownTimeout = 10 * second,
       ip_FetchBatchSize = 50, ip_MaxMessageSize = 40 * 1048576, ip_MaxMessagesPerPoll = 500, ip_MaxOpenConnections = 500\<rparr>,
     cf_MIME := \<lparr>mc_MaxBodySize = 1048576, mc_MaxAttachmentSize = 10 * 1048576,
       mc_MaxAttachmentsTotalSize = 20 * 1048576, mc_MaxAttachments = 15\<rparr>,
     cf_Storage := \<lparr>st_UploadTimeout = 120 * second, st_MaxConcurrentUploads = 20, st_MaxAttachmentAttempts = 3\<rparr>,
     cf_Contacts := \<lparr>cc_SearchTimeout = 5 * second, cc_MaxConcurrentSearches = 20\<rparr>,
     cf_InboundEvent := default_InboundEvent,
     cf_Outbox := \<lparr>oc_PublishTimeout = 5 * second, oc_PollInterval = second, oc_BatchSize = 100, oc_LeaseDuration = 60 * second,
       oc_RetryInitialInterval = second, oc_RetryMaxInterval = 30 * second, oc_Retention = 72 * 3600 * second,
       oc_CleanupInterval = 3600 * second, oc_CleanupBatch = 1000\<rparr>\<rparr>"

section \<open>Constructors of the components\<close>

definition scheduler_limits :: "'g Config \<Rightarrow> limits" where
  "scheduler_limits c = \<lparr>lm_MaxConcurrency = nat (ip_MaxConcurrency (cf_IMAPPolling c)),
     lm_MaxOpenConnections = nat (ip_MaxOpenConnections (cf_IMAPPolling c))\<rparr>"

definition scheduler_sync :: "'g Config \<Rightarrow> sync_config" where
  "scheduler_sync c = \<lparr>sc_MaxMessagesPerPoll = ip_MaxMessagesPerPoll (cf_IMAPPolling c),
     sc_FetchBatchSize = ip_FetchBatchSize (cf_IMAPPolling c), sc_MaxMessageSize = nat (ip_MaxMessageSize (cf_IMAPPolling c))\<rparr>"

definition NewMIMEParser :: "'g Config \<Rightarrow> MIMEParser" where
  "NewMIMEParser c = \<lparr>mp_maxBodySize = nat (mc_MaxBodySize (cf_MIME c)), mp_maxAttachmentSize = nat (mc_MaxAttachmentSize (cf_MIME c)),
     mp_maxAttachmentsTotalSize = nat (mc_MaxAttachmentsTotalSize (cf_MIME c)), mp_maxAttachments = nat (mc_MaxAttachments (cf_MIME c))\<rparr>"

definition New_relay :: "'g Config \<Rightarrow> string \<Rightarrow> Relay" where
  "New_relay c instanceID = \<lparr>ry_owner = instanceID, ry_cfg = cf_Outbox c, ry_maxPayloadSize = ie_MaxPayloadSize (cf_InboundEvent c)\<rparr>"

section \<open>What the validation guarantees\<close>

lemma IMAPPolling_valid:
  assumes "IMAPPollingConfig_validate c = None"
  shows "1 \<le> ip_MaxConcurrency c" "ip_MaxConcurrency c \<le> ip_MaxOpenConnections c" "1 \<le> ip_FetchBatchSize c"
    "ip_FetchBatchSize c \<le> ip_MaxMessagesPerPoll c" "1 \<le> ip_MaxMessageSize c" "ip_MaxMessageSize c < MaxInt32"
    "ip_ShutdownTimeout c < 15 * second"
  using assms by (simp_all add: IMAPPollingConfig_validate_def split: if_splits)

lemma MIME_valid:
  assumes "MIMEConfig_validate c n = None"
  shows "1 \<le> mc_MaxBodySize c" "mc_MaxBodySize c \<le> n" "1 \<le> mc_MaxAttachmentSize c"
    "mc_MaxAttachmentSize c \<le> mc_MaxAttachmentsTotalSize c" "mc_MaxAttachmentsTotalSize c \<le> n" "1 \<le> mc_MaxAttachments c"
  using assms by (simp_all add: MIMEConfig_validate_def split: if_splits)

lemma Outbox_valid:
  assumes "OutboxConfig_validate c = None"
  shows "1 \<le> oc_BatchSize c" "1 \<le> oc_CleanupBatch c" "0 < oc_PublishTimeout c" "0 < oc_Retention c"
    "duration_times 4 (oc_PublishTimeout c) \<le> oc_LeaseDuration c"
    "0 < oc_RetryInitialInterval c" "oc_RetryInitialInterval c \<le> oc_RetryMaxInterval c"
  using assms by (simp_all add: OutboxConfig_validate_def split: if_splits)

lemma Config_valid:
  assumes "Config_validate env c = None"
  shows "IMAPPollingConfig_validate (cf_IMAPPolling c) = None"
    "MIMEConfig_validate (cf_MIME c) (ip_MaxMessageSize (cf_IMAPPolling c)) = None"
    "Limits_Validate (InboundEventConfig_Limits (cf_InboundEvent c)) = None"
    "OutboxConfig_validate (cf_Outbox c) = None" "StorageConfig_validate (cf_Storage c) = None"
    "ContactsConfig_validate (cf_Contacts c) = None" "validateMigrate c = None"
  using assms by (simp_all add: Config_validate_def split: if_splits)

text \<open>A product within the range of a duration is the product.\<close>

lemma duration_times_exact:
  assumes "- (2 ^ 63) \<le> k * d" and "k * d < 2 ^ 63"
  shows "duration_times k d = k * d"
proof -
  have "duration_times k d = sint (word_of_int (k * d) :: 64 word)" by (simp only: duration_times_def of_int_mult)
  also have "\<dots> = signed_take_bit 63 (k * d)" by (simp only: sint_sbintrunc' len_bit0 len_num1) simp
  also have "\<dots> = k * d" using assms by (simp add: signed_take_bit_int_eq_self_iff)
  finally show ?thesis .
qed

text \<open>
  A publish timeout of \<open>2 ^ 62\<close> nanoseconds makes the product zero, and the lease can be
  shorter than the publish it is to cover.
\<close>

lemma lease_check_wraps:
  "OutboxConfig_validate \<lparr>oc_PublishTimeout = 2 ^ 62, oc_PollInterval = second, oc_BatchSize = 1, oc_LeaseDuration = second,
     oc_RetryInitialInterval = second, oc_RetryMaxInterval = second, oc_Retention = second, oc_CleanupInterval = second,
     oc_CleanupBatch = 1\<rparr> = None"
proof -
  have "duration_times 4 (2 ^ 62) = 0" by (simp add: duration_times_def)
  then show ?thesis by (simp add: OutboxConfig_validate_def)
qed

text \<open>
  C37: A configuration that the server accepts carries every component: at least one poll and no
  fewer connections than polls are allowed; every sync of a mailbox, every poll of a profile and every
  cleanup of the outbox comes to an end; what the parser keeps of an email is within the size of a message, which fits in
  31 bits; an event built from stored state, whatever the email, is within what the relay publishes;
  and the lease of an event covers four publishes, as long as the timeout is below 73 years.
\<close>

theorem accepted_configuration_carries_the_components:
  assumes "Config_validate env c = None"
  shows "(1 \<le> lm_MaxConcurrency (scheduler_limits c) \<and> lm_MaxConcurrency (scheduler_limits c) \<le> lm_MaxOpenConnections (scheduler_limits c)) \<and>
    (\<exists>res seq' w'. sync (scheduler_sync c) imap handle profile a seq stored w = Some (res, seq', w')) \<and>
    (pl_sync pe = scheduler_sync c \<longrightarrow> (\<exists>drops s'. poll pe current runtime s = Some (drops, s'))) \<and>
    (\<exists>removed w'. cleanup (New_relay c inst) w = Some (removed, w')) \<and>
    mp_maxBodySize (NewMIMEParser c) \<le> sc_MaxMessageSize (scheduler_sync c) \<and>
    mp_maxAttachmentsTotalSize (NewMIMEParser c) \<le> sc_MaxMessageSize (scheduler_sync c) \<and>
    sc_MaxMessageSize (scheduler_sync c) < 2 ^ 31 - 1 \<and>
    (NewInboundMessage eventID src (InboundEventConfig_Limits (cf_InboundEvent c)) = Inr e \<and> event_ids_ok e \<and>
      stored_sizes_ok (is_Attachments src) \<and> encode_InboundMessage e = Inr p \<longrightarrow>
      int (length p) \<le> ry_maxPayloadSize (New_relay c inst)) \<and>
    (oc_PublishTimeout (ry_cfg (New_relay c inst)) < 2 ^ 61 \<longrightarrow>
      4 * oc_PublishTimeout (ry_cfg (New_relay c inst)) \<le> oc_LeaseDuration (ry_cfg (New_relay c inst)))"
proof (intro conjI impI)
  note valid = Config_valid[OF assms]
  note imap = IMAPPolling_valid[OF valid(1)] and mime = MIME_valid[OF valid(2)] and outbox = Outbox_valid[OF valid(4)]
  show "1 \<le> lm_MaxConcurrency (scheduler_limits c)" "lm_MaxConcurrency (scheduler_limits c) \<le> lm_MaxOpenConnections (scheduler_limits c)"
    using imap(1,2) by (simp_all add: scheduler_limits_def nat_mono Suc_le_eq)
  show "\<exists>res seq' w'. sync (scheduler_sync c) imap handle profile a seq stored w = Some (res, seq', w')"
    using imap(3) sync_ends[of "scheduler_sync c" imap handle profile a seq stored w] by (auto simp: scheduler_sync_def)
  show "\<exists>drops s'. poll pe current runtime s = Some (drops, s')" if "pl_sync pe = scheduler_sync c"
    using imap(3) that by (intro poll_ends) (simp add: scheduler_sync_def)
  show "\<exists>removed w'. cleanup (New_relay c inst) w = Some (removed, w')"
    using outbox(2) cleanupLoop_returns[of "New_relay c inst" "clock w - oc_Retention (cf_Outbox c)" 0 "tick w"]
    by (auto simp: cleanup_def New_relay_def)
  show "mp_maxBodySize (NewMIMEParser c) \<le> sc_MaxMessageSize (scheduler_sync c)"
    "mp_maxAttachmentsTotalSize (NewMIMEParser c) \<le> sc_MaxMessageSize (scheduler_sync c)"
    using mime(2,5) by (simp_all add: NewMIMEParser_def scheduler_sync_def nat_mono)
  show "sc_MaxMessageSize (scheduler_sync c) < 2 ^ 31 - 1"
    using imap(5,6) by (simp add: scheduler_sync_def MaxInt32_def nat_less_iff)
  show "int (length p) \<le> ry_maxPayloadSize (New_relay c inst)"
    if "NewInboundMessage eventID src (InboundEventConfig_Limits (cf_InboundEvent c)) = Inr e \<and> event_ids_ok e \<and>
      stored_sizes_ok (is_Attachments src) \<and> encode_InboundMessage e = Inr p"
    using payload_le_worst[OF valid(3), of eventID src e p] that by (simp add: New_relay_def InboundEventConfig_Limits_def)
  show "4 * oc_PublishTimeout (ry_cfg (New_relay c inst)) \<le> oc_LeaseDuration (ry_cfg (New_relay c inst))"
    if "oc_PublishTimeout (ry_cfg (New_relay c inst)) < 2 ^ 61"
    using outbox(3,5) duration_times_exact[of 4 "oc_PublishTimeout (cf_Outbox c)"] that by (simp add: New_relay_def)
qed

section \<open>The defaults\<close>

lemma default_limits_valid: "Limits_Validate (InboundEventConfig_Limits default_InboundEvent) = None"
proof -
  let ?l = "InboundEventConfig_Limits default_InboundEvent"
  have l: "?l = \<lparr>li_MaxBodyTextSize = 65536, li_MaxAddressesPerType = 100, li_MaxAttachments = 100, li_MaxFieldSize = 1024,
     li_MaxPayloadSize = 1048576\<rparr>" by (simp add: InboundEventConfig_Limits_def default_InboundEvent_def)
  note sizes = worst_sizes[of ?l]
  show ?thesis
    using sizes by (auto simp: Limits_Validate_def WorstCaseSize_def Let_def l maxBodyTextSizeLimit_def
        maxFieldSizeLimit_def maxListLimit_def maxPayloadSizeLimit_def)
qed

text \<open>
  The defaults are accepted. With the required settings given, a connection \<^verbatim>\<open>appconfig\<close> accepts
  and an AMQP address, a configuration that leaves everything else at its default passes the
  validation, so a deployment need not set a limit to start.
\<close>

theorem defaults_are_accepted:
  assumes "ce_ValidateGRPCConn env ''service.conn'' (se_Connection (cf_Service c)) = None"
    and "cf_LogLevel c \<in> {''debug'', ''info'', ''warn'', ''error''}" and "cf_PostgresDSN c \<noteq> ''''" and "cf_ConsulAddr c \<noteq> ''''"
    and "cf_PubsubDriver c = ''rabbitmq''" and "cf_PubsubURL c \<noteq> ''''"
    and "ce_Parse env (cf_PubsubURL c) = Inr u" and "ur_Scheme u \<in> {''amqp'', ''amqps''}" and "ur_Host u \<noteq> ''''"
  shows "Config_validate env (registerServiceFlags c) = None"
proof -
  have "LeaderElectionConfig_validate (cf_LeaderElection (registerServiceFlags c)) = None"
    "IMAPPollingConfig_validate (cf_IMAPPolling (registerServiceFlags c)) = None"
    "MIMEConfig_validate (cf_MIME (registerServiceFlags c)) (ip_MaxMessageSize (cf_IMAPPolling (registerServiceFlags c))) = None"
    "StorageConfig_validate (cf_Storage (registerServiceFlags c)) = None"
    "ContactsConfig_validate (cf_Contacts (registerServiceFlags c)) = None"
    by (simp_all add: registerServiceFlags_def LeaderElectionConfig_validate_def IMAPPollingConfig_validate_def
        MIMEConfig_validate_def StorageConfig_validate_def ContactsConfig_validate_def MaxInt32_def)
  moreover have "OutboxConfig_validate (cf_Outbox (registerServiceFlags c)) = None"
    using duration_times_exact[of 4 "5 * second"] by (simp add: registerServiceFlags_def OutboxConfig_validate_def)
  moreover have "Limits_Validate (InboundEventConfig_Limits (cf_InboundEvent (registerServiceFlags c))) = None"
    using default_limits_valid by (simp add: registerServiceFlags_def)
  moreover have "validateMigrate (registerServiceFlags c) = None" "validateAMQPURL env (cf_PubsubURL (registerServiceFlags c)) = None"
    using assms by (auto simp: registerServiceFlags_def validateMigrate_def validateAMQPURL_def)
  moreover have "se_Addr (cf_Service (registerServiceFlags c)) \<noteq> ''''" "ou_RedirectURL (cf_OAuth (registerServiceFlags c)) = ''''"
    "pd_ReconcileInterval (cf_ProfileDistribution (registerServiceFlags c)) > 0"
    "se_Connection (cf_Service (registerServiceFlags c)) = se_Connection (cf_Service c)"
    "cf_ConsulAddr (registerServiceFlags c) = cf_ConsulAddr c" "cf_PubsubDriver (registerServiceFlags c) = cf_PubsubDriver c"
    by (simp_all add: registerServiceFlags_def)
  ultimately show ?thesis using assms(1,4,5) by (simp add: Config_validate_def validateOAuthRedirectURL_def)
qed

text \<open>A deployment that sets what is required, with a parser that splits at the scheme.\<close>

definition sample_Config :: "unit Config" where
  "sample_Config = \<lparr>cf_Service = \<lparr>se_Addr = '''', se_Connection = ()\<rparr>, cf_OAuth = \<lparr>ou_RedirectURL = ''x''\<rparr>, cf_LogLevel = ''info'',
     cf_PostgresDSN = ''postgres://db'', cf_ConsulAddr = ''consul'', cf_PubsubDriver = ''rabbitmq'', cf_PubsubURL = ''amqp://mq'',
     cf_LeaderElection = \<lparr>le_SessionTTL = 0, le_LockDelay = 0, le_RetryInterval = 0, le_ErrorCooldown = 0, le_MonitorInterval = 0\<rparr>,
     cf_ProfileDistribution = \<lparr>pd_ReconcileInterval = 0\<rparr>,
     cf_IMAPPolling = \<lparr>ip_TickInterval = 0, ip_MaxConcurrency = 0, ip_ShutdownTimeout = 0, ip_FetchBatchSize = 0,
       ip_MaxMessageSize = 0, ip_MaxMessagesPerPoll = 0, ip_MaxOpenConnections = 0\<rparr>,
     cf_MIME = \<lparr>mc_MaxBodySize = 0, mc_MaxAttachmentSize = 0, mc_MaxAttachmentsTotalSize = 0, mc_MaxAttachments = 0\<rparr>,
     cf_Storage = \<lparr>st_UploadTimeout = 0, st_MaxConcurrentUploads = 0, st_MaxAttachmentAttempts = 0\<rparr>,
     cf_Contacts = \<lparr>cc_SearchTimeout = 0, cc_MaxConcurrentSearches = 0\<rparr>,
     cf_InboundEvent = \<lparr>ie_MaxBodyTextSize = 0, ie_MaxAddressesPerType = 0, ie_MaxAttachments = 0, ie_MaxFieldSize = 0, ie_MaxPayloadSize = 0\<rparr>,
     cf_Outbox = \<lparr>oc_PublishTimeout = 0, oc_PollInterval = 0, oc_BatchSize = 0, oc_LeaseDuration = 0, oc_RetryInitialInterval = 0,
       oc_RetryMaxInterval = 0, oc_Retention = 0, oc_CleanupInterval = 0, oc_CleanupBatch = 0\<rparr>\<rparr>"

definition sample_parse_url :: "string \<Rightarrow> error + URL" where
  "sample_parse_url s = Inr \<lparr>ur_Scheme = takeWhile (\<lambda>c. c \<noteq> CHR '':'') s, ur_Host = drop 3 (dropWhile (\<lambda>c. c \<noteq> CHR '':'') s)\<rparr>"

definition sample_config_env :: "unit config_env" where
  "sample_config_env = \<lparr>ce_Parse = sample_parse_url, ce_ParseRequestURI = sample_parse_url, ce_ValidateGRPCConn = (\<lambda>_ _. None)\<rparr>"

theorem defaults_are_accepted_witness:
  "Config_validate sample_config_env sample_Config \<noteq> None \<and> Config_validate sample_config_env (registerServiceFlags sample_Config) = None"
  using defaults_are_accepted[of sample_config_env sample_Config "\<lparr>ur_Scheme = ''amqp'', ur_Host = ''mq''\<rparr>"]
  by (simp add: sample_config_env_def sample_Config_def sample_parse_url_def Config_validate_def)

definition sample_valid :: "unit Config" where
  "sample_valid = (registerServiceFlags sample_Config)\<lparr>cf_InboundEvent := \<lparr>ie_MaxBodyTextSize = 100, ie_MaxAddressesPerType = 2,
     ie_MaxAttachments = 2, ie_MaxFieldSize = 50, ie_MaxPayloadSize = 20000\<rparr>\<rparr>"

lemma sample_valid_ok: "Config_validate sample_config_env sample_valid = None"
proof -
  have "InboundEventConfig_Limits (cf_InboundEvent sample_valid) = sample_limits"
    by (simp add: sample_valid_def InboundEventConfig_Limits_def sample_limits_def)
  moreover have "duration_times 4 (5 * second) = 20 * second" using duration_times_exact[of 4 "5 * second"] by simp
  ultimately show ?thesis using sample_limits_valid
    by (simp add: Config_validate_def sample_valid_def registerServiceFlags_def LeaderElectionConfig_validate_def IMAPPollingConfig_validate_def
        MIMEConfig_validate_def StorageConfig_validate_def ContactsConfig_validate_def MaxInt32_def OutboxConfig_validate_def
        validateMigrate_def validateAMQPURL_def validateOAuthRedirectURL_def sample_config_env_def sample_Config_def sample_parse_url_def)
qed

theorem accepted_configuration_carries_the_components_witness:
  "lm_MaxConcurrency (scheduler_limits sample_valid) \<le> lm_MaxOpenConnections (scheduler_limits sample_valid) \<and>
   (\<exists>removed w'. cleanup (New_relay sample_valid ''a'') (sample_world sample_outbox) = Some (removed, w')) \<and>
   mp_maxBodySize (NewMIMEParser sample_valid) \<le> sc_MaxMessageSize (scheduler_sync sample_valid) \<and>
   4 * oc_PublishTimeout (ry_cfg (New_relay sample_valid ''a'')) \<le> oc_LeaseDuration (ry_cfg (New_relay sample_valid ''a''))"
proof -
  have "oc_PublishTimeout (ry_cfg (New_relay sample_valid ''a'')) < 2 ^ 61"
    by (simp add: New_relay_def sample_valid_def registerServiceFlags_def)
  with accepted_configuration_carries_the_components[OF sample_valid_ok, where inst = "''a''" and w = "sample_world sample_outbox"]
  show ?thesis by blast
qed

end
