(* ===== verification/Email_Api.thy ===== *)
theory Email_Api
  imports Poll_Worker Thread_Service
begin

text \<open>
  The gRPC interface: the session of a caller and its access checks (\<^verbatim>\<open>internal/auth\<close>), the
  interceptor that authorizes every method (\<^verbatim>\<open>infra/server/grpc/interceptors\<close>), and the handlers
  with their mapping to and from the messages (\<^verbatim>\<open>internal/handler/grpc\<close>), on top of the services.
  The auth service, the contacts service and the metadata of a request are arguments.

  The protocol's enumerations are open: their values are numbers. A message that is absent is
  \<open>None\<close>, and a getter on it returns the zero value.
\<close>

section \<open>Sessions\<close>

type_synonym AccessMode = "8 word"

definition Delete :: AccessMode where "Delete = 1"
definition Edit :: AccessMode where "Edit = 2"
definition Read :: AccessMode where "Read = 4"
definition Add :: AccessMode where "Add = 8"

record Scope =
  sc_Access :: string
  sc_OBAC :: bool

record Session =
  ss_UserID :: int
  ss_DomainID :: int
  ss_Scopes :: "string \<Rightarrow> Scope option"
  ss_Licenses :: "string \<Rightarrow> bool"
  ss_SuperCreate :: bool
  ss_SuperRead :: bool
  ss_SuperUpdate :: bool
  ss_SuperDelete :: bool

definition CheckLicenseAccess :: "Session option \<Rightarrow> string \<Rightarrow> bool" where
  "CheckLicenseAccess s name \<longleftrightarrow> (case s of None \<Rightarrow> False | Some s \<Rightarrow> ss_Licenses s name)"

definition requiredAccess :: "AccessMode \<Rightarrow> Session \<Rightarrow> char \<times> bool" where
  "requiredAccess access s =
     (if access = Add then (CHR ''x'', ss_SuperCreate s)
      else if access = Read then (CHR ''r'', ss_SuperRead s)
      else if access = Edit then (CHR ''w'', ss_SuperUpdate s)
      else if access = Delete then (CHR ''d'', ss_SuperDelete s)
      else (CHR 0x00, False))"

definition CheckOBACAccess :: "Session option \<Rightarrow> string \<Rightarrow> AccessMode \<Rightarrow> bool" where
  "CheckOBACAccess caller objectClass access = (case caller of
     None \<Rightarrow> False
   | Some s \<Rightarrow> (case ss_Scopes s objectClass of
        None \<Rightarrow> False
      | Some scope \<Rightarrow>
          if \<not> sc_OBAC scope then True
          else (case requiredAccess access s of (required, bypass) \<Rightarrow> bypass \<or> required \<in> set (sc_Access scope))))"

text \<open>What the auth service says about a user.\<close>

record UserScope =
  uc_Class :: string
  uc_Access :: string
  uc_Obac :: bool

record Userinfo =
  uf_UserId :: int
  uf_Dc :: int
  uf_License :: "(string \<times> int) list"
  uf_Permissions :: "string list"
  uf_Scope :: "UserScope list"

definition UnixMilli :: "time \<Rightarrow> int" where
  "UnixMilli t = t div 1000000 - 62135596800000"

text \<open>The clock is read once for every license.\<close>

fun readLicenses :: "(string \<times> int) list \<Rightarrow> (string \<Rightarrow> bool) \<Rightarrow> (string \<Rightarrow> bool) io" where
  "readLicenses [] m = returnM m"
| "readLicenses ((i, expiresAt) # ls) m = bindM timeNow (\<lambda>now. readLicenses ls (m(i := expiresAt > UnixMilli now)))"

definition grantPermission :: "string \<Rightarrow> Session \<Rightarrow> Session" where
  "grantPermission i s =
     (if i = ''add'' then s\<lparr>ss_SuperCreate := True\<rparr>
      else if i = ''read'' then s\<lparr>ss_SuperRead := True\<rparr>
      else if i = ''write'' then s\<lparr>ss_SuperUpdate := True\<rparr>
      else if i = ''delete'' then s\<lparr>ss_SuperDelete := True\<rparr>
      else s)"

definition addScope :: "UserScope \<Rightarrow> Session \<Rightarrow> Session" where
  "addScope sc s = s\<lparr>ss_Scopes := (ss_Scopes s)(uc_Class sc \<mapsto> \<lparr>sc_Access = uc_Access sc, sc_OBAC = uc_Obac sc\<rparr>)\<rparr>"

definition sessionFromUserInfo :: "Userinfo \<Rightarrow> Session io" where
  "sessionFromUserInfo ui =
     bindM (readLicenses (uf_License ui) (\<lambda>_. False)) (\<lambda>licenses.
     let session = \<lparr>ss_UserID = uf_UserId ui, ss_DomainID = uf_Dc ui, ss_Scopes = (\<lambda>_. None), ss_Licenses = licenses,
           ss_SuperCreate = False, ss_SuperRead = False, ss_SuperUpdate = False, ss_SuperDelete = False\<rparr>
     in returnM (fold addScope (uf_Scope ui) (fold grantPermission (uf_Permissions ui) session)))"

text \<open>
  The metadata of a request, either set by a gateway or received, and the auth service. Concurrent
  lookups of one token share one call, so an answer is one for the token.
\<close>

record call_ctx =
  cx_requestContext :: "(string \<Rightarrow> string list) option"
  cx_incoming :: "(string \<Rightarrow> string list) option"

definition AuthorizeFromContext :: "(nat \<Rightarrow> string \<Rightarrow> error + Userinfo) \<Rightarrow> call_ctx \<Rightarrow> string \<Rightarrow> AccessMode \<Rightarrow> Session io" where
  "AuthorizeFromContext userInfo ctx objectClass access =
     (case (if cx_requestContext ctx \<noteq> None then cx_requestContext ctx else cx_incoming ctx) of
        None \<Rightarrow> throwM (Unauthenticated ''auth.metadata.missing'')
      | Some info \<Rightarrow>
          (case info ''X-Webitel-Access'' of
             [] \<Rightarrow> throwM (Unauthenticated ''auth.token.missing'')
           | token # _ \<Rightarrow>
               if token = '''' then throwM (Unauthenticated ''auth.token.missing'')
               else catchM (call (\<lambda>n. userInfo n token)) (\<lambda>e. throwM (Unauthenticated ''auth.user_info'')) sessionFromUserInfo))"

section \<open>The interceptor\<close>

text \<open>A binding is a path with its HTTP method.\<close>

record WebitelMethod =
  wm_HttpBindings :: "(string \<times> string) list"
  wm_Access :: int
  wm_Input :: string
  wm_Output :: string

record WebitelServices =
  ws_ObjClass :: string
  ws_AdditionalLicenses :: "string list"
  ws_WebitelMethods :: "string \<Rightarrow> WebitelMethod option"

definition WebitelAPI :: "string \<Rightarrow> WebitelServices option" where
  "WebitelAPI = [
     ''EmailProfiles'' \<mapsto> \<lparr>ws_ObjClass = ''email_profile'', ws_AdditionalLicenses = [], ws_WebitelMethods = [
       ''ListEmailProfiles'' \<mapsto> \<lparr>wm_HttpBindings = [(''/v1/email/profiles'', ''GET'')], wm_Access = 1,
         wm_Input = ''ListEmailProfilesRequest'', wm_Output = ''EmailProfileList''\<rparr>,
       ''LocateEmailProfile'' \<mapsto> \<lparr>wm_HttpBindings = [(''/v1/email/profiles/{id}'', ''GET'')], wm_Access = 1,
         wm_Input = ''LocateEmailProfileRequest'', wm_Output = ''EmailProfile''\<rparr>,
       ''CreateEmailProfile'' \<mapsto> \<lparr>wm_HttpBindings = [(''/v1/email/profiles'', ''POST'')], wm_Access = 0,
         wm_Input = ''CreateEmailProfileRequest'', wm_Output = ''EmailProfile''\<rparr>,
       ''UpdateEmailProfile'' \<mapsto> \<lparr>wm_HttpBindings = [(''/v1/email/profiles/{id}'', ''PUT''), (''/v1/email/profiles/{id}'', ''PATCH'')], wm_Access = 2,
         wm_Input = ''UpdateEmailProfileRequest'', wm_Output = ''EmailProfile''\<rparr>,
       ''DeleteEmailProfile'' \<mapsto> \<lparr>wm_HttpBindings = [(''/v1/email/profiles/{id}'', ''DELETE'')], wm_Access = 3,
         wm_Input = ''DeleteEmailProfileRequest'', wm_Output = ''EmailProfile''\<rparr>,
       ''TestEmailProfile'' \<mapsto> \<lparr>wm_HttpBindings = [(''/v1/email/profiles/{id}/test'', ''POST'')], wm_Access = 2,
         wm_Input = ''TestEmailProfileRequest'', wm_Output = ''TestEmailProfileResponse''\<rparr>,
       ''BeginEmailProfileOAuth'' \<mapsto> \<lparr>wm_HttpBindings = [(''/v1/email/profiles/{id}/oauth/start'', ''POST'')], wm_Access = 2,
         wm_Input = ''BeginEmailProfileOAuthRequest'', wm_Output = ''BeginEmailProfileOAuthResponse''\<rparr>,
       ''CompleteEmailProfileOAuth'' \<mapsto> \<lparr>wm_HttpBindings = [(''/v1/email/profiles/{id}/oauth/callback'', ''POST'')], wm_Access = 2,
         wm_Input = ''CompleteEmailProfileOAuthRequest'', wm_Output = ''EmailProfile''\<rparr>,
       ''DisconnectEmailProfileOAuth'' \<mapsto> \<lparr>wm_HttpBindings = [(''/v1/email/profiles/{id}/oauth'', ''DELETE'')], wm_Access = 2,
         wm_Input = ''DisconnectEmailProfileOAuthRequest'', wm_Output = ''EmailProfile''\<rparr>]\<rparr>,
     ''EmailThreads'' \<mapsto> \<lparr>ws_ObjClass = ''email_thread'', ws_AdditionalLicenses = [], ws_WebitelMethods = [
       ''BindEmailThreadContact'' \<mapsto> \<lparr>wm_HttpBindings = [(''/v1/email/threads/{thread_id}/contact'', ''PUT'')], wm_Access = 2,
         wm_Input = ''BindEmailThreadContactRequest'', wm_Output = ''BindEmailThreadContactResponse''\<rparr>,
       ''UnbindEmailThreadContact'' \<mapsto> \<lparr>wm_HttpBindings = [(''/v1/email/threads/{thread_id}/contact'', ''DELETE'')], wm_Access = 2,
         wm_Input = ''UnbindEmailThreadContactRequest'', wm_Output = ''UnbindEmailThreadContactResponse''\<rparr>]\<rparr>]"

definition accessMode :: "int \<Rightarrow> AccessMode option" where
  "accessMode v = (if v = 0 then Some Add else if v = 1 then Some Read else if v = 2 then Some Edit
     else if v = 3 then Some Delete else None)"

definition LastIndexByte :: "string \<Rightarrow> char \<Rightarrow> nat option" where
  "LastIndexByte s c = (if c \<in> set s then Some (length s - 1 - length (takeWhile (\<lambda>x. x \<noteq> c) (rev s))) else None)"

definition TrimPrefix :: "string \<Rightarrow> string \<Rightarrow> string" where
  "TrimPrefix s p = (if HasPrefix s p then drop (length p) s else s)"

definition methodAccess :: "string \<Rightarrow> (string \<times> string list \<times> AccessMode) option" where
  "methodAccess fullMethod =
     (let serviceMethod = TrimPrefix fullMethod ''/''
      in case LastIndexByte serviceMethod (CHR ''/'') of
           None \<Rightarrow> None
         | Some separator \<Rightarrow>
             let serviceName0 = take separator serviceMethod;
                 serviceName = (case LastIndexByte serviceName0 (CHR ''.'') of None \<Rightarrow> serviceName0 | Some dot \<Rightarrow> drop (dot + 1) serviceName0);
                 methodName = drop (separator + 1) serviceMethod
             in (case WebitelAPI serviceName of
                  None \<Rightarrow> None
                | Some service \<Rightarrow>
                    if ws_ObjClass service = '''' then None
                    else (case ws_WebitelMethods service methodName of
                      None \<Rightarrow> None
                    | Some method \<Rightarrow> map_option (\<lambda>a. (ws_ObjClass service, ws_AdditionalLicenses service, a)) (accessMode (wm_Access method)))))"

definition emailMethodPrefix :: string where
  "emailMethodPrefix = ''/webitel.email.''"

definition NewUnaryAuthInterceptor ::
  "(string \<Rightarrow> AccessMode \<Rightarrow> Session io) \<Rightarrow> string \<Rightarrow> (Session option \<Rightarrow> 'a sio) \<Rightarrow> 'a sio" where
  "NewUnaryAuthInterceptor authorize fullMethod handler =
     (case methodAccess fullMethod of
        None \<Rightarrow> if HasPrefix fullMethod emailMethodPrefix then throwS (Forbidden ''auth.interceptor.unknown_method'') else handler None
      | Some (objectClass, licenses, access) \<Rightarrow>
          bindS (liftS (authorize objectClass access)) (\<lambda>session.
          if list_ex (\<lambda>l. \<not> CheckLicenseAccess (Some session) l) licenses then throwS (Forbidden ''auth.interceptor.license'')
          else if \<not> CheckOBACAccess (Some session) objectClass access then throwS (Forbidden ''auth.interceptor.permission'')
          else handler (Some session)))"

section \<open>Messages\<close>

record InputEmailProfile =
  in_Name :: string
  in_Description :: string
  in_Enabled :: bool
  in_EmailAddress :: string
  in_SenderName :: string
  in_ReplyTo :: string
  in_Signature :: string
  in_ImapHost :: string
  in_ImapPort :: int
  in_ImapSecurity :: int
  in_SmtpHost :: string
  in_SmtpPort :: int
  in_SmtpSecurity :: int
  in_Username :: string
  in_Password :: string
  in_Mailbox :: string
  in_FetchIntervalSeconds :: int
  in_FlowId :: int
  in_AuthType :: int
  in_OauthProvider :: int
  in_OauthClientId :: string
  in_OauthClientSecret :: string

record proto_EmailProfile =
  pb_Id :: int
  pb_DomainId :: int
  pb_Name :: string
  pb_Description :: string
  pb_Enabled :: bool
  pb_EmailAddress :: string
  pb_SenderName :: string
  pb_ReplyTo :: string
  pb_Signature :: string
  pb_ImapHost :: string
  pb_ImapPort :: int
  pb_ImapSecurity :: int
  pb_SmtpHost :: string
  pb_SmtpPort :: int
  pb_SmtpSecurity :: int
  pb_Username :: string
  pb_Mailbox :: string
  pb_FetchIntervalSeconds :: int
  pb_FlowId :: int
  pb_AuthType :: int
  pb_OauthProvider :: int
  pb_OauthClientId :: string
  pb_OauthConnected :: bool
  pb_ConnectionState :: int
  pb_LastSuccessfulConnectionAt :: int
  pb_ConnectionError :: string
  pb_CreatedAt :: int
  pb_CreatedBy :: "(int \<times> string) option"
  pb_UpdatedAt :: int
  pb_UpdatedBy :: "(int \<times> string) option"

definition authTypeToProto :: "EmailAuthType \<Rightarrow> int" where
  "authTypeToProto v = (if v = EmailAuthTypeBasic then 1 else if v = EmailAuthTypeOAuth2 then 2 else 0)"

definition authTypeFromProto :: "int \<Rightarrow> EmailAuthType" where
  "authTypeFromProto v = (if v = 0 then '''' else if v = 1 then EmailAuthTypeBasic else if v = 2 then EmailAuthTypeOAuth2 else FormatInt v)"

definition oauthProviderToProto :: "EmailOAuthProvider \<Rightarrow> int" where
  "oauthProviderToProto v = (if v = EmailOAuthProviderGoogle then 1 else if v = EmailOAuthProviderMicrosoft then 2 else 0)"

definition oauthProviderFromProto :: "int \<Rightarrow> EmailOAuthProvider" where
  "oauthProviderFromProto v = (if v = 1 then EmailOAuthProviderGoogle else if v = 2 then EmailOAuthProviderMicrosoft else '''')"

definition connectionSecurityToProto :: "EmailConnectionSecurity \<Rightarrow> int" where
  "connectionSecurityToProto v = (if v = EmailConnectionSecurityTLS then 1 else if v = EmailConnectionSecurityStartTLS then 2 else 0)"

definition connectionSecurityFromProto :: "int \<Rightarrow> EmailConnectionSecurity" where
  "connectionSecurityFromProto v = (if v = 1 then EmailConnectionSecurityTLS else if v = 2 then EmailConnectionSecurityStartTLS else '''')"

definition connectionStateToProto :: "EmailConnectionState \<Rightarrow> int" where
  "connectionStateToProto v =
     (if v = EmailConnectionStateIdle then 1 else if v = EmailConnectionStateReady then 2 else if v = EmailConnectionStateError then 3
      else if v = EmailConnectionStateReauthorizationRequired then 4 else 0)"

definition lookupToProto :: "Lookup option \<Rightarrow> (int \<times> string) option" where
  "lookupToProto v = map_option (\<lambda>l. (lk_ID l, lk_Name l)) v"

definition int64Value :: "int option \<Rightarrow> int" where
  "int64Value v = (case v of None \<Rightarrow> 0 | Some n \<Rightarrow> n)"

definition unixMilli :: "time \<Rightarrow> int" where
  "unixMilli t = (if IsZero t then 0 else UnixMilli t)"

definition unixMilliValue :: "time option \<Rightarrow> int" where
  "unixMilliValue v = (case v of None \<Rightarrow> 0 | Some t \<Rightarrow> unixMilli t)"

definition emailProfileFromProto :: "InputEmailProfile option \<Rightarrow> EmailProfile option" where
  "emailProfileFromProto input = (case input of
     None \<Rightarrow> None
   | Some i \<Rightarrow>
       let profile = zero_EmailProfile\<lparr>ep_Name := in_Name i, ep_Description := in_Description i, ep_Enabled := in_Enabled i,
             ep_EmailAddress := in_EmailAddress i, ep_SenderName := in_SenderName i, ep_ReplyTo := in_ReplyTo i,
             ep_Signature := in_Signature i, ep_IMAPHost := in_ImapHost i, ep_IMAPPort := in_ImapPort i,
             ep_IMAPSecurity := connectionSecurityFromProto (in_ImapSecurity i), ep_SMTPHost := in_SmtpHost i,
             ep_SMTPPort := in_SmtpPort i, ep_SMTPSecurity := connectionSecurityFromProto (in_SmtpSecurity i),
             ep_Username := in_Username i, ep_Mailbox := in_Mailbox i, ep_FetchIntervalSeconds := in_FetchIntervalSeconds i,
             ep_AuthType := authTypeFromProto (in_AuthType i), ep_OAuthProvider := oauthProviderFromProto (in_OauthProvider i),
             ep_OAuthClientID := in_OauthClientId i\<rparr>
       in Some (if in_FlowId i \<noteq> 0 then profile\<lparr>ep_FlowID := Some (in_FlowId i)\<rparr> else profile))"

definition emailProfileToProto :: "EmailProfile \<Rightarrow> proto_EmailProfile" where
  "emailProfileToProto p = \<lparr>pb_Id = ep_ID p, pb_DomainId = ep_DomainID p, pb_Name = ep_Name p, pb_Description = ep_Description p,
     pb_Enabled = ep_Enabled p, pb_EmailAddress = ep_EmailAddress p, pb_SenderName = ep_SenderName p, pb_ReplyTo = ep_ReplyTo p,
     pb_Signature = ep_Signature p, pb_ImapHost = ep_IMAPHost p, pb_ImapPort = ep_IMAPPort p,
     pb_ImapSecurity = connectionSecurityToProto (ep_IMAPSecurity p), pb_SmtpHost = ep_SMTPHost p, pb_SmtpPort = ep_SMTPPort p,
     pb_SmtpSecurity = connectionSecurityToProto (ep_SMTPSecurity p), pb_Username = ep_Username p, pb_Mailbox = ep_Mailbox p,
     pb_FetchIntervalSeconds = ep_FetchIntervalSeconds p, pb_FlowId = int64Value (ep_FlowID p),
     pb_AuthType = authTypeToProto (ep_AuthType p), pb_OauthProvider = oauthProviderToProto (ep_OAuthProvider p),
     pb_OauthClientId = ep_OAuthClientID p, pb_OauthConnected = ep_OAuthConnected p,
     pb_ConnectionState = connectionStateToProto (ep_ConnectionState p),
     pb_LastSuccessfulConnectionAt = unixMilliValue (ep_LastSuccessfulConnectionAt p), pb_ConnectionError = ep_ConnectionError p,
     pb_CreatedAt = unixMilli (ep_CreatedAt p), pb_CreatedBy = lookupToProto (ep_CreatedBy p),
     pb_UpdatedAt = unixMilli (ep_UpdatedAt p), pb_UpdatedBy = lookupToProto (ep_UpdatedBy p)\<rparr>"

definition connectionTestResultToProto :: "EmailConnectionTestResult \<Rightarrow> bool \<times> string" where
  "connectionTestResultToProto r = (ct_Success r, ct_Error r)"

section \<open>Handlers\<close>

definition emailProfileSession :: "Session option \<Rightarrow> Session sio" where
  "emailProfileSession ctx = (case ctx of None \<Rightarrow> throwS (Unauthenticated ''email.profile.auth.session_missing'') | Some s \<Rightarrow> returnS s)"

definition validateEmailProfileID :: "int \<Rightarrow> unit sio" where
  "validateEmailProfileID i = (if i \<le> 0 then throwS (InvalidArgument ''email.profile.id_required'') else returnS ())"

record ListEmailProfilesRequest =
  lr_Page :: int
  lr_Size :: int
  lr_Q :: string
  lr_Sort :: string
  lr_Fields :: "string list"

definition ListEmailProfiles ::
  "profile_env \<Rightarrow> collation \<Rightarrow> Session option \<Rightarrow> ListEmailProfilesRequest \<Rightarrow> (proto_EmailProfile list \<times> bool) sio" where
  "ListEmailProfiles env co ctx req =
     bindS (emailProfileSession ctx) (\<lambda>session.
     bindS (liftS (exec (Profile_List (en_users env) co (ss_DomainID session) \<lparr>pf_Page = lr_Page req, pf_Size = lr_Size req,
       pf_Query = lr_Q req, pf_Sort = lr_Sort req, pf_Fields = lr_Fields req\<rparr>))) (\<lambda>(profiles, hasNext).
     returnS (map emailProfileToProto profiles, hasNext)))"

definition LocateEmailProfile :: "profile_env \<Rightarrow> Session option \<Rightarrow> int \<Rightarrow> proto_EmailProfile sio" where
  "LocateEmailProfile env ctx i =
     bindS (emailProfileSession ctx) (\<lambda>session.
     bindS (validateEmailProfileID i) (\<lambda>_.
     bindS (liftS (exec (Profile_Locate (en_users env) (ss_DomainID session) i))) (\<lambda>profile.
     returnS (emailProfileToProto profile))))"

text \<open>\<^verbatim>\<open>GetPassword\<close> and \<^verbatim>\<open>GetOauthClientSecret\<close> of a message that may be absent.\<close>

definition inputSecret :: "(InputEmailProfile \<Rightarrow> string) \<Rightarrow> InputEmailProfile option \<Rightarrow> string" where
  "inputSecret f input = (case input of None \<Rightarrow> '''' | Some i \<Rightarrow> f i)"

definition CreateEmailProfile :: "profile_env \<Rightarrow> Session option \<Rightarrow> InputEmailProfile option \<Rightarrow> proto_EmailProfile sio" where
  "CreateEmailProfile env ctx input =
     bindS (emailProfileSession ctx) (\<lambda>session.
     bindS (liftS (Service_Create env \<lparr>ci_DomainID = ss_DomainID session, ci_UserID = ss_UserID session,
       ci_Profile = emailProfileFromProto input, ci_Password = inputSecret in_Password input,
       ci_OAuthClientSecret = inputSecret in_OauthClientSecret input\<rparr>)) (\<lambda>profile.
     returnS (emailProfileToProto profile)))"

definition UpdateEmailProfile :: "profile_env \<Rightarrow> Session option \<Rightarrow> int \<Rightarrow> InputEmailProfile option \<Rightarrow> proto_EmailProfile sio" where
  "UpdateEmailProfile env ctx i input =
     bindS (emailProfileSession ctx) (\<lambda>session.
     bindS (validateEmailProfileID i) (\<lambda>_.
     bindS (Service_Update env \<lparr>ui_DomainID = ss_DomainID session, ui_UserID = ss_UserID session, ui_ID = i,
       ui_Profile = emailProfileFromProto input, ui_Password = inputSecret in_Password input,
       ui_OAuthClientSecret = inputSecret in_OauthClientSecret input\<rparr>) (\<lambda>profile.
     returnS (emailProfileToProto profile))))"

definition DeleteEmailProfile :: "profile_env \<Rightarrow> Session option \<Rightarrow> int \<Rightarrow> proto_EmailProfile sio" where
  "DeleteEmailProfile env ctx i =
     bindS (emailProfileSession ctx) (\<lambda>session.
     bindS (validateEmailProfileID i) (\<lambda>_.
     bindS (Service_Delete env (ss_DomainID session) i) (\<lambda>profile.
     returnS (emailProfileToProto profile))))"

definition TestEmailProfile :: "profile_env \<Rightarrow> Session option \<Rightarrow> int \<Rightarrow> ((bool \<times> string) \<times> (bool \<times> string)) sio" where
  "TestEmailProfile env ctx i =
     bindS (emailProfileSession ctx) (\<lambda>session.
     bindS (validateEmailProfileID i) (\<lambda>_.
     bindS (Service_Test env (ss_DomainID session) i) (\<lambda>result.
     returnS (connectionTestResultToProto (pt_IMAP result), connectionTestResultToProto (pt_SMTP result)))))"

definition BeginEmailProfileOAuth :: "profile_env \<Rightarrow> Session option \<Rightarrow> int \<Rightarrow> (string \<times> string) sio" where
  "BeginEmailProfileOAuth env ctx i =
     bindS (emailProfileSession ctx) (\<lambda>session.
     bindS (validateEmailProfileID i) (\<lambda>_.
     bindS (liftS (BeginOAuth env (ss_DomainID session) (ss_UserID session) i)) (\<lambda>result.
     returnS (st_AuthURL result, st_State result))))"

definition CompleteEmailProfileOAuth :: "profile_env \<Rightarrow> Session option \<Rightarrow> int \<Rightarrow> string \<Rightarrow> string \<Rightarrow> proto_EmailProfile sio" where
  "CompleteEmailProfileOAuth env ctx i code state =
     bindS (emailProfileSession ctx) (\<lambda>session.
     bindS (validateEmailProfileID i) (\<lambda>_.
     bindS (CompleteOAuth env (ss_DomainID session) (ss_UserID session) i code state) (\<lambda>profile.
     returnS (emailProfileToProto profile))))"

definition DisconnectEmailProfileOAuth :: "profile_env \<Rightarrow> Session option \<Rightarrow> int \<Rightarrow> proto_EmailProfile sio" where
  "DisconnectEmailProfileOAuth env ctx i =
     bindS (emailProfileSession ctx) (\<lambda>session.
     bindS (validateEmailProfileID i) (\<lambda>_.
     bindS (DisconnectOAuth env (ss_DomainID session) i) (\<lambda>profile.
     returnS (emailProfileToProto profile))))"

definition emailThreadSession :: "Session option \<Rightarrow> Session sio" where
  "emailThreadSession ctx = (case ctx of None \<Rightarrow> throwS (Unauthenticated ''email.thread.auth.session_missing'') | Some s \<Rightarrow> returnS s)"

definition BindEmailThreadContact :: "(nat \<Rightarrow> int \<Rightarrow> int \<Rightarrow> error + bool) \<Rightarrow> Session option \<Rightarrow> int \<Rightarrow> int \<Rightarrow> unit sio" where
  "BindEmailThreadContact verifyContact ctx threadID contactID =
     bindS (emailThreadSession ctx) (\<lambda>session. liftS (BindContact verifyContact (ss_DomainID session) threadID contactID))"

definition UnbindEmailThreadContact :: "Session option \<Rightarrow> int \<Rightarrow> unit sio" where
  "UnbindEmailThreadContact ctx threadID =
     bindS (emailThreadSession ctx) (\<lambda>session. liftS (UnbindContact (ss_DomainID session) threadID))"

section \<open>A request through the interceptor\<close>

datatype api_request =
    ListRequest ListEmailProfilesRequest
  | LocateRequest int
  | CreateRequest "InputEmailProfile option"
  | UpdateRequest int "InputEmailProfile option"
  | DeleteRequest int
  | TestRequest int
  | BeginOAuthRequest int
  | CompleteOAuthRequest int string string
  | DisconnectOAuthRequest int
  | BindRequest int int
  | UnbindRequest int

datatype api_response =
    ProfileListResponse "proto_EmailProfile list" bool
  | ProfileResponse proto_EmailProfile
  | TestResponse "bool \<times> string" "bool \<times> string"
  | OAuthStartResponse string string
  | EmptyResponse

record api_env =
  ae_profiles :: profile_env
  ae_collation :: collation
  ae_verifyContact :: "nat \<Rightarrow> int \<Rightarrow> int \<Rightarrow> error + bool"
  ae_userInfo :: "nat \<Rightarrow> string \<Rightarrow> error + Userinfo"

fun requestMethod :: "api_request \<Rightarrow> string" where
  "requestMethod (ListRequest _) = ''/webitel.email.EmailProfiles/ListEmailProfiles''"
| "requestMethod (LocateRequest _) = ''/webitel.email.EmailProfiles/LocateEmailProfile''"
| "requestMethod (CreateRequest _) = ''/webitel.email.EmailProfiles/CreateEmailProfile''"
| "requestMethod (UpdateRequest _ _) = ''/webitel.email.EmailProfiles/UpdateEmailProfile''"
| "requestMethod (DeleteRequest _) = ''/webitel.email.EmailProfiles/DeleteEmailProfile''"
| "requestMethod (TestRequest _) = ''/webitel.email.EmailProfiles/TestEmailProfile''"
| "requestMethod (BeginOAuthRequest _) = ''/webitel.email.EmailProfiles/BeginEmailProfileOAuth''"
| "requestMethod (CompleteOAuthRequest _ _ _) = ''/webitel.email.EmailProfiles/CompleteEmailProfileOAuth''"
| "requestMethod (DisconnectOAuthRequest _) = ''/webitel.email.EmailProfiles/DisconnectEmailProfileOAuth''"
| "requestMethod (BindRequest _ _) = ''/webitel.email.EmailThreads/BindEmailThreadContact''"
| "requestMethod (UnbindRequest _) = ''/webitel.email.EmailThreads/UnbindEmailThreadContact''"

definition respond :: "('a \<Rightarrow> api_response) \<Rightarrow> 'a sio \<Rightarrow> api_response sio" where
  "respond f m = bindS m (\<lambda>x. returnS (f x))"

fun handleRequest :: "api_env \<Rightarrow> api_request \<Rightarrow> Session option \<Rightarrow> api_response sio" where
  "handleRequest ae (ListRequest req) ctx =
     respond (\<lambda>(items, hasNext). ProfileListResponse items hasNext) (ListEmailProfiles (ae_profiles ae) (ae_collation ae) ctx req)"
| "handleRequest ae (LocateRequest i) ctx = respond ProfileResponse (LocateEmailProfile (ae_profiles ae) ctx i)"
| "handleRequest ae (CreateRequest input) ctx = respond ProfileResponse (CreateEmailProfile (ae_profiles ae) ctx input)"
| "handleRequest ae (UpdateRequest i input) ctx = respond ProfileResponse (UpdateEmailProfile (ae_profiles ae) ctx i input)"
| "handleRequest ae (DeleteRequest i) ctx = respond ProfileResponse (DeleteEmailProfile (ae_profiles ae) ctx i)"
| "handleRequest ae (TestRequest i) ctx = respond (\<lambda>(imap, smtp). TestResponse imap smtp) (TestEmailProfile (ae_profiles ae) ctx i)"
| "handleRequest ae (BeginOAuthRequest i) ctx =
     respond (\<lambda>(url, state). OAuthStartResponse url state) (BeginEmailProfileOAuth (ae_profiles ae) ctx i)"
| "handleRequest ae (CompleteOAuthRequest i code state) ctx =
     respond ProfileResponse (CompleteEmailProfileOAuth (ae_profiles ae) ctx i code state)"
| "handleRequest ae (DisconnectOAuthRequest i) ctx = respond ProfileResponse (DisconnectEmailProfileOAuth (ae_profiles ae) ctx i)"
| "handleRequest ae (BindRequest threadID contactID) ctx =
     respond (\<lambda>_. EmptyResponse) (BindEmailThreadContact (ae_verifyContact ae) ctx threadID contactID)"
| "handleRequest ae (UnbindRequest threadID) ctx = respond (\<lambda>_. EmptyResponse) (UnbindEmailThreadContact ctx threadID)"

definition serve :: "api_env \<Rightarrow> call_ctx \<Rightarrow> api_request \<Rightarrow> api_response sio" where
  "serve ae ctx req =
     NewUnaryAuthInterceptor (AuthorizeFromContext (ae_userInfo ae) ctx) (requestMethod req) (handleRequest ae req)"

section \<open>Confined to a domain\<close>

text \<open>
  What a request for one domain leaves alone: the rows of every other domain, and the tables that
  hold the emails themselves.
\<close>

definition same_beyond :: "int \<Rightarrow> db \<Rightarrow> db \<Rightarrow> bool" where
  "same_beyond domain d d' \<longleftrightarrow>
     filter (\<lambda>r. pw_domain r \<noteq> domain) (db_profiles d') = filter (\<lambda>r. pw_domain r \<noteq> domain) (db_profiles d) \<and>
     filter (\<lambda>r. rr_domain_id r \<noteq> domain) (db_runtime d') = filter (\<lambda>r. rr_domain_id r \<noteq> domain) (db_runtime d) \<and>
     filter (\<lambda>t. th_DomainID t \<noteq> domain) (db_threads d') = filter (\<lambda>t. th_DomainID t \<noteq> domain) (db_threads d) \<and>
     filter (\<lambda>x. if_DomainID x \<noteq> domain) (db_failures d') = filter (\<lambda>x. if_DomainID x \<noteq> domain) (db_failures d) \<and>
     db_messages d' = db_messages d \<and> db_recipients d' = db_recipients d \<and> db_attachments d' = db_attachments d \<and>
     db_outbox d' = db_outbox d"

lemma same_beyond_refl [simp]: "same_beyond domain d d"
  by (simp add: same_beyond_def)

text \<open>An UPDATE of rows of the domain, a DELETE of such rows, and what is left of the others.\<close>

lemma filter_update_where:
  assumes "\<And>r. P r \<Longrightarrow> \<not> Q r \<and> \<not> Q (f r)"
  shows "filter Q (update_where P f rs) = filter Q rs"
  using assms by (induction rs) auto

lemma filter_outside:
  assumes "\<And>r. Q r \<Longrightarrow> P r"
  shows "filter Q (filter P rs) = filter Q rs"
  using assms by (induction rs) auto

lemma beyond_writeReturning:
  assumes "\<And>r. pw_domain (f r) = pw_domain r" and "same_beyond domain d0 d" and "writeReturning users domain i f now d = Inr (p, d')"
  shows "same_beyond domain d0 d'"
  using assms filter_update_where[of "profileAt domain i" "\<lambda>r. pw_domain r \<noteq> domain" f "db_profiles d"]
  by (auto simp: writeReturning_def same_beyond_def profileAt_def split: option.splits if_splits)

lemma beyond_writeRow:
  assumes "\<And>r. pw_domain (f r) = pw_domain r" and "same_beyond domain d0 d" and "writeRow domain i f now d = Inr (p, d')"
  shows "same_beyond domain d0 d'"
  using assms filter_update_where[of "profileAt domain i" "\<lambda>r. pw_domain r \<noteq> domain" f "db_profiles d"]
  by (auto simp: writeRow_def same_beyond_def profileAt_def split: option.splits if_splits)

lemma filter_beyond: "filter (\<lambda>x. k x \<noteq> v) (filter (\<lambda>x. k x = v \<longrightarrow> R x) xs) = filter (\<lambda>x. k x \<noteq> v) xs"
  by (rule filter_outside) simp

lemma beyond_delete:
  assumes "same_beyond domain d0 d" and "Profile_Delete users domain i now d = Inr (p, d')"
  shows "same_beyond domain d0 d'"
proof -
  have "filter (\<lambda>r. pw_domain r \<noteq> domain) (filter (\<lambda>x. \<not> profileAt domain i x) xs) = filter (\<lambda>r. pw_domain r \<noteq> domain) xs" for xs
    by (rule filter_outside) (simp add: profileAt_def)
  with assms show ?thesis
    by (auto simp: Profile_Delete_def same_beyond_def filter_beyond simp del: filter_filter split: option.splits if_splits)
qed

lemma beyond_update_threads:
  assumes "\<And>t. P t \<Longrightarrow> th_DomainID t = domain" and "\<And>t. th_DomainID (f t) = th_DomainID t"
    and "same_beyond domain d0 d" and "update_threads P f d = Inr (n, d')"
  shows "same_beyond domain d0 d'"
  using assms filter_update_where[of P "\<lambda>t. th_DomainID t \<noteq> domain" f "db_threads d"]
  by (auto simp: update_threads_def same_beyond_def split: if_splits)

lemma beyond_reads [keeps_intros]:
  "keeps (same_beyond domain d0) (exec (Profile_Locate users dm i))" "keeps (same_beyond domain d0) (exec (Profile_List users co dm fl))"
  "keeps (same_beyond domain d0) (exec (GetPassword dm i))" "keeps (same_beyond domain d0) (exec (GetOAuthCredentials dm i))"
  by (rule keeps_exec; auto simp: Profile_Locate_def Profile_List_def GetPassword_def GetOAuthCredentials_def Let_def
      split: option.splits if_splits prod.splits)+

lemma beyond_writes [keeps_intros]:
  "keeps (same_beyond domain d0) (exec (SetOAuthRefreshToken domain i t))"
  "keeps (same_beyond domain d0) (exec (SetConnectionResult domain i st e ok))"
  by (rule keeps_exec; auto simp: SetOAuthRefreshToken_def SetConnectionResult_def elim!: beyond_writeRow[rotated])+

lemma beyond_returning [keeps_intros]:
  "keeps (same_beyond domain d0) (exec (SetOAuthRefreshTokenAndState users domain i t st))"
  "up_DomainID params = domain \<Longrightarrow> keeps (same_beyond domain d0) (exec (Profile_Update users params))"
  by (rule keeps_exec; auto simp: SetOAuthRefreshTokenAndState_def Profile_Update_def updateRow_def emailProfileWriteArgs_def Let_def
      elim!: beyond_writeReturning[rotated])+

lemma beyond_rows [keeps_intros]:
  "keeps (same_beyond domain d0) (exec (Profile_Delete users domain i))"
  "cp_DomainID params = domain \<Longrightarrow> keeps (same_beyond domain d0) (exec (Profile_Create users params))"
  "keeps (same_beyond domain d0) (exec (SetContactManually domain threadID contactID))"
proof (rule_tac [!] keeps_exec)
  fix t d x d'
  assume d: "same_beyond domain d0 d"
  show "Profile_Delete users domain i t d = Inr (x, d') \<Longrightarrow> same_beyond domain d0 d'" by (rule beyond_delete[OF d])
next
  fix t d x d'
  assume d: "same_beyond domain d0 d"
  show "cp_DomainID params = domain \<Longrightarrow> Profile_Create users params t d = Inr (x, d') \<Longrightarrow> same_beyond domain d0 d'"
    using d by (auto simp: Profile_Create_def same_beyond_def Let_def split: if_splits)
next
  fix t d x d'
  assume d: "same_beyond domain d0 d"
  show "SetContactManually domain threadID contactID t d = Inr (x, d') \<Longrightarrow> same_beyond domain d0 d'"
    using d by (auto simp: SetContactManually_def split: sum.splits elim!: beyond_update_threads[rotated 3])
qed

text \<open>The same for a program of the services, with the token cache.\<close>

definition confined :: "int \<Rightarrow> svc \<Rightarrow> svc \<Rightarrow> bool" where
  "confined domain s s' \<longleftrightarrow> same_beyond domain (w_db (sv_world s)) (w_db (sv_world s')) \<and>
     (\<forall>k. fst k \<noteq> domain \<longrightarrow> sv_tokens s' k = sv_tokens s k)"

definition stays :: "int \<Rightarrow> 'a sio \<Rightarrow> bool" where
  "stays domain m \<longleftrightarrow> (\<forall>s0 s. confined domain s0 s \<longrightarrow> confined domain s0 (snd (m s)))"

named_theorems stays_intros \<open>programs that stay within a domain\<close>

lemma stays_rules [stays_intros]:
  "stays domain (returnS x)" "stays domain (throwS e)" "stays domain (getToken dm i)" "stays domain (setToken domain i t)"
  by (auto simp: stays_def confined_def returnS_def throwS_def getToken_def setToken_def)

lemma stays_lift [stays_intros]: "(\<And>d0. keeps (same_beyond domain d0) m) \<Longrightarrow> stays domain (liftS m)"
  by (fastforce simp: stays_def confined_def liftS_def keeps_def split: prod.splits)

lemma stays_bind [stays_intros]:
  assumes "stays domain m" and "\<And>x. stays domain (f x)"
  shows "stays domain (bindS m f)"
  unfolding stays_def
proof (intro allI impI)
  fix s0 s assume "confined domain s0 s"
  with assms(1) have "confined domain s0 (snd (m s))" by (simp add: stays_def)
  with assms(2) show "confined domain s0 (snd (bindS m f s))" by (auto simp: bindS_def stays_def split: prod.splits sum.splits)
qed

lemma stays_catch [stays_intros]:
  assumes "stays domain m" and "\<And>e. stays domain (g e)" and "\<And>x. stays domain (f x)"
  shows "stays domain (catchS m g f)"
  unfolding stays_def
proof (intro allI impI)
  fix s0 s assume "confined domain s0 s"
  with assms(1) have "confined domain s0 (snd (m s))" by (simp add: stays_def)
  with assms(2,3) show "confined domain s0 (snd (catchS m g f s))" by (auto simp: catchS_def stays_def split: prod.splits sum.splits)
qed

lemma stays_cases [stays_intros]:
  "stays domain a \<Longrightarrow> stays domain b \<Longrightarrow> stays domain (if c then a else b)"
  "(\<And>e. stays domain (g e)) \<Longrightarrow> (\<And>x. stays domain (f x)) \<Longrightarrow> stays domain (case r of Inl e \<Rightarrow> g e | Inr x \<Rightarrow> f x)"
  "stays domain a \<Longrightarrow> (\<And>x. stays domain (h x)) \<Longrightarrow> stays domain (case v of None \<Rightarrow> a | Some x \<Rightarrow> h x)"
  "(\<And>x y. stays domain (k x y)) \<Longrightarrow> stays domain (case q of (x, y) \<Rightarrow> k x y)"
  by (auto split: sum.splits option.splits prod.splits)

lemma keeps_catch [keeps_intros]:
  assumes "keeps I m" and "\<And>e. keeps I (g e)" and "\<And>x. keeps I (f x)"
  shows "keeps I (catchM m g f)"
proof (rule keepsI)
  fix w :: world assume "I (w_db w)"
  with assms(1) have "I (w_db (snd (m w)))" by (simp add: keeps_def)
  with assms(2,3) show "I (w_db (snd (catchM m g f w)))" by (auto simp: catchM_def keeps_def split: prod.splits sum.splits)
qed

lemma keeps_pair [keeps_intros]: "(\<And>x y. keeps I (k x y)) \<Longrightarrow> keeps I (case q of (x, y) \<Rightarrow> k x y)"
  by (simp split: prod.splits)

lemma keeps_secrets [keeps_intros]:
  "keeps I (Encrypt env v)" "keeps I (Decrypt env b)" "keeps I (sealBasicPassword env p pw req)" "keeps I (sealOAuthClientSecret env p pw req)"
  unfolding Encrypt_def Decrypt_def sealBasicPassword_def sealOAuthClientSecret_def Let_def by (intro keeps_intros)+

lemma beyond_open [keeps_intros]:
  "keeps (same_beyond domain d0) (openBasicPassword env dm i)" "keeps (same_beyond domain d0) (openOAuthClientSecret env dm i)"
  "keeps (same_beyond domain d0) (openOAuthRefreshToken env dm i)" "keeps (same_beyond domain d0) (oauthConfig env dm p)"
  unfolding openBasicPassword_def openOAuthClientSecret_def openOAuthRefreshToken_def oauthConfig_def by (intro keeps_intros)+

lemma beyond_refreshToken [keeps_intros]: "keeps (same_beyond domain d0) (refreshToken env domain i cached)"
  unfolding refreshToken_def renewToken_def callToken_def Let_def by (intro keeps_intros)

lemma beyond_tests [keeps_intros]:
  "keeps (same_beyond domain d0) (storeTestResult domain i r)" "keeps (same_beyond domain d0) (storeOAuthTokenFailure env domain i e)"
  "keeps (same_beyond domain d0) (testConnections env a b)"
  unfolding storeTestResult_def storeOAuthTokenFailure_def Let_def by (intro keeps_intros)+ (simp add: keeps_def testConnections_def tick_def)

lemma beyond_oauth [keeps_intros]:
  "keeps (same_beyond domain d0) (BeginOAuth env domain u i)" "keeps (same_beyond domain d0) (matchingState env dm u i st)"
  "keeps (same_beyond domain d0) (exchangeCode env domain i code state)"
  unfolding BeginOAuth_def newOAuthState_def matchingState_def openOAuthState_def exchangeCode_def Let_def by (intro keeps_intros)+

lemma beyond_threads [keeps_intros]:
  "keeps (same_beyond domain d0) (BindContact verify domain t c)" "keeps (same_beyond domain d0) (UnbindContact domain t)"
  unfolding BindContact_def UnbindContact_def setContact_def by (intro keeps_intros)+

lemma services_stay [stays_intros]:
  "ci_DomainID input = domain \<Longrightarrow> stays domain (liftS (Service_Create env input))"
  "ui_DomainID upd = domain \<Longrightarrow> stays domain (Service_Update env upd)"
  "stays domain (Service_Delete env domain i)" "stays domain (CompleteOAuth env domain u i code state)"
  "stays domain (DisconnectOAuth env domain i)" "stays domain (accessToken env domain i)"
  unfolding Service_Create_def Service_Update_def Service_Delete_def CompleteOAuth_def DisconnectOAuth_def accessToken_def
  by (intro stays_intros keeps_intros; simp)+

lemma tests_stay [stays_intros]: "stays domain (Service_Test env domain i)"
  unfolding Service_Test_def testOAuth2_def testBasic_def Let_def by (intro stays_intros keeps_intros)

lemma bindS_returnS: "bindS (returnS x) f = f x"
  by (rule ext) (simp add: bindS_def returnS_def)

lemma handlers_stay:
  assumes "\<forall>s. ctx = Some s \<longrightarrow> ss_DomainID s = domain"
  shows "stays domain (handleRequest ae req ctx)"
proof (cases ctx)
  case None
  then show ?thesis
    by (cases req) (simp_all add: respond_def ListEmailProfiles_def LocateEmailProfile_def CreateEmailProfile_def UpdateEmailProfile_def
        DeleteEmailProfile_def TestEmailProfile_def BeginEmailProfileOAuth_def CompleteEmailProfileOAuth_def DisconnectEmailProfileOAuth_def
        BindEmailThreadContact_def UnbindEmailThreadContact_def emailProfileSession_def emailThreadSession_def stays_def bindS_def throwS_def)
next
  case (Some caller)
  with assms have "ss_DomainID caller = domain" by simp
  then show ?thesis unfolding Some
    by (cases req) (auto simp: respond_def ListEmailProfiles_def LocateEmailProfile_def CreateEmailProfile_def UpdateEmailProfile_def
        DeleteEmailProfile_def TestEmailProfile_def BeginEmailProfileOAuth_def CompleteEmailProfileOAuth_def DisconnectEmailProfileOAuth_def
        BindEmailThreadContact_def UnbindEmailThreadContact_def emailProfileSession_def emailThreadSession_def validateEmailProfileID_def
        bindS_returnS
        intro!: stays_intros keeps_intros)
qed

section \<open>Who may do what\<close>

text \<open>
  What a user may do, said without the session: the last scope of the class decides, and it allows
  everything when it is not under access control, else what its letters or a general permission allow.
\<close>

definition accessLetter :: "AccessMode \<Rightarrow> char" where
  "accessLetter a = (if a = Add then CHR ''x'' else if a = Read then CHR ''r'' else if a = Edit then CHR ''w'' else CHR ''d'')"

definition accessPermission :: "AccessMode \<Rightarrow> string" where
  "accessPermission a = (if a = Add then ''add'' else if a = Read then ''read'' else if a = Edit then ''write'' else ''delete'')"

definition may :: "Userinfo \<Rightarrow> string \<Rightarrow> AccessMode \<Rightarrow> bool" where
  "may ui class access \<longleftrightarrow> (\<exists>scope. find (\<lambda>sc. uc_Class sc = class) (rev (uf_Scope ui)) = Some scope \<and>
     (\<not> uc_Obac scope \<or> accessLetter access \<in> set (uc_Access scope) \<or> accessPermission access \<in> set (uf_Permissions ui)))"

lemmas access_modes = Add_def Read_def Edit_def Delete_def

lemma scopes_of_fold:
  "ss_Scopes (fold addScope scs s) class = (case find (\<lambda>sc. uc_Class sc = class) (rev scs) of
     None \<Rightarrow> ss_Scopes s class | Some sc \<Rightarrow> Some \<lparr>sc_Access = uc_Access sc, sc_OBAC = uc_Obac sc\<rparr>)"
proof (induction scs arbitrary: s)
  case (Cons sc scs)
  have "find P (xs @ [y]) = (case find P xs of None \<Rightarrow> if P y then Some y else None | Some z \<Rightarrow> Some z)" for P xs and y :: UserScope
    by (induction xs) auto
  with Cons.IH[of "addScope sc s"] show ?case by (auto simp: addScope_def split: option.splits)
qed simp

lemma fold_addScope_keeps:
  "ss_SuperCreate (fold addScope scs s) = ss_SuperCreate s" "ss_SuperRead (fold addScope scs s) = ss_SuperRead s"
  "ss_SuperUpdate (fold addScope scs s) = ss_SuperUpdate s" "ss_SuperDelete (fold addScope scs s) = ss_SuperDelete s"
  "ss_DomainID (fold addScope scs s) = ss_DomainID s" "ss_UserID (fold addScope scs s) = ss_UserID s"
  by (induction scs arbitrary: s) (simp_all add: addScope_def)

lemma fold_grant:
  "ss_SuperCreate (fold grantPermission ps s) = (ss_SuperCreate s \<or> ''add'' \<in> set ps)"
  "ss_SuperRead (fold grantPermission ps s) = (ss_SuperRead s \<or> ''read'' \<in> set ps)"
  "ss_SuperUpdate (fold grantPermission ps s) = (ss_SuperUpdate s \<or> ''write'' \<in> set ps)"
  "ss_SuperDelete (fold grantPermission ps s) = (ss_SuperDelete s \<or> ''delete'' \<in> set ps)"
  "ss_DomainID (fold grantPermission ps s) = ss_DomainID s" "ss_Scopes (fold grantPermission ps s) = ss_Scopes s"
  by (induction ps arbitrary: s) (auto simp: grantPermission_def)

lemma session_access:
  assumes "sessionFromUserInfo ui w = (Inr s, w')" and "access \<in> {Add, Read, Edit, Delete}"
  shows "ss_DomainID s = uf_Dc ui" and "CheckOBACAccess (Some s) class access \<longleftrightarrow> may ui class access"
proof -
  from assms(1) obtain licenses where s: "s = fold addScope (uf_Scope ui) (fold grantPermission (uf_Permissions ui)
      \<lparr>ss_UserID = uf_UserId ui, ss_DomainID = uf_Dc ui, ss_Scopes = (\<lambda>_. None), ss_Licenses = licenses,
           ss_SuperCreate = False, ss_SuperRead = False, ss_SuperUpdate = False, ss_SuperDelete = False\<rparr>)"
    by (auto simp: sessionFromUserInfo_def io_success Let_def)
  show "ss_DomainID s = uf_Dc ui" by (simp add: s fold_addScope_keeps fold_grant)
  have "requiredAccess access s = (accessLetter access, accessPermission access \<in> set (uf_Permissions ui))"
    using assms(2) by (auto simp: s fold_addScope_keeps fold_grant requiredAccess_def accessLetter_def accessPermission_def access_modes)
  then show "CheckOBACAccess (Some s) class access \<longleftrightarrow> may ui class access"
    by (auto simp: CheckOBACAccess_def may_def s scopes_of_fold fold_grant split: option.splits)
qed

lemma readLicenses_keeps [keeps_intros]: "keeps I (readLicenses ls m)"
proof (induction ls arbitrary: m)
  case (Cons l ls)
  then show ?case by (cases l) (simp only: readLicenses.simps, intro keeps_bind keeps_timeNow)
qed (simp add: keeps_return)

lemma sessionFromUserInfo_keeps [keeps_intros]: "keeps I (sessionFromUserInfo ui)"
  unfolding sessionFromUserInfo_def Let_def by (intro keeps_intros)

text \<open>The token a request carries.\<close>

definition requestToken :: "call_ctx \<Rightarrow> string option" where
  "requestToken ctx = (case (if cx_requestContext ctx \<noteq> None then cx_requestContext ctx else cx_incoming ctx) of
     None \<Rightarrow> None
   | Some info \<Rightarrow> (case info ''X-Webitel-Access'' of [] \<Rightarrow> None | token # _ \<Rightarrow> if token = '''' then None else Some token))"

lemma Authorize_keeps: "keeps I (AuthorizeFromContext userInfo ctx class access)"
  unfolding AuthorizeFromContext_def by (auto intro!: keeps_intros split: option.splits list.splits)

lemma Authorize_Inr:
  assumes "AuthorizeFromContext userInfo ctx class access w = (Inr s, w')"
  obtains token n ui w1 where "requestToken ctx = Some token" "userInfo n token = Inr ui" "sessionFromUserInfo ui w1 = (Inr s, w')"
  using assms by (auto simp: AuthorizeFromContext_def requestToken_def catchM_def call_def throwM_def split: option.splits list.splits if_splits sum.splits prod.splits)

text \<open>The methods of the interface are all known to the interceptor.\<close>

definition requestClass :: "api_request \<Rightarrow> string" where
  "requestClass req = (case req of BindRequest _ _ \<Rightarrow> ''email_thread'' | UnbindRequest _ \<Rightarrow> ''email_thread'' | _ \<Rightarrow> ''email_profile'')"

definition requestAccess :: "api_request \<Rightarrow> AccessMode" where
  "requestAccess req = (case req of ListRequest _ \<Rightarrow> Read | LocateRequest _ \<Rightarrow> Read | CreateRequest _ \<Rightarrow> Add | DeleteRequest _ \<Rightarrow> Delete | _ \<Rightarrow> Edit)"

lemma requests_are_known: "methodAccess (requestMethod req) = Some (requestClass req, [], requestAccess req)"
  by (cases req) (simp_all add: methodAccess_def TrimPrefix_def HasPrefix_def LastIndexByte_def WebitelAPI_def accessMode_def
      requestClass_def requestAccess_def)

lemma requestAccess_mode: "requestAccess req \<in> {Add, Read, Edit, Delete}"
  by (cases req) (simp_all add: requestAccess_def)

text \<open>What a response shows of the profiles of a domain.\<close>

definition shows_only :: "(int \<Rightarrow> string option) \<Rightarrow> int \<Rightarrow> db \<Rightarrow> api_response \<Rightarrow> bool" where
  "shows_only users domain d x = (case x of
     ProfileResponse p \<Rightarrow> pb_DomainId p = domain
   | ProfileListResponse ps hasNext \<Rightarrow> (\<forall>p\<in>set ps. \<exists>r\<in>set (db_profiles d). pw_domain r = domain \<and>
       (\<exists>columns. p = emailProfileToProto (mapEmailProfile (readRow users columns r))))
   | _ \<Rightarrow> True)"

definition domain_stmt :: "int \<Rightarrow> EmailProfile stmt \<Rightarrow> bool" where
  "domain_stmt domain st \<longleftrightarrow> (\<forall>now d p d'. st now d = Inr (p, d') \<longrightarrow> ep_DomainID p = domain)"

lemma domain_stmtD: "domain_stmt domain st \<Longrightarrow> exec st w = (Inr p, w') \<Longrightarrow> ep_DomainID p = domain"
  by (drule exec_Inr) (auto simp: domain_stmt_def)

lemma read_domain: "ep_DomainID (mapEmailProfile (readRow users emailProfileColumns r)) = pw_domain r"
  by (simp add: full_read)

lemma found_domain: "find (profileAt domain i) rs = Some r \<Longrightarrow> pw_domain r = domain"
  by (auto simp: find_Some_iff profileAt_def)

lemma profile_stmts [simp]:
  "domain_stmt domain (Profile_Locate users domain i)" "domain_stmt domain (Profile_Delete users domain i)"
  "domain_stmt domain (SetOAuthRefreshTokenAndState users domain i t st)"
  "up_DomainID up = domain \<Longrightarrow> domain_stmt domain (Profile_Update users up)"
  "cp_DomainID cp = domain \<Longrightarrow> domain_stmt domain (Profile_Create users cp)"
  by (auto simp: domain_stmt_def Profile_Locate_def Profile_Delete_def SetOAuthRefreshTokenAndState_def Profile_Update_def Profile_Create_def
      writeReturning_def updateRow_def emailProfileWriteArgs_def Let_def read_domain dest!: found_domain split: option.splits if_splits)

lemmas profile_handlers = LocateEmailProfile_def CreateEmailProfile_def UpdateEmailProfile_def DeleteEmailProfile_def
  CompleteEmailProfileOAuth_def DisconnectEmailProfileOAuth_def

lemma services_show:
  "Service_Create env input w = (Inr p, w') \<Longrightarrow> ep_DomainID p = ci_DomainID input"
  "Service_Update env upd s = (Inr p, s') \<Longrightarrow> ep_DomainID p = ui_DomainID upd"
  "Service_Delete env domain i s = (Inr p, s') \<Longrightarrow> ep_DomainID p = domain"
  "CompleteOAuth env domain u i code state s = (Inr p, s') \<Longrightarrow> ep_DomainID p = domain"
  "DisconnectOAuth env domain i s = (Inr p, s') \<Longrightarrow> ep_DomainID p = domain"
  by (auto simp: Service_Create_def Service_Update_def Service_Delete_def CompleteOAuth_def DisconnectOAuth_def exchangeCode_def
      io_success split: sum.splits if_splits prod.splits elim!: domain_stmtD[rotated])

lemma listed_rows:
  assumes "exec (Profile_List users co domain fl) w = (Inr (ps, hasNext), w')" and "p \<in> set ps"
  shows "\<exists>r\<in>set (db_profiles (w_db w')). pw_domain r = domain \<and> (\<exists>columns. p = mapEmailProfile (readRow users columns r))"
proof -
  from exec_Inr[OF assms(1)] obtain now where run: "Profile_List users co domain fl now (w_db w) = Inr ((ps, hasNext), w_db w')" by auto
  have "set (orderRows lt rs) = set rs" for lt and rs :: "profile_row list" by (rule mset_eq_setD) (rule orderRows_mset)
  then have rows: "set (selectedRows co domain fl (w_db w)) \<subseteq> {r \<in> set (db_profiles (w_db w)). pw_domain r = domain}"
    by (auto simp: selectedRows_def)
  obtain page sz where pg: "emailProfilePaging (pf_Page fl) (pf_Size fl) = (page, sz)" by fastforce
  let ?f = "\<lambda>r. mapEmailProfile (readRow users (emailProfileProjection (pf_Fields fl)) r)"
  have "w_db w' = w_db w \<and> set ps \<subseteq> ?f ` set (selectedRows co domain fl (w_db w))"
    using run set_take_subset set_drop_subset unfolding Profile_List_def pg Let_def
    by (auto simp: take_map split: if_splits dest!: in_set_takeD in_set_dropD)
  moreover from this assms(2) obtain r where "r \<in> set (selectedRows co domain fl (w_db w))" "p = ?f r" by blast
  ultimately show ?thesis using rows by auto
qed

lemma handler_shows_only:
  assumes "handleRequest ae req (Some caller) s = (Inr x, s')"
  shows "shows_only (en_users (ae_profiles ae)) (ss_DomainID caller) (w_db (sv_world s')) x"
proof (cases req)
  case (ListRequest l)
  with assms listed_rows show ?thesis
    by (fastforce simp: respond_def ListEmailProfiles_def emailProfileSession_def bindS_returnS io_success shows_only_def split: prod.splits)
qed (use assms in \<open>auto simp: respond_def profile_handlers TestEmailProfile_def BeginEmailProfileOAuth_def BindEmailThreadContact_def
       UnbindEmailThreadContact_def emailProfileSession_def emailThreadSession_def bindS_returnS io_success shows_only_def
       emailProfileToProto_def split: prod.splits dest: services_show domain_stmtD[OF profile_stmts(1)]\<close>)

section \<open>Properties\<close>

text \<open>
  C6: Every call of the interface is authorized and stays in the caller's domain. Whatever the
  request and whatever fails: when a call succeeds, or when it changed the database or the cached
  tokens at all, then the token of the request belongs to a user who may do this on objects of this
  class; nothing of another domain and no email has changed; and what a response shows are profiles
  of the caller's domain.
\<close>

theorem calls_are_authorized_and_confined:
  assumes "serve ae ctx req s = (r, s')"
    and "(\<exists>x. r = Inr x) \<or> w_db (sv_world s') \<noteq> w_db (sv_world s) \<or> sv_tokens s' \<noteq> sv_tokens s"
  shows "\<exists>token n ui. requestToken ctx = Some token \<and> ae_userInfo ae n token = Inr ui \<and> may ui (requestClass req) (requestAccess req) \<and>
    confined (uf_Dc ui) s s' \<and> (\<forall>x. r = Inr x \<longrightarrow> shows_only (en_users (ae_profiles ae)) (uf_Dc ui) (w_db (sv_world s')) x)"
proof -
  let ?auth = "AuthorizeFromContext (ae_userInfo ae) ctx (requestClass req) (requestAccess req)"
  obtain a w1 where auth: "?auth (sv_world s) = (a, w1)" by fastforce
  let ?s1 = "s\<lparr>sv_world := w1\<rparr>"
  have db: "w_db w1 = w_db (sv_world s)"
    using Authorize_keeps[of "\<lambda>d. d = w_db (sv_world s)" "ae_userInfo ae" ctx] auth unfolding keeps_def by (metis snd_conv)
  have run: "(case a of Inl e \<Rightarrow> (Inl e, ?s1) | Inr caller \<Rightarrow>
      if \<not> CheckOBACAccess (Some caller) (requestClass req) (requestAccess req) then throwS (Forbidden ''auth.interceptor.permission'') ?s1
      else handleRequest ae req (Some caller) ?s1) = (r, s')"
    using assms(1) auth by (auto simp: serve_def NewUnaryAuthInterceptor_def requests_are_known bindS_def liftS_def split: sum.splits if_splits)
  from assms(2) run db obtain caller where a: "a = Inr caller" and ok: "CheckOBACAccess (Some caller) (requestClass req) (requestAccess req)"
    and run': "handleRequest ae req (Some caller) ?s1 = (r, s')"
    by (auto simp: throwS_def split: sum.splits if_splits)
  from auth[unfolded a] obtain token n ui w0 where who: "requestToken ctx = Some token" "ae_userInfo ae n token = Inr ui"
    "sessionFromUserInfo ui w0 = (Inr caller, w1)" by (rule Authorize_Inr)
  note caller = session_access[OF who(3) requestAccess_mode]
  have "confined (uf_Dc ui) s ?s1" using db by (simp add: confined_def)
  with handlers_stay[of "Some caller" "uf_Dc ui" ae req] caller(1) run' have "confined (uf_Dc ui) s s'"
    by (fastforce simp: stays_def)
  with who ok caller handler_shows_only[of ae req caller ?s1 _ s'] run' show ?thesis by metis
qed

definition sample_api :: api_env where
  "sample_api = \<lparr>ae_profiles = sample_env, ae_collation = sample_collation, ae_verifyContact = (\<lambda>_ _ c. Inr (c = 5)),
     ae_userInfo = (\<lambda>_ token. if token = ''key'' then Inr \<lparr>uf_UserId = 3, uf_Dc = 7, uf_License = [], uf_Permissions = [],
        uf_Scope = [\<lparr>uc_Class = ''email_thread'', uc_Access = ''rw'', uc_Obac = True\<rparr>]\<rparr> else Inl (PlainError ''unknown''))\<rparr>"

definition sample_ctx :: call_ctx where
  "sample_ctx = \<lparr>cx_requestContext = None, cx_incoming = Some (\<lambda>_. [''key''])\<rparr>"

definition sample_caller :: svc where
  "sample_caller = \<lparr>sv_world = sample_conversation, sv_tokens = (\<lambda>_. None)\<rparr>"

lemma sample_serve: "\<exists>s'. serve sample_api sample_ctx (BindRequest 3 5) sample_caller = (Inr EmptyResponse, s')"
  unfolding serve_def NewUnaryAuthInterceptor_def requests_are_known
  by (simp add: requestClass_def requestAccess_def bindS_def liftS_def AuthorizeFromContext_def sample_ctx_def sample_api_def sample_caller_def
      catchM_def call_def sessionFromUserInfo_def bindM_def returnM_def Let_def addScope_def CheckOBACAccess_def requiredAccess_def access_modes
      respond_def BindEmailThreadContact_def emailThreadSession_def returnS_def BindContact_def setContact_def exec_def SetContactManually_def
      update_threads_def sample_conversation_def sample_world_def sample_thread_def thread_valid_def rows_affected_def tick_def)

theorem calls_are_authorized_and_confined_witness:
  "\<exists>s' token n ui. serve sample_api sample_ctx (BindRequest 3 5) sample_caller = (Inr EmptyResponse, s') \<and>
     ae_userInfo sample_api n token = Inr ui \<and> may ui ''email_thread'' Edit \<and> confined (uf_Dc ui) sample_caller s'"
proof -
  obtain s' where run: "serve sample_api sample_ctx (BindRequest 3 5) sample_caller = (Inr EmptyResponse, s')" using sample_serve ..
  have "requestClass (BindRequest 3 5) = ''email_thread''" "requestAccess (BindRequest 3 5) = Edit"
    by (simp_all add: requestClass_def requestAccess_def)
  with calls_are_authorized_and_confined[OF run] run show ?thesis by auto
qed

text \<open>What a client sends back of a profile it has read.\<close>

definition settings_of :: "proto_EmailProfile \<Rightarrow> InputEmailProfile" where
  "settings_of p = \<lparr>in_Name = pb_Name p, in_Description = pb_Description p, in_Enabled = pb_Enabled p, in_EmailAddress = pb_EmailAddress p,
     in_SenderName = pb_SenderName p, in_ReplyTo = pb_ReplyTo p, in_Signature = pb_Signature p, in_ImapHost = pb_ImapHost p,
     in_ImapPort = pb_ImapPort p, in_ImapSecurity = pb_ImapSecurity p, in_SmtpHost = pb_SmtpHost p, in_SmtpPort = pb_SmtpPort p,
     in_SmtpSecurity = pb_SmtpSecurity p, in_Username = pb_Username p, in_Password = '''', in_Mailbox = pb_Mailbox p,
     in_FetchIntervalSeconds = pb_FetchIntervalSeconds p, in_FlowId = pb_FlowId p, in_AuthType = pb_AuthType p,
     in_OauthProvider = pb_OauthProvider p, in_OauthClientId = pb_OauthClientId p, in_OauthClientSecret = ''''\<rparr>"

lemma enums_read_back:
  "v \<in> {''tls'', ''starttls''} \<Longrightarrow> connectionSecurityFromProto (connectionSecurityToProto v) = v"
  "v \<in> {''basic'', ''oauth2''} \<Longrightarrow> authTypeFromProto (authTypeToProto v) = v"
  "v \<in> {'''', ''google'', ''microsoft''} \<Longrightarrow> oauthProviderFromProto (oauthProviderToProto v) = v"
  by (auto simp: connectionSecurityFromProto_def connectionSecurityToProto_def EmailConnectionSecurityTLS_def
      EmailConnectionSecurityStartTLS_def authTypeFromProto_def authTypeToProto_def EmailAuthTypeBasic_def EmailAuthTypeOAuth2_def
      oauthProviderFromProto_def oauthProviderToProto_def EmailOAuthProviderGoogle_def EmailOAuthProviderMicrosoft_def)

text \<open>
  What a client reads it can write back. For a profile that satisfies the constraints of its
  table, the settings shown to a client, sent back as they are, are the settings of the profile, the
  enumerations and the optional flow included, so an update with them changes no setting.
\<close>

theorem settings_read_back:
  assumes "profile_check p" and "ep_FlowID p \<noteq> Some 0"
  shows "\<exists>q. emailProfileFromProto (Some (settings_of (emailProfileToProto p))) = Some q \<and> emailProfileWriteArgs q p = p"
  using assms by (cases "ep_FlowID p") (simp_all add: emailProfileFromProto_def settings_of_def emailProfileToProto_def Let_def
      emailProfileWriteArgs_def profile_check_def enums_read_back int64Value_def zero_EmailProfile_def)

theorem settings_read_back_witness:
  "\<exists>q. emailProfileFromProto (Some (settings_of (emailProfileToProto (pw_profile sample_row)))) = Some q \<and>
     emailProfileWriteArgs q (pw_profile sample_row) = pw_profile sample_row"
  by (rule settings_read_back) (simp_all add: sample_row_def profile_check_def sql_trim_def zero_EmailProfile_def)

end
