(* ===== verification/Service_Clients.thy ===== *)
theory Service_Clients
  imports Mime_Parser
begin

text \<open>
  The clients of the two services the inbound pipeline calls: contacts (\<^verbatim>\<open>infra/contacts\<close>), which
  finds the contact of an address, and storage (\<^verbatim>\<open>infra/storage\<close>), which keeps the attachments.
  The remote services, the connection pool and the deadlines are arguments: what a call, a stream
  or a wait for a slot does is an observation of the world.
\<close>

section \<open>Calls of a service\<close>

datatype status_code = Unavailable | DeadlineExceeded | FailedPrecondition | PermissionDenied | OtherCode

datatype rpc_error = ContextCanceled | RpcError status_code string

definition statusCode :: "rpc_error \<Rightarrow> status_code" where
  "statusCode e = (case e of ContextCanceled \<Rightarrow> OtherCode | RpcError c _ \<Rightarrow> c)"

definition observe :: "(nat \<Rightarrow> 'a) \<Rightarrow> 'a io" where
  "observe f = call (\<lambda>n. Inr (f n))"

section \<open>Contacts\<close>

record SearchContactsNARequest =
  sq_DomainId :: int
  sq_Qin :: "string list"
  sq_Q :: string
  sq_Id :: "string list"
  sq_Size :: nat

record contacts_env =
  kn_slot :: "nat \<Rightarrow> bool"
  kn_expired :: "nat \<Rightarrow> bool"
  kn_SearchContactsNA :: "nat \<Rightarrow> SearchContactsNARequest \<Rightarrow> rpc_error + string list"

text \<open>\<^verbatim>\<open>regexp.QuoteMeta\<close>, and \<^verbatim>\<open>strings.ReplaceAll\<close> of a text that is not empty.\<close>

definition QuoteMeta :: "string \<Rightarrow> string" where
  "QuoteMeta s = concat (map (\<lambda>c. if c \<in> set ([CHR 92] @ ''.+*?()|[]{}^$'') then [CHR 92, c] else [c]) s)"

fun ReplaceAll :: "string \<Rightarrow> string \<Rightarrow> string \<Rightarrow> string" where
  "ReplaceAll s old new =
     (if old = [] \<or> s = [] then s
      else if HasPrefix s old then new @ ReplaceAll (drop (length old) s) old new
      else List.hd s # ReplaceAll (List.tl s) old new)"

declare ReplaceAll.simps [simp del]

definition exactPattern :: "string \<Rightarrow> string" where
  "exactPattern address = ''/(?i)^'' @ ReplaceAll (QuoteMeta address) [CHR 92, CHR ''*''] ([CHR 92] @ ''u002A'') @ ''$/''"

text \<open>\<^verbatim>\<open>strconv.ParseInt(s, 10, 64)\<close>.\<close>

definition digitsValue :: "string \<Rightarrow> nat" where
  "digitsValue s = foldl (\<lambda>a c. 10 * a + (byte c - 48)) 0 s"

definition ParseInt :: "string \<Rightarrow> int option" where
  "ParseInt s =
     (let neg = (s \<noteq> [] \<and> List.hd s = CHR ''-'');
          ds = (if s \<noteq> [] \<and> (List.hd s = CHR ''-'' \<or> List.hd s = CHR ''+'') then List.tl s else s);
          v = (if neg then - int (digitsValue ds) else int (digitsValue ds))
      in if ds = [] \<or> \<not> list_all (\<lambda>c. 48 \<le> byte c \<and> byte c \<le> 57) ds then None
         else if v < - (2 ^ 63) \<or> v \<ge> 2 ^ 63 then None
         else Some v)"

definition contactID :: "string \<Rightarrow> error + int" where
  "contactID i = (case ParseInt i of
     None \<Rightarrow> Inl (PlainError ''contacts: unexpected contact id'')
   | Some n \<Rightarrow> if n \<le> 0 then Inl (PlainError ''contacts: unexpected contact id'') else Inr n)"

definition search_contacts :: "contacts_env \<Rightarrow> SearchContactsNARequest \<Rightarrow> string list io" where
  "search_contacts ce req =
     bindM (observe (kn_slot ce)) (\<lambda>acquired.
     if \<not> acquired
     then bindM ctxErr (\<lambda>gone. if gone then throwM CtxErr else throwM ErrUnavailable)
     else
     bindM (observe (\<lambda>n. kn_SearchContactsNA ce n req)) (\<lambda>answer.
     case answer of
       Inr list \<Rightarrow> returnM list
     | Inl e \<Rightarrow>
         bindM (observe (kn_expired ce)) (\<lambda>expired.
         if statusCode e \<noteq> Unavailable \<or> expired then throwM ErrUnavailable
         else
         bindM (observe (\<lambda>n. kn_SearchContactsNA ce n req)) (\<lambda>second.
         case second of Inr list \<Rightarrow> returnM list | Inl e' \<Rightarrow> throwM ErrUnavailable))))"

definition searchPageSize :: nat where
  "searchPageSize = 2"

definition ResolveByEmail :: "contacts_env \<Rightarrow> int \<Rightarrow> string \<Rightarrow> Outcome io" where
  "ResolveByEmail ce domainID address =
     bindM (search_contacts ce \<lparr>sq_DomainId = domainID, sq_Qin = [''emails''], sq_Q = exactPattern address, sq_Id = [],
       sq_Size = searchPageSize\<rparr>) (\<lambda>items.
     case items of
       [] \<Rightarrow> returnM OutcomeNotFound
     | [x] \<Rightarrow> (case contactID x of Inl e \<Rightarrow> throwM e | Inr i \<Rightarrow> returnM (OutcomeResolved i))
     | _ \<Rightarrow> returnM OutcomeAmbiguous)"

definition VerifyContact :: "contacts_env \<Rightarrow> int \<Rightarrow> int \<Rightarrow> bool io" where
  "VerifyContact ce domainID contact =
     bindM (search_contacts ce \<lparr>sq_DomainId = domainID, sq_Qin = [], sq_Q = '''', sq_Id = [FormatInt contact], sq_Size = 1\<rparr>)
       (\<lambda>items. returnM (length items = 1))"

section \<open>Storage\<close>

definition chunkSize :: nat where "chunkSize = 32 * 1024"
definition maxFileNameRunes :: nat where "maxFileNameRunes = 200"
definition fallbackFileName :: string where "fallbackFileName = ''attachment''"

text \<open>A rune of the name that is kept: control characters and what is no character are dropped.\<close>

definition fileNameRune :: "string \<Rightarrow> string" where
  "fileNameRune r = (if is_control r \<or> \<not> is_rune r \<or> r = RuneError then []
     else if r = ''/'' \<or> r = [CHR 92] then ''_'' else r)"

definition sanitizeFileName :: "string \<Rightarrow> string" where
  "sanitizeFileName name =
     (let cleaned = TrimChars (TrimSpace (concat (map fileNameRune (runes name)))) ''.''
      in if cleaned = '''' then fallbackFileName
         else if length (runes cleaned) > maxFileNameRunes then concat (map validRune (take maxFileNameRunes (runes cleaned)))
         else cleaned)"

record UploadMetadata =
  um_DomainId :: int
  um_Name :: string
  um_MimeType :: string
  um_Uuid :: string
  um_Channel :: string

datatype UploadFileRequest = UploadMeta UploadMetadata | UploadChunk string

record UploadFileResponse =
  fr_Failed :: bool
  fr_FileId :: int
  fr_Size :: int

record storage_env =
  se_slot :: "nat \<Rightarrow> bool"
  se_GetAPI :: "nat \<Rightarrow> bool"
  se_openStream :: "nat \<Rightarrow> rpc_error option"
  se_Send :: "nat \<Rightarrow> rpc_error option"
  se_CloseAndRecv :: "nat \<Rightarrow> UploadFileRequest list \<Rightarrow> rpc_error + UploadFileResponse"

text \<open>Sending message after message, and what the stream has taken.\<close>

fun sendAll :: "storage_env \<Rightarrow> nat \<Rightarrow> UploadFileRequest list \<Rightarrow> UploadFileRequest list \<Rightarrow> (rpc_error + UploadFileRequest list) \<times> nat" where
  "sendAll se n [] sent = (Inr sent, n)"
| "sendAll se n (m # ms) sent = (case se_Send se n of Some e \<Rightarrow> (Inl e, Suc n) | None \<Rightarrow> sendAll se (Suc n) ms (sent @ [m]))"

text \<open>The loop over the content: \<^verbatim>\<open>offset += chunkSize\<close> until the end.\<close>

function chunks :: "string \<Rightarrow> nat \<Rightarrow> UploadFileRequest list" where
  "chunks bytes offset =
     (if offset < length bytes
      then UploadChunk (take (min (offset + chunkSize) (length bytes) - offset) (drop offset bytes)) # chunks bytes (offset + chunkSize)
      else [])"
  by pat_completeness auto
termination
  by (relation "measure (\<lambda>(bytes, offset). length bytes - offset)") (auto simp: chunkSize_def)

declare chunks.simps [simp del]

definition sendUpload :: "storage_env \<Rightarrow> UploadRequest \<Rightarrow> nat \<Rightarrow> (rpc_error + UploadFileRequest list \<times> UploadFileResponse) \<times> nat" where
  "sendUpload se req n = (case se_openStream se n of
     Some e \<Rightarrow> (Inl e, Suc n)
   | None \<Rightarrow>
       (case sendAll se (Suc n) (UploadMeta \<lparr>um_DomainId = ur_DomainID req, um_Name = sanitizeFileName (ur_Name req),
             um_MimeType = ur_MimeType req, um_Uuid = ur_ReferenceID req, um_Channel = ''MailChannel''\<rparr> # chunks (ur_Content req) 0) [] of
          (Inl e, n') \<Rightarrow> (Inl e, n')
        | (Inr sent, n') \<Rightarrow> (case se_CloseAndRecv se n' sent of Inl e \<Rightarrow> (Inl e, Suc n') | Inr r \<Rightarrow> (Inr (sent, r), Suc n'))))"

definition passError :: "rpc_error \<Rightarrow> error" where
  "passError e = (case e of ContextCanceled \<Rightarrow> CtxErr | RpcError _ s \<Rightarrow> PlainError s)"

definition classifyError :: "bool \<Rightarrow> rpc_error \<Rightarrow> error" where
  "classifyError callerGone e =
     (if callerGone then passError e
      else if e = ContextCanceled then passError e
      else if statusCode e = FailedPrecondition \<or> statusCode e = PermissionDenied then ErrFileRejected
      else if statusCode e = Unavailable \<or> statusCode e = DeadlineExceeded then ErrUnavailable
      else passError e)"

text \<open>The stored file, with the messages that made it.\<close>

definition UploadFile :: "storage_env \<Rightarrow> UploadRequest \<Rightarrow> (int \<times> int \<times> UploadFileRequest list) io" where
  "UploadFile se req =
     bindM (observe (se_slot se)) (\<lambda>acquired.
     if \<not> acquired then throwM CtxErr
     else
     bindM (observe (se_GetAPI se)) (\<lambda>connected.
     if \<not> connected then throwM ErrUnavailable
     else (\<lambda>w.
       case sendUpload se req (w_step w) of (r, n) \<Rightarrow>
         (case r of
            Inl e \<Rightarrow> bindM ctxErr (\<lambda>gone. throwM (classifyError gone e)) (w\<lparr>w_step := n\<rparr>)
          | Inr (sent, response) \<Rightarrow>
              if fr_Failed response \<or> fr_FileId response \<le> 0 then throwM ErrFileRejected (w\<lparr>w_step := n\<rparr>)
              else returnM (fr_FileId response, fr_Size response, sent) (w\<lparr>w_step := n\<rparr>)))))"

definition GenerateFileLink :: "(nat \<Rightarrow> rpc_error + 'l) \<Rightarrow> 'l io" where
  "GenerateFileLink execute =
     bindM (observe execute) (\<lambda>r. case r of
       Inr response \<Rightarrow> returnM response
     | Inl e \<Rightarrow> bindM ctxErr (\<lambda>gone. throwM (classifyError gone e)))"

section \<open>What is uploaded\<close>

lemma chunks_content:
  assumes "chunks bytes offset = map UploadChunk cs"
  shows "concat cs = drop offset bytes \<and> (\<forall>c\<in>set cs. c \<noteq> [] \<and> length c \<le> chunkSize)"
  using assms
proof (induction bytes offset arbitrary: cs rule: chunks.induct)
  case (1 bytes offset)
  let ?c = "take (min (offset + chunkSize) (length bytes) - offset) (drop offset bytes)"
  show ?case
  proof (cases "offset < length bytes")
    case True
    then obtain cs' where cs: "cs = ?c # cs'" "chunks bytes (offset + chunkSize) = map UploadChunk cs'"
      using "1.prems" by (subst (asm) chunks.simps) auto
    have c: "?c = take chunkSize (drop offset bytes)" using True by (cases "offset + chunkSize \<le> length bytes") (auto simp: min_def)
    have "?c @ drop (offset + chunkSize) bytes = drop offset bytes" unfolding c using append_take_drop_id[of chunkSize "drop offset bytes"] by (simp add: add.commute)
    moreover have "?c \<noteq> []" using True unfolding c by (simp add: chunkSize_def)
    moreover have "length ?c \<le> chunkSize" unfolding c by simp
    ultimately show ?thesis using "1.IH"[OF True cs(2)] cs(1) by auto
  qed (use "1.prems" in \<open>subst (asm) chunks.simps, simp\<close>)
qed

lemma chunks_are_chunks: "\<exists>cs. chunks bytes offset = map UploadChunk cs"
proof (induction bytes offset rule: chunks.induct)
  case (1 bytes offset)
  show ?case
  proof (cases "offset < length bytes")
    case True
    with 1 obtain cs where "chunks bytes (offset + chunkSize) = map UploadChunk cs" by blast
    with True show ?thesis by (subst chunks.simps) (metis list.simps(9))
  qed (subst chunks.simps, simp)
qed

lemma sendAll_Inr: "sendAll se n ms sent = (Inr sent', n') \<Longrightarrow> sent' = sent @ ms"
  by (induction se n ms sent rule: sendAll.induct) (auto split: option.splits)

section \<open>Names of files\<close>

text \<open>A byte that may stand in the name of a file: no control character and no separator of a path.\<close>

definition fileByte :: "char \<Rightarrow> bool" where
  "fileByte c \<longleftrightarrow> 32 \<le> byte c \<and> byte c \<noteq> 127 \<and> c \<noteq> CHR ''/'' \<and> c \<noteq> CHR 92"

lemma wide_fileByte: "128 \<le> byte c \<Longrightarrow> fileByte c"
  by (auto simp: fileByte_def)

lemma rune_bytes: "is_rune r \<Longrightarrow> (\<exists>c. r = [c]) \<or> (\<forall>c\<in>set r. 128 \<le> byte c)"
  by (cases r rule: is_rune.cases) (auto simp: width_def second_ok_def cont_def Let_def split: if_splits)

lemma fileNameRune_bytes: "c \<in> set (fileNameRune r) \<Longrightarrow> fileByte c"
  using rune_bytes[of r] by (auto simp: fileNameRune_def is_control_def fileByte_def split: if_splits dest!: wide_fileByte)

lemma validRune_bytes: "\<forall>c\<in>set r. fileByte c \<Longrightarrow> \<forall>c\<in>set (validRune r). fileByte c"
  by (auto simp: validRune_def RuneError_def fileByte_def)

lemma set_TrimSpace: "set (TrimSpace s) \<subseteq> set s"
proof -
  have "set (rev (dropWhile is_space (rev (dropWhile is_space (runes s))))) \<subseteq> set (runes s)" by (auto dest!: set_dropWhileD)
  then have "set (TrimSpace s) \<subseteq> set (concat (runes s))" unfolding TrimSpace_def set_concat by blast
  then show ?thesis by simp
qed

lemma set_TrimChars: "set (TrimChars s cutset) \<subseteq> set s"
  by (auto simp: TrimChars_def dest!: set_dropWhileD)

lemma hd_TrimChars:
  assumes "TrimChars s cutset \<noteq> []"
  shows "List.hd (TrimChars s cutset) \<notin> set cutset"
proof -
  let ?P = "\<lambda>c. c \<in> set cutset"
  let ?s = "dropWhile ?P s"
  obtain k where k: "rev (dropWhile ?P (rev ?s)) = take k ?s" using dropWhile_eq_drop rev_drop rev_rev_ident by metis
  then have "List.hd (TrimChars s cutset) = List.hd ?s" and "?s \<noteq> []" using assms unfolding TrimChars_def by (auto simp: hd_take)
  then show ?thesis using hd_dropWhile[of ?P s] by simp
qed

lemma hd_first_rune: "s \<noteq> [] \<Longrightarrow> runes s = List.hd (runes s) # List.tl (runes s) \<and> List.hd (List.hd (runes s)) = List.hd s"
  using runeLen_pos[of s] runes.simps[of s] by (simp add: hd_take)

text \<open>
  The name under which a file is stored is safe: it has at least one and at most 200 characters,
  no control character and no separator of a path, and does not begin with a dot.
\<close>

theorem file_name_is_safe:
  "sanitizeFileName name \<noteq> [] \<and> length (runes (sanitizeFileName name)) \<le> maxFileNameRunes \<and>
   list_all fileByte (sanitizeFileName name) \<and> List.hd (sanitizeFileName name) \<noteq> CHR ''.''"
proof -
  define mapped where "mapped = concat (map fileNameRune (runes name))"
  define cleaned where "cleaned = TrimChars (TrimSpace mapped) ''.''"
  have bytes: "\<forall>c\<in>set cleaned. fileByte c"
    using set_TrimChars[of "TrimSpace mapped" "''.''"] set_TrimSpace[of mapped] fileNameRune_bytes by (auto simp: cleaned_def mapped_def)
  show ?thesis
  proof (cases "cleaned = []")
    case True
    then have "sanitizeFileName name = fallbackFileName" by (simp add: sanitizeFileName_def Let_def cleaned_def mapped_def)
    then show ?thesis using runes_ascii[of fallbackFileName] by (simp add: fallbackFileName_def maxFileNameRunes_def fileByte_def)
  next
    case False
    note dot = hd_TrimChars[OF False[unfolded cleaned_def], folded cleaned_def] and first = hd_first_rune[OF False]
    let ?cut = "map validRune (take maxFileNameRunes (runes cleaned))"
    have name: "sanitizeFileName name = (if length (runes cleaned) > maxFileNameRunes then concat ?cut else cleaned)"
      using False by (simp add: sanitizeFileName_def Let_def cleaned_def mapped_def)
    have "set r \<subseteq> set cleaned" if "r \<in> set (runes cleaned)" for r using that concat_runes[of cleaned] by (metis UN_upper set_concat)
    then have "\<forall>c\<in>set (validRune r). fileByte c" if "r \<in> set (take maxFileNameRunes (runes cleaned))" for r
      using bytes validRune_bytes[of r] in_set_takeD[OF that] by blast
    then have "\<forall>c\<in>set (concat ?cut). fileByte c" by simp
    moreover have "length (runes (concat ?cut)) \<le> maxFileNameRunes"
      using runes_concat[of ?cut "[]"] by (simp add: list_all_iff is_rune_validRune)
    moreover have "concat ?cut \<noteq> []" "List.hd (concat ?cut) \<noteq> CHR ''.''"
    proof -
      have "?cut = validRune (List.hd (runes cleaned)) # map validRune (take (maxFileNameRunes - 1) (List.tl (runes cleaned)))"
        using first by (metis Cons_eq_map_conv One_nat_def maxFileNameRunes_def take_Cons' zero_neq_numeral)
      then show "concat ?cut \<noteq> []" "List.hd (concat ?cut) \<noteq> CHR ''.''"
        using first dot is_rune_width[of "List.hd (runes cleaned)"] by (auto simp: validRune_def RuneError_def)
    qed
    ultimately show ?thesis using bytes False dot name by (auto simp: list_all_iff)
  qed
qed

text \<open>
  C38: A stored file is the whole file. When an upload succeeds, the stream has carried the metadata
  of the part, under a safe name, and then the content cut into pieces, in order, complete, none of
  them empty (which would end the file early) and none above 32 KiB.
\<close>

theorem upload_sends_the_whole_file:
  assumes "UploadFile se req w = (Inr (fileID, stored, sent), w')"
  shows "\<exists>meta cs. sent = UploadMeta meta # map UploadChunk cs \<and> concat cs = ur_Content req \<and>
    (\<forall>c\<in>set cs. c \<noteq> [] \<and> length c \<le> chunkSize) \<and> um_DomainId meta = ur_DomainID req \<and> um_Uuid meta = ur_ReferenceID req \<and> fileID > 0"
proof -
  from assms obtain n r n' where up: "sendUpload se req n = (Inr (sent, r), n')" and ok: "fileID > 0"
    by (auto simp: UploadFile_def observe_def bindM_def call_def ctxErr_def throwM_def returnM_def split: if_splits sum.splits prod.splits)
  obtain cs where cs: "chunks (ur_Content req) 0 = map UploadChunk cs" using chunks_are_chunks by blast
  from up cs have "sent = UploadMeta \<lparr>um_DomainId = ur_DomainID req, um_Name = sanitizeFileName (ur_Name req),
      um_MimeType = ur_MimeType req, um_Uuid = ur_ReferenceID req, um_Channel = ''MailChannel''\<rparr> # map UploadChunk cs"
    by (auto simp: sendUpload_def simp del: sendAll.simps split: option.splits sum.splits prod.splits dest!: sendAll_Inr)
  with chunks_content[OF cs] ok show ?thesis by auto
qed

definition sample_storage :: storage_env where
  "sample_storage = \<lparr>se_slot = (\<lambda>_. True), se_GetAPI = (\<lambda>_. True), se_openStream = (\<lambda>_. None), se_Send = (\<lambda>_. None),
     se_CloseAndRecv = (\<lambda>_ _. Inr \<lparr>fr_Failed = False, fr_FileId = 8, fr_Size = 3\<rparr>)\<rparr>"

theorem upload_sends_the_whole_file_witness:
  "\<exists>sent w' meta cs. UploadFile sample_storage \<lparr>ur_DomainID = 7, ur_Name = ''../a'', ur_MimeType = ''text/plain'', ur_ReferenceID = ''r'', ur_Content = ''abc''\<rparr>
     (sample_world empty_db) = (Inr (8, 3, sent), w') \<and> sent = UploadMeta meta # map UploadChunk cs \<and> concat cs = ''abc''"
proof -
  let ?req = "\<lparr>ur_DomainID = 7, ur_Name = ''../a'', ur_MimeType = ''text/plain'', ur_ReferenceID = ''r'', ur_Content = ''abc''\<rparr>"
  have "\<exists>sent w'. UploadFile sample_storage ?req (sample_world empty_db) = (Inr (8, 3, sent), w')"
    by (simp add: UploadFile_def observe_def bindM_def call_def returnM_def sample_storage_def sendUpload_def chunks.simps chunkSize_def)
  then obtain sent w' where run: "UploadFile sample_storage ?req (sample_world empty_db) = (Inr (8, 3, sent), w')" by blast
  from upload_sends_the_whole_file[OF run] run show ?thesis by auto
qed

section \<open>Who has an address\<close>

text \<open>
  How the contacts service reads a pattern: the text between the delimiters is a regular
  expression, here one without operators, in which a backslash quotes a character or names it by
  its code.
\<close>

definition metachars :: string where
  "metachars = [CHR 92] @ ''.+*?()|[]{}^$''"

fun areLiteral :: "string \<Rightarrow> string option" where
  "areLiteral [] = Some []"
| "areLiteral (c # cs) =
     (if c = CHR 92 then (case cs of
        [] \<Rightarrow> None
      | q # qs \<Rightarrow>
          if q \<in> set metachars then map_option (Cons q) (areLiteral qs)
          else if q = CHR ''u'' \<and> take 4 qs = ''002A'' then map_option (Cons (CHR ''*'')) (areLiteral (drop 4 qs))
          else None)
      else if c \<in> set metachars then None
      else map_option (Cons c) (areLiteral cs))"

definition patternAddress :: "string \<Rightarrow> string option" where
  "patternAddress q = (if HasPrefix q ''/(?i)^'' \<and> HasSuffix q ''$/'' then areLiteral (take (length q - 8) (drop 6 q)) else None)"

definition escapedChar :: "char \<Rightarrow> string" where
  "escapedChar c = (if c = CHR ''*'' then [CHR 92] @ ''u002A'' else if c \<in> set metachars then [CHR 92, c] else [c])"

lemma QuoteMeta_Cons: "QuoteMeta (c # s) = (if c \<in> set metachars then [CHR 92, c] else [c]) @ QuoteMeta s"
  by (simp add: QuoteMeta_def metachars_def)

lemma QuoteMeta_head: "HasPrefix (QuoteMeta s) [CHR ''*''] = False"
  by (cases s) (auto simp: QuoteMeta_Cons HasPrefix_def metachars_def QuoteMeta_def)

lemma ReplaceAll_skip:
  assumes "\<not> HasPrefix (c # s) old" and "old \<noteq> []"
  shows "ReplaceAll (c # s) old new = c # ReplaceAll s old new"
  using assms by (subst ReplaceAll.simps) simp

lemma escaped_pattern: "ReplaceAll (QuoteMeta s) [CHR 92, CHR ''*''] ([CHR 92] @ ''u002A'') = concat (map escapedChar s)"
proof (induction s)
  case Nil
  show ?case by (simp add: QuoteMeta_def ReplaceAll.simps)
next
  case (Cons c s)
  let ?old = "[CHR 92, CHR ''*'']" and ?new = "[CHR 92] @ ''u002A''"
  consider "c = CHR ''*''" | "c \<noteq> CHR ''*''" "c \<in> set metachars" | "c \<notin> set metachars" by blast
  then show ?case
  proof cases
    case 1
    then have "ReplaceAll (QuoteMeta (c # s)) ?old ?new = ?new @ ReplaceAll (QuoteMeta s) ?old ?new"
      by (simp add: QuoteMeta_Cons metachars_def, subst ReplaceAll.simps) (simp add: HasPrefix_def)
    with Cons 1 show ?thesis by (simp add: escapedChar_def)
  next
    case 2
    have "\<not> HasPrefix (c # QuoteMeta s) ?old" using QuoteMeta_head[of s] by (cases "QuoteMeta s") (auto simp: HasPrefix_def)
    with Cons 2 show ?thesis by (simp add: QuoteMeta_Cons escapedChar_def ReplaceAll_skip HasPrefix_def)
  next
    case 3
    then have "c \<noteq> CHR 92" by (auto simp: metachars_def)
    with Cons 3 show ?thesis by (auto simp: QuoteMeta_Cons escapedChar_def ReplaceAll_skip HasPrefix_def metachars_def)
  qed
qed

lemma areLiteral_escaped: "areLiteral (concat (map escapedChar s)) = Some s"
proof (induction s)
  case (Cons c s)
  show ?case
  proof (cases "c = CHR ''*''")
    case True
    have "CHR ''u'' \<notin> set metachars" by (simp add: metachars_def)
    with Cons True show ?thesis by (simp add: escapedChar_def)
  next
    case False
    have "CHR 92 \<in> set metachars" by (simp add: metachars_def)
    with Cons False show ?thesis by (auto simp: escapedChar_def)
  qed
qed simp

lemma patternAddress_exact: "patternAddress (exactPattern address) = Some address"
proof -
  let ?e = "concat (map escapedChar address)"
  have "exactPattern address = ''/(?i)^'' @ ?e @ ''$/''" unfolding exactPattern_def escaped_pattern ..
  moreover have "take (length (''/(?i)^'' @ ?e @ ''$/'') - 8) (drop 6 (''/(?i)^'' @ ?e @ ''$/'')) = ?e" by simp
  ultimately show ?thesis using areLiteral_escaped[of address] by (simp add: patternAddress_def HasPrefix_def HasSuffix_def)
qed

lemma exactPattern_no_star: "CHR ''*'' \<notin> set (exactPattern address)"
  unfolding exactPattern_def escaped_pattern by (auto simp: escapedChar_def)

lemma digitsValue_snoc: "digitsValue (s @ [c]) = 10 * digitsValue s + (byte c - 48)"
  by (simp add: digitsValue_def)

lemma digitsValue_decimal: "digitsValue (decimal n) = n"
proof (induction n rule: decimal.induct)
  case (1 n)
  have "byte (digit k) - 48 = k" if "k < 10" for k using that by (simp add: digit_def)
  with 1 show ?case
  proof (cases "n < 10")
    case True
    then show ?thesis using \<open>\<And>k. k < 10 \<Longrightarrow> byte (digit k) - 48 = k\<close> by (subst decimal.simps) (simp add: digitsValue_def)
  next
    case False
    with 1 \<open>\<And>k. k < 10 \<Longrightarrow> byte (digit k) - 48 = k\<close> show ?thesis by (subst decimal.simps) (simp add: digitsValue_snoc)
  qed
qed

lemma ParseInt_FormatInt:
  assumes "0 \<le> i" and "i < 2 ^ 63"
  shows "ParseInt (FormatInt i) = Some i"
proof -
  let ?d = "decimal (nat i)"
  have digits: "list_all (\<lambda>c. 48 \<le> byte c \<and> byte c \<le> 57) ?d" using decimal_digits by (simp add: list_all_iff)
  then have "48 \<le> byte (List.hd ?d)" by (cases ?d) simp_all
  then have "List.hd ?d \<noteq> CHR ''-''" "List.hd ?d \<noteq> CHR ''+''" by auto
  with digits assms show ?thesis by (simp add: ParseInt_def FormatInt_def Let_def digitsValue_decimal)
qed

text \<open>
  The address book of the contacts service: of every contact the domain, the number and the
  addresses. A search for a pattern that is one literal address finds the contacts of the domain that
  hold it, as the service compares addresses, a page at a time; a star would split the pattern.
\<close>

record contact =
  ko_domain :: int
  ko_id :: int
  ko_emails :: "string list"

definition holders :: "(string \<Rightarrow> string) \<Rightarrow> contact list \<Rightarrow> int \<Rightarrow> string \<Rightarrow> contact list" where
  "holders fold_case book domain address =
     filter (\<lambda>c. ko_domain c = domain \<and> fold_case address \<in> fold_case ` set (ko_emails c)) book"

definition contacts_contract :: "contacts_env \<Rightarrow> (string \<Rightarrow> string) \<Rightarrow> contact list \<Rightarrow> bool" where
  "contacts_contract ce fold_case book \<longleftrightarrow> (\<forall>n req ids address.
     kn_SearchContactsNA ce n req = Inr ids \<longrightarrow> sq_Qin req = [''emails''] \<longrightarrow> CHR ''*'' \<notin> set (sq_Q req) \<longrightarrow>
     patternAddress (sq_Q req) = Some address \<longrightarrow>
     ids = take (sq_Size req) (map (\<lambda>c. FormatInt (ko_id c)) (holders fold_case book (sq_DomainId req) address)))"

lemma search_answer:
  assumes "search_contacts ce req w = (Inr ids, w')"
  shows "\<exists>n. kn_SearchContactsNA ce n req = Inr ids"
  using assms by (auto simp: search_contacts_def observe_def bindM_def call_def ctxErr_def throwM_def returnM_def split: if_splits sum.splits)

text \<open>
  C39: A contact is linked only when it is the only one. When the address of an email resolves to a
  contact, exactly one contact of the domain holds this address; an address nobody holds is not
  found, and one that two contacts hold is ambiguous, although the search never asks for more than
  two. No other address and no other domain can match, whatever characters the address has.
\<close>

theorem resolved_contact_is_the_only_one:
  assumes "contacts_contract ce fold_case book" and "ResolveByEmail ce domain address w = (Inr outcome, w')"
    and "\<forall>c\<in>set book. 0 < ko_id c \<and> ko_id c < 2 ^ 63"
  shows "outcome = (case holders fold_case book domain address of
    [] \<Rightarrow> OutcomeNotFound | [c] \<Rightarrow> OutcomeResolved (ko_id c) | _ \<Rightarrow> OutcomeAmbiguous)"
proof -
  let ?H = "holders fold_case book domain address"
  let ?req = "\<lparr>sq_DomainId = domain, sq_Qin = [''emails''], sq_Q = exactPattern address, sq_Id = [], sq_Size = searchPageSize\<rparr>"
  from assms(2) obtain ids w1 where s: "search_contacts ce ?req w = (Inr ids, w1)"
    and out: "(case ids of [] \<Rightarrow> returnM OutcomeNotFound
     | [x] \<Rightarrow> (case contactID x of Inl e \<Rightarrow> throwM e | Inr i \<Rightarrow> returnM (OutcomeResolved i))
     | _ \<Rightarrow> returnM OutcomeAmbiguous) w1 = (Inr outcome, w')"
    by (auto simp: ResolveByEmail_def bindM_def split: sum.splits prod.splits)
  from search_answer[OF s] obtain n where "kn_SearchContactsNA ce n ?req = Inr ids" ..
  from assms(1)[unfolded contacts_contract_def, rule_format, OF this] have ids: "ids = take 2 (map (\<lambda>c. FormatInt (ko_id c)) ?H)"
    by (simp add: patternAddress_exact exactPattern_no_star searchPageSize_def)
  have "contactID (FormatInt (ko_id c)) = Inr (ko_id c)" if "c \<in> set ?H" for c
    using assms(3) that ParseInt_FormatInt[of "ko_id c"] by (auto simp: holders_def contactID_def)
  with out ids show ?thesis by (auto simp: returnM_def throwM_def split: list.splits sum.splits)
qed

definition sample_book :: "contact list" where
  "sample_book = [\<lparr>ko_domain = 7, ko_id = 12, ko_emails = [''a*b@c'']\<rparr>, \<lparr>ko_domain = 7, ko_id = 13, ko_emails = [''xa*b@c'']\<rparr>,
     \<lparr>ko_domain = 8, ko_id = 14, ko_emails = [''a*b@c'']\<rparr>]"

definition sample_contacts :: contacts_env where
  "sample_contacts = \<lparr>kn_slot = (\<lambda>_. True), kn_expired = (\<lambda>_. False),
     kn_SearchContactsNA = (\<lambda>n req. if n = 1 then Inl (RpcError Unavailable ''busy'') else
       (case patternAddress (sq_Q req) of None \<Rightarrow> Inr []
        | Some a \<Rightarrow> Inr (take (sq_Size req) (map (\<lambda>c. FormatInt (ko_id c)) (holders id sample_book (sq_DomainId req) a)))))\<rparr>"

theorem resolved_contact_is_the_only_one_witness:
  "\<exists>w'. ResolveByEmail sample_contacts 7 ''a*b@c'' (sample_world empty_db) = (Inr (OutcomeResolved 12), w')"
proof -
  have contract: "contacts_contract sample_contacts id sample_book"
    by (auto simp: contacts_contract_def sample_contacts_def split: if_splits)
  have small: "\<forall>c\<in>set sample_book. 0 < ko_id c \<and> ko_id c < 2 ^ 63" by (simp add: sample_book_def)
  have pages: "holders id sample_book 7 ''a*b@c'' = [\<lparr>ko_domain = 7, ko_id = 12, ko_emails = [''a*b@c'']\<rparr>]"
    by (simp add: holders_def sample_book_def)
  have "contactID (FormatInt 12) = Inr 12" using ParseInt_FormatInt[of 12] by (simp add: contactID_def)
  then have "\<exists>x w'. ResolveByEmail sample_contacts 7 ''a*b@c'' (sample_world empty_db) = (Inr x, w')"
    by (simp add: ResolveByEmail_def search_contacts_def observe_def bindM_def call_def returnM_def sample_contacts_def sample_world_def
        tick_def patternAddress_exact pages statusCode_def searchPageSize_def)
  then obtain x w' where run: "ResolveByEmail sample_contacts 7 ''a*b@c'' (sample_world empty_db) = (Inr x, w')" by blast
  from resolved_contact_is_the_only_one[OF contract run small] run pages show ?thesis by auto
qed

end
