(* ===== verification/Mail_Connect.thy ===== *)
theory Mail_Connect
  imports Profile_Service
begin

text \<open>
  Opening a mailbox: the IMAP connection with its authentication, the SMTP check and the XOAUTH2
  exchange (\<^verbatim>\<open>infra/mail/imap.go\<close>, \<^verbatim>\<open>smtp.go\<close>, \<^verbatim>\<open>xoauth2.go\<close>). The server, the network and the
  IMAP library are arguments: every answer is an observation that may differ each time. What matters
  is the wire: every text sent is recorded with the state of the channel it went over and with
  whether it carries a secret. Go's \<^verbatim>\<open>net/smtp\<close> is part of the model, as far as the check uses it.
\<close>

section \<open>The wire\<close>

record wire_entry =
  we_tls :: bool
  we_secret :: bool
  we_text :: string

record conn =
  cn_step :: nat
  cn_tls :: bool
  cn_wire :: "wire_entry list"

type_synonym 'a net = "conn \<Rightarrow> (error + 'a) \<times> conn"

definition idle_conn :: conn where
  "idle_conn = \<lparr>cn_step = 0, cn_tls = False, cn_wire = []\<rparr>"

definition returnN :: "'a \<Rightarrow> 'a net" where "returnN x k = (Inr x, k)"
definition throwN :: "error \<Rightarrow> 'a net" where "throwN e k = (Inl e, k)"

definition bindN :: "'a net \<Rightarrow> ('a \<Rightarrow> 'b net) \<Rightarrow> 'b net" where
  "bindN m f k = (case m k of (Inl e, k1) \<Rightarrow> (Inl e, k1) | (Inr x, k1) \<Rightarrow> f x k1)"

definition ask :: "(nat \<Rightarrow> error + 'a) \<Rightarrow> 'a net" where
  "ask f k = (f (cn_step k), k\<lparr>cn_step := Suc (cn_step k)\<rparr>)"

definition attempt :: "(nat \<Rightarrow> error option) \<Rightarrow> unit net" where
  "attempt f = ask (\<lambda>n. case f n of Some e \<Rightarrow> Inl e | None \<Rightarrow> Inr ())"

definition transmit :: "bool \<Rightarrow> string \<Rightarrow> unit net" where
  "transmit sec s k = (Inr (), k\<lparr>cn_wire := cn_wire k @ [\<lparr>we_tls = cn_tls k, we_secret = sec, we_text = s\<rparr>]\<rparr>)"

definition encrypt_channel :: "unit net" where
  "encrypt_channel k = (Inr (), k\<lparr>cn_tls := True\<rparr>)"

datatype smtp_reply = Challenge string | Accepted | Refused error

record mail_server =
  ms_ctxErr :: "nat \<Rightarrow> error option"
  ms_DialContext :: "nat \<Rightarrow> string \<Rightarrow> int \<Rightarrow> error option"
  ms_SetDeadline :: "nat \<Rightarrow> error option"
  ms_handshake :: "nat \<Rightarrow> error option"
  ms_greeting :: "nat \<Rightarrow> error option"
  ms_SupportStartTLS :: "nat \<Rightarrow> error + bool"
  ms_StartTLS :: "nat \<Rightarrow> error option"
  ms_SupportAuth :: "nat \<Rightarrow> error + bool"
  ms_Login :: "nat \<Rightarrow> error option"
  ms_Authenticate :: "nat \<Rightarrow> error option"
  ms_Logout :: "nat \<Rightarrow> error option"
  ms_Extension :: "nat \<Rightarrow> string \<Rightarrow> bool \<times> string"
  ms_replies :: "smtp_reply list"
  ms_Quit :: "nat \<Rightarrow> error option"
  ms_ToUpper :: "string \<Rightarrow> string"

section \<open>XOAUTH2\<close>

definition xoauth2Mechanism :: string where
  "xoauth2Mechanism = ''XOAUTH2''"

definition xoauth2InitialResponse :: "string \<Rightarrow> string \<Rightarrow> string" where
  "xoauth2InitialResponse username token =
     ''user='' @ username @ [CHR 0x01] @ ''auth=Bearer '' @ token @ [CHR 0x01, CHR 0x01]"

section \<open>IMAP\<close>

definition Dial :: "mail_server \<Rightarrow> string \<Rightarrow> int \<Rightarrow> unit net" where
  "Dial sv host port = bindN (attempt (\<lambda>n. ms_DialContext sv n host port)) (\<lambda>_. attempt (ms_SetDeadline sv))"

text \<open>The library's dial over TLS shakes hands before it returns; both wait for the greeting.\<close>

definition DialWithDialer :: "mail_server \<Rightarrow> string \<Rightarrow> int \<Rightarrow> unit net" where
  "DialWithDialer sv host port = bindN (Dial sv host port) (\<lambda>_. attempt (ms_greeting sv))"

definition DialWithDialerTLS :: "mail_server \<Rightarrow> string \<Rightarrow> int \<Rightarrow> unit net" where
  "DialWithDialerTLS sv host port =
     bindN (Dial sv host port) (\<lambda>_. bindN (attempt (ms_handshake sv)) (\<lambda>_. bindN encrypt_channel (\<lambda>_. attempt (ms_greeting sv))))"

definition imapAuthenticate :: "mail_server \<Rightarrow> MailConnection \<Rightarrow> unit net" where
  "imapAuthenticate sv c =
     (if mc_AuthType c \<noteq> EmailAuthTypeOAuth2
      then bindN (transmit True (''LOGIN '' @ mc_Username c @ '' '' @ mc_Password c)) (\<lambda>_. attempt (ms_Login sv))
      else
      bindN (ask (ms_SupportAuth sv)) (\<lambda>supported.
      if \<not> supported then throwN (PlainError ''imap: XOAUTH2 is not supported'')
      else bindN (transmit True (xoauth2InitialResponse (mc_Username c) (mc_AccessToken c))) (\<lambda>_. attempt (ms_Authenticate sv))))"

definition startIMAPSession :: "mail_server \<Rightarrow> MailConnection \<Rightarrow> unit net" where
  "startIMAPSession sv c =
     bindN (if mc_Security c = EmailConnectionSecurityStartTLS
            then bindN (ask (ms_SupportStartTLS sv)) (\<lambda>supported.
              if \<not> supported then throwN (PlainError ''imap: STARTTLS is not supported'')
              else bindN (transmit False ''STARTTLS'') (\<lambda>_. bindN (attempt (ms_StartTLS sv)) (\<lambda>_. encrypt_channel)))
            else returnN ())
       (\<lambda>_. imapAuthenticate sv c)"

definition Connect :: "mail_server \<Rightarrow> MailConnection \<Rightarrow> unit net" where
  "Connect sv c =
     bindN (attempt (ms_ctxErr sv)) (\<lambda>_.
     bindN (if mc_Security c = EmailConnectionSecurityTLS then DialWithDialerTLS sv (mc_Host c) (mc_Port c)
            else if mc_Security c = EmailConnectionSecurityStartTLS then DialWithDialer sv (mc_Host c) (mc_Port c)
            else throwN (PlainError ''imap: unsupported connection security''))
       (\<lambda>_. startIMAPSession sv c))"

definition Test_imap :: "mail_server \<Rightarrow> MailConnection \<Rightarrow> unit net" where
  "Test_imap sv c = bindN (Connect sv c) (\<lambda>_. bindN (transmit False ''LOGOUT'') (\<lambda>_. attempt (ms_Logout sv)))"

section \<open>SMTP\<close>

datatype smtp_auth =
    PlainAuth string string string
  | LoginAuth string string string
  | XOAuth2Auth string string

record ServerInfo =
  si_Name :: string
  si_TLS :: bool

text \<open>\<^verbatim>\<open>strings.Fields\<close> at white space.\<close>

definition Fields :: "string \<Rightarrow> string list" where
  "Fields s = map concat (filter (\<lambda>g. g \<noteq> []) (foldr (\<lambda>r gs. if is_space r then [] # gs else (r # List.hd gs) # List.tl gs) (runes s) [[]]))"

definition smtpMechanismSupported :: "mail_server \<Rightarrow> string \<Rightarrow> string \<Rightarrow> bool" where
  "smtpMechanismSupported sv mechanisms mechanism = list_ex (\<lambda>candidate. candidate = mechanism) (Fields (ms_ToUpper sv mechanisms))"

definition smtpAuth :: "mail_server \<Rightarrow> MailConnection \<Rightarrow> smtp_auth net" where
  "smtpAuth sv c =
     bindN (ask (\<lambda>n. Inr (ms_Extension sv n ''AUTH''))) (\<lambda>(supported, mechanisms).
     if \<not> supported then throwN (PlainError ''smtp: Basic authentication is not supported'')
     else if mc_AuthType c = EmailAuthTypeOAuth2 then
       if \<not> smtpMechanismSupported sv mechanisms xoauth2Mechanism then throwN (PlainError ''smtp: XOAUTH2 is not supported'')
       else returnN (XOAuth2Auth (mc_Username c) (mc_AccessToken c))
     else if smtpMechanismSupported sv mechanisms ''PLAIN'' then returnN (PlainAuth (mc_Username c) (mc_Password c) (mc_Host c))
     else if smtpMechanismSupported sv mechanisms ''LOGIN'' then returnN (LoginAuth (mc_Username c) (mc_Password c) (mc_Host c))
     else throwN (PlainError ''smtp: Basic authentication is not supported''))"

text \<open>
  \<^verbatim>\<open>Start\<close>: the mechanism and the initial response, if any. \<^verbatim>\<open>smtp.PlainAuth\<close> allows an unencrypted
  connection to the local host.
\<close>

definition isLocalhost :: "string \<Rightarrow> bool" where
  "isLocalhost name \<longleftrightarrow> name \<in> {''localhost'', ''127.0.0.1'', ''::1''}"

definition loginAuth_Start :: "string \<Rightarrow> ServerInfo \<Rightarrow> error + string \<times> string option" where
  "loginAuth_Start host si =
     (if \<not> si_TLS si then Inl (PlainError ''smtp: unencrypted authentication is not allowed'')
      else if si_Name si \<noteq> host then Inl (PlainError ''smtp: wrong server name'')
      else Inr (''LOGIN'', None))"

definition xoauth2_Start :: "string \<Rightarrow> string \<Rightarrow> ServerInfo \<Rightarrow> error + string \<times> string option" where
  "xoauth2_Start username token si =
     (if \<not> si_TLS si then Inl (PlainError ''smtp: unencrypted authentication is not allowed'')
      else Inr (xoauth2Mechanism, Some (xoauth2InitialResponse username token)))"

fun auth_Start :: "smtp_auth \<Rightarrow> ServerInfo \<Rightarrow> error + string \<times> string option" where
  "auth_Start (PlainAuth u p h) si =
     (if \<not> si_TLS si \<and> \<not> isLocalhost (si_Name si) then Inl (PlainError ''unencrypted connection'')
      else if si_Name si \<noteq> h then Inl (PlainError ''wrong host name'')
      else Inr (''PLAIN'', Some ([CHR 0x00] @ u @ [CHR 0x00] @ p)))"
| "auth_Start (LoginAuth u p h) si = loginAuth_Start h si"
| "auth_Start (XOAuth2Auth u t) si = xoauth2_Start u t si"

text \<open>\<^verbatim>\<open>Next\<close> with \<^verbatim>\<open>more\<close> set: the answer to a challenge.\<close>

definition loginAuth_Next :: "string \<Rightarrow> string \<Rightarrow> string \<Rightarrow> error + string" where
  "loginAuth_Next username password challenge =
     (if challenge = ''Username:'' then Inr username
      else if challenge = ''Password:'' then Inr password
      else Inl (PlainError ''smtp: unexpected authentication challenge''))"

definition xoauth2_Next :: "string \<Rightarrow> error + string" where
  "xoauth2_Next challenge = Inr []"

fun auth_Next :: "smtp_auth \<Rightarrow> string \<Rightarrow> error + string" where
  "auth_Next (PlainAuth u p h) challenge = Inl (PlainError ''unexpected server challenge'')"
| "auth_Next (LoginAuth u p h) challenge = loginAuth_Next u p challenge"
| "auth_Next (XOAuth2Auth u t) challenge = xoauth2_Next challenge"

text \<open>\<^verbatim>\<open>client.Auth\<close>: challenges are answered until the server accepts or refuses, or the answer fails.\<close>

fun authReplies :: "smtp_auth \<Rightarrow> smtp_reply list \<Rightarrow> unit net" where
  "authReplies a [] = throwN (PlainError ''EOF'')"
| "authReplies a (Accepted # _) = returnN ()"
| "authReplies a (Refused e # _) = throwN e"
| "authReplies a (Challenge s # rs) = (case auth_Next a s of
     Inl e \<Rightarrow> bindN (transmit False ''*'') (\<lambda>_. throwN e)
   | Inr answer \<Rightarrow> bindN (transmit True answer) (\<lambda>_. authReplies a rs))"

definition client_Auth :: "mail_server \<Rightarrow> string \<Rightarrow> smtp_auth \<Rightarrow> unit net" where
  "client_Auth sv host a k = (case auth_Start a \<lparr>si_Name = host, si_TLS = cn_tls k\<rparr> of
     Inl e \<Rightarrow> throwN e k
   | Inr (mech, resp) \<Rightarrow>
       bindN (case resp of None \<Rightarrow> transmit False (''AUTH '' @ mech) | Some r \<Rightarrow> transmit True (''AUTH '' @ mech @ '' '' @ r))
         (\<lambda>_. authReplies a (ms_replies sv)) k)"

definition Test_smtp :: "mail_server \<Rightarrow> MailConnection \<Rightarrow> unit net" where
  "Test_smtp sv c =
     bindN (attempt (ms_ctxErr sv)) (\<lambda>_.
     bindN (Dial sv (mc_Host c) (mc_Port c)) (\<lambda>_.
     bindN (if mc_Security c = EmailConnectionSecurityTLS then bindN (attempt (ms_handshake sv)) (\<lambda>_. encrypt_channel)
            else if mc_Security c = EmailConnectionSecurityStartTLS then returnN ()
            else throwN (PlainError ''smtp: unsupported connection security'')) (\<lambda>_.
     bindN (attempt (ms_greeting sv)) (\<lambda>_.
     bindN (if mc_Security c = EmailConnectionSecurityStartTLS
            then bindN (ask (\<lambda>n. Inr (ms_Extension sv n ''STARTTLS''))) (\<lambda>(supported, _).
              if \<not> supported then throwN (PlainError ''smtp: STARTTLS is not supported'')
              else bindN (transmit False ''STARTTLS'') (\<lambda>_. bindN (attempt (ms_StartTLS sv)) (\<lambda>_. encrypt_channel)))
            else returnN ()) (\<lambda>_.
     bindN (smtpAuth sv c) (\<lambda>a.
     bindN (client_Auth sv (mc_Host c) a) (\<lambda>_.
     bindN (transmit False ''QUIT'') (\<lambda>_. attempt (ms_Quit sv)))))))))"

section \<open>Secrets on the wire\<close>

text \<open>The secrets a connection may show to a server: those of its own kind of authentication.\<close>

definition own_secrets :: "MailConnection \<Rightarrow> string set" where
  "own_secrets c =
     (if mc_AuthType c = EmailAuthTypeOAuth2
      then {xoauth2InitialResponse (mc_Username c) (mc_AccessToken c),
            ''AUTH XOAUTH2 '' @ xoauth2InitialResponse (mc_Username c) (mc_AccessToken c), ''''}
      else {''LOGIN '' @ mc_Username c @ '' '' @ mc_Password c, mc_Username c, mc_Password c,
            ''AUTH PLAIN '' @ [CHR 0x00] @ mc_Username c @ [CHR 0x00] @ mc_Password c})"

definition discreet :: "MailConnection \<Rightarrow> conn \<Rightarrow> bool" where
  "discreet c k \<longleftrightarrow> (\<forall>e\<in>set (cn_wire k). we_secret e \<longrightarrow> we_tls e \<and> we_text e \<in> own_secrets c)"

text \<open>Programs that are discreet on any channel, and programs that are on an encrypted one.\<close>

definition careful :: "MailConnection \<Rightarrow> bool \<Rightarrow> bool \<Rightarrow> 'a net \<Rightarrow> bool" where
  "careful c before after m \<longleftrightarrow> (\<forall>k r k'. discreet c k \<longrightarrow> (before \<longrightarrow> cn_tls k) \<longrightarrow> m k = (r, k') \<longrightarrow>
     discreet c k' \<and> ((\<exists>x. r = Inr x) \<longrightarrow> after \<longrightarrow> cn_tls k'))"

named_theorems careful_intros \<open>programs that keep secrets\<close>

lemma careful_bind_post:
  assumes "careful c b q m" and "\<And>k x k'. m k = (Inr x, k') \<Longrightarrow> P x" and "\<And>x. P x \<Longrightarrow> careful c q a (f x)"
  shows "careful c b a (bindN m f)"
  unfolding careful_def
proof (intro allI impI)
  fix k r k'
  assume k: "discreet c k" "b \<longrightarrow> cn_tls k" and run: "bindN m f k = (r, k')"
  obtain r1 k1 where m: "m k = (r1, k1)" by fastforce
  from assms(1)[unfolded careful_def, rule_format, OF k(1) _ m] k(2)
  have k1: "discreet c k1" "(\<exists>x. r1 = Inr x) \<longrightarrow> q \<longrightarrow> cn_tls k1" by simp_all
  show "discreet c k' \<and> ((\<exists>x. r = Inr x) \<longrightarrow> a \<longrightarrow> cn_tls k')"
  proof (cases r1)
    case (Inl e)
    with run m k1 show ?thesis by (auto simp: bindN_def)
  next
    case (Inr x)
    with run m have "f x k1 = (r, k')" by (simp add: bindN_def)
    from assms(3)[OF assms(2), unfolded careful_def, rule_format, OF m[unfolded Inr] k1(1) _ this] k1(2) Inr show ?thesis by simp
  qed
qed

lemmas careful_bind [careful_intros] = careful_bind_post[where P = "\<lambda>_. True", simplified]

lemma careful_basic [careful_intros]:
  "careful c b b (returnN x)" "careful c b a (throwN e)" "careful c b b (ask f)" "careful c b b (attempt g)"
  "careful c b True encrypt_channel" "careful c b b (transmit False s)"
  by (auto simp: careful_def returnN_def throwN_def ask_def attempt_def encrypt_channel_def transmit_def discreet_def split: option.splits)

lemma careful_secret [careful_intros]: "s \<in> own_secrets c \<Longrightarrow> careful c True True (transmit True s)"
  by (auto simp: careful_def transmit_def discreet_def)

lemma careful_cases [careful_intros]:
  "(p \<Longrightarrow> careful c b a m) \<Longrightarrow> (\<not> p \<Longrightarrow> careful c b a m') \<Longrightarrow> careful c b a (if p then m else m')"
  "(\<And>x y. careful c b a (g x y)) \<Longrightarrow> careful c b a (case q of (x, y) \<Rightarrow> g x y)"
  by (simp_all split: prod.splits)

lemma careful_Dial [careful_intros]: "careful c b b (Dial sv host port)"
  unfolding Dial_def by (rule careful_intros)+

lemma careful_imapAuthenticate [careful_intros]: "careful c True True (imapAuthenticate sv c)"
  unfolding imapAuthenticate_def by (rule careful_intros | simp add: own_secrets_def)+

lemma securities: "EmailConnectionSecurityTLS \<noteq> EmailConnectionSecurityStartTLS"
  by (simp add: EmailConnectionSecurityTLS_def EmailConnectionSecurityStartTLS_def)

lemma careful_Connect [careful_intros]: "careful c False True (Connect sv c)"
proof -
  consider "mc_Security c = EmailConnectionSecurityTLS" | "mc_Security c = EmailConnectionSecurityStartTLS"
    | "mc_Security c \<noteq> EmailConnectionSecurityTLS" "mc_Security c \<noteq> EmailConnectionSecurityStartTLS" by blast
  then show ?thesis unfolding Connect_def startIMAPSession_def DialWithDialer_def DialWithDialerTLS_def
    by cases (simp_all add: securities securities[symmetric], (rule careful_intros)+)
qed

lemma careful_Test_imap: "careful c False True (Test_imap sv c)"
  unfolding Test_imap_def by (rule careful_intros)+

text \<open>The authentication that is chosen shows the secrets of its own kind.\<close>

definition auth_for :: "MailConnection \<Rightarrow> smtp_auth \<Rightarrow> bool" where
  "auth_for c a \<longleftrightarrow> (if mc_AuthType c = EmailAuthTypeOAuth2 then a = XOAuth2Auth (mc_Username c) (mc_AccessToken c)
     else a = PlainAuth (mc_Username c) (mc_Password c) (mc_Host c) \<or> a = LoginAuth (mc_Username c) (mc_Password c) (mc_Host c))"

lemma smtpAuth_choice: "smtpAuth sv c k = (Inr a, k') \<Longrightarrow> auth_for c a"
  by (auto simp: smtpAuth_def auth_for_def bindN_def ask_def throwN_def returnN_def split: prod.splits if_splits)

lemma careful_smtpAuth [careful_intros]: "careful c b b (smtpAuth sv c)"
  unfolding smtpAuth_def by (rule careful_intros)+

lemma auth_secrets:
  assumes "auth_for c a"
  shows "auth_Next a s = Inr t \<Longrightarrow> t \<in> own_secrets c"
    and "auth_Start a si = Inr (mech, Some resp) \<Longrightarrow> ''AUTH '' @ mech @ '' '' @ resp \<in> own_secrets c"
  using assms by (auto simp: auth_for_def own_secrets_def xoauth2Mechanism_def loginAuth_Start_def loginAuth_Next_def
      xoauth2_Start_def xoauth2_Next_def split: if_splits)

lemma careful_authReplies:
  assumes "auth_for c a"
  shows "careful c True True (authReplies a rs)"
proof (induction rs)
  case (Cons r rs)
  show ?case
  proof (cases r)
    case (Challenge s)
    show ?thesis
    proof (cases "auth_Next a s")
      case (Inl e)
      have "careful c True True (bindN (transmit False ''*'') (\<lambda>_. throwN e :: unit net))" by (rule careful_intros)+
      with Inl show ?thesis unfolding Challenge by simp
    next
      case (Inr t)
      from careful_bind[OF careful_secret[OF auth_secrets(1)[OF assms Inr]] Cons] Inr show ?thesis unfolding Challenge by simp
    qed
  qed (simp_all add: careful_basic)
qed (simp add: careful_basic)

lemma careful_client_Auth:
  assumes "auth_for c a"
  shows "careful c True True (client_Auth sv host a)"
  unfolding careful_def
proof (intro allI impI)
  fix k r k'
  assume k: "discreet c k" "True \<longrightarrow> cn_tls k" and run: "client_Auth sv host a k = (r, k')"
  show "discreet c k' \<and> ((\<exists>x. r = Inr x) \<longrightarrow> True \<longrightarrow> cn_tls k')"
  proof (cases "auth_Start a \<lparr>si_Name = host, si_TLS = cn_tls k\<rparr>")
    case (Inl e)
    with run k show ?thesis by (auto simp: client_Auth_def throwN_def)
  next
    case (Inr x)
    then obtain mech resp where start: "auth_Start a \<lparr>si_Name = host, si_TLS = cn_tls k\<rparr> = Inr (mech, resp)" by (cases x) simp
    let ?first = "case resp of None \<Rightarrow> transmit False (''AUTH '' @ mech) | Some r \<Rightarrow> transmit True (''AUTH '' @ mech @ '' '' @ r)"
    have "careful c True True ?first"
    proof (cases resp)
      case (Some t)
      from careful_secret[OF auth_secrets(2)[OF assms start[unfolded Some]]] Some show ?thesis by simp
    qed (simp add: careful_basic)
    from careful_bind[OF this careful_authReplies[OF assms]]
    have "careful c True True (bindN ?first (\<lambda>_. authReplies a (ms_replies sv)))" .
    moreover from run start have "bindN ?first (\<lambda>_. authReplies a (ms_replies sv)) k = (r, k')" by (simp add: client_Auth_def)
    ultimately show ?thesis using k unfolding careful_def by blast
  qed
qed

lemma careful_Test_smtp: "careful c False True (Test_smtp sv c)"
proof -
  have auth: "careful c True True (bindN (smtpAuth sv c) (\<lambda>a. bindN (client_Auth sv (mc_Host c) a) (\<lambda>_. bindN (transmit False ''QUIT'') (\<lambda>_. attempt (ms_Quit sv)))))"
    by (rule careful_bind_post[OF careful_smtpAuth smtpAuth_choice], assumption) (rule careful_intros careful_client_Auth | assumption)+
  consider "mc_Security c = EmailConnectionSecurityTLS" | "mc_Security c = EmailConnectionSecurityStartTLS"
    | "mc_Security c \<noteq> EmailConnectionSecurityTLS" "mc_Security c \<noteq> EmailConnectionSecurityStartTLS" by blast
  then show ?thesis unfolding Test_smtp_def
    by cases (simp_all add: securities securities[symmetric], (rule auth careful_intros)+)
qed

text \<open>
  C9: Secrets travel encrypted, whatever the server does. Opening a mailbox or checking the settings
  of a profile never puts a password or a token on a connection that is not encrypted, not even when
  the server denies or breaks the upgrade, and never shows the server a secret of the other kind of
  authentication; and a session that was opened is encrypted.
\<close>

theorem secrets_travel_encrypted:
  "discreet c (snd (Connect sv c idle_conn)) \<and> discreet c (snd (Test_imap sv c idle_conn)) \<and> discreet c (snd (Test_smtp sv c idle_conn)) \<and>
   (fst (Connect sv c idle_conn) = Inr () \<longrightarrow> cn_tls (snd (Connect sv c idle_conn)))"
proof -
  have start: "discreet c idle_conn" by (simp add: discreet_def idle_conn_def)
  have "discreet c (snd (m idle_conn)) \<and> (fst (m idle_conn) = Inr () \<longrightarrow> cn_tls (snd (m idle_conn)))"
    if "careful c False True m" for m :: "unit net"
  proof (cases "m idle_conn")
    case (Pair r k')
    from that[unfolded careful_def, rule_format, OF start _ Pair] Pair show ?thesis by auto
  qed
  from this[OF careful_Connect] this[OF careful_Test_imap] this[OF careful_Test_smtp] show ?thesis by blast
qed

definition sample_server :: mail_server where
  "sample_server = \<lparr>ms_ctxErr = (\<lambda>_. None), ms_DialContext = (\<lambda>_ _ _. None), ms_SetDeadline = (\<lambda>_. None), ms_handshake = (\<lambda>_. None),
     ms_greeting = (\<lambda>_. None), ms_SupportStartTLS = (\<lambda>_. Inr True), ms_StartTLS = (\<lambda>_. None), ms_SupportAuth = (\<lambda>_. Inr True),
     ms_Login = (\<lambda>_. None), ms_Authenticate = (\<lambda>_. None), ms_Logout = (\<lambda>_. None), ms_Extension = (\<lambda>_ _. (True, ''plain login'')),
     ms_replies = [Accepted], ms_Quit = (\<lambda>_. None), ms_ToUpper = id\<rparr>"

definition sample_settings :: MailConnection where
  "sample_settings = \<lparr>mc_Host = ''mx'', mc_Port = 143, mc_Security = ''starttls'', mc_Username = ''u'', mc_Password = ''pw'', mc_AuthType = ''basic'',
     mc_AccessToken = ''''\<rparr>"

lemma sample_connect:
  "Connect sample_server sample_settings idle_conn = (Inr (), \<lparr>cn_step = 7, cn_tls = True,
     cn_wire = [\<lparr>we_tls = False, we_secret = False, we_text = ''STARTTLS''\<rparr>, \<lparr>we_tls = True, we_secret = True, we_text = ''LOGIN u pw''\<rparr>]\<rparr>)"
  by code_simp

theorem secrets_travel_encrypted_witness:
  "cn_tls (snd (Connect sample_server sample_settings idle_conn)) \<and> discreet sample_settings (snd (Test_smtp sample_server sample_settings idle_conn))"
  using secrets_travel_encrypted[of sample_settings sample_server] sample_connect by simp

end
