(* ===== verification/Spec2Isabelle.thy ===== *)
theory Spec2Isabelle
  imports Distribution Serving_History Outbox_Relay Inbox_Invariant Poll_Worker Thread_Service Service_Config Email_Api
    Service_Clients Mail_Connect
begin

text \<open>
  Verification of the email service (\<^verbatim>\<open>webitel-emails\<close>): a Go service that polls the mailboxes
  of Email Profiles over IMAP, stores every inbound email with its thread, recipients and
  attachments in PostgreSQL, and announces it on RabbitMQ, so that Flow can start a schema for it.

  \<^bold>\<open>The program.\<close> Several instances run side by side. One of them, the leader, spreads
  the enabled profiles over the healthy instances (\<^verbatim>\<open>internal/distribution\<close>) and moves the rows
  of the outbox to the broker (\<^verbatim>\<open>internal/outbox\<close>). Each instance dispatches its due profiles to
  workers (\<^verbatim>\<open>internal/polling/scheduler.go\<close>); a worker opens or reuses a connection
  (\<^verbatim>\<open>worker.go\<close>, \<^verbatim>\<open>infra/mail\<close>), reads new emails behind the stored cursor (\<^verbatim>\<open>sync.go\<close>,
  \<^verbatim>\<open>recovery.go\<close>) and hands each to the inbound pipeline (\<^verbatim>\<open>internal/inbound\<close>), which parses it,
  stores it, uploads its parts, looks up its contact and writes the event to the outbox. Every
  write of a worker is fenced by the assignment it was started with
  (\<^verbatim>\<open>internal/store/postgres/email_profile_runtime_store.go\<close>, \<^verbatim>\<open>uow.go\<close>). Users manage profiles
  and threads over gRPC (\<^verbatim>\<open>internal/handler/grpc\<close>, \<^verbatim>\<open>internal/service\<close>).

  \<^bold>\<open>How it is modelled.\<close> Structs are records, closed enumerations datatypes, pointers
  options, and an error is a value of \<open>error\<close>. The database (\<open>db\<close>) is a record of tables, each a
  list of rows; a statement is a function of the transaction time and the database that fails or
  returns its result and the new database. Programs are functions on a \<open>world\<close>, which adds to the
  database the clock, the cancellation of the context, the failure of any statement, which may have
  been applied all the same when only its answer was lost, and what the broker has accepted. These are functions of the number of
  observations made so far, so a theorem about an arbitrary world covers every schedule of failures.
  Libraries and remote services are arguments; where a theorem needs their documented behaviour it
  is a named hypothesis (\<open>search_contract\<close>, \<open>fetch_contract\<close>, \<open>connections_serve\<close>), and a witness
  instantiates it with a concrete mailbox. A search by date follows the protocol: calendar dates
  are compared as they are written, the client's in its zone and the date of an email in the zone
  the server stored it with (\<open>zones\<close>).

  \<^bold>\<open>The theories.\<close>
  \<^item> \<open>Email_Prelude\<close>, \<open>Go_Strings\<close>, \<open>Go_Text\<close>: Go's times, integers and strings (UTF-8, JSON
    strings, trimming, base64), SQL updates over lists of rows, shared facts.
  \<^item> \<open>Email_Model\<close>: \<^verbatim>\<open>internal/model\<close>. \<open>Email_Db\<close>: the tables, statements, transactions
    (\<^verbatim>\<open>WithinTransaction\<close>) and the world.
  \<^item> \<open>Runtime_Store\<close>: ownership, schedule and cursor of a profile. Locale \<open>fenced_write\<close> is the
    contract of a write under a token, interpreted for each of the three. Proved by rule induction
    over all interleavings of statements (\<open>serving_steps\<close>): a superseded token never returns.
  \<^item> \<open>Serving_History\<close>: the table as a history of assignments. Whoever was last given the profile,
    read off the history and not off the rows, is the only one whose fenced write is accepted;
    every other token is rejected and changes nothing.
  \<^item> \<open>Distribution\<close>: \<^verbatim>\<open>plan.go\<close>, \<^verbatim>\<open>distributor.go\<close>. The plan balances, moves as few profiles
    as any balanced plan, and a reconcile leaves every enabled profile with a live owner.
  \<^item> \<open>Poll_Scheduler\<close>: the shared state of \<^verbatim>\<open>scheduler.go\<close> and of the connection pool as a
    transition system, one step per critical section or channel operation. Polls and connections
    stay within their limits in every interleaving; the actions of every run are, one by one,
    actions of a bounded pool (locale \<open>simulation\<close>); a dispatch, with workers running between its
    steps, starts what is due.
  \<^item> \<open>Poll_Worker\<close>: one poll from \<^verbatim>\<open>StartPoll\<close> to the fenced result, with the reuse of sessions.
  \<^item> \<open>Mail_Connect\<close>, \<open>Imap_Session\<close>: \<^verbatim>\<open>infra/mail\<close>. A secret travels only over an encrypted
    channel; messages are handed over in order whichever way the server answers.
  \<^item> \<open>Mailbox_Sync\<close>, \<open>Sync_Delivery\<close>: \<^verbatim>\<open>sync.go\<close>, \<^verbatim>\<open>recovery.go\<close>. The handler is a parameter
    with the contract \<open>confirming_handler\<close>: what it confirms is done and stays done. For every such
    handler the cursor passes no email that is not done; a sync ends; the windowed search finds
    what one search would find.
  \<^item> \<open>Mime_Parser\<close>: \<^verbatim>\<open>mime_parser.go\<close> over the parts the MIME library visits: whatever an
    email contains, what is read from it is within the limits.
  \<^item> \<open>Inbox_Store\<close>, \<open>Outbox_Store\<close>: the statements over threads, messages, recipients,
    attachments, quarantine and outbox with the constraints of the schema; locale
    \<open>lawful_update\<close> is what an update of the outbox may do.
  \<^item> \<open>Inbound_Pipeline\<close>, \<open>Inbound_Event\<close>: the handlers of \<^verbatim>\<open>internal/inbound\<close> and the event of
    \<^verbatim>\<open>internal/event\<close>. \<open>Inbox_Evolution\<close>, \<open>Inbound_Correct\<close>, \<open>Inbox_Invariant\<close>: the pipeline
    only moves the inbox forward, interprets \<open>confirming_handler\<close>, and shows a message as ready
    only when it is complete and announced; a redelivery changes nothing; the payload of an event
    always fits.
  \<^item> \<open>Outbox_Relay\<close>: \<^verbatim>\<open>internal/outbox\<close>, \<^verbatim>\<open>infra/pubsub\<close>. What is marked as published was
    accepted by the broker; a row that stays leased was claimed by a statement whose answer was
    lost, and only until its lease runs out; an undisturbed cycle sends every due event in order.
  \<^item> \<open>Profile_Store\<close>, \<open>Profile_Service\<close>, \<open>Thread_Service\<close>: profiles with their secrets, paging
    (for whatever order the database leaves ties in),
    OAuth2 authorization and tokens (\<^verbatim>\<open>internal/service\<close>, \<^verbatim>\<open>infra/crypto\<close>, \<^verbatim>\<open>infra/oauth\<close>), and
    the operator's choice of a contact.
  \<^item> \<open>Email_Api\<close>: \<^verbatim>\<open>internal/auth\<close>, the interceptor and the handlers of \<^verbatim>\<open>internal/handler/grpc\<close>.
    A call that does anything comes from a user who may do it and stays within the user's domain.
  \<^item> \<open>Service_Clients\<close>: \<^verbatim>\<open>infra/contacts\<close>, \<^verbatim>\<open>infra/storage\<close>.
  \<^item> \<open>Service_Config\<close>: \<^verbatim>\<open>config/config.go\<close>. Every limit the other theories assume follows from
    the validation at the start of the process.

  The theorems below span components: they follow an email from the mailbox through the poll, the
  sync and the pipeline into the tables.

  \<^bold>\<open>Integers and loops.\<close> UIDs are 32-bit words, so the window arithmetic of the search
  wraps as in Go and is proved not to. Database identifiers, counters and sizes are \<open>int\<close> or
  \<open>nat\<close>; durations are \<open>int\<close> except for the one product of the configuration that can overflow,
  which is computed modulo two to the 64. Loops that always end are structural recursion or carry a
  termination proof. \<open>deliver\<close> and with it \<open>sync\<close> and \<open>poll\<close> return \<open>None\<close> when the loop makes no
  progress, and the cleanup of the outbox is a partial function; both are proved to return under a
  valid configuration. The endless loops of the relay's term and of the distributor take the number
  of rounds as an argument, and the theorems hold for every number.

  \<^bold>\<open>Not modelled.\<close>
  \<^item> Process wiring (\<^verbatim>\<open>cmd\<close>, the \<^verbatim>\<open>module.go\<close> files), logging, TLS files, the pool of database
    connections, and registration and election in Consul (\<^verbatim>\<open>infra/discovery\<close>, \<^verbatim>\<open>infra/leader\<close>):
    they call libraries and hold no logic of their own. Nothing proved about storage depends on
    there being one leader: tokens and leases are proved safe for any interleaving of statements.
  \<^item> Generated protobuf code (\<^verbatim>\<open>api\<close>), apart from the messages and the table of methods the
    handlers use.
  \<^item> The SQL of the migrations: its keys and checks are part of the tables' models.
  \<^item> Isolation. A statement runs atomically, and the transaction of an email is not interleaved
    with other writers; the advisory lock \<^verbatim>\<open>LockEmailProfile\<close>, which orders the transactions of a
    profile, is a statement that may fail and has no other effect.
  \<^item> Changes of the clock: the calendar day that \<^verbatim>\<open>AddDate\<close> goes back at the start of a recovery
    is 24 hours.
  \<^item> \<^verbatim>\<open>UnmarshalInboundMessage\<close>, which the service itself does not call.
\<close>

section \<open>A mailbox to evaluate\<close>

definition sample_cursor :: "uid \<Rightarrow> uid \<Rightarrow> time \<Rightarrow> IMAPRecovery option \<Rightarrow> IMAPCursor" where
  "sample_cursor validity u t r = \<lparr>cur_Mailbox = ''INBOX'', cur_UIDValidity = validity, cur_LastUID = u,
     cur_LastInternalDate = t, cur_Recovery = r\<rparr>"

definition sample_recovery :: IMAPRecovery where
  "sample_recovery = \<lparr>rec_Since = 1500 - 86400 * second, rec_Checkpoint = 1500, rec_ToUID = 9\<rparr>"

definition sample_reader :: EmailProfile where
  "sample_reader = zero_EmailProfile\<lparr>ep_ID := 1, ep_DomainID := 7, ep_Mailbox := ''INBOX''\<rparr>"

definition sample_sync :: "IMAPCursor \<Rightarrow> (syncResult \<times> bool \<times> world) option" where
  "sample_sync c = sync \<lparr>sc_MaxMessagesPerPoll = 10, sc_FetchBatchSize = 2, sc_MaxMessageSize = 4\<rparr>
     (\<lambda>_. box_client sample_zones 1 10 sample_box) (QuarantineHandler_Handle sample_services) sample_reader
     sample_token False (imapCursor c) (sample_world sample_owned)"

definition sample_seven :: Message where
  "sample_seven = message_of sample_reader sample_token (sample_cursor 1 9 3000 None)
     \<lparr>im_UID = 7, im_InternalDate = 2000, im_Size = 5, im_Raw = ''seven'', im_TooLarge = True\<rparr>"

lemma box_dates_contract:
  assumes "distinct (map fst box)"
  shows "dates_contract (\<lambda>_. box_client zn v nx box) (box_messages maxSize box)"
  unfolding dates_contract_def
proof (intro allI impI)
  fix n :: nat and us u t m
  assume "(u, t) \<in> set (fst (ic_UidFetchDates (box_client zn v nx box) us))" and m: "box_messages maxSize box u = Some m"
  then obtain raw where "(u, t, raw) \<in> set box" by (auto simp: box_client_def)
  then have "map_of box u = Some (t, raw)" using assms by simp
  with m show "t = im_InternalDate m" by (auto simp: box_messages_def)
qed

lemma sample_box_ok:
  "distinct (map fst sample_box)" "uids_ok (box_messages 4 sample_box)" "inbox_wf (w_db (sample_world sample_owned))"
  "box_messages 4 sample_box 7 = Some \<lparr>im_UID = 7, im_InternalDate = 2000, im_Size = 5, im_Raw = ''seven'', im_TooLarge = True\<rparr>"
  by (auto simp: sample_box_def uids_ok_def box_messages_def inbox_wf_def sample_world_def sample_defs split: option.splits)

lemma sample_zones_ok: "zones_within_a_day sample_zones"
  by (simp add: zones_within_a_day_def sample_zones_def)

lemmas sample_contracts = box_search_contract[OF sample_box_ok(1), of sample_zones] box_fetch_contract[OF sample_box_ok(1)]
  sample_box_ok(2,3)

definition sample_outcome :: "(syncResult \<times> bool \<times> world) option \<Rightarrow>
    (ProviderCursor option \<times> error option \<times> error option \<times> bool) option" where
  "sample_outcome r = map_option (\<lambda>(res, seq, w). (sr_cursor res, sr_imapErr res, sr_handlerErr res, sr_more res)) r"

lemma sample_outcomeD:
  assumes "sample_outcome (sample_sync c) = Some (x, y, z, b)"
  obtains res seq' w' where "sync \<lparr>sc_MaxMessagesPerPoll = 10, sc_FetchBatchSize = 2, sc_MaxMessageSize = 4\<rparr>
     (\<lambda>_. box_client sample_zones 1 10 sample_box) (QuarantineHandler_Handle sample_services) sample_reader
     sample_token False (Some \<lparr>pc_IMAP = Some c\<rparr>) (sample_world sample_owned) = Some (res, seq', w')"
    "sr_cursor res = x" "sr_imapErr res = y" "sr_handlerErr res = z" "sr_more res = b"
    "sample_sync c = Some (res, seq', w')"
  using assms unfolding sample_outcome_def sample_sync_def imapCursor_def by auto

section \<open>From the mailbox to the tables\<close>

text \<open>
  C1: No email is left behind. Let one sync poll a mailbox with the real inbound pipeline as its
  handler, whatever fails on the way. Every email between the stored cursor and the cursor
  the sync returns is dealt with: stored and finished, or recorded in the quarantine.
\<close>

theorem no_email_left_behind:
  assumes "search_contract zn env msgs" and "fetch_contract env (sc_MaxMessageSize cfg) msgs" and "uids_ok msgs"
    and "inbox_wf (w_db w)"
    and "sync cfg env (QuarantineHandler_Handle sv) p a seq (Some pc) w = Some (res, seq', w')" and "pc_IMAP pc = Some c"
    and "sr_cursor res = imapCursor c'" and "cur_Mailbox c' = cur_Mailbox c" "cur_UIDValidity c' = cur_UIDValidity c"
    and "cur_Recovery c = None" and "cur_LastUID c < u" "u \<le> cur_LastUID c'" "msgs u = Some m"
  shows "email_done sv (message_of p a c' m) (w_db w')"
  using assms by (rule pipeline.sync_no_skip)

theorem no_email_left_behind_witness:
  "\<exists>res seq' w'. sample_sync (sample_cursor 1 0 0 None) = Some (res, seq', w') \<and>
     email_done sample_services sample_seven (w_db w')"
proof -
  have "sample_outcome (sample_sync (sample_cursor 1 0 0 None)) = Some (imapCursor (sample_cursor 1 9 3000 None), None, None, False)"
    by code_simp
  then obtain res seq' w' where run: "sync \<lparr>sc_MaxMessagesPerPoll = 10, sc_FetchBatchSize = 2, sc_MaxMessageSize = 4\<rparr>
     (\<lambda>_. box_client sample_zones 1 10 sample_box) (QuarantineHandler_Handle sample_services) sample_reader
     sample_token False (Some \<lparr>pc_IMAP = Some (sample_cursor 1 0 0 None)\<rparr>) (sample_world sample_owned) = Some (res, seq', w')"
    "sr_cursor res = imapCursor (sample_cursor 1 9 3000 None)" "sample_sync (sample_cursor 1 0 0 None) = Some (res, seq', w')"
    by (rule sample_outcomeD)
  have "email_done sample_services sample_seven (w_db w')" unfolding sample_seven_def
    by (rule no_email_left_behind[where c = "sample_cursor 1 0 0 None", OF sample_contracts(1) _ sample_contracts(3,4) run(1) _ run(2) _ _ _ _ _ sample_box_ok(4)])
       (simp_all add: sample_cursor_def sample_contracts(2))
  with run(3) show ?thesis by blast
qed

text \<open>
  C2: The stored cursor never passes an email. However a poll of a profile goes, with statements,
  calls and connections failing at any point: when the runtime row holds a new position in the same
  mailbox afterwards, every email of the mailbox between the old position and the new one is dealt
  with, stored and finished or recorded in the quarantine. A crash or another instance that takes
  the profile over therefore continues behind work that is complete.
\<close>

theorem stored_cursor_passes_no_email:
  assumes "poll pe current runtime s = Some (drops, s')" and "pl_handler pe = QuarantineHandler_Handle sv"
    and "connections_serve pe current msgs" and "uids_ok msgs" and "inbox_wf (w_db (sv_world s))"
    and "Assignment (Some runtime) = Some a" and "rt_ProviderCursor runtime = imapCursor c" and "cur_Recovery c = None"
    and "stored_cursors (w_db (sv_world s)) (as_ProfileID a) \<subseteq> {imapCursor c}"
    and "imapCursor c' \<in> stored_cursors (w_db (sv_world s')) (as_ProfileID a)"
    and "cur_Mailbox c' = cur_Mailbox c" "cur_UIDValidity c' = cur_UIDValidity c"
    and "cur_LastUID c < u" "u \<le> cur_LastUID c'" "msgs u = Some m"
    and "ep_ID p = as_ProfileID a" "ep_DomainID p = as_DomainID a"
  shows "email_done sv (message_of p a c' m) (w_db (sv_world s'))"
  using assms(1,6,9,5)
proof (cases rule: poll_outcome)
  case untouched
  with assms(10) have "c' = c" by (auto simp: imapCursor_def)
  with assms(13,14) show ?thesis by simp
next
  case (synced q drops1 conn t t1)
  from synced(6) obtain res seq w v drops2 result where
    run: "sync (pl_sync pe) (ss_env conn) (pl_handler pe) q a (ss_sequential conn) (rt_ProviderCursor runtime) (sv_world t1) = Some (res, seq, w)"
    and fin: "completeS drops2 a result (t1\<lparr>sv_world := v\<rparr>) = Some (drops, s')" "w_db v = w_db w" "pr_ProviderCursor result = sr_cursor res"
    by (rule syncPoll_completes)
  have serves: "serves pe msgs (ss_env conn)" using session_serves[OF assms(3) synced(3)] .
  have "db_runtime (w_db w) = db_runtime (w_db (sv_world t1))"
    using sync_evolves[OF run[unfolded assms(2)]] by (simp add: inbox_evolves_def)
  with fin(2) synced(4) have "stored_cursors (w_db v) (as_ProfileID a) \<subseteq> {imapCursor c}" by (simp add: stored_cursors_def)
  with completeS_writes(1)[OF fin(1), of "as_ProfileID a"] fin(3) assms(10) have "imapCursor c' = sr_cursor res \<or> c' = c"
    by (auto simp: imapCursor_def)
  with assms(13,14) have cursor: "sr_cursor res = imapCursor c'" by auto
  from serves obtain zn where search: "search_contract zn (ss_env conn) msgs" by (auto simp: serves_def)
  have "email_done sv (message_of q a c' m) (w_db w)"
    using serves by (intro pipeline.sync_no_skip[OF search _ assms(4) synced(5) run[unfolded assms(2,7) imapCursor_def] _ cursor assms(11,12,8,13-15)])
      (simp_all add: serves_def)
  moreover have "message_of q a c' m = message_of p a c' m" using synced(1,2) assms(16,17) by (simp add: message_of_def)
  ultimately show ?thesis using email_done_cong[of "w_db (sv_world s')" "w_db w"] completeS_writes(2,3)[OF fin(1)] fin(2) by simp
qed

text \<open>A poll of this mailbox over a cached session, from the position before its first email.\<close>

definition sample_offline :: profile_env where
  "sample_offline = \<lparr>en_users = (\<lambda>_. None), en_codecEncrypt = (\<lambda>_ v. Inr v), en_codecDecrypt = (\<lambda>_ b. Inr (b, True)),
     en_UnframeBinary = (\<lambda>_. None), en_ParseAddress = (\<lambda>v. Some v), en_imapTest = (\<lambda>_ _. None), en_smtpTest = (\<lambda>_ _. None),
     en_redirectURL = [], en_AuthCodeURL = (\<lambda>_ st. st), en_Exchange = (\<lambda>_ _ _. Inl CtxErr), en_Token = (\<lambda>_ _ t. Inr t),
     en_Unmarshal = (\<lambda>_. Inl CtxErr), en_errorText = (\<lambda>_. [])\<rparr>"

definition sample_poll :: poll_env where
  "sample_poll = \<lparr>pl_profile = sample_offline, pl_sync = \<lparr>sc_MaxMessagesPerPoll = 10, sc_FetchBatchSize = 2, sc_MaxMessageSize = 4\<rparr>,
     pl_handler = QuarantineHandler_Handle sample_services, pl_Noop = (\<lambda>_. None), pl_acquireConnSlot = (\<lambda>_. None),
     pl_Connect = (\<lambda>_ _. Inr (\<lambda>_. box_client sample_zones 1 10 sample_box))\<rparr>"

definition sample_cached :: pollSession where
  "sample_cached = \<lparr>ss_env = (\<lambda>_. box_client sample_zones 1 10 sample_box), ss_sequential = False, ss_version = 0\<rparr>"

definition sample_due :: EmailProfileRuntime where
  "sample_due = \<lparr>rt_ProfileID = 1, rt_DomainID = 7, rt_OwnerInstanceID = ''node-a'', rt_AssignmentGeneration = 1, rt_NextCheckAt = None,
     rt_ProviderCursor = imapCursor (sample_cursor 1 0 0 None), rt_LastPollStartedAt = None, rt_LastPollFinishedAt = None,
     rt_LastPollError = [], rt_CreatedAt = 100, rt_UpdatedAt = 100\<rparr>"

definition sample_start :: svc where
  "sample_start = \<lparr>sv_world = sample_world (sample_db\<lparr>
     db_profiles := [sample_profile\<lparr>pw_profile := (pw_profile sample_profile)\<lparr>ep_Mailbox := ''INBOX'', ep_UpdatedAt := 0\<rparr>\<rparr>],
     db_runtime := [(new_runtime_row 100 ''node-a'' sample_profile)\<lparr>rr_provider_cursor := imapCursor (sample_cursor 1 0 0 None)\<rparr>]\<rparr>),
     sv_tokens = (\<lambda>_. None)\<rparr>"

definition sample_started :: svc where
  "sample_started = sample_start\<lparr>sv_world := (sample_world ((w_db (sv_world sample_start))\<lparr>
     db_runtime := [(new_runtime_row 100 ''node-a'' sample_profile)\<lparr>rr_provider_cursor := imapCursor (sample_cursor 1 0 0 None),
       rr_last_poll_started_at := Some 1000, rr_updated_at := 1000\<rparr>]\<rparr>))\<lparr>w_step := 3\<rparr>\<rparr>"

lemma sample_poll_syncs: "poll sample_poll (Some sample_cached) sample_due sample_start =
    syncPoll sample_poll sample_token ((pw_profile sample_profile)\<lparr>ep_Mailbox := ''INBOX'', ep_UpdatedAt := 0\<rparr>) sample_cached
      (imapCursor (sample_cursor 1 0 0 None)) [] sample_started"
  by (simp add: poll_def Assignment_def sample_due_def sample_start_def liftS_def exec_def sample_world_def StartPoll_def token_matches_def
      requireFencedWrite_def rows_affected_def update_where_def Profile_Locate_def full_read profileAt_def session_def sample_cached_def call_def
      sample_poll_def sample_started_def tick_def sample_defs numeral_3_eq_3)

lemma sample_poll_run:
  "map_option (\<lambda>(ds, s'). (ds, map (\<lambda>r. (rr_profile_id r, rr_provider_cursor r)) (db_runtime (w_db (sv_world s')))))
     (syncPoll sample_poll sample_token ((pw_profile sample_profile)\<lparr>ep_Mailbox := ''INBOX'', ep_UpdatedAt := 0\<rparr>) sample_cached
      (imapCursor (sample_cursor 1 0 0 None)) [] sample_started)
     = Some ([], [(1, imapCursor (sample_cursor 1 9 3000 None))])"
  by code_simp

theorem stored_cursor_passes_no_email_witness:
  "\<exists>s'. poll sample_poll (Some sample_cached) sample_due sample_start = Some ([], s') \<and>
     map (\<lambda>r. (rr_profile_id r, rr_provider_cursor r)) (db_runtime (w_db (sv_world s'))) = [(1, imapCursor (sample_cursor 1 9 3000 None))] \<and>
     email_done sample_services sample_seven (w_db (sv_world s'))"
proof -
  let ?rows = "\<lambda>s'. map (\<lambda>r. (rr_profile_id r, rr_provider_cursor r)) (db_runtime (w_db (sv_world s')))"
  from sample_poll_run sample_poll_syncs obtain s' where run: "poll sample_poll (Some sample_cached) sample_due sample_start = Some ([], s')"
    and rows: "?rows s' = [(1, imapCursor (sample_cursor 1 9 3000 None))]" by auto
  have served: "connections_serve sample_poll (Some sample_cached) (box_messages 4 sample_box)"
    using sample_contracts(1)[of 1 10 4] sample_contracts(2) by (auto simp: connections_serve_def serves_def sample_poll_def sample_cached_def)
  have before: "stored_cursors (w_db (sv_world sample_start)) (as_ProfileID sample_token) \<subseteq> {imapCursor (sample_cursor 1 0 0 None)}"
    by (auto simp: stored_cursors_def sample_start_def sample_world_def)
  have after: "imapCursor (sample_cursor 1 9 3000 None) \<in> stored_cursors (w_db (sv_world s')) (as_ProfileID sample_token)"
    using rows by (auto simp: stored_cursors_def map_eq_Cons_conv sample_token_def)
  have due: "pl_handler sample_poll = QuarantineHandler_Handle sample_services" "inbox_wf (w_db (sv_world sample_start))"
    "Assignment (Some sample_due) = Some sample_token" "rt_ProviderCursor sample_due = imapCursor (sample_cursor 1 0 0 None)"
    "ep_ID sample_reader = as_ProfileID sample_token" "ep_DomainID sample_reader = as_DomainID sample_token"
    by (simp_all add: sample_poll_def sample_due_def sample_start_def sample_world_def Assignment_def sample_token_def sample_reader_def
        inbox_wf_def sample_db_def empty_db_def)
  have "email_done sample_services sample_seven (w_db (sv_world s'))" unfolding sample_seven_def
    by (rule stored_cursor_passes_no_email[OF run due(1) served sample_contracts(3) due(2-4) _ before after _ _ _ _ sample_box_ok(4) due(5,6)])
       (simp_all add: sample_cursor_def)
  with run rows show ?thesis by (intro exI[of _ s'] conjI)
qed

text \<open>
  C3: A sync that continues behind a stored position, with the UIDVALIDITY the position was stored
  under and no recovery under way, and that reports no error and nothing left to read, has dealt
  with every email above that position and below the UIDNEXT the server announced when the mailbox
  was opened.
\<close>

theorem clean_sync_reads_everything:
  assumes "search_contract zn env msgs" and "fetch_contract env (sc_MaxMessageSize cfg) msgs" and "uids_ok msgs"
    and "inbox_wf (w_db w)"
    and "sync cfg env (QuarantineHandler_Handle sv) p a seq (Some pc) w = Some (res, seq', w')" and "pc_IMAP pc = Some c"
    and "sr_cursor res = imapCursor c'" and "cur_Mailbox c' = cur_Mailbox c" "cur_UIDValidity c' = cur_UIDValidity c"
    and "cur_Recovery c = None" and "Examine env (ep_Mailbox p) w = (Inr mailbox, w1)"
    and "sr_imapErr res = None" "sr_handlerErr res = None" "\<not> sr_more res"
    and "cur_LastUID c < u" "lastSearchableUID mailbox = 0 \<or> u \<le> lastSearchableUID mailbox" "msgs u = Some m"
  shows "email_done sv (message_of p a c' m) (w_db w')"
  using assms by (rule pipeline.sync_complete)

theorem clean_sync_reads_everything_witness:
  "\<exists>res seq' w'. sample_sync (sample_cursor 1 5 0 None) = Some (res, seq', w') \<and>
     email_done sample_services sample_seven (w_db w')"
proof -
  have "sample_outcome (sample_sync (sample_cursor 1 5 0 None)) = Some (imapCursor (sample_cursor 1 9 3000 None), None, None, False)"
    by code_simp
  then obtain res seq' w' where run: "sync \<lparr>sc_MaxMessagesPerPoll = 10, sc_FetchBatchSize = 2, sc_MaxMessageSize = 4\<rparr>
     (\<lambda>_. box_client sample_zones 1 10 sample_box) (QuarantineHandler_Handle sample_services) sample_reader
     sample_token False (Some \<lparr>pc_IMAP = Some (sample_cursor 1 5 0 None)\<rparr>) (sample_world sample_owned) = Some (res, seq', w')"
    "sr_cursor res = imapCursor (sample_cursor 1 9 3000 None)" "sr_imapErr res = None" "sr_handlerErr res = None"
    "sr_more res = False" "sample_sync (sample_cursor 1 5 0 None) = Some (res, seq', w')"
    by (rule sample_outcomeD)
  have ex: "Examine (\<lambda>_. box_client sample_zones 1 10 sample_box) (ep_Mailbox sample_reader) (sample_world sample_owned)
      = (Inr \<lparr>mb_Name = ''INBOX'', mb_UIDValidity = 1, mb_UIDNext = 10\<rparr>, tick (sample_world sample_owned))"
    by (simp add: Examine_def box_client_def sample_reader_def)
  have "email_done sample_services sample_seven (w_db w')" unfolding sample_seven_def
    by (rule clean_sync_reads_everything[where c = "sample_cursor 1 5 0 None", OF sample_contracts(1) _ sample_contracts(3,4) run(1) _ run(2) _ _ _ ex run(3,4) _ _ _ sample_box_ok(4)])
       (simp_all add: sample_cursor_def sample_contracts(2) run(5) lastSearchableUID_def)
  with run(6) show ?thesis by blast
qed

text \<open>
  C4: A recovery leaves nothing unread. After UIDVALIDITY changed, the mailbox is read again from
  the day before the checkpoint. Every email between the position the sync started from and the
  one it returns, not strictly older than the checkpoint, is dealt with, although a search by date
  compares calendar dates and takes no account of the zones they are written in: the zones of the
  client and of the stored dates are assumed to lie within a day of each other, and the search to
  start a day before the checkpoint.
\<close>

theorem recovery_leaves_nothing_unread:
  assumes "search_contract zn env msgs" and "fetch_contract env (sc_MaxMessageSize cfg) msgs" and "uids_ok msgs"
    and "dates_contract env msgs" and "inbox_wf (w_db w)"
    and "sync cfg env (QuarantineHandler_Handle sv) p a seq (Some pc) w = Some (res, seq', w')" and "pc_IMAP pc = Some c"
    and "sr_cursor res = imapCursor c'" and "cur_Mailbox c' = cur_Mailbox c" "cur_UIDValidity c' = cur_UIDValidity c"
    and "cur_Recovery c = Some r" and "zones_within_a_day zn" and "rec_Since r + 86400 * second \<le> rec_Checkpoint r"
    and "cur_LastUID c < u" "u \<le> cur_LastUID c'" "msgs u = Some m" and "rec_Checkpoint r \<le> im_InternalDate m"
  shows "email_done sv (message_of p a c' m) (w_db w')"
  using assms by (rule pipeline.recovery_no_skip)

theorem recovery_leaves_nothing_unread_witness:
  "\<exists>res seq' w'. sample_sync (sample_cursor 1 0 1500 (Some sample_recovery)) = Some (res, seq', w') \<and>
     email_done sample_services sample_seven (w_db w')"
proof -
  have "sample_outcome (sample_sync (sample_cursor 1 0 1500 (Some sample_recovery)))
      = Some (imapCursor (sample_cursor 1 9 3000 None), None, None, False)"
    by code_simp
  then obtain res seq' w' where run: "sync \<lparr>sc_MaxMessagesPerPoll = 10, sc_FetchBatchSize = 2, sc_MaxMessageSize = 4\<rparr>
     (\<lambda>_. box_client sample_zones 1 10 sample_box) (QuarantineHandler_Handle sample_services) sample_reader
     sample_token False (Some \<lparr>pc_IMAP = Some (sample_cursor 1 0 1500 (Some sample_recovery))\<rparr>) (sample_world sample_owned) = Some (res, seq', w')"
    "sr_cursor res = imapCursor (sample_cursor 1 9 3000 None)"
    "sample_sync (sample_cursor 1 0 1500 (Some sample_recovery)) = Some (res, seq', w')"
    by (rule sample_outcomeD)
  have "email_done sample_services sample_seven (w_db w')" unfolding sample_seven_def
    by (rule recovery_leaves_nothing_unread[where c = "sample_cursor 1 0 1500 (Some sample_recovery)" and r = sample_recovery,
          OF sample_contracts(1) _ sample_contracts(3) box_dates_contract[OF sample_box_ok(1)] sample_contracts(4)
            run(1) _ run(2) _ _ _ sample_zones_ok _ _ _ sample_box_ok(4)])
       (simp_all add: sample_cursor_def sample_recovery_def sample_contracts(2))
  with run(3) show ?thesis by blast
qed

text \<open>
  C5: When UIDVALIDITY has changed and the stored cursor knows the date of the last email it
  confirmed, the sync that notices the change starts over from the first UID and passes no email
  that may be unread: whatever it passes and is not strictly older than that date is dealt with,
  for zones that lie within a day of each other. A cursor without a date falls back on the newest
  stored email and, with none, starts at the end of the mailbox; this case is not covered.
\<close>

theorem renumbered_mailbox_is_reread:
  assumes "search_contract zn env msgs" and "fetch_contract env (sc_MaxMessageSize cfg) msgs" and "uids_ok msgs"
    and "dates_contract env msgs" and "inbox_wf (w_db w)"
    and "sync cfg env (QuarantineHandler_Handle sv) p a seq (Some pc) w = Some (res, seq', w')" and "pc_IMAP pc = Some c"
    and "sr_cursor res = imapCursor c'" and "cur_Mailbox c' = cur_Mailbox c" "cur_UIDValidity c' \<noteq> cur_UIDValidity c"
    and "\<not> IsZero (recoveryCheckpoint c)" and "zones_within_a_day zn"
    and "0 < u" "u \<le> cur_LastUID c'" "msgs u = Some m" and "recoveryCheckpoint c \<le> im_InternalDate m"
  shows "email_done sv (message_of p a c' m) (w_db w')"
  using assms by (rule pipeline.restart_no_skip)

theorem renumbered_mailbox_is_reread_witness:
  "\<exists>res seq' w'. sample_sync (sample_cursor 3 40 1500 None) = Some (res, seq', w') \<and>
     email_done sample_services sample_seven (w_db w')"
proof -
  have "sample_outcome (sample_sync (sample_cursor 3 40 1500 None))
      = Some (imapCursor (sample_cursor 1 9 3000 None), None, None, False)"
    by code_simp
  then obtain res seq' w' where run: "sync \<lparr>sc_MaxMessagesPerPoll = 10, sc_FetchBatchSize = 2, sc_MaxMessageSize = 4\<rparr>
     (\<lambda>_. box_client sample_zones 1 10 sample_box) (QuarantineHandler_Handle sample_services) sample_reader
     sample_token False (Some \<lparr>pc_IMAP = Some (sample_cursor 3 40 1500 None)\<rparr>) (sample_world sample_owned) = Some (res, seq', w')"
    "sr_cursor res = imapCursor (sample_cursor 1 9 3000 None)"
    "sample_sync (sample_cursor 3 40 1500 None) = Some (res, seq', w')"
    by (rule sample_outcomeD)
  have "email_done sample_services sample_seven (w_db w')" unfolding sample_seven_def
    by (rule renumbered_mailbox_is_reread[where c = "sample_cursor 3 40 1500 None",
          OF sample_contracts(1) _ sample_contracts(3) box_dates_contract[OF sample_box_ok(1)] sample_contracts(4)
            run(1) _ run(2) _ _ _ sample_zones_ok _ _ sample_box_ok(4)])
       (simp_all add: sample_cursor_def recoveryCheckpoint_def sample_contracts(2))
  with run(3) show ?thesis by blast
qed

end
